(* ===== verification/Prelude.thy ===== *)
theory Prelude
  imports Main "HOL-Library.Word" "HOL-Library.Monad_Syntax"
begin

text \<open>
  What the components share: bytes and machine integers of the target (an eZ80: 24-bit
  \<open>int\<close> and \<open>size_t\<close>, 16-bit \<open>short\<close>, 32-bit \<open>long\<close>), C memory as byte lists with
  checked stores, the functions of \<^verbatim>\<open>string.h\<close> and \<^verbatim>\<open>stdlib.h\<close> the sources call,
  and little-endian 16-bit fields.

  A byte is a \<^typ>\<open>char\<close>. A pointer into read-only memory is the suffix of the memory it points
  at, and memory past the end of the list reads as the terminator. An object that is written
  (a buffer) is a byte list of fixed length, and a store that leaves it has no result:
  \<open>None\<close> stands for undefined behaviour of the C program (a store out of bounds, a
  dereferenced NULL pointer) throughout the development.
\<close>

type_synonym byte = char
type_synonym bytes = "char list"
type_synonym u8 = "8 word"
type_synonym u16 = "16 word"
type_synonym u24 = "24 word"
type_synonym u32 = "32 word"

named_theorems cmem \<open>facts on stores into and reads from byte buffers\<close>
named_theorems cstring \<open>facts on NUL-terminated strings\<close>

abbreviation nul :: byte where "nul \<equiv> CHR 0x00"
abbreviation cr :: byte where "cr \<equiv> CHR 0x0D"
abbreviation lf :: byte where "lf \<equiv> CHR 0x0A"
abbreviation slash :: byte where "slash \<equiv> CHR ''/''"
abbreviation dquote :: byte where "dquote \<equiv> CHR 0x22"

abbreviation code :: "byte \<Rightarrow> nat" where "code c \<equiv> of_char c"

text \<open>The error codes of lwIP.\<close>

datatype err_t =
    ERR_OK | ERR_MEM | ERR_BUF | ERR_TIMEOUT | ERR_RTE | ERR_INPROGRESS | ERR_VAL | ERR_WOULDBLOCK
  | ERR_USE | ERR_ALREADY | ERR_ISCONN | ERR_CONN | ERR_IF | ERR_ABRT | ERR_RST | ERR_CLSD | ERR_ARG
  | ERR_MEM_CONFIG_UNSET

section \<open>Memory\<close>

text \<open>\<open>*p\<close>: the byte a pointer points at.\<close>

definition deref :: "bytes \<Rightarrow> byte" where
  "deref p = (case p of [] \<Rightarrow> nul | c # _ \<Rightarrow> c)"

lemma deref_simps [simp]: "deref [] = nul" "deref (c # p) = c"
  by (simp_all add: deref_def)

text \<open>\<open>memcpy(a + i, bs, n)\<close> into a buffer of known size.\<close>

definition store_bytes :: "nat \<Rightarrow> bytes \<Rightarrow> bytes \<Rightarrow> bytes option" where
  "store_bytes i bs a =
     (if i + length bs \<le> length a then Some (take i a @ bs @ drop (i + length bs) a) else None)"

lemma store_bytes_length [cmem]: "store_bytes i bs a = Some a' \<Longrightarrow> length a' = length a"
  by (auto simp: store_bytes_def split: if_splits)

lemma store_bytes_defined [cmem]: "store_bytes i bs a \<noteq> None \<longleftrightarrow> i + length bs \<le> length a"
  by (simp add: store_bytes_def)

lemma store_bytes_read: "store_bytes i bs a = Some a' \<Longrightarrow> take (length bs) (drop i a') = bs"
  by (auto simp: store_bytes_def split: if_splits)

lemma store_bytes_before: "store_bytes i bs a = Some a' \<Longrightarrow> take i a' = take i a"
  by (auto simp: store_bytes_def split: if_splits)

lemma store_bytes_prefix:
  "i \<le> length a \<Longrightarrow> store_bytes i bs a = Some a' \<Longrightarrow> take (i + length bs) a' = take i a @ bs"
  by (auto simp: store_bytes_def split: if_splits)

lemma nth_store:
  assumes "i + length d \<le> length a" and "j < length a"
  shows "(take i a @ d @ drop (i + length d) a) ! j = (if i \<le> j \<and> j < i + length d then d ! (j - i) else a ! j)"
  using assms by (auto simp: nth_append)

lemma store_bytes_nth:
  assumes "store_bytes i d a = Some a'" and "j < length a"
  shows "a' ! j = (if i \<le> j \<and> j < i + length d then d ! (j - i) else a ! j)"
  using assms nth_store [of i d a j] by (auto simp: store_bytes_def simp del: append_assoc split: if_splits)

text \<open>Reading \<open>n\<close> bytes at \<open>i\<close>; reading outside a block has no defined result.\<close>

definition read_bytes :: "nat \<Rightarrow> nat \<Rightarrow> bytes \<Rightarrow> bytes option" where
  "read_bytes i n a = (if i + n \<le> length a then Some (take n (drop i a)) else None)"

text \<open>Arithmetic on \<open>size_t\<close>, which has 24 bits.\<close>

definition wrap :: "nat \<Rightarrow> nat" where
  "wrap n = n mod 2 ^ 24"

lemma wrap_id [simp]: "n < 2 ^ 24 \<Longrightarrow> wrap n = n"
  by (simp add: wrap_def)

section \<open>NUL-terminated strings\<close>

definition cstr :: "bytes \<Rightarrow> bytes" where
  "cstr p = takeWhile (\<lambda>c. c \<noteq> nul) p"

definition strlen :: "bytes \<Rightarrow> nat" where
  "strlen p = length (cstr p)"

lemma cstr_simps [simp]:
  "cstr [] = []" "cstr (c # p) = (if c = nul then [] else c # cstr p)"
  by (simp_all add: cstr_def)

lemma cstr_no_nul [cstring]: "nul \<notin> set (cstr p)"
  by (auto simp: cstr_def dest: set_takeWhileD)

lemma cstr_append [cstring]: "nul \<notin> set s \<Longrightarrow> cstr (s @ p) = s @ cstr p"
  by (induction s) auto

lemma cstr_terminated [cstring]: "nul \<notin> set s \<Longrightarrow> cstr (s @ nul # p) = s"
  by (simp add: cstr_append)

lemma cstr_idem [simp]: "cstr (cstr p) = cstr p"
  using cstr_append [OF cstr_no_nul, of p "[]"] by simp

lemma cstr_prefix: "cstr p = take (strlen p) p"
  by (metis cstr_def strlen_def takeWhile_eq_take)

lemma strlen_le [cstring]: "strlen p \<le> length p"
  by (simp add: strlen_def cstr_def length_takeWhile_le)

lemma strlen_less: "strlen p < length p \<Longrightarrow> p ! strlen p = nul"
  unfolding strlen_def cstr_def using nth_length_takeWhile [of "\<lambda>c. c \<noteq> nul" p] by simp

fun strchr :: "bytes \<Rightarrow> byte \<Rightarrow> bytes option" where
  "strchr [] c = None"
| "strchr (x # xs) c = (if x = c then Some (x # xs) else if x = nul then None else strchr xs c)"

lemma strchr_skip [cstring]:
  "c \<notin> set s \<Longrightarrow> nul \<notin> set s \<Longrightarrow> strchr (s @ c # p) c = Some (c # p)"
  by (induction s) auto

text \<open>\<open>strrchr(p, c)\<close> for \<open>c \<noteq> '\0'\<close>, as the index of the last occurrence.\<close>

definition strrchr :: "bytes \<Rightarrow> byte \<Rightarrow> nat option" where
  "strrchr p c = (case dropWhile (\<lambda>x. x \<noteq> c) (rev (cstr p)) of [] \<Rightarrow> None | _ # r \<Rightarrow> Some (length r))"

lemma strrchr_last [cstring]:
  assumes "cstr p = a @ c # b" and "c \<notin> set b"
  shows "strrchr p c = Some (length a)"
proof -
  have "dropWhile (\<lambda>x. x \<noteq> c) (rev (cstr p)) = c # rev a"
    using assms by (simp add: dropWhile_append1 dropWhile_append)
  then show ?thesis by (simp add: strrchr_def)
qed

lemma strrchr_Some:
  assumes "strrchr p c = Some i"
  shows "i < strlen p" and "p ! i = c"
proof -
  from assms obtain x r where r: "dropWhile (\<lambda>x. x \<noteq> c) (rev (cstr p)) = x # r" and i: "i = length r"
    by (auto simp: strrchr_def split: list.splits)
  from r have x: "x = c" using hd_dropWhile [of "\<lambda>x. x \<noteq> c" "rev (cstr p)"] by simp
  have "rev (cstr p) = takeWhile (\<lambda>x. x \<noteq> c) (rev (cstr p)) @ x # r"
    using r takeWhile_dropWhile_id [of "\<lambda>x. x \<noteq> c" "rev (cstr p)"] by simp
  then have split: "cstr p = rev r @ c # rev (takeWhile (\<lambda>x. x \<noteq> c) (rev (cstr p)))"
    using x by (metis append.assoc append_Cons append_Nil rev.simps(2) rev_append rev_rev_ident)
  show less: "i < strlen p"
    using i split by (metis length_append length_Cons length_rev less_add_Suc1 strlen_def add_Suc_right)
  have "cstr p ! i = c" using i split by (metis length_rev nth_append_length)
  with less show "p ! i = c" by (simp add: cstr_prefix)
qed

lemma strrchr_None [cstring]: "strrchr p c = None \<longleftrightarrow> c \<notin> set (cstr p)"
proof (cases "dropWhile (\<lambda>x. x \<noteq> c) (rev (cstr p))")
  case Nil
  then have "strrchr p c = None" unfolding strrchr_def by (simp only: list.case)
  with Nil show ?thesis by auto
next
  case (Cons x r)
  then have "dropWhile (\<lambda>x. x \<noteq> c) (rev (cstr p)) \<noteq> []" by simp
  then have "c \<in> set (cstr p)" by (auto simp del: dropWhile_eq_Cons_conv)
  with Cons show ?thesis by (simp add: strrchr_def)
qed

lemma takeWhile_skip: "c \<notin> set s \<Longrightarrow> takeWhile (\<lambda>x. x \<noteq> c) (s @ c # p) = s"
  by (induction s) auto

text \<open>\<open>memchr\<close> on a block of known length, as an index.\<close>

definition memchr :: "bytes \<Rightarrow> byte \<Rightarrow> nat option" where
  "memchr p c = (if c \<in> set p then Some (length (takeWhile (\<lambda>x. x \<noteq> c) p)) else None)"

lemma memchr_skip [cstring]: "c \<notin> set s \<Longrightarrow> memchr (s @ c # p) c = Some (length s)"
  by (simp add: memchr_def takeWhile_skip)

lemma memchr_less: "memchr p c = Some i \<Longrightarrow> i < length p"
proof -
  assume "memchr p c = Some i"
  then have "c \<in> set p" and i: "i = length (takeWhile (\<lambda>x. x \<noteq> c) p)"
    by (auto simp: memchr_def split: if_splits)
  then obtain a b where "p = a @ c # b" "c \<notin> set a" by (metis split_list_first)
  with i show ?thesis by (simp add: takeWhile_skip)
qed

text \<open>\<open>strstr\<close>, for a needle without NUL: the suffix where the needle starts.\<close>

fun strstr :: "bytes \<Rightarrow> bytes \<Rightarrow> bytes option" where
  "strstr [] n = (if n = [] then Some [] else None)"
| "strstr (c # p) n =
     (if take (length n) (c # p) = n then Some (c # p)
      else if c = nul then None else strstr p n)"

text \<open>\<open>strncmp(a, b, n) == 0\<close>.\<close>

definition strncmp_eq :: "bytes \<Rightarrow> bytes \<Rightarrow> nat \<Rightarrow> bool" where
  "strncmp_eq a b n \<longleftrightarrow> take n (cstr a @ [nul]) = take n (cstr b @ [nul])"

section \<open>Numbers in text\<close>

definition isdigit :: "byte \<Rightarrow> bool" where
  "isdigit c \<longleftrightarrow> 48 \<le> code c \<and> code c \<le> 57"

definition isspace :: "byte \<Rightarrow> bool" where
  "isspace c \<longleftrightarrow> code c = 32 \<or> 9 \<le> code c \<and> code c \<le> 13"

text \<open>The digits at the front of a string, as a number, and the rest.\<close>

fun scan_digits :: "nat \<Rightarrow> bytes \<Rightarrow> nat \<times> bytes" where
  "scan_digits v [] = (v, [])"
| "scan_digits v (c # p) = (if isdigit c then scan_digits (v * 10 + (code c - 48)) p else (v, c # p))"

text \<open>
  \<open>strtoul(p, &end, 10)\<close> with a 32-bit \<open>unsigned long\<close>: white space, an optional sign, digits;
  \<open>ULONG_MAX\<close> on overflow; the end pointer stays at \<open>p\<close> when there are no digits.
\<close>

definition strtoul :: "bytes \<Rightarrow> nat \<times> bytes" where
  "strtoul p =
     (let q = dropWhile isspace p;
          neg = (deref q = CHR ''-'');
          r = (if neg \<or> deref q = CHR ''+'' then drop 1 q else q)
      in if isdigit (deref r)
         then (case scan_digits 0 r of (v, e) \<Rightarrow>
                (if 2 ^ 32 \<le> v then 2 ^ 32 - 1
                 else if neg then (2 ^ 32 - v) mod 2 ^ 32 else v, e))
         else (0, p))"

lemma strtoul_bound: "fst (strtoul p) < 2 ^ 32"
  by (simp add: strtoul_def Let_def split: prod.split)

text \<open>Decimal notation of a number, the inverse of \<^const>\<open>scan_digits\<close>.\<close>

definition digit :: "nat \<Rightarrow> byte" where
  "digit d = char_of (48 + d)"

fun dec :: "nat \<Rightarrow> bytes" where
  "dec n = (if n < 10 then [digit n] else dec (n div 10) @ [digit (n mod 10)])"

declare dec.simps [simp del]

lemma code_digit [simp]: "d < 10 \<Longrightarrow> code (digit d) = 48 + d"
  by (simp add: digit_def of_char_of)

lemma isdigit_digit [simp]: "d < 10 \<Longrightarrow> isdigit (digit d)"
  by (simp add: isdigit_def)

lemma dec_digits: "c \<in> set (dec n) \<Longrightarrow> isdigit c"
proof (induction n rule: dec.induct)
  case (1 n)
  show ?case
  proof (cases "n < 10")
    case True
    with "1.prems" show ?thesis by (simp add: dec.simps [of n])
  next
    case False
    with "1.prems" have "c \<in> set (dec (n div 10)) \<or> c = digit (n mod 10)"
      by (auto simp: dec.simps [of n])
    with "1.IH" False show ?thesis by auto
  qed
qed

lemma dec_nonempty [simp]: "dec n \<noteq> []"
  by (subst dec.simps) simp

lemma scan_digits_append:
  "\<forall>c \<in> set ds. isdigit c \<Longrightarrow> scan_digits v (ds @ p) = scan_digits (fst (scan_digits v ds)) p"
  by (induction v ds rule: scan_digits.induct) auto

lemma scan_digits_all: "\<forall>c \<in> set ds. isdigit c \<Longrightarrow> snd (scan_digits v ds) = []"
  by (induction v ds rule: scan_digits.induct) auto

lemma scan_digits_stop: "\<not> isdigit (deref p) \<Longrightarrow> scan_digits v p = (v, p)"
  by (cases p) auto

lemma scan_dec_value: "fst (scan_digits 0 (dec n)) = n"
proof (induction n rule: dec.induct)
  case (1 n)
  show ?case
  proof (cases "n < 10")
    case True
    then show ?thesis by (simp add: dec.simps [of n])
  next
    case False
    have "fst (scan_digits 0 (dec (n div 10) @ [digit (n mod 10)])) = n div 10 * 10 + n mod 10"
      using "1.IH" [OF False] by (subst scan_digits_append) (auto dest: dec_digits)
    with False show ?thesis by (simp add: dec.simps [of n])
  qed
qed

lemma scan_digits_dec [cstring]: "\<not> isdigit (deref p) \<Longrightarrow> scan_digits 0 (dec n @ p) = (n, p)"
  by (subst scan_digits_append) (auto dest: dec_digits simp: scan_dec_value scan_digits_stop)

lemma digit_char_simps [simp]:
  "\<not> isdigit nul" "\<not> isdigit (CHR '','')" "\<not> isdigit (CHR ''.'')" "\<not> isdigit (CHR '')'')"
  "\<not> isdigit (CHR '' '')" "\<not> isdigit cr"
  by (simp_all add: isdigit_def)

lemma isdigit_not_space: "isdigit c \<Longrightarrow> \<not> isspace c"
  by (auto simp: isdigit_def isspace_def)

lemma isdigit_not_sign: "isdigit c \<Longrightarrow> c \<noteq> CHR ''-'' \<and> c \<noteq> CHR ''+''"
  by (auto simp: isdigit_def)

lemma strtoul_digit:
  assumes "isdigit c"
  shows "strtoul (c # p) = (case scan_digits 0 (c # p) of (v, e) \<Rightarrow> (if 2 ^ 32 \<le> v then 2 ^ 32 - 1 else v, e))"
  using assms isdigit_not_space [OF assms] isdigit_not_sign [OF assms]
  by (auto simp: strtoul_def Let_def split: prod.split)

text \<open>Reading a printed number back: the value, and the pointer behind it.\<close>

lemma strtoul_dec [cstring]:
  assumes "n < 2 ^ 32" and "\<not> isdigit (deref p)"
  shows "strtoul (dec n @ p) = (n, p)"
proof -
  obtain c ds where d: "dec n = c # ds" by (cases "dec n") auto
  then have "isdigit c" using dec_digits [of c n] by simp
  then show ?thesis
    using scan_digits_dec [OF assms(2), of n] assms(1) d by (simp add: strtoul_digit)
qed

section \<open>Sixteen-bit little-endian fields\<close>

definition le16 :: "nat \<Rightarrow> bytes" where
  "le16 n = [char_of (n mod 256), char_of (n div 256 mod 256)]"

definition of_le16 :: "byte \<Rightarrow> byte \<Rightarrow> nat" where
  "of_le16 lo hi = code lo + 256 * code hi"

lemma length_le16 [simp]: "length (le16 n) = 2"
  by (simp add: le16_def)

lemma of_le16_le16 [simp]: "of_le16 (char_of n) (char_of (n div 256)) = n mod 65536"
proof -
  have "n mod 65536 = n mod 256 + 256 * (n div 256 mod 256)"
    using mod_mult2_eq [of n 256 256] by simp
  then show ?thesis by (simp add: of_le16_def of_char_of)
qed

lemma code_less [simp]: "code c < 256"
  using of_char_mod_256 [of c, where ?'a = nat] mod_less_divisor [of 256 "code c"] by simp

lemma of_le16_bound: "of_le16 lo hi < 65536"
  using code_less [of lo] code_less [of hi] unfolding of_le16_def by linarith

end
