(* ===== verification/Menu.thy ===== *)
theory Menu
  imports Prelude
begin

text \<open>
  Entering text and addresses: \<open>util_ParseAddr\<close> of \<^verbatim>\<open>src/src/utility.c\<close>, and \<open>menu_PrintAddress\<close>,
  \<open>menu_StringInput\<close>, \<open>menu_ClientConfig\<close> and \<open>menu_ServerConfig\<close> of \<^verbatim>\<open>src/src/menu.c\<close>. A run
  of an input loop is the list of the keypad states it acts on; the key decoder
  \<open>asm_util_GetCharFromKey\<close> (assembly) and \<open>gfx_PrintUInt\<close> (the toolchain's graphics library) are
  parameters. Drawing is left out.
\<close>

section \<open>Addresses\<close>

text \<open>\<open>for (i = 0; i < 4; i++)\<close>, with \<open>k\<close> passes left. Each octet is stored in a \<open>uint8_t\<close>.
  \<open>None\<close> is the return value 1.\<close>

fun parse_octets :: "nat \<Rightarrow> bytes \<Rightarrow> nat list option" where
  "parse_octets 0 s = Some []"
| "parse_octets (Suc k) s =
     (case strtoul s of (v, s') \<Rightarrow>
        if deref s' = CHR ''.'' then map_option (Cons (v mod 256)) (parse_octets k (drop 1 s'))
        else if deref s' = nul \<and> k = 0 then map_option (Cons (v mod 256)) (parse_octets k s')
        else None)"

definition util_ParseAddr :: "bytes \<Rightarrow> nat list option" where
  "util_ParseAddr s = parse_octets 4 (cstr s)"

text \<open>The characters \<open>menu_PrintAddress\<close> draws, where \<open>gfx_PrintUInt n l\<close> draws \<open>print_uint n l\<close>.\<close>

definition menu_PrintAddress :: "(nat \<Rightarrow> nat \<Rightarrow> bytes) \<Rightarrow> nat list \<Rightarrow> bytes" where
  "menu_PrintAddress print_uint addr =
     print_uint (addr ! 0) 1 @ ''.'' @ print_uint (addr ! 1) 1 @ ''.''
     @ print_uint (addr ! 2) 1 @ ''.'' @ print_uint (addr ! 3) 1"

lemma parse_octets_length: "parse_octets k s = Some a \<Longrightarrow> length a = k"
  by (induction k s arbitrary: a rule: parse_octets.induct) (auto split: prod.splits if_splits)

lemma parse_octets_range: "parse_octets k s = Some a \<Longrightarrow> \<forall>x \<in> set a. x < 256"
  by (induction k s arbitrary: a rule: parse_octets.induct) (auto split: prod.splits if_splits)

lemma parse_octets_dot:
  "n < 256 \<Longrightarrow> parse_octets (Suc k) (dec n @ CHR ''.'' # s) = map_option (Cons n) (parse_octets k s)"
  by (simp add: strtoul_dec)

lemma parse_octets_end: "n < 256 \<Longrightarrow> parse_octets (Suc 0) (dec n) = Some [n]"
  using strtoul_dec [of n "[]"] by simp

lemma dec_no_nul: "nul \<notin> set (dec n)"
  using dec_digits [of nul n] by auto

section \<open>Text input\<close>

text \<open>The keypad state the loop acts on at one point: which of the keys it tests are down, whether
  this press has not been handled before (\<open>!keyPressed\<close>; a held key repeats and then the last
  character is used again), and the key code the decoder sees. The loop tests the keys at its head
  and again after the scan; both tests are the same, so one list of states serves both. Several
  keys may be down at once.\<close>

record skey =
  sk_clear :: bool
  sk_2nd :: bool
  sk_alpha :: bool
  sk_del :: bool
  sk_fresh :: bool
  sk_code :: nat

abbreviation SClear :: skey where
  "SClear \<equiv> \<lparr>sk_clear = True, sk_2nd = False, sk_alpha = False, sk_del = False, sk_fresh = True, sk_code = 0\<rparr>"

abbreviation S2nd :: skey where
  "S2nd \<equiv> \<lparr>sk_clear = False, sk_2nd = True, sk_alpha = False, sk_del = False, sk_fresh = True, sk_code = 0\<rparr>"

abbreviation SAlpha :: skey where
  "SAlpha \<equiv> \<lparr>sk_clear = False, sk_2nd = False, sk_alpha = True, sk_del = False, sk_fresh = True, sk_code = 0\<rparr>"

abbreviation SDel :: skey where
  "SDel \<equiv> \<lparr>sk_clear = False, sk_2nd = False, sk_alpha = False, sk_del = True, sk_fresh = True, sk_code = 0\<rparr>"

abbreviation SKey :: "bool \<Rightarrow> nat \<Rightarrow> skey" where
  "SKey f k \<equiv> \<lparr>sk_clear = False, sk_2nd = False, sk_alpha = False, sk_del = False, sk_fresh = f, sk_code = k\<rparr>"

datatype input_result = Waiting | Overrun | Entered int bytes

record input_state =
  currentOffset :: nat
  inputMode :: nat
  last_char :: byte
  input :: bytes

definition input_char :: "(nat \<Rightarrow> nat \<Rightarrow> byte) \<Rightarrow> bool \<Rightarrow> nat \<Rightarrow> input_state \<Rightarrow> input_state option" where
  "input_char getchar fresh k s =
     (if currentOffset s < 32 - 1
      then let c = (if fresh then getchar (inputMode s) k else last_char s)
           in if 32 \<le> code c \<and> code c \<le> 126
              then do {
                b \<leftarrow> store_bytes (currentOffset s) [c] (input s);
                Some (s\<lparr>input := b, currentOffset := currentOffset s + 1, last_char := c\<rparr>) }
              else Some (s\<lparr>last_char := c\<rparr>)
      else Some s)"

definition input_step :: "(nat \<Rightarrow> nat \<Rightarrow> byte) \<Rightarrow> skey \<Rightarrow> input_state \<Rightarrow> input_state option" where
  "input_step getchar key s =
     (if sk_alpha key then Some (s\<lparr>inputMode := (if inputMode s = 2 then 0 else inputMode s + 1)\<rparr>)
      else if sk_del key then
        (if currentOffset s \<noteq> 0
         then do {
           b \<leftarrow> store_bytes (currentOffset s - 1) [nul] (input s);
           Some (s\<lparr>input := b, currentOffset := currentOffset s - 1\<rparr>) }
         else Some s)
      else input_char getchar (sk_fresh key) (sk_code key) s)"

text \<open>The loop ends when Clear is down, or 2nd with some text entered. What it returns depends on
  2nd alone.\<close>

definition input_ends :: "skey \<Rightarrow> input_state \<Rightarrow> bool" where
  "input_ends key s \<longleftrightarrow> sk_clear key \<or> sk_2nd key \<and> currentOffset s > 0"

fun input_loop :: "(nat \<Rightarrow> nat \<Rightarrow> byte) \<Rightarrow> skey list \<Rightarrow> input_state \<Rightarrow> input_result" where
  "input_loop getchar [] s = Waiting"
| "input_loop getchar (key # keys) s =
     (if input_ends key s then Entered (if sk_2nd key then 0 else 1) (input s)
      else case input_step getchar key s of
             None \<Rightarrow> Overrun
           | Some s' \<Rightarrow> input_loop getchar keys s')"

definition input_start :: "bytes \<Rightarrow> input_state option" where
  "input_start buf = do {
     b \<leftarrow> store_bytes 0 (replicate 32 nul) buf;
     Some \<lparr>currentOffset = 0, inputMode = 0, last_char = nul, input = b\<rparr> }"

definition menu_StringInput :: "(nat \<Rightarrow> nat \<Rightarrow> byte) \<Rightarrow> skey list \<Rightarrow> bytes \<Rightarrow> input_result" where
  "menu_StringInput getchar keys buf =
     (case input_start buf of None \<Rightarrow> Overrun | Some s \<Rightarrow> input_loop getchar keys s)"

text \<open>The invariant of the loop: the entered text is printable, ends at \<open>currentOffset\<close>, and the
  rest of the first 32 bytes of the buffer is NUL.\<close>

definition printable :: "byte \<Rightarrow> bool" where
  "printable c \<longleftrightarrow> 32 \<le> code c \<and> code c \<le> 126"

definition input_inv :: "input_state \<Rightarrow> bool" where
  "input_inv s \<longleftrightarrow> currentOffset s \<le> 31 \<and> 32 \<le> length (input s)
     \<and> (\<forall>c \<in> set (take (currentOffset s) (input s)). printable c)
     \<and> (\<forall>i. currentOffset s \<le> i \<and> i < 32 \<longrightarrow> input s ! i = nul)"

lemma printable_not_nul: "printable c \<Longrightarrow> c \<noteq> nul"
  by (auto simp: printable_def)

lemma input_start_inv: "input_start buf = Some s \<Longrightarrow> input_inv s \<and> length (input s) = length buf"
  by (auto simp: input_start_def input_inv_def store_bytes_def nth_append split: if_splits bind_splits)

lemma input_char_inv:
  assumes "input_inv s"
  shows "\<exists>s'. input_char g f k s = Some s' \<and> input_inv s' \<and> length (input s') = length (input s)"
proof (cases "currentOffset s < 31")
  case True
  then have "currentOffset s < length (input s)" using assms by (simp add: input_inv_def)
  with assms True show ?thesis
    by (auto simp: input_char_def input_inv_def store_bytes_def Let_def nth_append take_Suc_conv_app_nth
        nth_Cons printable_def split: nat.splits)
next
  case False
  with assms show ?thesis by (auto simp: input_char_def input_inv_def)
qed

lemma input_del_inv:
  assumes "input_inv s" and "sk_del key" and "\<not> sk_alpha key"
  shows "\<exists>s'. input_step g key s = Some s' \<and> input_inv s' \<and> length (input s') = length (input s)"
proof (cases "currentOffset s = 0")
  case False
  let ?i = "currentOffset s - 1"
  have i: "?i < length (input s)" "currentOffset s = Suc ?i" using assms False by (auto simp: input_inv_def)
  have "set (take ?i (input s)) \<subseteq> set (take (currentOffset s) (input s))"
    by (rule set_take_subset_set_take) simp
  with assms i show ?thesis
    by (auto simp: input_step_def input_inv_def store_bytes_def nth_append nth_Cons split: nat.splits)
qed (use assms in \<open>simp add: input_step_def\<close>)

lemma input_step_inv:
  assumes "input_inv s"
  shows "\<exists>s'. input_step g key s = Some s' \<and> input_inv s' \<and> length (input s') = length (input s)"
proof -
  consider "sk_alpha key" | "\<not> sk_alpha key" "sk_del key" | "\<not> sk_alpha key" "\<not> sk_del key" by blast
  then show ?thesis
  proof cases
    case 1
    with assms show ?thesis by (simp add: input_step_def input_inv_def)
  next
    case 2
    with input_del_inv [OF assms] show ?thesis by blast
  next
    case 3
    with input_char_inv [OF assms] show ?thesis by (simp add: input_step_def)
  qed
qed

text \<open>How a run ends: in a state that satisfies the invariant, on the first keypad state that ends
  the loop.\<close>

lemma input_loop_inv:
  assumes "input_inv s"
  shows "input_loop g keys s \<noteq> Overrun \<and> (\<forall>r b. input_loop g keys s = Entered r b \<longrightarrow>
     (\<exists>s'. \<exists>key \<in> set keys. input_inv s' \<and> input s' = b \<and> length b = length (input s)
        \<and> input_ends key s' \<and> r = (if sk_2nd key then 0 else 1)))"
  using assms
proof (induction g keys s rule: input_loop.induct)
  case (1 g s)
  then show ?case by simp
next
  case (2 g key keys s)
  from input_step_inv [OF "2.prems", of g key] obtain s' where
    s': "input_step g key s = Some s'" "input_inv s'" "length (input s') = length (input s)" by blast
  show ?case
  proof (cases "input_ends key s")
    case True
    with "2.prems" show ?thesis by auto
  next
    case False
    then have eq: "input_loop g (key # keys) s = input_loop g keys s'" using s'(1) by simp
    from "2.IH" [OF False s'(1) s'(2)] s'(3) show ?thesis unfolding eq by (metis list.set_intros(2))
  qed
qed

lemma input_inv_cstr:
  assumes "input_inv s"
  shows "cstr (input s) = take (currentOffset s) (input s)"
proof -
  let ?n = "currentOffset s"
  have n: "?n < length (input s)" "input s ! ?n = nul"
    using assms by (auto simp: input_inv_def)
  have "input s = take ?n (input s) @ nul # drop (Suc ?n) (input s)"
    using n by (metis id_take_nth_drop)
  moreover have "nul \<notin> set (take ?n (input s))"
    using assms printable_not_nul by (auto simp: input_inv_def)
  ultimately show ?thesis by (metis cstr_terminated)
qed

section \<open>The two configuration screens\<close>

record preferences_t =
  client_ip :: "nat list"
  mask :: "nat list"
  gw :: "nat list"

datatype cfg_key = CfgPrev | CfgNext | CfgEdit "skey list"

definition cfg_move :: "cfg_key \<Rightarrow> nat \<Rightarrow> nat" where
  "cfg_move key opt = (case key of
       CfgPrev \<Rightarrow> if opt \<noteq> 0 then opt - 1 else 2
     | CfgNext \<Rightarrow> if opt < 2 then opt + 1 else 0
     | CfgEdit _ \<Rightarrow> opt)"

text \<open>Editing writes into \<open>char input[INPUT_BUF_SIZE]\<close>; a cancelled input changes nothing.\<close>

definition menu_ClientConfig_step ::
    "(nat \<Rightarrow> nat \<Rightarrow> byte) \<Rightarrow> cfg_key \<Rightarrow> nat \<times> preferences_t \<Rightarrow> (nat \<times> preferences_t) option" where
  "menu_ClientConfig_step g key st = (case st of (opt, prefs) \<Rightarrow>
     (case key of
        CfgEdit keys \<Rightarrow>
          (case menu_StringInput g keys (replicate 32 nul) of
             Entered r b \<Rightarrow>
               if r \<noteq> 0 then Some (opt, prefs)
               else (case util_ParseAddr b of
                   None \<Rightarrow> Some (opt, prefs)
                 | Some addr \<Rightarrow>
                     Some (opt, if opt = 0 then prefs\<lparr>client_ip := addr\<rparr>
                                else if opt = 1 then prefs\<lparr>mask := addr\<rparr>
                                else if opt = 2 then prefs\<lparr>gw := addr\<rparr> else prefs))
           | Waiting \<Rightarrow> Some (opt, prefs)
           | Overrun \<Rightarrow> None)
      | _ \<Rightarrow> Some (cfg_move key opt, prefs)))"

record server_cfg =
  server :: "nat list"
  user_buf :: bytes
  pass_buf :: bytes

text \<open>\<open>strcpy\<close> into the 32-byte buffers of \<open>main\<close>; a text that does not fit has no result.\<close>

definition strcpy :: "bytes \<Rightarrow> bytes \<Rightarrow> bytes option" where
  "strcpy dst src = store_bytes 0 (cstr src @ [nul]) dst"

definition menu_ServerConfig_step ::
    "(nat \<Rightarrow> nat \<Rightarrow> byte) \<Rightarrow> cfg_key \<Rightarrow> nat \<times> server_cfg \<Rightarrow> (nat \<times> server_cfg) option" where
  "menu_ServerConfig_step g key st = (case st of (opt, cfg) \<Rightarrow>
     (case key of
        CfgEdit keys \<Rightarrow>
          (case menu_StringInput g keys (replicate 32 nul) of
             Entered r b \<Rightarrow>
               if r \<noteq> 0 then Some (opt, cfg)
               else if opt = 0 then
                 (case util_ParseAddr b of
                    None \<Rightarrow> Some (opt, cfg) | Some addr \<Rightarrow> Some (opt, cfg\<lparr>server := addr\<rparr>))
               else if opt = 1 then do { u \<leftarrow> strcpy (user_buf cfg) b; Some (opt, cfg\<lparr>user_buf := u\<rparr>) }
               else if opt = 2 then do { u \<leftarrow> strcpy (pass_buf cfg) b; Some (opt, cfg\<lparr>pass_buf := u\<rparr>) }
               else Some (opt, cfg)
           | Waiting \<Rightarrow> Some (opt, cfg)
           | Overrun \<Rightarrow> None)
      | _ \<Rightarrow> Some (cfg_move key opt, cfg)))"

definition server_cfg_ok :: "nat \<times> server_cfg \<Rightarrow> bool" where
  "server_cfg_ok st \<longleftrightarrow> fst st \<le> 2 \<and> length (server (snd st)) = 4 \<and> (\<forall>x \<in> set (server (snd st)). x < 256)
     \<and> length (user_buf (snd st)) = 32 \<and> nul \<in> set (user_buf (snd st))
     \<and> length (pass_buf (snd st)) = 32 \<and> nul \<in> set (pass_buf (snd st))"

section \<open>Properties\<close>

text \<open>An address printed by \<open>menu_PrintAddress\<close> is read back by \<open>util_ParseAddr\<close> as the same
  four octets. \<open>gfx_PrintUInt\<close> belongs to the toolchain: the hypothesis is its documented behaviour
  on an octet with a minimum length of 1, the decimal digits without leading zeros.\<close>

theorem ParseAddr_PrintAddress:
  assumes print_uint: "\<And>n. n < 256 \<Longrightarrow> print_uint n 1 = dec n"
    and "length addr = 4" and "\<forall>x \<in> set addr. x < 256"
  shows "util_ParseAddr (menu_PrintAddress print_uint addr) = Some addr"
proof -
  obtain a b c d where abcd: "addr = [a, b, c, d]"
    using assms(2) by (auto simp: numeral_eq_Suc length_Suc_conv)
  have lt: "a < 256" "b < 256" "c < 256" "d < 256" using assms(3) by (simp_all add: abcd)
  have shown: "menu_PrintAddress print_uint addr = dec a @ ''.'' @ dec b @ ''.'' @ dec c @ ''.'' @ dec d"
    by (simp add: menu_PrintAddress_def abcd print_uint [OF lt(1), simplified] print_uint [OF lt(2), simplified]
        print_uint [OF lt(3), simplified] print_uint [OF lt(4), simplified])
  then have "cstr (menu_PrintAddress print_uint addr) = menu_PrintAddress print_uint addr"
    by (simp add: cstr_append dec_no_nul cstr_append [OF dec_no_nul, of _ "[]", simplified])
  moreover have "parse_octets (Suc (Suc (Suc (Suc 0)))) (menu_PrintAddress print_uint addr) = Some addr"
    unfolding shown using lt by (simp add: abcd parse_octets_dot parse_octets_end del: parse_octets.simps)
  ultimately show ?thesis by (simp add: util_ParseAddr_def numeral_eq_Suc)
qed

text \<open>At a concrete printing function: the decimal digits, padded with zeros to the minimum length.\<close>

theorem ParseAddr_PrintAddress_witness:
  "util_ParseAddr (menu_PrintAddress (\<lambda>n l. replicate (l - length (dec n)) (CHR ''0'') @ dec n) [192, 168, 0, 255])
     = Some [192, 168, 0, 255]"
proof -
  have "dec n \<noteq> []" for n by (subst dec.simps) simp
  then have "(\<lambda>n l. replicate (l - length (dec n)) (CHR ''0'') @ dec n) n 1 = dec n" for n
    by (simp add: Suc_le_eq)
  then show ?thesis by (intro ParseAddr_PrintAddress) simp_all
qed

lemma StringInput_result:
  assumes "32 \<le> length buf"
  shows "menu_StringInput g keys buf \<noteq> Overrun
     \<and> (\<forall>r b. menu_StringInput g keys buf = Entered r b \<longrightarrow>
           length b = length buf \<and> strlen b \<le> 31 \<and> (\<forall>c \<in> set (cstr b). printable c)
           \<and> (\<exists>key \<in> set keys. r = (if sk_2nd key then 0 else 1) \<and> (sk_clear key \<or> sk_2nd key \<and> cstr b \<noteq> [])))"
proof -
  from assms obtain s where s: "input_start buf = Some s"
    by (auto simp: input_start_def store_bytes_def)
  note inv = input_start_inv [OF s]
  have "length b = length buf \<and> strlen b \<le> 31 \<and> (\<forall>c \<in> set (cstr b). printable c)
      \<and> (\<exists>key \<in> set keys. r = (if sk_2nd key then 0 else 1) \<and> (sk_clear key \<or> sk_2nd key \<and> cstr b \<noteq> []))"
    if "input_loop g keys s = Entered r b" for r b
  proof -
    from input_loop_inv [of s g keys] that inv obtain s' key where
      s': "input_inv s'" "input s' = b" "length b = length buf" "key \<in> set keys" "input_ends key s'"
        "r = (if sk_2nd key then 0 else 1)" by auto
    have "cstr b = take (currentOffset s') b" using input_inv_cstr [OF s'(1)] s'(2) by simp
    with s' show ?thesis by (auto simp: strlen_def input_inv_def input_ends_def)
  qed
  then show ?thesis using input_loop_inv [of s g keys] inv s by (simp add: menu_StringInput_def)
qed

text \<open>C30. Whatever keys are pressed, \<open>menu_StringInput\<close> never stores outside a buffer of at least
  32 bytes. When it returns, the buffer holds a terminated string of at most 31 printable
  characters, and the value is 0 (accepted) when 2nd ended the input and 1 when Clear alone did.
  An accepted string is not empty, except when Clear and 2nd were down together: Clear ends the
  loop without regard to the text, and the result depends on 2nd only.\<close>

theorem StringInput_safe:
  assumes "32 \<le> length buf"
  shows "menu_StringInput g keys buf \<noteq> Overrun
     \<and> (\<forall>r b. menu_StringInput g keys buf = Entered r b \<longrightarrow>
           length b = length buf \<and> strlen b \<le> 31 \<and> (\<forall>c \<in> set (cstr b). printable c)
           \<and> (r = 0 \<and> (\<exists>key \<in> set keys. sk_2nd key) \<or> r = 1 \<and> (\<exists>key \<in> set keys. sk_clear key \<and> \<not> sk_2nd key))
           \<and> (r = 0 \<and> cstr b = [] \<longrightarrow> (\<exists>key \<in> set keys. sk_clear key \<and> sk_2nd key)))"
proof -
  note res = StringInput_result [OF assms, of g keys]
  have "(r = 0 \<and> (\<exists>key \<in> set keys. sk_2nd key) \<or> r = 1 \<and> (\<exists>key \<in> set keys. sk_clear key \<and> \<not> sk_2nd key))
      \<and> (r = 0 \<and> cstr b = [] \<longrightarrow> (\<exists>key \<in> set keys. sk_clear key \<and> sk_2nd key))"
    if "menu_StringInput g keys buf = Entered r b" for r b
  proof -
    from res that obtain key where "key \<in> set keys" "r = (if sk_2nd key then 0 else 1)"
      "sk_clear key \<or> sk_2nd key \<and> cstr b \<noteq> []" by blast
    then show ?thesis by (cases "sk_2nd key") auto
  qed
  with res show ?thesis by blast
qed

text \<open>Two runs: an ordinary one, and one where Clear and 2nd go down together on the empty line and
  the empty string is accepted.\<close>

theorem StringInput_safe_witness:
  "menu_StringInput (\<lambda>m k. CHR ''a'') [SKey True 7, SAlpha, SKey False 7, SDel, S2nd] (replicate 32 nul)
     = Entered 0 (CHR ''a'' # replicate 31 nul)
   \<and> strlen (CHR ''a'' # replicate 31 nul) \<le> 31
   \<and> menu_StringInput (\<lambda>m k. CHR ''a'') [S2nd\<lparr>sk_clear := True\<rparr>] (replicate 32 nul) = Entered 0 (replicate 32 nul)"
proof -
  have run: "menu_StringInput (\<lambda>m k. CHR ''a'') [SKey True 7, SAlpha, SKey False 7, SDel, S2nd] (replicate 32 nul)
     = Entered 0 (CHR ''a'' # replicate 31 nul)"
    by code_simp
  have both: "menu_StringInput (\<lambda>m k. CHR ''a'') [S2nd\<lparr>sk_clear := True\<rparr>] (replicate 32 nul) = Entered 0 (replicate 32 nul)"
    by code_simp
  show ?thesis
    using run both StringInput_safe [of "replicate 32 nul" "\<lambda>m k. CHR ''a''"
        "[SKey True 7, SAlpha, SKey False 7, SDel, S2nd]"] by simp
qed

lemma strcpy_input:
  assumes "length dst = 32" and "strlen b \<le> 31"
  shows "\<exists>u. strcpy dst b = Some u \<and> length u = 32 \<and> nul \<in> set u \<and> cstr u = cstr b"
proof -
  let ?u = "cstr b @ [nul] @ drop (length (cstr b) + 1) dst"
  have "strcpy dst b = Some ?u"
    using assms by (simp add: strcpy_def store_bytes_def strlen_def)
  moreover have "cstr ?u = cstr b" by (simp add: cstr_terminated cstr_no_nul)
  ultimately show ?thesis using assms by (auto simp: strlen_def)
qed

text \<open>C31. The server screen keeps its state well formed under every key: the highlighted line is one
  of the three, the server address has four octets, and the user and password buffers stay 32
  bytes long and terminated, so \<open>strcpy\<close> never runs past them.\<close>

theorem ServerConfig_safe:
  assumes "server_cfg_ok st"
  shows "\<exists>st'. menu_ServerConfig_step g key st = Some st' \<and> server_cfg_ok st'"
proof (cases key)
  case (CfgEdit keys)
  let ?r = "menu_StringInput g keys (replicate 32 nul)"
  have safe: "?r \<noteq> Overrun" "\<And>r b. ?r = Entered r b \<Longrightarrow> strlen b \<le> 31"
    using StringInput_result [of "replicate 32 nul" g keys] by auto
  show ?thesis
  proof (cases ?r)
    case (Entered r b)
    have b: "strlen b \<le> 31" using safe(2) Entered by blast
    have u: "\<exists>u. strcpy (user_buf (snd st)) b = Some u \<and> length u = 32 \<and> nul \<in> set u"
      and p: "\<exists>u. strcpy (pass_buf (snd st)) b = Some u \<and> length u = 32 \<and> nul \<in> set u"
      using assms strcpy_input [OF _ b] by (auto simp: server_cfg_ok_def)
    with CfgEdit Entered assms parse_octets_length parse_octets_range show ?thesis
      by (auto simp: menu_ServerConfig_step_def server_cfg_ok_def util_ParseAddr_def split: prod.splits option.splits)
  qed (use CfgEdit assms safe in \<open>auto simp: menu_ServerConfig_step_def split: prod.splits\<close>)
qed (use assms in \<open>auto simp: menu_ServerConfig_step_def server_cfg_ok_def cfg_move_def split: prod.splits\<close>)

theorem ServerConfig_safe_witness:
  "server_cfg_ok (1, \<lparr>server = [10, 0, 0, 1], user_buf = replicate 32 nul, pass_buf = replicate 32 nul\<rparr>)
   \<and> (\<exists>st'. menu_ServerConfig_step (\<lambda>m k. CHR ''u'') (CfgEdit [SKey True 1, S2nd])
        (1, \<lparr>server = [10, 0, 0, 1], user_buf = replicate 32 nul, pass_buf = replicate 32 nul\<rparr>) = Some st'
        \<and> server_cfg_ok st')"
proof -
  have "server_cfg_ok (1, \<lparr>server = [10, 0, 0, 1], user_buf = replicate 32 nul, pass_buf = replicate 32 nul\<rparr>)"
    by (simp add: server_cfg_ok_def)
  then show ?thesis using ServerConfig_safe by blast
qed

end
