(* ===== verification/Defines.thy ===== *)
theory Defines
  imports Menu
begin

text \<open>
  The data the whole program shares: \<^verbatim>\<open>src/src/lwftp.h\<close> (results, control states, the
  session), \<^verbatim>\<open>src/src/defines.h\<close> (the application state and the file tables),
  and the world a step of the program transforms.

  The world also holds the calls the program has made to what surrounds it (lwIP's raw TCP
  interface, the calculator's variable store, the screen) in the order they were made, and the
  environment that answers them. An answer may depend on everything called before, and no
  theorem restricts it beyond the hypotheses it names.
\<close>

section \<open>Results and control states\<close>

datatype lwftp_results =
    LWFTP_RESULT_OK | LWFTP_RESULT_INPROGRESS | LWFTP_RESULT_LOGGED | LWFTP_RESULT_ERR_UNKNOWN
  | LWFTP_RESULT_ERR_ARGUMENT | LWFTP_RESULT_ERR_MEMORY | LWFTP_RESULT_ERR_CONNECT
  | LWFTP_RESULT_ERR_HOSTNAME | LWFTP_RESULT_ERR_CLOSED | LWFTP_RESULT_ERR_TIMEOUT
  | LWFTP_RESULT_ERR_SRVR_RESP | LWFTP_RESULT_ERR_INTERNAL | LWFTP_RESULT_ERR_LOCAL
  | LWFTP_RESULT_ERR_FILENAME

datatype lwftp_state_t =
    LWFTP_CLOSED | LWFTP_CONNECTED | LWFTP_USER_SENT | LWFTP_PASS_SENT | LWFTP_LOGGED
  | LWFTP_TYPE_SENT | LWFTP_PASV_SENT | LWFTP_RETR_SENT | LWFTP_STOR_SENT | LWFTP_XFERING
  | LWFTP_DATAEND | LWFTP_QUIT | LWFTP_QUIT_SENT | LWFTP_CLOSING | LWFTP_MLSD_SENT
  | LWFTP_DELE_SENT | LWFTP_RMD_SENT | LWFTP_CWD_SENT | LWFTP_PWD_SENT | LWFTP_RNFR_SENT
  | LWFTP_RNTO_SENT | LWFTP_CMDEND

section \<open>The session\<close>

text \<open>
  The session leaves out \<open>handle\<close>, which \<open>main\<close> sets to the session itself, and \<open>timeout\<close>, which
  nothing reads.

  Function pointers: the client functions of \<^verbatim>\<open>ftp.c\<close> a session can hold, and the two families
  of handlers of \<^verbatim>\<open>lwftp.c\<close> a TCP control block can hold. String pointers: the two buffers
  \<open>remote_path\<close> and \<open>remote_new_path\<close> are pointed at; reading through them reads the buffer's
  current contents.
\<close>

datatype done_cb =
    ConnectCallback | ListCallback | PwdCallback | CwdCallback | DelCallback | MoveCallback
  | StorCallback | RetrCallback

datatype sink_cb = ListDataSink | PwdDataSink | RetrDataSink

datatype source_cb = StorDataSource

datatype conn = Control | Data

datatype cptr = AppPath | MoveInput

type_synonym pcb = nat
type_synonym ip4 = "nat \<times> nat \<times> nat \<times> nat"

record session =
  server_ip :: ip4
  server_port :: nat
  remote_path :: "cptr option"
  remote_new_path :: "cptr option"
  user :: "bytes option"
  pass :: "bytes option"
  data_source :: "source_cb option"
  data_sink :: "sink_cb option"
  done_fn :: "done_cb option"
  control_state :: lwftp_state_t
  target_state :: lwftp_state_t
  data_state :: lwftp_state_t
  control_pcb :: "pcb option"
  data_pcb :: "pcb option"

section \<open>The application state\<close>

abbreviation INPUT_BUF_SIZE :: nat where "INPUT_BUF_SIZE \<equiv> 32"
abbreviation RX_BUF_SIZE :: nat where "RX_BUF_SIZE \<equiv> 255"
abbreviation MAX_SHOWN_FILES :: u24 where "MAX_SHOWN_FILES \<equiv> 15"
abbreviation MAX_LOCAL_FILES :: nat where "MAX_LOCAL_FILES \<equiv> 500"

text \<open>\<open>sizeof(struct file_t)\<close> is 10 (a byte and nine characters, no padding on this target).\<close>

definition sizeof_file_t :: nat where
  "sizeof_file_t = 10"

definition MAX_REMOTE_FILES :: nat where
  "MAX_REMOTE_FILES = 8400 div sizeof_file_t - MAX_LOCAL_FILES"

lemma MAX_REMOTE_FILES_eq [simp]: "MAX_REMOTE_FILES = 340"
  by (simp add: MAX_REMOTE_FILES_def sizeof_file_t_def)

text \<open>The addresses of the two tables; the offset in \<open>REMOTE_FILES\<close> is scaled by the element size.\<close>

definition LOCAL_FILES :: nat where
  "LOCAL_FILES = 0xD031F6"

definition REMOTE_FILES :: nat where
  "REMOTE_FILES = LOCAL_FILES + sizeof_file_t * (sizeof_file_t * MAX_LOCAL_FILES)"

datatype ftype = TYPE_UNKNOWN | TYPE_DIR | TYPE_PROG | TYPE_APPVAR

record file_t =
  f_type :: ftype
  f_name :: bytes

definition zero_file :: file_t where
  "zero_file = \<lparr>f_type = TYPE_UNKNOWN, f_name = replicate 9 nul\<rparr>"

text \<open>The dirty flags, one bit each.\<close>

record dirty_t =
  local_dirty :: bool
  remote_dirty :: bool
  path_dirty :: bool
  buttons_dirty :: bool

definition ALL_DIRTY :: dirty_t where
  "ALL_DIRTY = \<lparr>local_dirty = True, remote_dirty = True, path_dirty = True, buttons_dirty = True\<rparr>"

text \<open>\<open>start\<close>, \<open>selected\<close> and \<open>total\<close> are arrays of two, indexed by the column.\<close>

record app_t =
  dirty :: dirty_t
  remoteColumn :: bool
  start :: "bool \<Rightarrow> u24"
  selected :: "bool \<Rightarrow> u24"
  total :: "bool \<Rightarrow> u24"
  dir :: u8
  connected :: bool
  ftpStarted :: bool
  busy :: bool
  ftpResult :: lwftp_results
  txOffset :: nat
  txSize :: nat
  rxBuf :: bytes
  path :: bytes
  rxOffset :: nat

definition app_init :: app_t where
  "app_init = \<lparr>dirty = ALL_DIRTY, remoteColumn = False, start = (\<lambda>_. 0), selected = (\<lambda>_. 0),
     total = (\<lambda>_. 0), dir = 0, connected = False, ftpStarted = False, busy = False,
     ftpResult = LWFTP_RESULT_INPROGRESS, txOffset = 0, txSize = 0,
     rxBuf = replicate (RX_BUF_SIZE + 2) nul, path = replicate (RX_BUF_SIZE + 2) nul, rxOffset = 0\<rparr>"

section \<open>Calls to the surroundings, and the environment that answers\<close>

datatype call =
    Tcp_new "pcb option"
  | Tcp_arg pcb
  | Tcp_err pcb "conn option"
  | Tcp_recv pcb "conn option"
  | Tcp_sent pcb "conn option"
  | Tcp_connect pcb ip4 nat conn err_t
  | Tcp_write pcb bytes err_t
  | Tcp_output pcb
  | Tcp_recved pcb nat
  | Tcp_close pcb err_t
  | Tcp_freed pcb
  | Pbuf_free
  | Ti_DeleteVar bytes nat
  | Ti_OpenVar bytes bytes nat
  | Ti_Write bytes
  | Ti_SetArchiveStatus bool
  | Ti_Close
  | Print_message bytes
  | Wait_any_key

text \<open>A variable of the calculator as the file library presents it: its type byte in the VAT, its
  size, the bytes from two before its data pointer on, and whether it is archived.\<close>

record ti_var =
  v_type :: nat
  v_size :: nat
  v_data :: bytes
  v_archived :: bool

record env =
  e_tcp_new :: "call list \<Rightarrow> pcb option"
  e_tcp_connect :: "call list \<Rightarrow> err_t"
  e_tcp_write :: "call list \<Rightarrow> err_t"
  e_tcp_close :: "call list \<Rightarrow> err_t"
  e_mss :: "pcb \<Rightarrow> nat"
  e_detect :: "call list \<Rightarrow> (bytes \<times> nat) list"
  e_var :: "call list \<Rightarrow> bytes \<Rightarrow> nat \<Rightarrow> ti_var"
  e_keys :: "call list \<Rightarrow> skey list"
  e_getchar :: "nat \<Rightarrow> nat \<Rightarrow> byte"

section \<open>The world\<close>

record world =
  sess :: session
  app :: app_t
  local_files :: "file_t list"
  remote_files :: "file_t list"
  file_buffer :: "nat \<Rightarrow> byte"
  move_input :: bytes
  calls :: "call list"
  envr :: env

definition do_call :: "call \<Rightarrow> world \<Rightarrow> world" where
  "do_call c w = w\<lparr>calls := calls w @ [c]\<rparr>"

definition upd_sess :: "(session \<Rightarrow> session) \<Rightarrow> world \<Rightarrow> world" where
  "upd_sess f w = w\<lparr>sess := f (sess w)\<rparr>"

definition upd_app :: "(app_t \<Rightarrow> app_t) \<Rightarrow> world \<Rightarrow> world" where
  "upd_app f w = w\<lparr>app := f (app w)\<rparr>"

text \<open>Reading through a string pointer.\<close>

definition read_ptr :: "world \<Rightarrow> cptr \<Rightarrow> bytes" where
  "read_ptr w p = cstr (case p of AppPath \<Rightarrow> path (app w) | MoveInput \<Rightarrow> move_input w)"

lemma upd_simps [simp]:
  "sess (do_call c w) = sess w" "app (do_call c w) = app w" "calls (do_call c w) = calls w @ [c]"
  "envr (do_call c w) = envr w" "local_files (do_call c w) = local_files w"
  "remote_files (do_call c w) = remote_files w" "file_buffer (do_call c w) = file_buffer w"
  "move_input (do_call c w) = move_input w"
  "sess (upd_sess f w) = f (sess w)" "app (upd_sess f w) = app w" "calls (upd_sess f w) = calls w"
  "envr (upd_sess f w) = envr w" "local_files (upd_sess f w) = local_files w"
  "remote_files (upd_sess f w) = remote_files w" "file_buffer (upd_sess f w) = file_buffer w"
  "move_input (upd_sess f w) = move_input w"
  "sess (upd_app g w) = sess w" "app (upd_app g w) = g (app w)" "calls (upd_app g w) = calls w"
  "envr (upd_app g w) = envr w" "local_files (upd_app g w) = local_files w"
  "remote_files (upd_app g w) = remote_files w" "file_buffer (upd_app g w) = file_buffer w"
  "move_input (upd_app g w) = move_input w"
  by (simp_all add: do_call_def upd_sess_def upd_app_def)

lemma read_ptr_simps [simp]:
  "read_ptr (do_call c w) p = read_ptr w p" "read_ptr (upd_sess f w) p = read_ptr w p"
  by (cases p; simp add: read_ptr_def)+

end
