(* ===== verification/Lwftp.thy ===== *)
theory Lwftp
  imports Defines
begin

text \<open>
  The FTP engine, \<^verbatim>\<open>src/src/lwftp.c\<close>, function by function in the order of the file. Each
  function takes the client (the functions of the program a session's pointers lead to) and the
  world, and returns the world, or \<open>None\<close> where the C code dereferences a NULL pointer. A client
  function may itself call the engine, so the world is threaded through every call-back.

  The engine is built with \<open>NO_SYS\<close>, so \<open>tcpip_callback\<close> is the file's own
  \<open>lwftp_tcpip_callback\<close>, which runs the function at once.
\<close>

section \<open>The engine's surroundings\<close>

record client =
  call_done :: "done_cb \<Rightarrow> lwftp_results \<Rightarrow> world \<Rightarrow> world option"
  call_sink :: "sink_cb \<Rightarrow> bytes option \<Rightarrow> world \<Rightarrow> world option"
  call_source :: "source_cb \<Rightarrow> bool \<Rightarrow> nat \<Rightarrow> world \<Rightarrow> (bytes \<times> world) option"

text \<open>A received pbuf chain: the bytes of its first pbuf, the memory behind them (a payload has no
  terminator of its own), and the payloads of the rest of the chain.\<close>

record pbuf =
  payload :: bytes
  beyond :: bytes
  chain :: "bytes list"

definition tot_len :: "pbuf \<Rightarrow> nat" where
  "tot_len p = length (payload p) + sum_list (map length (chain p))"

definition text_at :: "pbuf \<Rightarrow> bytes" where
  "text_at p = payload p @ beyond p"

definition set_state :: "lwftp_state_t \<Rightarrow> world \<Rightarrow> world" where
  "set_state st = upd_sess (\<lambda>s. s\<lparr>control_state := st\<rparr>)"

text \<open>The raw TCP calls, with the environment's answers. A NULL control block is refused with
  \<open>ERR_ARG\<close> (or ignored) by all of them but \<open>tcp_output\<close>.\<close>

definition tcp_new :: "world \<Rightarrow> pcb option \<times> world" where
  "tcp_new w = (let r = e_tcp_new (envr w) (calls w) in (r, do_call (Tcp_new r) w))"

definition tcp_write :: "pcb option \<Rightarrow> bytes \<Rightarrow> world \<Rightarrow> err_t \<times> world" where
  "tcp_write po d w = (case po of None \<Rightarrow> (ERR_ARG, w)
     | Some p \<Rightarrow> let e = e_tcp_write (envr w) (calls w) in (e, do_call (Tcp_write p d e) w))"

definition tcp_connect :: "pcb option \<Rightarrow> ip4 \<Rightarrow> nat \<Rightarrow> conn \<Rightarrow> world \<Rightarrow> err_t \<times> world" where
  "tcp_connect po ip port k w = (case po of None \<Rightarrow> (ERR_ARG, w)
     | Some p \<Rightarrow> let e = e_tcp_connect (envr w) (calls w) in (e, do_call (Tcp_connect p ip port k e) w))"

definition tcp_close :: "pcb \<Rightarrow> world \<Rightarrow> err_t \<times> world" where
  "tcp_close p w = (let e = e_tcp_close (envr w) (calls w) in (e, do_call (Tcp_close p e) w))"

definition tcp_output :: "pcb option \<Rightarrow> world \<Rightarrow> world option" where
  "tcp_output po w = (case po of None \<Rightarrow> None | Some p \<Rightarrow> Some (do_call (Tcp_output p) w))"

definition tcp_register :: "pcb option \<Rightarrow> conn option \<Rightarrow> world \<Rightarrow> world" where
  "tcp_register po k w = (case po of None \<Rightarrow> w
     | Some p \<Rightarrow> do_call (Tcp_sent p k) (do_call (Tcp_recv p k) (do_call (Tcp_err p k) w)))"

definition lwftp_tcpip_callback :: "(world \<Rightarrow> world option) \<Rightarrow> world \<Rightarrow> (err_t \<times> world) option" where
  "lwftp_tcpip_callback f w = do { w \<leftarrow> f w; Some (ERR_OK, w) }"

text \<open>\<open>if (s->done_fn) s->done_fn(s->handle, r)\<close>\<close>

definition finish :: "client \<Rightarrow> lwftp_results \<Rightarrow> world \<Rightarrow> world option" where
  "finish c r w = (case done_fn (sess w) of None \<Rightarrow> Some w | Some f \<Rightarrow> call_done c f r w)"

section \<open>The data connection\<close>

definition lwftp_pcb_close :: "pcb option \<Rightarrow> world \<Rightarrow> world" where
  "lwftp_pcb_close po w = (case po of None \<Rightarrow> w
     | Some p \<Rightarrow> snd (tcp_close p (tcp_register po None w)))"

definition close_data_pcb :: "world \<Rightarrow> world" where
  "close_data_pcb w =
     upd_sess (\<lambda>s. s\<lparr>data_pcb := None\<rparr>) (lwftp_pcb_close (data_pcb (sess w)) w)"

definition lwftp_send_next_data :: "client \<Rightarrow> world \<Rightarrow> world option" where
  "lwftp_send_next_data c w = do {
     (d, w) \<leftarrow> (case data_source (sess w) of
         None \<Rightarrow> Some ([], w)
       | Some f \<Rightarrow> do {
           p \<leftarrow> data_pcb (sess w);
           (d, w) \<leftarrow> call_source c f True (e_mss (envr w) p) w;
           Some (d, if d \<noteq> [] then snd (tcp_write (data_pcb (sess w)) d w) else w) });
     Some (if d = [] then close_data_pcb w else w) }"

fun sink_chain :: "client \<Rightarrow> bytes list \<Rightarrow> world \<Rightarrow> world option" where
  "sink_chain c [] w = Some w"
| "sink_chain c (q # qs) w = do {
     f \<leftarrow> data_sink (sess w);
     w \<leftarrow> call_sink c f (Some q) w;
     sink_chain c qs w }"

definition lwftp_data_recv :: "client \<Rightarrow> pcb \<Rightarrow> pbuf option \<Rightarrow> world \<Rightarrow> world option" where
  "lwftp_data_recv c tpcb po w = (case po of
       Some p \<Rightarrow> do {
         w \<leftarrow> (if data_sink (sess w) \<noteq> None then sink_chain c (payload p # chain p) w else Some w);
         Some (do_call Pbuf_free (do_call (Tcp_recved tpcb (tot_len p)) w)) }
     | None \<Rightarrow> do {
         w \<leftarrow> (case data_sink (sess w) of None \<Rightarrow> Some w | Some f \<Rightarrow> call_sink c f None w);
         Some (if data_pcb (sess w) \<noteq> None then close_data_pcb w else w) })"

definition lwftp_data_sent :: "client \<Rightarrow> nat \<Rightarrow> world \<Rightarrow> world option" where
  "lwftp_data_sent c len w = do {
     w \<leftarrow> (case data_source (sess w) of
         None \<Rightarrow> Some w
       | Some f \<Rightarrow> do { (d, w) \<leftarrow> call_source c f False len w; Some w });
     lwftp_send_next_data c w }"

definition lwftp_data_connected :: "err_t \<Rightarrow> world \<Rightarrow> world" where
  "lwftp_data_connected e w =
     (if e = ERR_OK then upd_sess (\<lambda>s. s\<lparr>data_state := LWFTP_CONNECTED\<rparr>) w else w)"

text \<open>
  The six numbers of a PASV reply, read by \<open>strtoul(ptr+1,&ptr,10)\<close> one after another from the
  opening bracket on; the octets are masked by \<open>IP_ADDR4\<close>, the port is kept in 16 bits.
\<close>

definition parse_pasv :: "bytes \<Rightarrow> (ip4 \<times> nat) option" where
  "parse_pasv txt = do {
     ptr \<leftarrow> strchr txt (CHR ''('');
     let (a, ptr) = strtoul (drop 1 ptr);
     let (b, ptr) = strtoul (drop 1 ptr);
     let (c, ptr) = strtoul (drop 1 ptr);
     let (d, ptr) = strtoul (drop 1 ptr);
     let (hi, ptr) = strtoul (drop 1 ptr);
     let (lo, ptr) = strtoul (drop 1 ptr);
     if deref ptr \<noteq> CHR '')'' then None
     else Some ((a mod 256, b mod 256, c mod 256, d mod 256), hi * 256 mod 65536 + lo mod 256) }"

definition lwftp_data_open :: "pbuf \<Rightarrow> world \<Rightarrow> err_t \<times> world" where
  "lwftp_data_open p w = (case parse_pasv (text_at p) of
       None \<Rightarrow> (ERR_BUF, w)
     | Some (data_server, data_port) \<Rightarrow>
         let po = data_pcb (sess w);
             w1 = (case po of None \<Rightarrow> w | Some q \<Rightarrow> do_call (Tcp_arg q) w)
         in tcp_connect po data_server data_port Data (tcp_register po (Some Data) w1))"

section \<open>The control connection\<close>

definition lwftp_send_msg :: "bytes \<Rightarrow> world \<Rightarrow> err_t \<times> world" where
  "lwftp_send_msg msg w = tcp_write (control_pcb (sess w)) msg w"

abbreviation send_msg :: "bytes \<Rightarrow> world \<Rightarrow> world" where
  "send_msg msg w \<equiv> snd (lwftp_send_msg msg w)"

text \<open>The three writes of a command: the verb, its argument, the end of the line. A NULL argument
  is dereferenced by \<open>strlen\<close>.\<close>

definition send_cmd :: "bytes \<Rightarrow> bytes option \<Rightarrow> world \<Rightarrow> world option" where
  "send_cmd verb arg w = do { a \<leftarrow> arg; Some (send_msg [cr, lf] (send_msg a (send_msg verb w))) }"

definition remote_path_text :: "world \<Rightarrow> bytes option" where
  "remote_path_text w = map_option (read_ptr w) (remote_path (sess w))"

definition remote_new_path_text :: "world \<Rightarrow> bytes option" where
  "remote_new_path_text w = map_option (read_ptr w) (remote_new_path (sess w))"

definition lwftp_data_close :: "client \<Rightarrow> lwftp_results \<Rightarrow> world \<Rightarrow> world option" where
  "lwftp_data_close c r w =
     finish c r (if data_pcb (sess w) \<noteq> None then close_data_pcb w else w)"

text \<open>The result of \<open>lwftp_control_close\<close> is an \<open>int\<close>; \<open>None\<close> is the \<open>-1\<close> of a silent close.\<close>

definition lwftp_control_close :: "client \<Rightarrow> lwftp_results option \<Rightarrow> world \<Rightarrow> world option" where
  "lwftp_control_close c r w =
     (let w = (if data_pcb (sess w) \<noteq> None then close_data_pcb w else w);
          w = (if control_pcb (sess w) \<noteq> None
               then upd_sess (\<lambda>s. s\<lparr>control_pcb := None\<rparr>) (lwftp_pcb_close (control_pcb (sess w)) w)
               else w);
          w = set_state LWFTP_CLOSED w
      in case r of None \<Rightarrow> Some w | Some res \<Rightarrow> finish c res w)"

section \<open>The control state machine\<close>

text \<open>
  \<open>lwftp_control_process\<close> has two switches. The first reacts to the reply code, by groups of
  states: logging in, transfers, plain commands, quitting. It yields the result to report and the
  world. The second performs the state the first has left behind.
\<close>

abbreviation SRVR_RESP :: "world \<Rightarrow> (lwftp_results \<times> world) option" where
  "SRVR_RESP w \<equiv> Some (LWFTP_RESULT_ERR_SRVR_RESP, w)"

definition process_login :: "client \<Rightarrow> nat \<Rightarrow> world \<Rightarrow> (lwftp_results \<times> world) option" where
  "process_login c response w = (case control_state (sess w) of
       LWFTP_CONNECTED \<Rightarrow>
         if response = 220 then do {
           w \<leftarrow> send_cmd ''USER '' (user (sess w)) w;
           SRVR_RESP (set_state LWFTP_USER_SENT w) }
         else SRVR_RESP (set_state LWFTP_QUIT w)
     | LWFTP_USER_SENT \<Rightarrow>
         if response = 331 then do {
           w \<leftarrow> send_cmd ''PASS '' (pass (sess w)) w;
           SRVR_RESP (set_state LWFTP_PASS_SENT w) }
         else SRVR_RESP (set_state LWFTP_QUIT w)
     | LWFTP_PASS_SENT \<Rightarrow>
         if response = 230 then do {
           w \<leftarrow> finish c LWFTP_RESULT_LOGGED (set_state LWFTP_LOGGED w);
           SRVR_RESP w }
         else SRVR_RESP (set_state LWFTP_QUIT w)
     | _ \<Rightarrow> SRVR_RESP w)"

definition transfer_verb :: "lwftp_state_t \<Rightarrow> bytes option" where
  "transfer_verb st = (case st of
       LWFTP_STOR_SENT \<Rightarrow> Some ''STOR ''
     | LWFTP_RETR_SENT \<Rightarrow> Some ''RETR ''
     | LWFTP_MLSD_SENT \<Rightarrow> Some ''MLSD ''
     | _ \<Rightarrow> None)"

definition process_pasv :: "nat \<Rightarrow> pbuf \<Rightarrow> world \<Rightarrow> world option" where
  "process_pasv response p w =
     (if response = 227 then do {
        let w = snd (lwftp_data_open p w);
        let w = (case transfer_verb (target_state (sess w)) of
                   Some verb \<Rightarrow> send_msg verb w
                 | None \<Rightarrow> upd_sess (\<lambda>s. s\<lparr>target_state := LWFTP_QUIT\<rparr>) w);
        a \<leftarrow> remote_path_text w;
        let w = send_msg [cr, lf] (send_msg a w);
        Some (set_state (target_state (sess w)) w) }
      else Some (set_state LWFTP_QUIT w))"

definition process_transfer ::
    "client \<Rightarrow> nat \<Rightarrow> pbuf \<Rightarrow> world \<Rightarrow> (lwftp_results \<times> world) option" where
  "process_transfer c response p w = (case control_state (sess w) of
       LWFTP_TYPE_SENT \<Rightarrow>
         if response = 200 then SRVR_RESP (set_state LWFTP_PASV_SENT (send_msg (''PASV'' @ [cr, lf]) w))
         else SRVR_RESP (set_state LWFTP_QUIT w)
     | LWFTP_PASV_SENT \<Rightarrow> do { w \<leftarrow> process_pasv response p w; SRVR_RESP w }
     | LWFTP_RETR_SENT \<Rightarrow>
         if response = 150 then SRVR_RESP (set_state LWFTP_XFERING w)
         else if response = 550 then Some (LWFTP_RESULT_ERR_FILENAME, set_state LWFTP_DATAEND w)
         else SRVR_RESP (set_state LWFTP_DATAEND w)
     | LWFTP_STOR_SENT \<Rightarrow>
         if response = 150 then do {
           w \<leftarrow> lwftp_data_sent c 0 (set_state LWFTP_XFERING w);
           SRVR_RESP w }
         else SRVR_RESP (set_state LWFTP_DATAEND w)
     | LWFTP_MLSD_SENT \<Rightarrow>
         if response = 150 then SRVR_RESP (set_state LWFTP_XFERING w)
         else SRVR_RESP (set_state LWFTP_DATAEND w)
     | _ \<Rightarrow> SRVR_RESP w)"

definition process_xfering :: "nat \<Rightarrow> world \<Rightarrow> (lwftp_results \<times> world) option" where
  "process_xfering response w =
     Some (if response = 226 then LWFTP_RESULT_OK else LWFTP_RESULT_ERR_CLOSED, set_state LWFTP_DATAEND w)"

definition process_command ::
    "client \<Rightarrow> nat \<Rightarrow> pbuf \<Rightarrow> world \<Rightarrow> (lwftp_results \<times> world) option" where
  "process_command c response p w =
     (let cmd_result = (if response = 250 then LWFTP_RESULT_OK
                        else if response = 550 then LWFTP_RESULT_ERR_FILENAME
                        else LWFTP_RESULT_ERR_SRVR_RESP)
      in case control_state (sess w) of
       LWFTP_DELE_SENT \<Rightarrow> Some (cmd_result, set_state LWFTP_CMDEND w)
     | LWFTP_RMD_SENT \<Rightarrow> Some (cmd_result, set_state LWFTP_CMDEND w)
     | LWFTP_CWD_SENT \<Rightarrow> Some (cmd_result, set_state LWFTP_CMDEND w)
     | LWFTP_PWD_SENT \<Rightarrow>
         if response = 257 then do {
           w \<leftarrow> (case data_sink (sess w) of None \<Rightarrow> Some w | Some f \<Rightarrow> call_sink c f (Some (payload p)) w);
           Some (LWFTP_RESULT_OK, set_state LWFTP_CMDEND w) }
         else SRVR_RESP (set_state LWFTP_CMDEND w)
     | LWFTP_RNFR_SENT \<Rightarrow>
         if response = 350 then do {
           w \<leftarrow> send_cmd ''RNTO '' (remote_new_path_text w) w;
           SRVR_RESP (set_state LWFTP_RNTO_SENT w) }
         else if response = 550 then Some (LWFTP_RESULT_ERR_FILENAME, set_state LWFTP_CMDEND w)
         else SRVR_RESP (set_state LWFTP_CMDEND w)
     | LWFTP_RNTO_SENT \<Rightarrow>
         Some (if response = 250 then LWFTP_RESULT_OK else LWFTP_RESULT_ERR_SRVR_RESP,
               set_state LWFTP_CMDEND w)
     | LWFTP_QUIT_SENT \<Rightarrow>
         Some (if response = 221 then LWFTP_RESULT_OK else LWFTP_RESULT_ERR_UNKNOWN,
               set_state LWFTP_CLOSING w)
     | _ \<Rightarrow> SRVR_RESP w)"

definition process_reply ::
    "client \<Rightarrow> nat \<Rightarrow> pbuf option \<Rightarrow> world \<Rightarrow> (lwftp_results \<times> world) option" where
  "process_reply c response po w = (case po of
       None \<Rightarrow> SRVR_RESP w
     | Some p \<Rightarrow>
         if response = 0 then SRVR_RESP w
         else if control_state (sess w) \<in> {LWFTP_CONNECTED, LWFTP_USER_SENT, LWFTP_PASS_SENT}
         then process_login c response w
         else if control_state (sess w) \<in> {LWFTP_TYPE_SENT, LWFTP_PASV_SENT, LWFTP_RETR_SENT,
                LWFTP_STOR_SENT, LWFTP_MLSD_SENT}
         then process_transfer c response p w
         else if control_state (sess w) = LWFTP_XFERING then process_xfering response w
         else process_command c response p w)"

definition process_second :: "client \<Rightarrow> lwftp_results \<Rightarrow> world \<Rightarrow> world option" where
  "process_second c r w = (case control_state (sess w) of
       LWFTP_DATAEND \<Rightarrow> lwftp_data_close c r (set_state LWFTP_LOGGED w)
     | LWFTP_CMDEND \<Rightarrow> finish c r (set_state LWFTP_LOGGED w)
     | LWFTP_QUIT \<Rightarrow> do {
         w \<leftarrow> tcp_output (control_pcb (sess w)) (send_msg (''QUIT'' @ [cr, lf]) w);
         Some (set_state LWFTP_QUIT_SENT w) }
     | LWFTP_CLOSING \<Rightarrow> lwftp_control_close c (Some r) w
     | _ \<Rightarrow> Some w)"

text \<open>The reply code: \<open>strtoul\<close> of the payload, kept in a \<open>u16_t\<close>.\<close>

definition response_of :: "pbuf option \<Rightarrow> nat" where
  "response_of po = (case po of None \<Rightarrow> 0 | Some p \<Rightarrow> fst (strtoul (text_at p)) mod 65536)"

definition lwftp_control_process :: "client \<Rightarrow> pbuf option \<Rightarrow> world \<Rightarrow> world option" where
  "lwftp_control_process c po w = do {
     (r, w) \<leftarrow> process_reply c (response_of po) po w;
     let w = (case po of None \<Rightarrow> w | Some p \<Rightarrow> do_call Pbuf_free w);
     process_second c r w }"

definition lwftp_data_err :: "client \<Rightarrow> world \<Rightarrow> world option" where
  "lwftp_data_err c w =
     (let w = upd_sess (\<lambda>s. s\<lparr>data_pcb := None\<rparr>) w
      in if control_state (sess w) = LWFTP_XFERING
         then lwftp_control_process c None (set_state LWFTP_DATAEND w)
         else Some w)"

section \<open>Starting commands\<close>

definition lwftp_start_RETR :: "client \<Rightarrow> world \<Rightarrow> world option" where
  "lwftp_start_RETR c w =
     (if control_state (sess w) = LWFTP_LOGGED
      then Some (upd_sess (\<lambda>s. s\<lparr>target_state := LWFTP_RETR_SENT\<rparr>)
                  (set_state LWFTP_TYPE_SENT (send_msg (''TYPE I'' @ [cr, lf]) w)))
      else finish c LWFTP_RESULT_ERR_INTERNAL w)"

definition lwftp_start_STOR :: "client \<Rightarrow> world \<Rightarrow> world option" where
  "lwftp_start_STOR c w =
     (if control_state (sess w) = LWFTP_LOGGED
      then Some (upd_sess (\<lambda>s. s\<lparr>target_state := LWFTP_STOR_SENT\<rparr>)
                  (set_state LWFTP_TYPE_SENT (send_msg (''TYPE I'' @ [cr, lf]) w)))
      else finish c LWFTP_RESULT_ERR_INTERNAL w)"

definition lwftp_start_MLSD :: "client \<Rightarrow> world \<Rightarrow> world option" where
  "lwftp_start_MLSD c w =
     (if control_state (sess w) = LWFTP_LOGGED
      then Some (upd_sess (\<lambda>s. s\<lparr>target_state := LWFTP_MLSD_SENT\<rparr>)
                  (set_state LWFTP_TYPE_SENT (send_msg (''TYPE I'' @ [cr, lf]) w)))
      else finish c LWFTP_RESULT_ERR_INTERNAL w)"

definition lwftp_send_DELE :: "client \<Rightarrow> world \<Rightarrow> world option" where
  "lwftp_send_DELE c w =
     (if control_state (sess w) = LWFTP_LOGGED
      then do { w \<leftarrow> send_cmd ''DELE '' (remote_path_text w) w; Some (set_state LWFTP_DELE_SENT w) }
      else finish c LWFTP_RESULT_ERR_INTERNAL w)"

definition lwftp_send_RMD :: "client \<Rightarrow> world \<Rightarrow> world option" where
  "lwftp_send_RMD c w =
     (if control_state (sess w) = LWFTP_LOGGED
      then do { w \<leftarrow> send_cmd ''RMD '' (remote_path_text w) w; Some (set_state LWFTP_RMD_SENT w) }
      else finish c LWFTP_RESULT_ERR_INTERNAL w)"

definition lwftp_send_CWD :: "client \<Rightarrow> world \<Rightarrow> world option" where
  "lwftp_send_CWD c w =
     (if control_state (sess w) = LWFTP_LOGGED
      then do { w \<leftarrow> send_cmd ''CWD '' (remote_path_text w) w; Some (set_state LWFTP_CWD_SENT w) }
      else finish c LWFTP_RESULT_ERR_INTERNAL w)"

definition lwftp_send_PWD :: "client \<Rightarrow> world \<Rightarrow> world option" where
  "lwftp_send_PWD c w =
     (if control_state (sess w) = LWFTP_LOGGED
      then Some (set_state LWFTP_PWD_SENT (send_msg (''PWD'' @ [cr, lf]) w))
      else finish c LWFTP_RESULT_ERR_INTERNAL w)"

definition lwftp_send_RNFR :: "client \<Rightarrow> world \<Rightarrow> world option" where
  "lwftp_send_RNFR c w =
     (if control_state (sess w) = LWFTP_LOGGED
      then do { w \<leftarrow> send_cmd ''RNFR '' (remote_path_text w) w; Some (set_state LWFTP_RNFR_SENT w) }
      else finish c LWFTP_RESULT_ERR_INTERNAL w)"

definition lwftp_send_QUIT :: "world \<Rightarrow> world option" where
  "lwftp_send_QUIT w =
     (if control_pcb (sess w) \<noteq> None
      then do {
        w \<leftarrow> tcp_output (control_pcb (sess w)) (send_msg (''QUIT'' @ [cr, lf]) w);
        Some (set_state LWFTP_QUIT_SENT w) }
      else Some w)"

section \<open>Handlers of the control connection\<close>

definition lwftp_control_recv :: "client \<Rightarrow> pcb \<Rightarrow> pbuf option \<Rightarrow> err_t \<Rightarrow> world \<Rightarrow> world option" where
  "lwftp_control_recv c tpcb po e w =
     (if e = ERR_OK
      then (case po of
          Some p \<Rightarrow> lwftp_control_process c po (do_call (Tcp_recved tpcb (tot_len p)) w)
        | None \<Rightarrow> lwftp_control_close c (Some LWFTP_RESULT_ERR_CLOSED) w)
      else lwftp_control_close c (Some LWFTP_RESULT_ERR_UNKNOWN) w)"

definition lwftp_control_sent :: "nat \<Rightarrow> world \<Rightarrow> world" where
  "lwftp_control_sent len w = w"

definition lwftp_control_err :: "client \<Rightarrow> world \<Rightarrow> world option" where
  "lwftp_control_err c w =
     (let r = (if control_state (sess w) = LWFTP_CLOSED then LWFTP_RESULT_ERR_CONNECT
               else LWFTP_RESULT_ERR_CLOSED)
      in lwftp_control_close c (Some r) (upd_sess (\<lambda>s. s\<lparr>control_pcb := None\<rparr>) w))"

definition lwftp_control_connected :: "err_t \<Rightarrow> world \<Rightarrow> world" where
  "lwftp_control_connected e w = (if e = ERR_OK then set_state LWFTP_CONNECTED w else w)"

section \<open>The programming interface\<close>

text \<open>Each function returns the value it also passes to \<open>done_fn\<close> on its way out.\<close>

definition exit_with :: "client \<Rightarrow> lwftp_results \<Rightarrow> world \<Rightarrow> (lwftp_results \<times> world) option" where
  "exit_with c r w = do { w \<leftarrow> finish c r w; Some (r, w) }"

definition lwftp_connect :: "client \<Rightarrow> world \<Rightarrow> (lwftp_results \<times> world) option" where
  "lwftp_connect c w =
     (let s = sess w
      in if control_state s \<noteq> LWFTP_CLOSED \<or> control_pcb s \<noteq> None \<or> data_pcb s \<noteq> None
            \<or> user s = None \<or> pass s = None
         then exit_with c LWFTP_RESULT_ERR_ARGUMENT w
         else let (po, w) = tcp_new w;
                  w = upd_sess (\<lambda>s. s\<lparr>control_pcb := po\<rparr>) w
         in case po of
              None \<Rightarrow> exit_with c LWFTP_RESULT_ERR_MEMORY w
            | Some p \<Rightarrow>
                let w = tcp_register po (Some Control) (do_call (Tcp_arg p) w);
                    (e, w) = tcp_connect po (server_ip (sess w)) (server_port (sess w)) Control w
                in if e = ERR_OK then exit_with c LWFTP_RESULT_INPROGRESS w
                   else do {
                     w \<leftarrow> lwftp_control_close c None w;
                     exit_with c LWFTP_RESULT_ERR_UNKNOWN w })"

text \<open>The common tail of the interface functions: start the operation, report.\<close>

definition initiate ::
    "client \<Rightarrow> (world \<Rightarrow> world option) \<Rightarrow> world \<Rightarrow> (lwftp_results \<times> world) option" where
  "initiate c f w = do {
     (e, w) \<leftarrow> lwftp_tcpip_callback f w;
     exit_with c (if e = ERR_OK then LWFTP_RESULT_INPROGRESS else LWFTP_RESULT_ERR_INTERNAL) w }"

text \<open>A transfer takes a fresh control block for its data connection first.\<close>

definition initiate_transfer ::
    "client \<Rightarrow> (world \<Rightarrow> world option) \<Rightarrow> world \<Rightarrow> (lwftp_results \<times> world) option" where
  "initiate_transfer c f w =
     (let s = sess w
      in if control_state s \<noteq> LWFTP_LOGGED \<or> remote_path s = None \<or> data_pcb s \<noteq> None
         then exit_with c LWFTP_RESULT_ERR_ARGUMENT w
         else let (po, w) = tcp_new w;
                  w = upd_sess (\<lambda>s. s\<lparr>data_pcb := po\<rparr>) w
         in if po = None then exit_with c LWFTP_RESULT_ERR_MEMORY w
            else initiate c f w)"

definition lwftp_retrieve :: "client \<Rightarrow> world \<Rightarrow> (lwftp_results \<times> world) option" where
  "lwftp_retrieve c w = initiate_transfer c (lwftp_start_RETR c) w"

definition lwftp_store :: "client \<Rightarrow> world \<Rightarrow> (lwftp_results \<times> world) option" where
  "lwftp_store c w = initiate_transfer c (lwftp_start_STOR c) w"

definition lwftp_mlsd :: "client \<Rightarrow> world \<Rightarrow> (lwftp_results \<times> world) option" where
  "lwftp_mlsd c w = initiate_transfer c (lwftp_start_MLSD c) w"

definition lwftp_delete :: "client \<Rightarrow> world \<Rightarrow> (lwftp_results \<times> world) option" where
  "lwftp_delete c w =
     (if control_state (sess w) \<noteq> LWFTP_LOGGED \<or> remote_path (sess w) = None \<or> data_pcb (sess w) \<noteq> None
      then exit_with c LWFTP_RESULT_ERR_ARGUMENT w
      else initiate c (lwftp_send_DELE c) w)"

definition lwftp_remove_dir :: "client \<Rightarrow> world \<Rightarrow> (lwftp_results \<times> world) option" where
  "lwftp_remove_dir c w =
     (if control_state (sess w) \<noteq> LWFTP_LOGGED \<or> remote_path (sess w) = None \<or> data_pcb (sess w) \<noteq> None
      then exit_with c LWFTP_RESULT_ERR_ARGUMENT w
      else initiate c (lwftp_send_RMD c) w)"

definition lwftp_change_dir :: "client \<Rightarrow> world \<Rightarrow> (lwftp_results \<times> world) option" where
  "lwftp_change_dir c w =
     (if control_state (sess w) \<noteq> LWFTP_LOGGED \<or> remote_path (sess w) = None \<or> data_pcb (sess w) \<noteq> None
      then exit_with c LWFTP_RESULT_ERR_ARGUMENT w
      else initiate c (lwftp_send_CWD c) w)"

definition lwftp_print_dir :: "client \<Rightarrow> world \<Rightarrow> (lwftp_results \<times> world) option" where
  "lwftp_print_dir c w =
     (if control_state (sess w) \<noteq> LWFTP_LOGGED \<or> data_pcb (sess w) \<noteq> None
      then exit_with c LWFTP_RESULT_ERR_ARGUMENT w
      else initiate c (lwftp_send_PWD c) w)"

definition lwftp_move :: "client \<Rightarrow> world \<Rightarrow> (lwftp_results \<times> world) option" where
  "lwftp_move c w =
     (if control_state (sess w) \<noteq> LWFTP_LOGGED \<or> remote_path (sess w) = None
         \<or> remote_new_path (sess w) = None \<or> data_pcb (sess w) \<noteq> None
      then exit_with c LWFTP_RESULT_ERR_ARGUMENT w
      else initiate c (lwftp_send_RNFR c) w)"

definition lwftp_close :: "world \<Rightarrow> world option" where
  "lwftp_close w =
     (if control_state (sess w) = LWFTP_CLOSED then Some w
      else do {
        (e, w) \<leftarrow> lwftp_tcpip_callback lwftp_send_QUIT w;
        Some (if e \<noteq> ERR_OK then set_state LWFTP_QUIT w else w) })"

end
