(* ===== verification/Ti_File.thy ===== *)
theory Ti_File
  imports Defines
begin

text \<open>
  The calculator's file format as the program writes it before an upload (\<open>util_UploadFile\<close>,
  \<^verbatim>\<open>src/src/utility.c\<close>) and reads it after a download (\<open>ftp_RetrCallback\<close>, \<^verbatim>\<open>src/src/ftp.c\<close>), on
  the file buffer at \<open>FILE_BUFFER\<close>. The buffer is the second half of the screen memory, 76800 bytes,
  and is modelled as a function from offsets.
\<close>

section \<open>The file buffer\<close>

type_synonym mem = "nat \<Rightarrow> byte"

definition poke :: "nat \<Rightarrow> bytes \<Rightarrow> mem \<Rightarrow> mem" where
  "poke i bs m = (\<lambda>k. if i \<le> k \<and> k < i + length bs then bs ! (k - i) else m k)"

definition block :: "mem \<Rightarrow> nat \<Rightarrow> nat \<Rightarrow> bytes" where
  "block m i n = map m [i..<i + n]"

definition peek16 :: "mem \<Rightarrow> nat \<Rightarrow> nat" where
  "peek16 m i = of_le16 (m i) (m (i + 1))"

definition memset0 :: "nat \<Rightarrow> mem \<Rightarrow> mem" where
  "memset0 n m = (\<lambda>k. if k < n then nul else m k)"

lemma poke_outside [cmem]: "k < i \<or> i + length bs \<le> k \<Longrightarrow> poke i bs m k = m k"
  by (auto simp: poke_def)

lemma poke_inside [cmem]: "i \<le> k \<Longrightarrow> k < i + length bs \<Longrightarrow> poke i bs m k = bs ! (k - i)"
  by (simp add: poke_def)

lemma length_block [simp]: "length (block m i n) = n"
  by (simp add: block_def)

lemma block_append: "block m i (a + b) = block m i a @ block m (i + a) b"
  unfolding block_def add.assoc [symmetric] by (subst upt_add_eq_append) simp_all

lemma block_poke_same [cmem]: "n = length bs \<Longrightarrow> block (poke i bs m) i n = bs"
  by (rule nth_equalityI) (simp_all add: block_def poke_def)

lemma block_poke_other [cmem]:
  "i + n \<le> j \<or> j + length bs \<le> i \<Longrightarrow> block (poke j bs m) i n = block m i n"
  by (auto simp: block_def poke_def)

lemma peek16_poke_same [cmem]: "peek16 (poke i (le16 n) m) i = n mod 65536"
  by (simp add: peek16_def poke_def le16_def)

lemma peek16_poke_other [cmem]:
  "i + 2 \<le> j \<or> j + length bs \<le> i \<Longrightarrow> peek16 (poke j bs m) i = peek16 m i"
  by (auto simp: peek16_def poke_def)

section \<open>The checksum\<close>

definition util_ComputeChecksum :: "bytes \<Rightarrow> u16" where
  "util_ComputeChecksum data = foldl (\<lambda>sum b. sum + of_char b) 0 data"

lemma foldl_add_word: "foldl (\<lambda>sum b. sum + of_char b) (s :: u16) data = s + sum_list (map of_char data)"
  by (induction data arbitrary: s) (simp_all add: add.assoc)

lemma checksum_sum: "util_ComputeChecksum data = sum_list (map of_char data)"
  by (simp add: util_ComputeChecksum_def foldl_add_word)

lemma checksum_append: "util_ComputeChecksum (a @ b) = util_ComputeChecksum a + util_ComputeChecksum b"
  by (simp add: checksum_sum)

lemma unat_of_code: "unat (of_nat (code c) :: u16) = code c"
proof -
  have "code c < 65536" using less_trans [OF code_less, of 65536 c] by simp
  then show ?thesis unfolding unat_of_nat by simp
qed

lemma of_char_word_eq: "(of_char a :: u16) = of_char b \<longleftrightarrow> a = b"
  using unat_of_code [of a] unat_of_code [of b] by (metis of_nat_of_char of_char_eq_iff)

section \<open>Writing: the image of a variable\<close>

definition file_header :: bytes where
  "file_header = ''**TI83F*'' @ [CHR 0x1A, CHR 0x0A, CHR 0x00]"

definition file_comment :: bytes where
  "file_comment = ''Uploaded by lwFTP CE'' @ [nul]"

text \<open>
  \<open>util_UploadFile\<close> from the \<open>memset\<close> of the buffer to the checksum. \<open>buf\<close> is the offset in the
  buffer; the flag byte is written, and stepped over, only for an archived variable.
\<close>

definition build_image :: "bytes \<Rightarrow> ti_var \<Rightarrow> mem \<Rightarrow> mem" where
  "build_image name v m =
     (let size = v_size v mod 65536;
          m = memset0 65535 m;
          m = poke 0 file_header m;
          m = poke 11 file_comment m;
          m = poke 53 (le16 (size + 19)) m;
          m = poke 55 (le16 0xD) m;
          m = poke 57 (le16 (size + 2)) m;
          m = poke 59 [char_of (v_type v)] m;
          m = poke 60 (take 8 name) m;
          m = (if v_archived v then poke 69 [CHR 0x80] m else m);
          buf = (if v_archived v then 70 else 69);
          m = poke buf (le16 (size + 2)) m;
          buf = buf + 2;
          m = poke buf (take (2 + size) (v_data v)) m
      in poke (buf + 2 + size) (le16 (unat (util_ComputeChecksum (block m (11 + 42 + 2) (17 + size))))) m)"

definition upload_size :: "ti_var \<Rightarrow> nat" where
  "upload_size v = 11 + 42 + 2 + 17 + v_size v mod 65536 + 4"

section \<open>Reading: what a downloaded image asks for\<close>

record image_fields =
  i_checksum :: nat
  i_stored :: nat
  i_type :: nat
  i_name :: bytes
  i_archived :: bool
  i_size :: nat

definition read_image :: "mem \<Rightarrow> image_fields" where
  "read_image m =
     (let dataSize = peek16 m 53;
          size = peek16 m 70
      in \<lparr>i_checksum = unat (util_ComputeChecksum (block m 55 dataSize)),
          i_stored = peek16 m (72 + size),
          i_type = code (m 59),
          i_name = block m 60 8,
          i_archived = (m 69 = CHR 0x80),
          i_size = size\<rparr>)"

definition image_accepted :: "mem \<Rightarrow> bool" where
  "image_accepted m \<longleftrightarrow> i_checksum (read_image m) = i_stored (read_image m)"

text \<open>The bytes handed to \<open>ti_Write(buf + 2, 1, size - 2, slot)\<close>; the count is a 24-bit \<open>size_t\<close>.\<close>

definition image_data :: "mem \<Rightarrow> bytes" where
  "image_data m = block m 74 (unat (of_nat (i_size (read_image m)) - 2 :: u24))"

section \<open>What an uploaded image holds\<close>

text \<open>A variable the upload can represent: its sizes fit the 16-bit fields, and the library hands
  out its bytes.\<close>

definition var_ok :: "bytes \<Rightarrow> ti_var \<Rightarrow> bool" where
  "var_ok name v \<longleftrightarrow> v_size v + 19 < 65536 \<and> length (v_data v) = v_size v + 2 \<and> v_type v < 256 \<and> 8 \<le> length name"

lemma unat_u16_mod [simp]: "unat (c :: u16) mod 65536 = unat c"
  using unsigned_less [of c, where ?'a = nat] by simp

lemma build_image_fields:
  fixes m :: mem
  assumes "var_ok name v" and "v_archived v"
  defines "M \<equiv> build_image name v m"
  shows "peek16 M 53 = v_size v + 19" and "code (M 59) = v_type v" and "block M 60 8 = take 8 name"
    and "M 69 = CHR 0x80" and "peek16 M 70 = v_size v + 2" and "block M 72 (v_size v + 2) = v_data v"
    and "peek16 M (74 + v_size v) = unat (util_ComputeChecksum (block M 55 (17 + v_size v)))"
proof -
  let ?s = "v_size v"
  have s: "?s < 65536" "?s mod 65536 = ?s" using assms(1) by (auto simp: var_ok_def)
  note ok = assms(1,2) [unfolded var_ok_def]
  note M = M_def [unfolded build_image_def Let_def]
  show "peek16 M 53 = ?s + 19" using ok s by (simp add: M peek16_poke_other peek16_poke_same)
  show "code (M 59) = v_type v" using ok s by (simp add: M poke_def of_char_of)
  show "block M 60 8 = take 8 name" using ok s by (simp add: M block_poke_other block_poke_same)
  show "M 69 = CHR 0x80" using ok s by (simp add: M poke_def)
  show "peek16 M 70 = ?s + 2" using ok s by (simp add: M peek16_poke_other peek16_poke_same)
  show "block M 72 (?s + 2) = v_data v" using ok s by (simp add: M block_poke_other block_poke_same)
  show "peek16 M (74 + ?s) = unat (util_ComputeChecksum (block M 55 (17 + ?s)))"
    using ok s by (simp add: M peek16_poke_same block_poke_other add.commute)
qed

lemma two_bytes_sum: "(of_char a + of_char b :: u16) = 0 \<longleftrightarrow> a = nul \<and> b = nul"
proof -
  have l: "code a + code b < 65536" using code_less [of a] code_less [of b] by linarith
  have "(of_char a + of_char b :: u16) = of_nat (code a + code b)" by (simp add: of_nat_of_char)
  then have "(of_char a + of_char b :: u16) = 0 \<longleftrightarrow> unat (of_nat (code a + code b) :: u16) = 0"
    by (simp add: unat_eq_zero)
  also have "\<dots> \<longleftrightarrow> code a + code b = 0" unfolding unat_of_nat using l by simp
  also have "\<dots> \<longleftrightarrow> a = nul \<and> b = nul"
    using of_char_eq_iff [of a nul] of_char_eq_iff [of b nul] by auto
  finally show ?thesis .
qed

lemma block_2: "block m i 2 = [m i, m (i + 1)]"
  by (simp add: block_def upt_rec)

lemma checksum_2: "util_ComputeChecksum [a, b] = of_char a + of_char b"
  by (simp add: util_ComputeChecksum_def)

lemma archived_image:
  assumes "var_ok name v" and "v_archived v"
  shows "i_name (read_image (build_image name v m)) = take 8 name
     \<and> i_type (read_image (build_image name v m)) = v_type v
     \<and> i_archived (read_image (build_image name v m))
     \<and> i_size (read_image (build_image name v m)) = v_size v + 2
     \<and> image_data (build_image name v m) = drop 2 (v_data v)
     \<and> (image_accepted (build_image name v m) \<longleftrightarrow> drop (v_size v) (v_data v) = [nul, nul])"
proof -
  let ?M = "build_image name v m" and ?s = "v_size v"
  note f = build_image_fields [OF assms, of m]
  have s: "?s + 19 < 65536" "length (v_data v) = ?s + 2" using assms by (auto simp: var_ok_def)
  have d: "block ?M 72 2 @ block ?M 74 ?s = v_data v"
    using f(6) block_append [of ?M 72 2 ?s] by (simp add: add.commute)
  have t: "block ?M 72 ?s @ block ?M (72 + ?s) 2 = v_data v" using f(6) block_append [of ?M 72 ?s 2] by simp
  have "block ?M 74 ?s = drop 2 (v_data v)" using d by (metis append_eq_conv_conj length_block)
  moreover have "unat (of_nat (?s + 2) - 2 :: u24) = ?s"
    using s(1) by (simp add: unat_of_nat)
  ultimately have data: "image_data ?M = drop 2 (v_data v)"
    using f(5) by (simp add: image_data_def read_image_def Let_def)
  have tail: "drop ?s (v_data v) = [?M (72 + ?s), ?M (73 + ?s)]"
    using t block_2 [of ?M "72 + ?s"] by (metis append_eq_conv_conj length_block add.assoc numeral_plus_one add.commute semiring_norm(5))
  have "util_ComputeChecksum (block ?M 55 (17 + ?s + 2))
     = util_ComputeChecksum (block ?M 55 (17 + ?s)) + (of_char (?M (72 + ?s)) + of_char (?M (73 + ?s)))"
    using block_append [of ?M 55 "17 + ?s" 2] block_2 [of ?M "72 + ?s"]
    by (simp add: checksum_append checksum_2)
  then have "image_accepted ?M \<longleftrightarrow> (of_char (?M (72 + ?s)) + of_char (?M (73 + ?s)) :: u16) = 0"
    using f(1,5,7) by (simp add: image_accepted_def read_image_def Let_def add.commute flip: word_unat_eq_iff)
  with f data tail show ?thesis
    by (simp add: two_bytes_sum read_image_def Let_def)
qed

text \<open>For a variable in RAM the upload does not step over the flag byte, so every later field of the
  image lies one byte early.\<close>

lemma ram_image:
  assumes "var_ok name v" and "\<not> v_archived v"
  shows "i_name (read_image (build_image name v m)) = take 8 name
     \<and> i_type (read_image (build_image name v m)) = v_type v
     \<and> (i_archived (read_image (build_image name v m)) \<longleftrightarrow> (v_size v + 2) mod 256 = 128)
     \<and> i_size (read_image (build_image name v m)) = (v_size v + 2) div 256 + 256 * code (v_data v ! 0)"
proof -
  let ?M = "build_image name v m"
  have s: "v_size v mod 65536 = v_size v" "(v_size v + 2) div 256 < 256" using assms by (auto simp: var_ok_def)
  note M = build_image_def Let_def
  have "?M 69 = char_of (v_size v + 2)" "?M 70 = char_of ((v_size v + 2) div 256)" "?M 71 = v_data v ! 0"
    using assms s by (auto simp: M poke_def var_ok_def le16_def)
  moreover have "char_of (v_size v + 2) = CHR 0x80 \<longleftrightarrow> (v_size v + 2) mod 256 = 128"
    using of_char_eq_iff [of "char_of (v_size v + 2)" "CHR 0x80", where ?'a = nat] by (simp add: of_char_of)
  moreover have "code (?M 59) = v_type v" using assms s by (simp add: M poke_def of_char_of var_ok_def)
  moreover have "block ?M 60 8 = take 8 name"
    using assms s by (simp add: M var_ok_def block_poke_other block_poke_same)
  ultimately show ?thesis
    using s by (simp add: read_image_def Let_def peek16_def of_le16_def of_char_of)
qed

text \<open>C32. What a download makes of an uploaded image. The name and the type always come back. For an
  archived variable so do the archive flag, the size and the data, but the download accepts the
  image exactly when the last two bytes of the variable are zero, because the upload's checksum
  leaves them out. For a variable in RAM the upload leaves out the flag byte: the download reads
  the low byte of the size as the archive flag, and a size made of the high byte and the
  variable's first byte.\<close>

theorem upload_then_download:
  assumes "var_ok name v"
  shows "i_name (read_image (build_image name v m)) = take 8 name
     \<and> i_type (read_image (build_image name v m)) = v_type v
     \<and> (v_archived v \<longrightarrow>
          i_archived (read_image (build_image name v m))
          \<and> i_size (read_image (build_image name v m)) = v_size v + 2
          \<and> image_data (build_image name v m) = drop 2 (v_data v)
          \<and> (image_accepted (build_image name v m) \<longleftrightarrow> drop (v_size v) (v_data v) = [nul, nul]))
     \<and> (\<not> v_archived v \<longrightarrow>
          (i_archived (read_image (build_image name v m)) \<longleftrightarrow> (v_size v + 2) mod 256 = 128)
          \<and> i_size (read_image (build_image name v m)) = (v_size v + 2) div 256 + 256 * code (v_data v ! 0))"
proof (cases "v_archived v")
  case True
  with archived_image [OF assms True, of m] show ?thesis by simp
next
  case False
  with ram_image [OF assms False, of m] show ?thesis by simp
qed

theorem upload_then_download_witness:
  "\<not> image_accepted (build_image ''ABCDEFGH''
      \<lparr>v_type = 21, v_size = 2, v_data = [CHR 0x02, nul, CHR ''h'', CHR ''i''], v_archived = True\<rparr> (\<lambda>_. nul))
   \<and> i_size (read_image (build_image ''ABCDEFGH''
      \<lparr>v_type = 21, v_size = 2, v_data = [CHR 0x02, nul, CHR ''h'', CHR ''i''], v_archived = False\<rparr> (\<lambda>_. nul))) = 512"
  using upload_then_download [of "''ABCDEFGH''"
      "\<lparr>v_type = 21, v_size = 2, v_data = [CHR 0x02, nul, CHR ''h'', CHR ''i''], v_archived = True\<rparr>" "\<lambda>_. nul"]
    upload_then_download [of "''ABCDEFGH''"
      "\<lparr>v_type = 21, v_size = 2, v_data = [CHR 0x02, nul, CHR ''h'', CHR ''i''], v_archived = False\<rparr>" "\<lambda>_. nul"]
  by (simp add: var_ok_def)

lemma block_fun_upd:
  assumes "i \<le> k" and "k < i + n"
  shows "block (m(k := b)) i n = block m i (k - i) @ [b] @ block m (Suc k) (i + n - Suc k)"
proof -
  have n: "n = (k - i) + (1 + (i + n - Suc k))" using assms by simp
  have "block (m(k := b)) i n = block (m(k := b)) i (k - i) @ block (m(k := b)) k 1 @ block (m(k := b)) (k + 1) (i + n - Suc k)"
    using assms by (subst n, subst block_append, subst block_append) simp
  moreover have "block (m(k := b)) i (k - i) = block m i (k - i)" "block (m(k := b)) k 1 = [b]"
    "block (m(k := b)) (k + 1) (i + n - Suc k) = block m (Suc k) (i + n - Suc k)"
    using assms by (auto simp: block_def)
  ultimately show ?thesis by simp
qed

text \<open>C33. A download notices the corruption of a single byte of what the checksum covers, from the
  start of the variable entry (byte 55) to the end of the data, the two bytes of the entry's second
  length field (70 and 71) excepted: an accepted image whose two length fields agree is not
  accepted any more when one such byte is changed. A changed length field moves the place the
  checksum is read from, and bytes before the entry are not looked at, so neither is covered.\<close>

theorem corrupted_byte_rejected:
  assumes "image_accepted m" and "peek16 m 53 = peek16 m 70 + 17"
    and "55 \<le> k" and "k \<notin> {70, 71}" and "k < 72 + peek16 m 70" and "b \<noteq> m k"
  shows "\<not> image_accepted (m(k := b))"
proof
  let ?n = "peek16 m 53" and ?m = "m(k := b)"
  let ?a = "block m 55 (k - 55)" and ?z = "block m (Suc k) (55 + ?n - Suc k)"
  have k: "55 \<le> k" "k < 55 + ?n" using assms by auto
  have same: "peek16 ?m 53 = ?n" "peek16 ?m 70 = peek16 m 70"
    "peek16 ?m (72 + peek16 m 70) = peek16 m (72 + peek16 m 70)"
    using assms(3-5) by (auto simp: peek16_def)
  have "block m 55 ?n = ?a @ [m k] @ ?z" using block_fun_upd [OF k, of m "m k"] by simp
  moreover have "block ?m 55 ?n = ?a @ [b] @ ?z" using block_fun_upd [OF k] .
  moreover assume "image_accepted ?m"
  ultimately have "util_ComputeChecksum (?a @ [m k] @ ?z) = util_ComputeChecksum (?a @ [b] @ ?z)"
    using assms(1) same by (simp add: image_accepted_def read_image_def Let_def word_unat_eq_iff)
  then show False using assms(6) by (simp add: checksum_sum of_char_word_eq)
qed

definition small_image :: mem where
  "small_image = poke 74 (le16 5) (poke 72 [CHR 0x03, nul] (poke 70 (le16 2) (poke 53 (le16 19) (\<lambda>_. nul))))"

theorem corrupted_byte_rejected_witness:
  "image_accepted small_image \<and> \<not> image_accepted (small_image(72 := CHR 0x04))
   \<and> \<not> image_accepted (small_image(59 := CHR 0x15))"
proof -
  have "image_accepted small_image" by code_simp
  moreover have "peek16 small_image 70 = 2" "peek16 small_image 53 = 19" "small_image 72 = CHR 0x03" "small_image 59 = nul"
    by code_simp+
  ultimately show ?thesis using corrupted_byte_rejected [of small_image 72 "CHR 0x04"]
      corrupted_byte_rejected [of small_image 59 "CHR 0x15"] by simp
qed

text \<open>A file buffer that nothing was received into is accepted as a valid file, and asks for
  16777214 bytes to be written, because \<open>size - 2\<close> wraps around.\<close>

theorem empty_buffer_accepted:
  "image_accepted (\<lambda>_. nul) \<and> length (image_data (\<lambda>_. nul)) = 2 ^ 24 - 2"
proof -
  have "util_ComputeChecksum (block (\<lambda>_. nul) 55 0) = 0" by (simp add: checksum_sum block_def)
  then show ?thesis by (simp add: image_accepted_def image_data_def read_image_def peek16_def of_le16_def)
qed

end
