(* ===== verification/Client.thy ===== *)
theory Client
  imports Lwftp Ti_File
begin

text \<open>
  The FTP client: the call-backs of \<^verbatim>\<open>src/src/ftp.c\<close> and the file operations of
  \<^verbatim>\<open>src/src/utility.c\<close>. The call-backs start new engine operations and the engine calls the
  call-backs, so the client is built by levels over an arbitrary client at the bottom:
  \<open>client_above c (Suc n)\<close> runs the call-backs with \<open>client_above c n\<close> underneath. From two levels on
  the bottom is never reached (\<open>Client_Depth\<close>), so \<open>ftp_client\<close>, two levels over some client, is the
  program's own recursion.
\<close>

section \<open>Small state changes\<close>

definition set_busy :: "bool \<Rightarrow> world \<Rightarrow> world" where
  "set_busy b = upd_app (\<lambda>a. a\<lparr>busy := b\<rparr>)"

definition set_done :: "done_cb option \<Rightarrow> world \<Rightarrow> world" where
  "set_done f = upd_sess (\<lambda>s. s\<lparr>done_fn := f\<rparr>)"

definition set_sink :: "sink_cb \<Rightarrow> world \<Rightarrow> world" where
  "set_sink f = upd_sess (\<lambda>s. s\<lparr>data_sink := Some f\<rparr>)"

definition fail_with :: "lwftp_results \<Rightarrow> world \<Rightarrow> world" where
  "fail_with r = upd_app (\<lambda>a. a\<lparr>ftpResult := r, busy := False\<rparr>)"

definition menu_PrintMessage :: "bytes \<Rightarrow> world \<Rightarrow> world" where
  "menu_PrintMessage m = do_call (Print_message m)"

definition mark_remote :: "world \<Rightarrow> world" where
  "mark_remote = upd_app (\<lambda>a. a\<lparr>dirty := (dirty a)\<lparr>remote_dirty := True\<rparr>\<rparr>)"

definition mark_local :: "world \<Rightarrow> world" where
  "mark_local = upd_app (\<lambda>a. a\<lparr>dirty := (dirty a)\<lparr>local_dirty := True\<rparr>\<rparr>)"

definition mark_path :: "world \<Rightarrow> world" where
  "mark_path = upd_app (\<lambda>a. a\<lparr>dirty := (dirty a)\<lparr>path_dirty := True\<rparr>\<rparr>)"

section \<open>Paths\<close>

text \<open>\<open>app.path\<close> with a slash and the eight-character name of a file appended, then the extension.\<close>

definition append_name :: "bytes \<Rightarrow> bytes \<Rightarrow> bytes option" where
  "append_name buf name = (if strlen buf < length buf
     then do { b \<leftarrow> store_bytes (strlen buf) [slash] buf; store_bytes (strlen buf + 1) (take 9 name) b }
     else None)"

definition append_ext :: "file_t \<Rightarrow> bytes \<Rightarrow> bytes option" where
  "append_ext f buf =
     (let n = strlen buf
      in do {
        b \<leftarrow> store_bytes n (''.8x'' @ [nul]) buf;
        b \<leftarrow> store_bytes (n + 3) [if f_type f = TYPE_APPVAR then CHR ''v'' else CHR ''p''] b;
        store_bytes (n + 4) [nul] b })"

definition append_file :: "file_t \<Rightarrow> world \<Rightarrow> world option" where
  "append_file f w = do {
     b \<leftarrow> append_name (path (app w)) (f_name f);
     b \<leftarrow> append_ext f b;
     Some (upd_app (\<lambda>a. a\<lparr>path := b\<rparr>) w) }"

text \<open>\<open>*strrchr(app.path, '/') = '\0'\<close>\<close>

definition cut_path :: "world \<Rightarrow> world option" where
  "cut_path w = do {
     i \<leftarrow> strrchr (path (app w)) slash;
     b \<leftarrow> store_bytes i [nul] (path (app w));
     Some (upd_app (\<lambda>a. a\<lparr>path := b\<rparr>) w) }"

text \<open>The selection after a file has gone from a column.\<close>

definition forget_selected :: "world \<Rightarrow> world" where
  "forget_selected = upd_app (\<lambda>a.
     let k = remoteColumn a;
         a = a\<lparr>total := (total a)(k := total a k - 1)\<rparr>
     in if total a k \<noteq> 0 \<and> selected a k = total a k
        then a\<lparr>selected := (selected a)(k := selected a k - 1)\<rparr> else a)"

section \<open>Listing\<close>

definition remote_type :: "bytes \<Rightarrow> bytes \<Rightarrow> ftype" where
  "remote_type name ty =
     (if strncmp_eq ty ''dir'' 3 then TYPE_DIR
      else let n = strlen name
           in if 4 \<le> n \<and> strncmp_eq (drop (n - 4) name) ''.8x'' 3
              then if name ! (n - 1) = CHR ''p'' then TYPE_PROG
                   else if name ! (n - 1) = CHR ''v'' then TYPE_APPVAR else TYPE_UNKNOWN
              else TYPE_UNKNOWN)"

definition entry_name :: "ftype \<Rightarrow> bytes \<Rightarrow> bytes" where
  "entry_name k name = takeWhile (\<lambda>c. k = TYPE_DIR \<or> c \<noteq> CHR ''.'') (take 8 (cstr name))"

definition ftp_AddRemoteFile :: "world \<Rightarrow> world option" where
  "ftp_AddRemoteFile w =
     (let line = rxBuf (app w); t = unat (total (app w) True)
      in case (strchr line (CHR '' ''), strstr line ''type='') of
           (Some name, Some ty) \<Rightarrow>
             if MAX_REMOTE_FILES \<le> t then Some w
             else if length (remote_files w) \<le> t then None
             else let k = remote_type (drop 1 name) (drop 5 ty);
                      old = remote_files w ! t;
                      chars = entry_name k (drop 1 name)
                  in if k = TYPE_UNKNOWN
                     then Some (w\<lparr>remote_files := (remote_files w)[t := old\<lparr>f_type := k\<rparr>]\<rparr>)
                     else Some (upd_app (\<lambda>a. a\<lparr>total := (total a)(True := total a True + 1)\<rparr>)
                       (w\<lparr>remote_files := (remote_files w)
                            [t := \<lparr>f_type = k, f_name = chars @ drop (length chars) (f_name old)\<rparr>]\<rparr>))
         | _ \<Rightarrow> Some w)"

fun list_sink :: "bytes \<Rightarrow> world \<Rightarrow> world option" where
  "list_sink [] w = Some w"
| "list_sink (c # cs) w =
     (let off = rxOffset (app w); buf = rxBuf (app w)
      in if c = lf then do {
           let off = (if off \<noteq> 0 \<and> buf ! (off - 1) = cr then off - 1 else off);
           b \<leftarrow> store_bytes off [nul] buf;
           w \<leftarrow> ftp_AddRemoteFile (upd_app (\<lambda>a. a\<lparr>rxBuf := b, rxOffset := off\<rparr>) w);
           list_sink cs (upd_app (\<lambda>a. a\<lparr>rxOffset := 0\<rparr>) w) }
         else if off < RX_BUF_SIZE then do {
           b \<leftarrow> store_bytes off [c] buf;
           list_sink cs (upd_app (\<lambda>a. a\<lparr>rxBuf := b, rxOffset := off + 1\<rparr>) w) }
         else Some w)"

definition ftp_ListDataSink :: "bytes option \<Rightarrow> world \<Rightarrow> world option" where
  "ftp_ListDataSink ptr w = (case ptr of None \<Rightarrow> Some w
     | Some q \<Rightarrow> map_option mark_remote (list_sink q w))"

definition util_GetRemoteFiles :: "client \<Rightarrow> world \<Rightarrow> world option" where
  "util_GetRemoteFiles c w = do {
     let w = set_done (Some ListCallback) (set_sink ListDataSink (set_busy True w));
     let w = upd_app (\<lambda>a. a\<lparr>rxOffset := 0, total := (total a)(True := 0),
               rxBuf := replicate (RX_BUF_SIZE + 2) nul\<rparr>) w;
     let w = w\<lparr>remote_files := replicate MAX_REMOTE_FILES zero_file\<rparr>;
     (r, w) \<leftarrow> lwftp_mlsd c w;
     Some w }"

section \<open>The working directory\<close>

definition ftp_PwdDataSink :: "bytes option \<Rightarrow> world \<Rightarrow> world option" where
  "ftp_PwdDataSink ptr w = (case ptr of None \<Rightarrow> Some w
     | Some q \<Rightarrow> map_option mark_path
         (case memchr q dquote of
            None \<Rightarrow> Some w
          | Some i \<Rightarrow>
              let q' = drop (i + 1) q
              in case memchr q' dquote of
                   None \<Rightarrow> Some w
                 | Some n \<Rightarrow>
                     let copylen = (if RX_BUF_SIZE < n then RX_BUF_SIZE else n)
                     in do {
                       b \<leftarrow> store_bytes 0 (take copylen q') (path (app w));
                       b \<leftarrow> store_bytes copylen [nul] b;
                       Some (upd_app (\<lambda>a. a\<lparr>path := b, rxOffset := copylen\<rparr>) w) }))"

definition util_GetDir :: "client \<Rightarrow> world \<Rightarrow> world option" where
  "util_GetDir c w = do {
     let w = set_done (Some PwdCallback) (set_sink PwdDataSink (set_busy True w));
     let w = upd_app (\<lambda>a. a\<lparr>rxOffset := 0, path := replicate (RX_BUF_SIZE + 2) nul\<rparr>) w;
     (r, w) \<leftarrow> lwftp_print_dir c w;
     Some w }"

definition util_ChangeDir :: "client \<Rightarrow> world \<Rightarrow> world option" where
  "util_ChangeDir c w = do {
     let w = upd_app (\<lambda>a. a\<lparr>selected := (selected a)(True := 0), start := (start a)(True := 0)\<rparr>)
               (set_busy True w);
     let w = set_done (Some CwdCallback) (upd_sess (\<lambda>s. s\<lparr>remote_path := Some AppPath\<rparr>) w);
     (r, w) \<leftarrow> lwftp_change_dir c w;
     Some w }"

section \<open>Local files\<close>

definition OS_TYPE_PRGM :: nat where "OS_TYPE_PRGM = 0x05"
definition OS_TYPE_PROT_PRGM :: nat where "OS_TYPE_PROT_PRGM = 0x06"
definition OS_TYPE_APPVAR :: nat where "OS_TYPE_APPVAR = 0x15"

text \<open>The eight bytes copied from a VAT name. \<open>char\<close> is signed on this target, so a first byte below
  \<open>'A'\<close> (a hidden name) or from 128 on is moved up by 64, modulo 256.\<close>

definition vat_name :: "bytes \<Rightarrow> bytes" where
  "vat_name name =
     (let n = take 8 (name @ replicate 8 nul)
      in (if code (hd n) < 65 \<or> 128 \<le> code (hd n) then char_of (code (hd n) + 64) else hd n) # tl n @ [nul])"

fun scan_vat :: "(bytes \<times> nat) list \<Rightarrow> file_t list \<Rightarrow> nat \<Rightarrow> (file_t list \<times> nat) option" where
  "scan_vat [] tbl i = Some (tbl, i)"
| "scan_vat ((name, ty) # vs) tbl i =
     (if deref name = CHR ''!'' \<or> deref name = CHR ''#'' then scan_vat vs tbl i
      else let k = (if ty = OS_TYPE_APPVAR then TYPE_APPVAR
                    else if ty = OS_TYPE_PROT_PRGM \<or> ty = OS_TYPE_PRGM then TYPE_PROG else TYPE_UNKNOWN)
           in if k = TYPE_UNKNOWN then scan_vat vs tbl i
              else if length tbl \<le> i then None
              else scan_vat vs (tbl[i := \<lparr>f_type = k, f_name = vat_name name\<rparr>]) (i + 1))"

definition util_GetLocalFiles :: "world \<Rightarrow> world option" where
  "util_GetLocalFiles w = do {
     (tbl, i) \<leftarrow> scan_vat (e_detect (envr w) (calls w)) (replicate MAX_LOCAL_FILES zero_file) 0;
     Some (mark_local (upd_app (\<lambda>a. a\<lparr>total := (total a)(False := of_nat i)\<rparr>) (w\<lparr>local_files := tbl\<rparr>))) }"

definition selected_file :: "bool \<Rightarrow> world \<Rightarrow> file_t option" where
  "selected_file k w =
     (let i = unat (selected (app w) k); tbl = (if k then remote_files w else local_files w)
      in if i < length tbl then Some (tbl ! i) else None)"

definition os_type :: "file_t \<Rightarrow> nat" where
  "os_type f = (if f_type f = TYPE_APPVAR then OS_TYPE_APPVAR else OS_TYPE_PRGM)"

section \<open>The user's file operations\<close>

definition util_DeleteFile :: "client \<Rightarrow> world \<Rightarrow> world option" where
  "util_DeleteFile c w =
     (if \<not> remoteColumn (app w)
      then do {
        f \<leftarrow> selected_file False w;
        w \<leftarrow> util_GetLocalFiles (do_call (Ti_DeleteVar (cstr (f_name f)) (os_type f)) w);
        Some (forget_selected w) }
      else do {
        f \<leftarrow> selected_file True w;
        if f_type f = TYPE_DIR then Some w
        else do {
          w \<leftarrow> append_file f (set_busy True w);
          let w = set_done (Some DelCallback) (upd_sess (\<lambda>s. s\<lparr>remote_path := Some AppPath\<rparr>) w);
          (r, w) \<leftarrow> lwftp_delete c w;
          Some (forget_selected w) } })"

text \<open>\<open>input\<close> is the static buffer of \<open>util_MoveFile\<close>. The keys the user presses end with one that
  leaves \<open>menu_StringInput\<close>: a Clear at the latest. Its return value is not looked at.\<close>

definition move_text :: "world \<Rightarrow> bytes option" where
  "move_text w =
     (case menu_StringInput (e_getchar (envr w)) (e_keys (envr w) (calls w) @ [SClear])
             (replicate (INPUT_BUF_SIZE * 2) nul) of
        Entered r b \<Rightarrow> Some b | _ \<Rightarrow> None)"

definition util_MoveFile :: "client \<Rightarrow> world \<Rightarrow> world option" where
  "util_MoveFile c w =
     (if \<not> remoteColumn (app w) then Some w
      else do {
        f \<leftarrow> selected_file True w;
        if f_type f = TYPE_DIR then Some w
        else do {
          w \<leftarrow> append_file f w;
          let w = upd_sess (\<lambda>s. s\<lparr>remote_path := Some AppPath\<rparr>) w;
          t \<leftarrow> move_text w;
          if deref t = nul then Some (w\<lparr>move_input := t\<rparr>)
          else do {
            t \<leftarrow> (if t ! (strlen t - 1) = slash
                  then do { b \<leftarrow> store_bytes (strlen t) (take 9 (f_name f)) t; append_ext f b }
                  else Some t);
            let w = w\<lparr>move_input := t\<rparr>;
            let w = set_done (Some MoveCallback) (upd_sess (\<lambda>s. s\<lparr>remote_new_path := Some MoveInput\<rparr>) w);
            (r, w) \<leftarrow> lwftp_move c (set_busy True w);
            Some w } } })"

text \<open>An upload up to its waiting loop, and what follows the loop.\<close>

definition util_UploadFile_begin :: "client \<Rightarrow> world \<Rightarrow> world option" where
  "util_UploadFile_begin c w =
     (if remoteColumn (app w) then Some w
      else do {
        f \<leftarrow> selected_file False w;
        w \<leftarrow> append_file f (menu_PrintMessage ''Uploading file...'' w);
        let w = upd_sess (\<lambda>s. s\<lparr>remote_path := Some AppPath\<rparr>) w;
        let w = do_call (Ti_OpenVar (cstr (f_name f)) ''r'' (os_type f)) w;
        let v = e_var (envr w) (calls w) (cstr (f_name f)) (os_type f);
        let w = do_call Ti_Close (w\<lparr>file_buffer := build_image (f_name f) v (file_buffer w)\<rparr>);
        let w = upd_app (\<lambda>a. a\<lparr>txSize := upload_size v, txOffset := 0, busy := True\<rparr>) w;
        let w = set_done (Some StorCallback) (upd_sess (\<lambda>s. s\<lparr>data_source := Some StorDataSource\<rparr>) w);
        (r, w) \<leftarrow> lwftp_store c w;
        Some w })"

definition util_UploadFile_end :: "world \<Rightarrow> world" where
  "util_UploadFile_end = upd_app (\<lambda>a. a\<lparr>dirty := ALL_DIRTY\<rparr>)"

definition util_DownloadFile_begin :: "client \<Rightarrow> world \<Rightarrow> world option" where
  "util_DownloadFile_begin c w =
     (if \<not> remoteColumn (app w) then Some w
      else do {
        f \<leftarrow> selected_file True w;
        w \<leftarrow> append_file f (menu_PrintMessage ''Downloading file...'' w);
        let w = upd_sess (\<lambda>s. s\<lparr>remote_path := Some AppPath\<rparr>) w;
        let w = w\<lparr>file_buffer := memset0 65535 (file_buffer w)\<rparr>;
        let w = upd_app (\<lambda>a. a\<lparr>rxOffset := 0, busy := True\<rparr>) w;
        let w = set_done (Some RetrCallback) (set_sink RetrDataSink w);
        (r, w) \<leftarrow> lwftp_retrieve c w;
        Some w })"

definition util_DownloadFile_end :: "world \<Rightarrow> world option" where
  "util_DownloadFile_end w = do {
     w \<leftarrow> cut_path w;
     Some (set_done None (upd_app (\<lambda>a. a\<lparr>dirty := ALL_DIRTY\<rparr>) w)) }"

section \<open>The call-backs\<close>

definition ftp_ConnectCallback :: "client \<Rightarrow> lwftp_results \<Rightarrow> world \<Rightarrow> world option" where
  "ftp_ConnectCallback c r w =
     (if r = LWFTP_RESULT_INPROGRESS then Some w
      else if r \<noteq> LWFTP_RESULT_LOGGED then do {
        w \<leftarrow> lwftp_close (upd_app (\<lambda>a. a\<lparr>ftpResult := r\<rparr>) w);
        Some (set_busy False w) }
      else util_GetRemoteFiles c (upd_app (\<lambda>a. a\<lparr>ftpStarted := True\<rparr>) (menu_PrintMessage ''Logged in'' w)))"

definition ftp_ListCallback :: "client \<Rightarrow> lwftp_results \<Rightarrow> world \<Rightarrow> world option" where
  "ftp_ListCallback c r w =
     (if r = LWFTP_RESULT_INPROGRESS then Some w
      else if r \<noteq> LWFTP_RESULT_OK then Some (fail_with r w)
      else util_GetDir c w)"

definition ftp_PwdCallback :: "lwftp_results \<Rightarrow> world \<Rightarrow> world option" where
  "ftp_PwdCallback r w =
     (if r = LWFTP_RESULT_INPROGRESS then Some w
      else if r \<noteq> LWFTP_RESULT_OK then Some (fail_with r w)
      else Some (set_busy False w))"

definition ftp_CwdCallback :: "client \<Rightarrow> lwftp_results \<Rightarrow> world \<Rightarrow> world option" where
  "ftp_CwdCallback c r w =
     (if r = LWFTP_RESULT_INPROGRESS then Some w
      else if r \<noteq> LWFTP_RESULT_OK then Some (fail_with r w)
      else util_GetRemoteFiles c (mark_path w))"

definition ftp_DelCallback :: "client \<Rightarrow> lwftp_results \<Rightarrow> world \<Rightarrow> world option" where
  "ftp_DelCallback c r w =
     (if r = LWFTP_RESULT_INPROGRESS then Some w
      else if r \<noteq> LWFTP_RESULT_OK then Some (fail_with r w)
      else do { w \<leftarrow> cut_path w; util_GetRemoteFiles c w })"

definition ftp_MoveCallback :: "client \<Rightarrow> lwftp_results \<Rightarrow> world \<Rightarrow> world option" where
  "ftp_MoveCallback c r w =
     (if r = LWFTP_RESULT_INPROGRESS then Some w
      else if r \<noteq> LWFTP_RESULT_OK then Some (fail_with r w)
      else do { w \<leftarrow> cut_path w; util_GetRemoteFiles c (forget_selected w) })"

definition ftp_StorDataSource :: "bool \<Rightarrow> nat \<Rightarrow> world \<Rightarrow> bytes \<times> world" where
  "ftp_StorDataSource pptr maxlen w =
     (let a = app w;
          off = (if pptr then txOffset a else txOffset a + maxlen);
          off = (if txSize a < off then txSize a else off);
          w = upd_app (\<lambda>a. a\<lparr>txOffset := off\<rparr>) w
      in if \<not> pptr \<or> maxlen = 0 \<or> off = txSize a then ([], w)
         else (block (file_buffer w) off (min maxlen (txSize a - off)), w))"

definition ftp_StorCallback :: "client \<Rightarrow> lwftp_results \<Rightarrow> world \<Rightarrow> world option" where
  "ftp_StorCallback c r w =
     (if r = LWFTP_RESULT_INPROGRESS then Some w
      else do {
        w \<leftarrow> cut_path w;
        if r \<noteq> LWFTP_RESULT_OK then Some (fail_with r w) else util_GetRemoteFiles c w })"

definition ftp_RetrDataSink :: "bytes option \<Rightarrow> world \<Rightarrow> world" where
  "ftp_RetrDataSink ptr w = (case ptr of None \<Rightarrow> w
     | Some q \<Rightarrow>
         let off = rxOffset (app w);
             len = (if 65535 < off + length q then 65535 - off else length q)
         in upd_app (\<lambda>a. a\<lparr>rxOffset := off + len\<rparr>)
              (w\<lparr>file_buffer := poke off (take len q) (file_buffer w)\<rparr>))"

text \<open>
  A file with a wrong checksum is reported, and the call-back waits for a key, servicing the
  network (\<open>Wait_any_key\<close>). Nothing follows the wait, neither in the call-back nor in the engine
  functions that called it, and the session is already back in \<open>LWFTP_LOGGED\<close>: network events
  during the wait find the state this function returns, and are steps of their own (\<open>System\<close>).
\<close>

definition ftp_RetrCallback :: "lwftp_results \<Rightarrow> world \<Rightarrow> world option" where
  "ftp_RetrCallback r w =
     (if r = LWFTP_RESULT_INPROGRESS then Some w
      else let w = set_busy False w
      in if r \<noteq> LWFTP_RESULT_OK then Some (upd_app (\<lambda>a. a\<lparr>ftpResult := r\<rparr>) w)
         else let m = file_buffer w; f = read_image m
         in if \<not> image_accepted m then Some (do_call Wait_any_key (menu_PrintMessage ''Invalid checksum'' w))
            else let w = do_call (Ti_OpenVar (cstr (i_name f)) ''w'' (i_type f)) w;
                     w = do_call (Ti_Write (image_data m)) w;
                     w = do_call (Ti_SetArchiveStatus (i_archived f)) w
                 in util_GetLocalFiles (do_call Ti_Close w))"

section \<open>The client, tied together\<close>

definition ftp_done :: "client \<Rightarrow> done_cb \<Rightarrow> lwftp_results \<Rightarrow> world \<Rightarrow> world option" where
  "ftp_done c f r w = (case f of
       ConnectCallback \<Rightarrow> ftp_ConnectCallback c r w
     | ListCallback \<Rightarrow> ftp_ListCallback c r w
     | PwdCallback \<Rightarrow> ftp_PwdCallback r w
     | CwdCallback \<Rightarrow> ftp_CwdCallback c r w
     | DelCallback \<Rightarrow> ftp_DelCallback c r w
     | MoveCallback \<Rightarrow> ftp_MoveCallback c r w
     | StorCallback \<Rightarrow> ftp_StorCallback c r w
     | RetrCallback \<Rightarrow> ftp_RetrCallback r w)"

definition ftp_sink :: "sink_cb \<Rightarrow> bytes option \<Rightarrow> world \<Rightarrow> world option" where
  "ftp_sink f ptr w = (case f of
       ListDataSink \<Rightarrow> ftp_ListDataSink ptr w
     | PwdDataSink \<Rightarrow> ftp_PwdDataSink ptr w
     | RetrDataSink \<Rightarrow> Some (ftp_RetrDataSink ptr w))"

definition ftp_source :: "source_cb \<Rightarrow> bool \<Rightarrow> nat \<Rightarrow> world \<Rightarrow> (bytes \<times> world) option" where
  "ftp_source f pptr maxlen w = Some (ftp_StorDataSource pptr maxlen w)"

primrec client_above :: "client \<Rightarrow> nat \<Rightarrow> client" where
  "client_above c 0 = c"
| "client_above c (Suc n) =
     \<lparr>call_done = ftp_done (client_above c n), call_sink = ftp_sink, call_source = ftp_source\<rparr>"

definition no_client :: client where
  "no_client = \<lparr>call_done = (\<lambda>f r w. None), call_sink = (\<lambda>f p w. None), call_source = (\<lambda>f b n w. None)\<rparr>"

abbreviation client_at :: "nat \<Rightarrow> client" where
  "client_at \<equiv> client_above no_client"

definition ftp_client :: client where
  "ftp_client = client_at 2"

end
