(* ===== verification/Client_Depth.thy ===== *)
theory Client_Depth
  imports Client
begin

text \<open>
  How deep engine and client call each other. An engine function only reports synchronously that
  an operation is in progress or has failed, and on such a report no call-back starts another
  operation. So with two levels the bottom is never called: whatever client stands there, and
  however many levels more there are, the result is the same client.
\<close>

definition quiet :: "lwftp_results \<Rightarrow> bool" where
  "quiet r \<longleftrightarrow> r \<noteq> LWFTP_RESULT_OK \<and> r \<noteq> LWFTP_RESULT_LOGGED"

lemma quiet_simps [simp]:
  "quiet LWFTP_RESULT_INPROGRESS" "quiet LWFTP_RESULT_ERR_ARGUMENT" "quiet LWFTP_RESULT_ERR_MEMORY"
  "quiet LWFTP_RESULT_ERR_INTERNAL"
  by (simp_all add: quiet_def)

text \<open>Two clients agree where they answer quiet results alike.\<close>

definition agree :: "client \<Rightarrow> client \<Rightarrow> bool" where
  "agree c d \<longleftrightarrow> (\<forall>f r w. quiet r \<longrightarrow> call_done c f r w = call_done d f r w)"

lemma ftp_done_quiet: "quiet r \<Longrightarrow> ftp_done c f r w = ftp_done d f r w"
  by (cases f) (auto simp: ftp_done_def quiet_def ftp_ConnectCallback_def ftp_ListCallback_def
      ftp_CwdCallback_def ftp_DelCallback_def ftp_MoveCallback_def ftp_StorCallback_def)

lemma agree_finish: "agree c d \<Longrightarrow> quiet r \<Longrightarrow> finish c r w = finish d r w"
  by (simp add: finish_def agree_def split: option.split)

lemma agree_exit: "agree c d \<Longrightarrow> quiet r \<Longrightarrow> exit_with c r w = exit_with d r w"
  by (simp add: exit_with_def agree_finish)

lemma agree_start:
  assumes "agree c d"
  shows "lwftp_start_MLSD c = lwftp_start_MLSD d" "lwftp_send_PWD c = lwftp_send_PWD d"
  using agree_finish [OF assms] by (auto simp: fun_eq_iff lwftp_start_MLSD_def lwftp_send_PWD_def)

lemma agree_initiate: "agree c d \<Longrightarrow> initiate c f w = initiate d f w"
  by (simp add: initiate_def agree_exit lwftp_tcpip_callback_def split: bind_split)

lemma agree_engine:
  assumes "agree c d"
  shows "lwftp_mlsd c w = lwftp_mlsd d w" "lwftp_print_dir c w = lwftp_print_dir d w"
  using agree_exit [OF assms] agree_initiate [OF assms] agree_start [OF assms]
  by (simp_all add: lwftp_mlsd_def lwftp_print_dir_def initiate_transfer_def Let_def split: prod.split)

lemma agree_util:
  assumes "agree c d"
  shows "util_GetRemoteFiles c = util_GetRemoteFiles d" "util_GetDir c = util_GetDir d"
  by (simp_all add: fun_eq_iff util_GetRemoteFiles_def util_GetDir_def agree_engine [OF assms] Let_def)

lemma agree_ftp_done:
  assumes "agree c d"
  shows "ftp_done c f r w = ftp_done d f r w"
  unfolding ftp_done_def ftp_ConnectCallback_def ftp_ListCallback_def ftp_CwdCallback_def
    ftp_DelCallback_def ftp_MoveCallback_def ftp_StorCallback_def agree_util [OF assms] ..

lemma agree_levels: "agree (client_above c (Suc m)) (client_above d (Suc n))"
  by (simp add: agree_def ftp_done_quiet)

text \<open>C24. Engine and call-backs nest at most two deep: two levels or more over any client \<open>c\<close>, even
  one whose functions return arbitrary worlds, give the same client. So the bottom of the tower is
  never called, and no result of \<open>ftp_client\<close> comes from cutting the recursion off.\<close>

theorem client_depth: "client_above c (n + 2) = ftp_client"
proof -
  have "ftp_done (client_above c (Suc n)) = ftp_done (client_at (Suc 0))"
    using agree_ftp_done [OF agree_levels] by (intro ext)
  then show ?thesis by (simp add: ftp_client_def numeral_2_eq_2)
qed

end
