(* ===== verification/Example_World.thy ===== *)
theory Example_World
  imports Client
begin

text \<open>A concrete world to try the definitions on: every call succeeds, each new control block has a
  new number, and one variable lives on the calculator.\<close>

fun issued :: "call \<Rightarrow> nat" where
  "issued (Tcp_new (Some p)) = p"
| "issued _ = 0"

definition fresh_pcb :: "call list \<Rightarrow> pcb" where
  "fresh_pcb cs = Suc (sum_list (map issued cs))"

definition example_env :: env where
  "example_env = \<lparr>e_tcp_new = (\<lambda>cs. Some (fresh_pcb cs)), e_tcp_connect = (\<lambda>_. ERR_OK), e_tcp_write = (\<lambda>_. ERR_OK),
     e_tcp_close = (\<lambda>_. ERR_OK), e_mss = (\<lambda>_. 536), e_detect = (\<lambda>_. [(''PROG'', 5)]),
     e_var = (\<lambda>_ _ _. \<lparr>v_type = 5, v_size = 2, v_data = [CHR 0x02, nul, CHR ''h'', CHR ''i''], v_archived = True\<rparr>),
     e_keys = (\<lambda>_. [SKey True 1]), e_getchar = (\<lambda>_ _. CHR ''B'')\<rparr>"

definition example_session :: session where
  "example_session = \<lparr>server_ip = (10, 0, 0, 1), server_port = 21, remote_path = Some AppPath,
     remote_new_path = None, user = Some ''anna'', pass = Some ''secret'', data_source = None,
     data_sink = None, done_fn = Some ConnectCallback, control_state = LWFTP_CLOSED,
     target_state = LWFTP_CLOSED, data_state = LWFTP_CLOSED, control_pcb = None, data_pcb = None\<rparr>"

definition example_world :: world where
  "example_world = \<lparr>sess = example_session, app = app_init,
     local_files = \<lparr>f_type = TYPE_PROG, f_name = ''PROG'' @ replicate 5 nul\<rparr> # replicate 499 zero_file,
     remote_files = replicate 340 zero_file, file_buffer = (\<lambda>_. nul), move_input = replicate 64 nul,
     calls = [], envr = example_env\<rparr>"

text \<open>The same world with the session logged in on control block 1, and with the session in a
  given state and done function.\<close>

definition example_in :: "lwftp_state_t \<Rightarrow> done_cb \<Rightarrow> world" where
  "example_in st f = upd_sess (\<lambda>s. s\<lparr>control_state := st, control_pcb := Some 1, done_fn := Some f\<rparr>) example_world"

abbreviation example_logged :: world where
  "example_logged \<equiv> example_in LWFTP_LOGGED PwdCallback"

definition reply :: "bytes \<Rightarrow> pbuf" where
  "reply txt = \<lparr>payload = txt @ [cr, lf], beyond = [], chain = []\<rparr>"

lemmas example_defs = example_in_def example_world_def example_session_def example_env_def app_init_def
  fresh_pcb_def

lemma example_in_simps:
  "control_state (sess (example_in st f)) = st" "control_pcb (sess (example_in st f)) = Some 1"
  "data_pcb (sess (example_in st f)) = None" "user (sess (example_in st f)) = Some ''anna''"
  "pass (sess (example_in st f)) = Some ''secret''" "remote_path (sess (example_in st f)) = Some AppPath"
  "done_fn (sess (example_in st f)) = Some f" "data_source (sess (example_in st f)) = None"
  "calls (example_in st f) = []" "envr (example_in st f) = example_env" "app (example_in st f) = app_init"
  "e_tcp_new example_env cs = Some (fresh_pcb cs)" "e_mss example_env p = 536"
  by (simp_all add: example_in_def example_world_def example_session_def example_env_def)

end
