(* ===== verification/Client_Listing.thy ===== *)
theory Client_Listing
  imports Client_Depth Example_World
begin

text \<open>
  Directory listings. The specification reads the lines of an MLSD reply as table entries; the
  refinement shows that \<open>ftp_ListDataSink\<close>, fed by the engine with the reply cut into pbufs at
  arbitrary places, leaves exactly these entries in \<open>REMOTE_FILES\<close>.
\<close>

section \<open>Specification\<close>

definition parse_line :: "bytes \<Rightarrow> file_t option" where
  "parse_line line = (case (strchr line (CHR '' ''), strstr line ''type='') of
       (Some name, Some ty) \<Rightarrow>
         let k = remote_type (drop 1 name) (drop 5 ty); chars = entry_name k (drop 1 name)
         in if k = TYPE_UNKNOWN then None
            else Some \<lparr>f_type = k, f_name = chars @ replicate (9 - length chars) nul\<rparr>
     | _ \<Rightarrow> None)"

definition add_line :: "file_t list \<Rightarrow> bytes \<Rightarrow> file_t list" where
  "add_line es line = (if length es < 340
     then case parse_line line of None \<Rightarrow> es | Some f \<Rightarrow> es @ [f] else es)"

definition listing_spec :: "bytes list \<Rightarrow> file_t list" where
  "listing_spec lines = take 340 (List.map_filter parse_line lines)"

definition listing_text :: "bytes list \<Rightarrow> bytes" where
  "listing_text lines = concat (map (\<lambda>l. l @ [cr, lf]) lines)"

lemma add_line_fold: "length es \<le> 340 \<Longrightarrow> foldl add_line es lines = take 340 (es @ List.map_filter parse_line lines)"
proof (induction lines arbitrary: es)
  case Nil
  then show ?case by (simp add: map_filter_simps)
next
  case (Cons l lines)
  have "length (add_line es l) \<le> 340" using Cons.prems by (simp add: add_line_def split: option.split)
  from Cons.IH [OF this] Cons.prems show ?case
    by (auto simp: add_line_def map_filter_simps take_Cons' split: option.split)
qed

section \<open>The line being received\<close>

text \<open>The abstract receiver: the entries so far, and the line received so far.\<close>

definition strip_cr :: "bytes \<Rightarrow> bytes" where
  "strip_cr cur = (if cur \<noteq> [] \<and> last cur = cr then butlast cur else cur)"

definition recv_char :: "file_t list \<times> bytes \<Rightarrow> byte \<Rightarrow> file_t list \<times> bytes" where
  "recv_char st c = (case st of (es, cur) \<Rightarrow>
     if c = lf then (add_line es (strip_cr cur), []) else (es, cur @ [c]))"

text \<open>No line is longer than the buffer takes.\<close>

fun fits :: "nat \<Rightarrow> bytes \<Rightarrow> bool" where
  "fits n [] = True"
| "fits n (c # cs) = (if c = lf then fits 0 cs else n < 255 \<and> fits (n + 1) cs)"

text \<open>The state a listing keeps in the world.\<close>

definition listing :: "world \<Rightarrow> file_t list \<times> bytes \<Rightarrow> bool" where
  "listing w st \<longleftrightarrow> (case st of (es, cur) \<Rightarrow>
     length (rxBuf (app w)) = 257 \<and> rxOffset (app w) = length cur \<and> length cur \<le> 255
     \<and> take (length cur) (rxBuf (app w)) = cur
     \<and> length es \<le> 340 \<and> total (app w) True = of_nat (length es)
     \<and> remote_files w = es @ replicate (340 - length es) zero_file
     \<and> data_sink (sess w) = Some ListDataSink)"

lemma listing_mark_remote [simp]: "listing (mark_remote w) st = listing w st"
  by (simp add: listing_def mark_remote_def split: prod.split)

section \<open>Strings that end inside the buffer\<close>

lemma strchr_terminated: "c \<noteq> nul \<Longrightarrow> strchr (l @ nul # j) c = map_option (\<lambda>s. s @ nul # j) (strchr l c)"
  by (induction l) auto

lemma take_no_nul:
  assumes "nul \<notin> set n"
  shows "take (length n) (l @ nul # j) = n \<longleftrightarrow> take (length n) l = n"
proof (cases "length n \<le> length l")
  case True
  then show ?thesis by simp
next
  case False
  then have "nul \<in> set (take (length n) (l @ nul # j))" by (simp add: take_Cons' )
  with assms False show ?thesis by (metis length_take min.absorb3 nat_le_linear not_less)
qed

lemma strstr_terminated:
  assumes "nul \<notin> set n" and "n \<noteq> []"
  shows "strstr (l @ nul # j) n = map_option (\<lambda>s. s @ nul # j) (strstr l n)"
proof (induction l)
  case Nil
  have "take (length n) (nul # j) \<noteq> n" using assms by (cases n) auto
  then show ?case using assms by simp
next
  case (Cons c l)
  with take_no_nul [OF assms(1), of "c # l" j] show ?case by simp
qed

lemma cstr_terminated': "cstr (p @ nul # j) = cstr p"
  by (induction p) auto

lemma name_text_terminated:
  "remote_type (n @ nul # j) (t @ nul # j') = remote_type n t" "entry_name k (n @ nul # j) = entry_name k n"
proof -
  have "(n @ nul # j) ! (strlen n - 1) = n ! (strlen n - 1)" if "strlen n \<noteq> 0"
  proof -
    have "strlen n - 1 < length n" using that strlen_le [of n] by linarith
    then show ?thesis by (simp add: nth_append)
  qed
  moreover have "cstr (drop (strlen n - 4) (n @ nul # j)) = cstr (drop (strlen n - 4) n)"
    using strlen_le [of n] by (simp add: cstr_terminated')
  moreover have "strlen (n @ nul # j) = strlen n" by (simp add: strlen_def cstr_terminated')
  ultimately show "remote_type (n @ nul # j) (t @ nul # j') = remote_type n t"
    by (simp add: remote_type_def strncmp_eq_def cstr_terminated' Let_def)
  show "entry_name k (n @ nul # j) = entry_name k n" by (simp add: entry_name_def cstr_terminated')
qed

lemma strchr_nonempty: "strchr l c = Some s \<Longrightarrow> s \<noteq> []"
  by (induction l) (auto split: if_splits)

lemma strstr_length: "strstr l n = Some s \<Longrightarrow> length n \<le> length s"
  by (induction l n rule: strstr.induct) (auto split: if_splits simp: min_def dest: arg_cong [of _ _ length])

lemma entry_name_length: "length (entry_name k n) \<le> 8"
  by (simp add: entry_name_def order_trans [OF length_takeWhile_le])

section \<open>Refinement\<close>

lemma add_remote_file:
  assumes "length es \<le> 340" and "total (app w) True = of_nat (length es)"
    and "remote_files w = es @ replicate (340 - length es) zero_file" and "rxBuf (app w) = line @ nul # junk"
  shows "\<exists>w'. ftp_AddRemoteFile w = Some w' \<and> remote_files w' = add_line es line @ replicate (340 - length (add_line es line)) zero_file
     \<and> total (app w') True = of_nat (length (add_line es line)) \<and> rxBuf (app w') = rxBuf (app w)
     \<and> sess w' = sess w"
proof -
  have t: "unat (total (app w) True) = length es" using assms(1,2) by (simp add: unat_of_nat)
  have chr: "strchr (rxBuf (app w)) (CHR '' '') = map_option (\<lambda>s. s @ nul # junk) (strchr line (CHR '' ''))"
    and str: "strstr (rxBuf (app w)) ''type='' = map_option (\<lambda>s. s @ nul # junk) (strstr line ''type='')"
    by (simp_all add: assms(4) strchr_terminated strstr_terminated)
  show ?thesis
  proof (cases "strchr line (CHR '' '') = None \<or> strstr line ''type='' = None \<or> length es = 340")
    case True
    then show ?thesis using chr str t assms
      by (auto simp: ftp_AddRemoteFile_def Let_def add_line_def parse_line_def split: option.splits)
  next
    case False
    then obtain n ty where nt: "strchr line (CHR '' '') = Some n" "strstr line ''type='' = Some ty" by auto
    have es: "length es < 340" using False assms(1) by simp
    have d: "drop 1 (n @ nul # junk) = drop 1 n @ nul # junk" "drop 5 (ty @ nul # junk) = drop 5 ty @ nul # junk"
      using strchr_nonempty [OF nt(1)] strstr_length [OF nt(2)] by (auto simp: Suc_le_eq)
    have old: "remote_files w ! length es = zero_file" using es assms(3) by (simp add: nth_append)
    have rep: "replicate (340 - length es) zero_file = zero_file # replicate (340 - Suc (length es)) zero_file"
      using es by (metis Suc_diff_Suc replicate_Suc)
    have upd: "(remote_files w)[length es := x] = es @ x # replicate (340 - Suc (length es)) zero_file" for x
      by (simp add: assms(3) rep)
    have zero: "zero_file\<lparr>f_type := TYPE_UNKNOWN\<rparr> = zero_file" "drop m (f_name zero_file) = replicate (9 - m) nul" for m
      by (simp_all add: zero_file_def)
    have len: "length (remote_files w) = 340" using es by (simp add: assms(3))
    define k where "k = remote_type (drop 1 n) (drop 5 ty)"
    have "ftp_AddRemoteFile w =
      (if k = TYPE_UNKNOWN then Some (w\<lparr>remote_files := es @ zero_file # replicate (340 - Suc (length es)) zero_file\<rparr>)
       else Some (upd_app (\<lambda>a. a\<lparr>total := (total a)(True := total a True + 1)\<rparr>) (w\<lparr>remote_files := es @
         \<lparr>f_type = k, f_name = entry_name k (drop 1 n) @ replicate (9 - length (entry_name k (drop 1 n))) nul\<rparr>
         # replicate (340 - Suc (length es)) zero_file\<rparr>)))"
      using es by (simp add: ftp_AddRemoteFile_def Let_def chr str nt d t old upd zero name_text_terminated k_def
          len del: drop_append One_nat_def)
    moreover have "parse_line line = (if k = TYPE_UNKNOWN then None else
        Some \<lparr>f_type = k, f_name = entry_name k (drop 1 n) @ replicate (9 - length (entry_name k (drop 1 n))) nul\<rparr>)"
      by (simp add: parse_line_def nt Let_def k_def)
    ultimately show ?thesis
      using es assms(2) rep by (simp add: add_line_def)
  qed
qed

lemma listing_char:
  assumes "listing w (es, cur)" and "fits (length cur) (c # cs)"
  shows "\<exists>w'. listing w' (recv_char (es, cur) c) \<and> list_sink (c # cs) w = list_sink cs w'"
proof (cases "c = lf")
  case False
  then have n: "length cur < 255" using assms(2) by simp
  let ?b = "take (length cur) (rxBuf (app w)) @ [c] @ drop (length cur + 1) (rxBuf (app w))"
  have "store_bytes (length cur) [c] (rxBuf (app w)) = Some ?b"
    using assms(1) n by (simp add: store_bytes_def listing_def)
  moreover have "listing (upd_app (\<lambda>a. a\<lparr>rxBuf := ?b, rxOffset := length cur + 1\<rparr>) w) (es, cur @ [c])"
    using assms(1) n by (simp add: listing_def)
  moreover have "rxOffset (app w) = length cur" using assms(1) by (simp add: listing_def)
  ultimately show ?thesis
    using n False by (intro exI [of _ "upd_app (\<lambda>a. a\<lparr>rxBuf := ?b, rxOffset := length cur + 1\<rparr>) w"])
      (simp add: recv_char_def Let_def)
next
  case True
  let ?buf = "rxBuf (app w)" and ?line = "strip_cr cur"
  have l: "length ?buf = 257" "rxOffset (app w) = length cur" "length cur \<le> 255" "take (length cur) ?buf = cur"
    using assms(1) by (auto simp: listing_def)
  have last: "cur \<noteq> [] \<Longrightarrow> ?buf ! (length cur - 1) = last cur"
    using l(4) by (metis last_conv_nth length_greater_0_conv diff_less nth_take zero_less_one)
  have off: "(if length cur \<noteq> 0 \<and> ?buf ! (length cur - 1) = cr then length cur - 1 else length cur) = length ?line"
    using last by (auto simp: strip_cr_def)
  have "take (length cur - 1) ?buf = butlast cur"
    using l(4) by (metis butlast_conv_take diff_le_self min.absorb1 take_take)
  then have tk: "take (length ?line) ?buf = ?line" using l(4) by (simp add: strip_cr_def)
  have "length ?line \<le> 255" using l(3) by (auto simp: strip_cr_def)
  with tk have st: "store_bytes (length ?line) [nul] ?buf = Some (?line @ nul # drop (length ?line + 1) ?buf)"
    using l(1) by (simp add: store_bytes_def)
  let ?w1 = "upd_app (\<lambda>a. a\<lparr>rxBuf := ?line @ nul # drop (length ?line + 1) ?buf, rxOffset := length ?line\<rparr>) w"
  obtain w2 where w2: "ftp_AddRemoteFile ?w1 = Some w2"
    "remote_files w2 = add_line es ?line @ replicate (340 - length (add_line es ?line)) zero_file"
    "total (app w2) True = of_nat (length (add_line es ?line))" "rxBuf (app w2) = rxBuf (app ?w1)" "sess w2 = sess w"
    using add_remote_file [of es ?w1 ?line] assms(1) by (auto simp: listing_def)
  have "length (rxBuf (app w2)) = 257" using w2(4) l(1,3) by (simp add: strip_cr_def)
  then have "listing (upd_app (\<lambda>a. a\<lparr>rxOffset := 0\<rparr>) w2) (add_line es ?line, [])"
    using w2 assms(1) by (simp add: listing_def add_line_def split: option.split)
  moreover have "list_sink (c # cs) w = list_sink cs (upd_app (\<lambda>a. a\<lparr>rxOffset := 0\<rparr>) w2)"
    using True off st w2(1) l(2) by (simp add: Let_def)
  ultimately show ?thesis using True by (auto simp: recv_char_def)
qed

lemma recv_char_line: "length (snd (recv_char (es, cur) c)) = (if c = lf then 0 else length cur + 1)"
  by (simp add: recv_char_def)

lemma fits_append: "fits n (a @ b) \<longleftrightarrow> fits n a \<and> fits (foldl (\<lambda>n c. if c = lf then 0 else n + 1) n a) b"
  by (induction n a rule: fits.induct) auto

lemma list_sink_refines:
  assumes "listing w (es, cur)" and "fits (length cur) q"
  shows "\<exists>w'. list_sink q w = Some w' \<and> listing w' (foldl recv_char (es, cur) q)"
  using assms
proof (induction q arbitrary: w es cur)
  case Nil
  then show ?case by simp
next
  case (Cons c q)
  from listing_char [OF Cons.prems] obtain w1 where
    w1: "listing w1 (recv_char (es, cur) c)" "list_sink (c # q) w = list_sink q w1" by blast
  obtain es' cur' where st: "recv_char (es, cur) c = (es', cur')" by (cases "recv_char (es, cur) c")
  have "fits (length cur') q"
    using Cons.prems(2) recv_char_line [of es cur c] st by (auto split: if_splits)
  with Cons.IH w1 st show ?case by auto
qed

text \<open>The engine's loop over a pbuf chain.\<close>

lemma sink_chain_refines:
  assumes "listing w st" and "fits (length (snd st)) (concat qs)"
  shows "\<exists>w'. sink_chain ftp_client qs w = Some w' \<and> listing w' (foldl recv_char st (concat qs))"
  using assms
proof (induction qs arbitrary: w st)
  case Nil
  then show ?case by simp
next
  case (Cons q qs)
  obtain es cur where st: "st = (es, cur)" by (cases st)
  have "fits (length cur) q" using Cons.prems(2) st by (simp add: fits_append)
  from list_sink_refines [OF Cons.prems(1) [unfolded st] this] obtain w1 where
    w1: "list_sink q w = Some w1" "listing w1 (foldl recv_char st q)" unfolding st by blast
  have "length (snd (foldl recv_char (es, cur) q)) = foldl (\<lambda>n c. if c = lf then 0 else n + 1) (length cur) q" for q
    by (induction q rule: rev_induct) (auto simp: recv_char_def split: prod.split)
  then have "fits (length (snd (foldl recv_char st q))) (concat qs)"
    using Cons.prems(2) st by (simp add: fits_append)
  with Cons.IH [of "mark_remote w1"] w1 have
    "\<exists>w'. sink_chain ftp_client qs (mark_remote w1) = Some w' \<and> listing w' (foldl recv_char st (concat (q # qs)))"
    by simp
  moreover have "data_sink (sess w) = Some ListDataSink" using Cons.prems(1) st by (simp add: listing_def)
  ultimately show ?case
    using w1(1) by (simp add: ftp_client_def numeral_2_eq_2 ftp_sink_def ftp_ListDataSink_def)
qed

lemma recv_text:
  assumes "\<forall>l \<in> set lines. lf \<notin> set l"
  shows "foldl recv_char (es, []) (listing_text lines) = (foldl add_line es lines, [])"
  using assms
proof (induction lines arbitrary: es)
  case Nil
  then show ?case by (simp add: listing_text_def)
next
  case (Cons l lines)
  have "foldl recv_char (es, cur) l = (es, cur @ l)" if "lf \<notin> set l" for cur l
    using that by (induction l arbitrary: cur) (auto simp: recv_char_def)
  then have "foldl recv_char (es, []) (l @ [cr, lf]) = (add_line es l, [])"
    using Cons.prems by (simp add: recv_char_def strip_cr_def)
  with Cons show ?case by (simp add: listing_text_def)
qed

lemma fits_text:
  assumes "\<forall>l \<in> set lines. lf \<notin> set l \<and> length l \<le> 254"
  shows "fits 0 (listing_text lines)"
  using assms
proof (induction lines)
  case Nil
  then show ?case by (simp add: listing_text_def)
next
  case (Cons l lines)
  have "fits n (l @ cs)" if "lf \<notin> set l" "n + length l \<le> 255" "fits (n + length l) cs" for n l cs
    using that by (induction l arbitrary: n) auto
  from this [of l 0 "[cr, lf] @ listing_text lines"] Cons show ?case by (auto simp: listing_text_def)
qed

text \<open>The state \<open>util_GetRemoteFiles\<close> leaves behind.\<close>

lemma listing_cong:
  assumes "rxBuf (app w') = rxBuf (app w)" "rxOffset (app w') = rxOffset (app w)" "total (app w') = total (app w)"
    "remote_files w' = remote_files w" "data_sink (sess w') = data_sink (sess w)"
  shows "listing w' st = listing w st"
  using assms by (simp add: listing_def split: prod.split)

lemma listing_engine [simp]:
  "listing (do_call k w) st = listing w st" "listing (set_state x w) st = listing w st"
  "listing (fail_with r w) st = listing w st" "listing (snd (lwftp_send_msg m w)) st = listing w st"
  "listing (upd_sess (\<lambda>s. s\<lparr>data_pcb := p\<rparr>) w) st = listing w st"
  "listing (upd_sess (\<lambda>s. s\<lparr>target_state := x\<rparr>) w) st = listing w st"
  by (rule listing_cong; simp add: set_state_def fail_with_def lwftp_send_msg_def tcp_write_def Let_def split: option.split)+

lemma finish_list:
  assumes "done_fn (sess w) = Some ListCallback" and "r \<noteq> LWFTP_RESULT_OK"
  shows "finish ftp_client r w = Some (if r = LWFTP_RESULT_INPROGRESS then w else fail_with r w)"
  using assms by (simp add: finish_def ftp_client_def numeral_2_eq_2 ftp_done_def ftp_ListCallback_def)

lemma done_fn_engine [simp]:
  "done_fn (sess (set_state x w)) = done_fn (sess w)" "done_fn (sess (snd (lwftp_send_msg m w))) = done_fn (sess w)"
  by (simp_all add: set_state_def lwftp_send_msg_def tcp_write_def Let_def split: option.split)

lemma GetRemoteFiles_listing:
  assumes "util_GetRemoteFiles ftp_client w0 = Some w"
  shows "listing w ([], [])"
proof -
  define w1 where "w1 = (upd_app (\<lambda>a. a\<lparr>rxOffset := 0, total := (total a)(True := 0),
      rxBuf := replicate (RX_BUF_SIZE + 2) nul\<rparr>) (set_done (Some ListCallback) (set_sink ListDataSink (set_busy True w0))))
      \<lparr>remote_files := replicate MAX_REMOTE_FILES zero_file\<rparr>"
  have w1: "listing w1 ([], [])" "done_fn (sess w1) = Some ListCallback"
    by (simp_all add: w1_def listing_def set_done_def set_sink_def set_busy_def)
  obtain r where "lwftp_mlsd ftp_client w1 = Some (r, w)"
    using assms by (auto simp: util_GetRemoteFiles_def w1_def Let_def split: bind_splits)
  with w1 show ?thesis
    by (auto simp: lwftp_mlsd_def initiate_transfer_def initiate_def exit_with_def lwftp_tcpip_callback_def
        lwftp_start_MLSD_def tcp_new_def finish_list Let_def split: if_splits)
qed

text \<open>What the bound on the lines is for: with the line buffer full, a pbuf that does not begin with a
  line feed is dropped as a whole, so a longer line swallows the entries behind it, up to the next
  place where the network happens to cut the listing in front of a line feed.\<close>

lemma full_line_drops:
  assumes "rxOffset (app w) = RX_BUF_SIZE" and "data_sink (sess w) = Some ListDataSink"
    and "\<forall>q \<in> set qs. q = [] \<or> hd q \<noteq> lf"
  shows "\<exists>w'. sink_chain ftp_client qs w = Some w' \<and> remote_files w' = remote_files w
     \<and> total (app w') = total (app w) \<and> rxOffset (app w') = RX_BUF_SIZE"
  using assms
proof (induction qs arbitrary: w)
  case Nil
  then show ?case by simp
next
  case (Cons q qs)
  have "list_sink q w = Some w" using Cons.prems(1,3) by (cases q) auto
  then have "sink_chain ftp_client (q # qs) w = sink_chain ftp_client qs (mark_remote w)"
    using Cons.prems(2) by (simp add: ftp_client_def numeral_2_eq_2 ftp_sink_def ftp_ListDataSink_def)
  then show ?case using Cons.IH [of "mark_remote w"] Cons.prems by (simp add: mark_remote_def)
qed

text \<open>C2. A directory listing whose lines end with CR LF and are at most 254 bytes long fills
  \<open>REMOTE_FILES\<close> with exactly the entries its lines describe, in their order and up to the size of
  the table, the rest of which stays unused, however the listing is cut into pbufs; no byte is
  stored outside the line buffer, a name or the table.\<close>

theorem listing_received:
  assumes "util_GetRemoteFiles ftp_client w0 = Some w"
    and "\<forall>l \<in> set lines. lf \<notin> set l \<and> length l \<le> 254" and "concat qs = listing_text lines"
  shows "\<exists>w'. sink_chain ftp_client qs w = Some w'
     \<and> total (app w') True = of_nat (length (listing_spec lines))
     \<and> remote_files w' = listing_spec lines @ replicate (MAX_REMOTE_FILES - length (listing_spec lines)) zero_file"
proof -
  have "foldl add_line [] lines = listing_spec lines"
    using add_line_fold [of "[]" lines] by (simp add: listing_spec_def)
  moreover have "foldl recv_char ([], []) (concat qs) = (foldl add_line [] lines, [])"
    using recv_text assms(2,3) by simp
  moreover have "fits (length (snd (([] :: file_t list), ([] :: bytes)))) (concat qs)"
    using fits_text [OF assms(2)] assms(3) by simp
  ultimately obtain w' where "sink_chain ftp_client qs w = Some w'" "listing w' (listing_spec lines, [])"
    using sink_chain_refines [OF GetRemoteFiles_listing [OF assms(1)]] by metis
  then show ?thesis by (auto simp: listing_def)
qed

theorem listing_received_witness:
  "\<exists>w w'. util_GetRemoteFiles ftp_client example_logged = Some w
     \<and> sink_chain ftp_client [''type=dir; DOCS'' @ [cr], lf # ''type=file; A.8xp'' @ [cr, lf]] w = Some w'
     \<and> total (app w') True = 2"
proof -
  obtain w where w: "util_GetRemoteFiles ftp_client example_logged = Some w"
    by (cases "util_GetRemoteFiles ftp_client example_logged")
      (simp_all add: util_GetRemoteFiles_def lwftp_mlsd_def initiate_transfer_def initiate_def exit_with_def
        lwftp_tcpip_callback_def lwftp_start_MLSD_def tcp_new_def finish_list Let_def set_done_def set_sink_def
        set_busy_def set_state_def lwftp_send_msg_def tcp_write_def example_defs)
  have "length (listing_spec [''type=dir; DOCS'', ''type=file; A.8xp'']) = 2" by code_simp
  then show ?thesis
    using w listing_received [OF w, of "[''type=dir; DOCS'', ''type=file; A.8xp'']"
        "[''type=dir; DOCS'' @ [cr], lf # ''type=file; A.8xp'' @ [cr, lf]]"]
    by (auto simp: listing_text_def)
qed

end
