(* ===== verification/Lwftp_Inv.thy ===== *)
theory Lwftp_Inv
  imports Client_Depth Example_World
begin

text \<open>
  The session invariant. \<open>sess_inv\<close> says which fields of a session agree with its control state
  whenever the engine is at rest; \<open>sess_mid\<close> is what is left of it between the two switches of
  \<open>lwftp_control_process\<close>. The contract \<open>ftp_contract\<close> states what the engine needs of a client's
  functions, every operation of the engine keeps the invariant under it, and the client of
  \<open>ftp.c\<close> fulfils it at every level of nesting.
\<close>

section \<open>The invariant\<close>

abbreviation transient :: "lwftp_state_t set" where
  "transient \<equiv> {LWFTP_DATAEND, LWFTP_CMDEND, LWFTP_QUIT, LWFTP_CLOSING}"

abbreviation transfer_states :: "lwftp_state_t set" where
  "transfer_states \<equiv> {LWFTP_TYPE_SENT, LWFTP_PASV_SENT, LWFTP_RETR_SENT, LWFTP_STOR_SENT, LWFTP_MLSD_SENT,
     LWFTP_XFERING, LWFTP_QUIT_SENT, LWFTP_DATAEND, LWFTP_QUIT, LWFTP_CLOSING}"

definition sess_mid :: "session \<Rightarrow> bool" where
  "sess_mid s \<longleftrightarrow>
     (control_state s \<noteq> LWFTP_CLOSED \<longrightarrow> control_pcb s \<noteq> None)
   \<and> (control_pcb s \<noteq> None \<longrightarrow> user s \<noteq> None \<and> pass s \<noteq> None)
   \<and> (data_pcb s \<noteq> None \<longrightarrow> control_state s \<in> transfer_states)
   \<and> (control_state s \<in> {LWFTP_TYPE_SENT, LWFTP_PASV_SENT} \<longrightarrow> transfer_verb (target_state s) \<noteq> None)
   \<and> (control_state s = LWFTP_RNFR_SENT \<longrightarrow> remote_new_path s \<noteq> None)
   \<and> remote_path s \<noteq> None"

definition sess_inv :: "session \<Rightarrow> bool" where
  "sess_inv s \<longleftrightarrow> sess_mid s \<and> control_state s \<notin> transient"

lemma sess_invD [dest]: "sess_inv s \<Longrightarrow> sess_mid s"
  by (simp add: sess_inv_def)

section \<open>What the primitives do to the session\<close>

named_theorems sess_simps \<open>the session after an engine primitive\<close>

lemma sess_set_state [sess_simps, simp]: "sess (set_state st w) = (sess w)\<lparr>control_state := st\<rparr>"
  by (simp add: set_state_def)

lemma sess_tcp [sess_simps, simp]:
  "sess (snd (tcp_write po d w)) = sess w" "sess (snd (tcp_connect po ip n k w)) = sess w"
  "sess (snd (tcp_close p w)) = sess w" "sess (tcp_register po ko w) = sess w" "sess (snd (tcp_new w)) = sess w"
  by (simp_all add: tcp_write_def tcp_connect_def tcp_close_def tcp_register_def tcp_new_def Let_def split: option.split)

lemma sess_tcp_output [sess_simps]: "tcp_output po w = Some w' \<Longrightarrow> sess w' = sess w"
  by (auto simp: tcp_output_def split: option.splits)

lemma sess_send_msg [sess_simps, simp]: "sess (snd (lwftp_send_msg m w)) = sess w"
  by (simp add: lwftp_send_msg_def)

lemma sess_send_cmd [sess_simps]: "send_cmd v a w = Some w' \<Longrightarrow> sess w' = sess w"
  by (auto simp: send_cmd_def split: bind_splits)

lemma sess_data_open [sess_simps, simp]: "sess (snd (lwftp_data_open p w)) = sess w"
  by (simp add: lwftp_data_open_def Let_def split: option.split)

lemma sess_pcb_close [sess_simps, simp]: "sess (lwftp_pcb_close po w) = sess w"
  by (simp add: lwftp_pcb_close_def split: option.split)

lemma sess_close_data_pcb [sess_simps, simp]: "sess (close_data_pcb w) = (sess w)\<lparr>data_pcb := None\<rparr>"
  by (simp add: close_data_pcb_def)

lemma data_pcb_id: "data_pcb s = None \<Longrightarrow> s\<lparr>data_pcb := None\<rparr> = s"
  by (cases s) simp

section \<open>The contract between engine and client\<close>

locale ftp_contract =
  fixes c :: client
  assumes done_keeps: "sess_inv (sess w) \<Longrightarrow> call_done c f r w = Some w' \<Longrightarrow> sess_inv (sess w')"
    and sink_keeps: "call_sink c k q w = Some w' \<Longrightarrow> sess w' = sess w"
    and source_keeps: "call_source c g p n w = Some (d, w') \<Longrightarrow> sess w' = sess w"
begin

lemma finish_keeps: "sess_inv (sess w) \<Longrightarrow> finish c r w = Some w' \<Longrightarrow> sess_inv (sess w')"
  by (auto simp: finish_def split: option.splits intro: done_keeps)

lemma sink_chain_keeps: "sink_chain c qs w = Some w' \<Longrightarrow> sess w' = sess w"
  by (induction qs arbitrary: w) (auto split: bind_splits dest!: sink_keeps)

lemma send_next_data_sess:
  "lwftp_send_next_data c w = Some w' \<Longrightarrow> sess w' = sess w \<or> sess w' = (sess w)\<lparr>data_pcb := None\<rparr>"
  by (auto simp: lwftp_send_next_data_def split: bind_splits option.splits if_splits dest!: source_keeps)

lemma data_sent_sess:
  "lwftp_data_sent c n w = Some w' \<Longrightarrow> sess w' = sess w \<or> sess w' = (sess w)\<lparr>data_pcb := None\<rparr>"
  by (auto simp: lwftp_data_sent_def split: bind_splits option.splits dest!: source_keeps send_next_data_sess)

lemma sink_option_keeps:
  "(case data_sink (sess w) of None \<Rightarrow> Some w | Some f \<Rightarrow> call_sink c f q w) = Some v \<Longrightarrow> sess v = sess w"
  by (auto split: option.splits dest: sink_keeps)

lemma data_recv_sess:
  assumes "lwftp_data_recv c t po w = Some w'"
  shows "sess w' = sess w \<or> sess w' = (sess w)\<lparr>data_pcb := None\<rparr>"
proof (cases po)
  case None
  then obtain v where v: "(case data_sink (sess w) of None \<Rightarrow> Some w | Some f \<Rightarrow> call_sink c f None w) = Some v"
      "w' = (if data_pcb (sess v) \<noteq> None then close_data_pcb v else v)"
    using assms by (auto simp: lwftp_data_recv_def bind_eq_Some_conv)
  show ?thesis using sink_option_keeps [OF v(1)] by (simp add: v(2))
next
  case (Some p)
  then obtain v where v: "(if data_sink (sess w) \<noteq> None then sink_chain c (payload p # chain p) w else Some w) = Some v"
      "w' = do_call Pbuf_free (do_call (Tcp_recved t (tot_len p)) v)"
    using assms by (auto simp: lwftp_data_recv_def bind_eq_Some_conv simp del: sink_chain.simps)
  have "sess v = sess w" using v(1) sink_chain_keeps by (auto simp del: sink_chain.simps split: if_splits)
  then show ?thesis by (simp add: v(2))
qed

lemma data_pcb_none_inv: "sess_inv s \<Longrightarrow> sess_inv (s\<lparr>data_pcb := None\<rparr>)"
  by (simp add: sess_inv_def sess_mid_def)

lemma data_sent_keeps: "sess_inv (sess w) \<Longrightarrow> lwftp_data_sent c n w = Some w' \<Longrightarrow> sess_inv (sess w')"
  by (auto dest!: data_sent_sess simp: data_pcb_none_inv)

lemma data_recv_keeps: "sess_inv (sess w) \<Longrightarrow> lwftp_data_recv c t po w = Some w' \<Longrightarrow> sess_inv (sess w')"
  by (auto dest!: data_recv_sess simp: data_pcb_none_inv)

lemma data_close_keeps:
  assumes "sess_inv ((sess w)\<lparr>data_pcb := None\<rparr>)" and "lwftp_data_close c r w = Some w'"
  shows "sess_inv (sess w')"
proof -
  have "sess_inv (sess (if data_pcb (sess w) \<noteq> None then close_data_pcb w else w))"
    using assms(1) by (auto simp: data_pcb_id)
  with assms(2) show ?thesis by (auto simp: lwftp_data_close_def intro: finish_keeps)
qed

lemma control_close_keeps:
  assumes "remote_path (sess w) \<noteq> None" and "lwftp_control_close c r w = Some w'"
  shows "sess_inv (sess w')"
proof -
  define v where "v = (if data_pcb (sess w) \<noteq> None then close_data_pcb w else w)"
  define u where "u = set_state LWFTP_CLOSED (if control_pcb (sess v) \<noteq> None
    then upd_sess (\<lambda>s. s\<lparr>control_pcb := None\<rparr>) (lwftp_pcb_close (control_pcb (sess v)) v) else v)"
  have "data_pcb (sess v) = None" "remote_path (sess v) \<noteq> None" using assms(1) by (simp_all add: v_def)
  then have u: "sess_inv (sess u)" by (simp add: u_def sess_inv_def sess_mid_def)
  have "(case r of None \<Rightarrow> Some u | Some res \<Rightarrow> finish c res u) = Some w'"
    using assms(2) unfolding lwftp_control_close_def Let_def u_def v_def .
  with u show ?thesis by (cases r) (auto intro: finish_keeps)
qed

lemma process_second_keeps:
  assumes "sess_mid (sess w)" and "process_second c r w = Some w'"
  shows "sess_inv (sess w')"
proof (cases "control_state (sess w)")
  case LWFTP_DATAEND
  then have "lwftp_data_close c r (set_state LWFTP_LOGGED w) = Some w'" using assms(2) by (simp add: process_second_def)
  moreover have "sess_inv ((sess (set_state LWFTP_LOGGED w))\<lparr>data_pcb := None\<rparr>)"
    using assms(1) LWFTP_DATAEND by (simp add: sess_inv_def sess_mid_def)
  ultimately show ?thesis by (rule data_close_keeps [rotated])
next
  case LWFTP_CMDEND
  then have "finish c r (set_state LWFTP_LOGGED w) = Some w'" using assms(2) by (simp add: process_second_def)
  moreover have "sess_inv (sess (set_state LWFTP_LOGGED w))"
    using assms(1) LWFTP_CMDEND by (auto simp add: sess_inv_def sess_mid_def)
  ultimately show ?thesis by (rule finish_keeps [rotated])
next
  case LWFTP_QUIT
  then obtain v where "sess v = sess w" "w' = set_state LWFTP_QUIT_SENT v"
    using assms(2) by (auto simp: process_second_def split: bind_splits dest: sess_tcp_output)
  then show ?thesis using assms(1) LWFTP_QUIT by (simp add: sess_inv_def sess_mid_def)
next
  case LWFTP_CLOSING
  then have "lwftp_control_close c (Some r) w = Some w'" using assms(2) by (simp add: process_second_def)
  moreover have "remote_path (sess w) \<noteq> None" using assms(1) by (simp add: sess_mid_def)
  ultimately show ?thesis by (rule control_close_keeps [rotated])
qed (use assms in \<open>auto simp: process_second_def sess_inv_def\<close>)

lemma process_login_keeps:
  assumes "sess_inv (sess w)" and "process_login c n w = Some (r, w')"
  shows "sess_mid (sess w')"
proof (cases "control_state (sess w)")
  case LWFTP_PASS_SENT
  have i: "sess_inv (sess (set_state LWFTP_LOGGED w))"
    using assms(1) LWFTP_PASS_SENT by (simp add: sess_inv_def sess_mid_def)
  show ?thesis
  proof (cases "n = 230")
    case True
    then have "finish c LWFTP_RESULT_LOGGED (set_state LWFTP_LOGGED w) = Some w'"
      using assms(2) LWFTP_PASS_SENT by (auto simp: process_login_def split: bind_splits)
    then show ?thesis using finish_keeps [OF i] by blast
  qed (use assms LWFTP_PASS_SENT in \<open>auto simp: process_login_def sess_inv_def sess_mid_def\<close>)
qed (use assms in \<open>auto simp: process_login_def sess_inv_def sess_mid_def
       split: bind_splits if_splits dest!: sess_send_cmd\<close>)

lemma process_pasv_sess:
  assumes "transfer_verb (target_state (sess w)) = Some v" and "process_pasv n p w = Some w'"
  shows "sess w' = (sess w)\<lparr>control_state := if n = 227 then target_state (sess w) else LWFTP_QUIT\<rparr>"
  using assms by (auto simp: process_pasv_def Let_def bind_eq_Some_conv split: if_splits)

lemma process_pasv_keeps:
  assumes "sess_inv (sess w)" and "control_state (sess w) = LWFTP_PASV_SENT" and "process_pasv n p w = Some w'"
  shows "sess_mid (sess w')"
proof -
  obtain v where v: "transfer_verb (target_state (sess w)) = Some v"
    using assms(1,2) by (auto simp: sess_inv_def sess_mid_def)
  then have "target_state (sess w) \<in> {LWFTP_RETR_SENT, LWFTP_STOR_SENT, LWFTP_MLSD_SENT}"
    by (auto simp: transfer_verb_def split: lwftp_state_t.splits)
  with assms(1,2) process_pasv_sess [OF v assms(3)] show ?thesis
    by (auto simp: sess_inv_def sess_mid_def)
qed

lemma process_transfer_keeps:
  assumes "sess_inv (sess w)" and "process_transfer c n p w = Some (r, w')"
  shows "sess_mid (sess w')"
proof (cases "control_state (sess w)")
  case LWFTP_PASV_SENT
  then show ?thesis using assms process_pasv_keeps by (auto simp: process_transfer_def split: bind_splits)
next
  case LWFTP_STOR_SENT
  have i: "sess_inv (sess (set_state LWFTP_XFERING w))"
    using assms(1) LWFTP_STOR_SENT by (simp add: sess_inv_def sess_mid_def)
  show ?thesis
  proof (cases "n = 150")
    case True
    then have "lwftp_data_sent c 0 (set_state LWFTP_XFERING w) = Some w'"
      using assms(2) LWFTP_STOR_SENT by (simp add: process_transfer_def bind_eq_Some_conv)
    then show ?thesis using data_sent_keeps [OF i] by blast
  qed (use assms LWFTP_STOR_SENT in \<open>auto simp: process_transfer_def sess_inv_def sess_mid_def\<close>)
qed (use assms in \<open>auto simp: process_transfer_def sess_inv_def sess_mid_def split: if_splits\<close>)

lemma process_xfering_keeps:
  "sess_inv (sess w) \<Longrightarrow> control_state (sess w) = LWFTP_XFERING \<Longrightarrow> process_xfering n w = Some (r, w') \<Longrightarrow> sess_mid (sess w')"
  by (auto simp: process_xfering_def sess_inv_def sess_mid_def)

lemma process_command_keeps:
  assumes "sess_inv (sess w)" and "process_command c n p w = Some (r, w')"
  shows "sess_mid (sess w')"
  using assms
  by (cases "control_state (sess w)")
     (auto simp: process_command_def Let_def sess_inv_def sess_mid_def
      split: bind_splits if_splits option.splits dest!: sess_send_cmd sink_keeps)

lemma process_reply_keeps:
  assumes "sess_inv (sess w)" and "process_reply c n po w = Some (r, w')"
  shows "sess_mid (sess w')"
  using assms process_login_keeps [OF assms(1)] process_transfer_keeps [OF assms(1)] process_command_keeps [OF assms(1)]
    process_xfering_keeps [OF assms(1)]
  by (auto simp: process_reply_def split: option.splits if_splits)

lemma control_process_keeps:
  assumes "sess_inv (sess w)" and "lwftp_control_process c po w = Some w'"
  shows "sess_inv (sess w')"
proof -
  obtain r v where v: "process_reply c (response_of po) po w = Some (r, v)"
      "process_second c r (case po of None \<Rightarrow> v | Some p \<Rightarrow> do_call Pbuf_free v) = Some w'"
    using assms(2) by (auto simp: lwftp_control_process_def bind_eq_Some_conv Let_def)
  from process_reply_keeps [OF assms(1) v(1)]
  have "sess_mid (sess (case po of None \<Rightarrow> v | Some p \<Rightarrow> do_call Pbuf_free v))" by (simp split: option.split)
  then show ?thesis using v(2) by (rule process_second_keeps)
qed

lemma data_err_keeps:
  assumes "sess_inv (sess w)" and "lwftp_data_err c w = Some w'"
  shows "sess_inv (sess w')"
proof (cases "control_state (sess w) = LWFTP_XFERING")
  case True
  let ?v = "set_state LWFTP_DATAEND (upd_sess (\<lambda>s. s\<lparr>data_pcb := None\<rparr>) w)"
  have "process_second c LWFTP_RESULT_ERR_SRVR_RESP ?v = Some w'"
    using assms(2) True by (simp add: lwftp_data_err_def Let_def lwftp_control_process_def process_reply_def)
  moreover have "sess_mid (sess ?v)" using assms(1) True by (simp add: sess_inv_def sess_mid_def)
  ultimately show ?thesis by (rule process_second_keeps [rotated])
next
  case False
  then have "w' = upd_sess (\<lambda>s. s\<lparr>data_pcb := None\<rparr>) w" using assms(2) by (simp add: lwftp_data_err_def Let_def)
  then show ?thesis using assms(1) data_pcb_none_inv by simp
qed

lemma control_recv_keeps:
  assumes "sess_inv (sess w)" and "lwftp_control_recv c t po e w = Some w'"
  shows "sess_inv (sess w')"
proof -
  have p: "remote_path (sess w) \<noteq> None" using assms(1) by (simp add: sess_inv_def sess_mid_def)
  show ?thesis
  proof (cases "e = ERR_OK \<and> po \<noteq> None")
    case True
    then obtain q where "lwftp_control_process c po (do_call (Tcp_recved t (tot_len q)) w) = Some w'"
      using assms(2) by (auto simp: lwftp_control_recv_def)
    then show ?thesis by (rule control_process_keeps [rotated]) (simp add: assms(1))
  qed (use assms(2) control_close_keeps [OF p] in \<open>auto simp: lwftp_control_recv_def split: if_splits\<close>)
qed

lemma control_err_keeps:
  assumes "sess_inv (sess w)" and "lwftp_control_err c w = Some w'"
  shows "sess_inv (sess w')"
proof -
  have "remote_path (sess (upd_sess (\<lambda>s. s\<lparr>control_pcb := None\<rparr>) w)) \<noteq> None"
    using assms(1) by (simp add: sess_inv_def sess_mid_def)
  then show ?thesis using assms(2) unfolding lwftp_control_err_def Let_def by (rule control_close_keeps)
qed

text \<open>Starting an operation. Every start leads from \<open>LWFTP_LOGGED\<close> to a state of waiting.\<close>

lemma exit_with_keeps: "sess_inv (sess w) \<Longrightarrow> exit_with c r w = Some (q, w') \<Longrightarrow> sess_inv (sess w')"
  by (auto simp: exit_with_def bind_eq_Some_conv intro: finish_keeps)

lemma initiate_keeps:
  assumes "\<And>v. f w = Some v \<Longrightarrow> sess_inv (sess v)" and "initiate c f w = Some (r, w')"
  shows "sess_inv (sess w')"
proof -
  obtain v q where "f w = Some v" "exit_with c q v = Some (r, w')"
    using assms(2) by (auto simp: initiate_def lwftp_tcpip_callback_def bind_eq_Some_conv)
  then show ?thesis using assms(1) exit_with_keeps by blast
qed

lemma initiate_transfer_keeps:
  assumes "sess_inv (sess w)" and "initiate_transfer c f w = Some (r, w')"
    and f: "\<And>v u. control_state (sess v) = LWFTP_LOGGED \<Longrightarrow> sess_inv ((sess v)\<lparr>data_pcb := None\<rparr>)
      \<Longrightarrow> f v = Some u \<Longrightarrow> sess_inv (sess u)"
  shows "sess_inv (sess w')"
proof (cases "control_state (sess w) \<noteq> LWFTP_LOGGED \<or> remote_path (sess w) = None \<or> data_pcb (sess w) \<noteq> None")
  case True
  then show ?thesis using assms(1,2) exit_with_keeps by (auto simp: initiate_transfer_def)
next
  case False
  obtain po v where v: "tcp_new w = (po, v)" by fastforce
  have sv: "sess v = sess w" using sess_tcp(5) [of w] by (simp add: v)
  let ?u = "upd_sess (\<lambda>s. s\<lparr>data_pcb := po\<rparr>) v"
  have step: "(if po = None then exit_with c LWFTP_RESULT_ERR_MEMORY ?u else initiate c f ?u) = Some (r, w')"
    using assms(2) False by (simp add: initiate_transfer_def Let_def v del: not_None_eq split: if_splits)
  show ?thesis
  proof (cases po)
    case None
    then have "sess_inv (sess ?u)" using assms(1) sv by (simp add: data_pcb_none_inv)
    moreover have "exit_with c LWFTP_RESULT_ERR_MEMORY ?u = Some (r, w')" using step None by simp
    ultimately show ?thesis by (rule exit_with_keeps)
  next
    case (Some p)
    have "sess_inv (sess u)" if "f ?u = Some u" for u
      using f [OF _ _ that] False sv assms(1) by (simp add: data_pcb_none_inv)
    moreover have "initiate c f ?u = Some (r, w')" using step Some by simp
    ultimately show ?thesis by (rule initiate_keeps)
  qed
qed

lemma logged_inv:
  assumes "sess_inv (s\<lparr>data_pcb := None\<rparr>)" and "control_state s = LWFTP_LOGGED"
  shows "transfer_verb st \<noteq> None \<Longrightarrow> sess_inv (s\<lparr>control_state := LWFTP_TYPE_SENT, target_state := st\<rparr>)"
    and "st \<in> {LWFTP_DELE_SENT, LWFTP_RMD_SENT, LWFTP_CWD_SENT, LWFTP_PWD_SENT} \<Longrightarrow> data_pcb s = None
      \<Longrightarrow> sess_inv (s\<lparr>control_state := st\<rparr>)"
    and "remote_new_path s \<noteq> None \<Longrightarrow> data_pcb s = None \<Longrightarrow> sess_inv (s\<lparr>control_state := LWFTP_RNFR_SENT\<rparr>)"
  using assms by (auto simp: sess_inv_def sess_mid_def)

lemma transfer_keeps:
  assumes "sess_inv (sess w)"
  shows "lwftp_retrieve c w = Some (r, w') \<Longrightarrow> sess_inv (sess w')"
    and "lwftp_store c w = Some (r, w') \<Longrightarrow> sess_inv (sess w')"
    and "lwftp_mlsd c w = Some (r, w') \<Longrightarrow> sess_inv (sess w')"
proof -
  note t = initiate_transfer_keeps [OF assms]
  note start = lwftp_start_RETR_def lwftp_start_STOR_def lwftp_start_MLSD_def transfer_verb_def logged_inv(1)
  show "lwftp_retrieve c w = Some (r, w') \<Longrightarrow> sess_inv (sess w')"
    unfolding lwftp_retrieve_def by (erule t) (auto simp: start)
  show "lwftp_store c w = Some (r, w') \<Longrightarrow> sess_inv (sess w')"
    unfolding lwftp_store_def by (erule t) (auto simp: start)
  show "lwftp_mlsd c w = Some (r, w') \<Longrightarrow> sess_inv (sess w')"
    unfolding lwftp_mlsd_def by (erule t) (auto simp: start)
qed

text \<open>The plain commands differ in their guard and in what they send.\<close>

lemma guarded_keeps:
  assumes "sess_inv (sess w)"
    and "(if g then exit_with c LWFTP_RESULT_ERR_ARGUMENT w else initiate c f w) = Some (r, w')"
    and "\<And>v. \<not> g \<Longrightarrow> f w = Some v \<Longrightarrow> sess_inv (sess v)"
  shows "sess_inv (sess w')"
  using assms exit_with_keeps [OF assms(1)] initiate_keeps [of f w r w'] by (cases g) auto

lemma command_keeps:
  assumes i: "sess_inv (sess w)"
  shows "lwftp_delete c w = Some (r, w') \<Longrightarrow> sess_inv (sess w')"
    and "lwftp_remove_dir c w = Some (r, w') \<Longrightarrow> sess_inv (sess w')"
    and "lwftp_change_dir c w = Some (r, w') \<Longrightarrow> sess_inv (sess w')"
    and "lwftp_print_dir c w = Some (r, w') \<Longrightarrow> sess_inv (sess w')"
    and "lwftp_move c w = Some (r, w') \<Longrightarrow> sess_inv (sess w')"
proof -
  note j = data_pcb_none_inv [OF i]
  note sends = lwftp_send_DELE_def lwftp_send_RMD_def lwftp_send_CWD_def lwftp_send_PWD_def lwftp_send_RNFR_def
    bind_eq_Some_conv
  show "lwftp_delete c w = Some (r, w') \<Longrightarrow> sess_inv (sess w')"
    unfolding lwftp_delete_def by (erule guarded_keeps [OF i]) (auto simp: sends logged_inv(2) [OF j] dest!: sess_send_cmd)
  show "lwftp_remove_dir c w = Some (r, w') \<Longrightarrow> sess_inv (sess w')"
    unfolding lwftp_remove_dir_def by (erule guarded_keeps [OF i]) (auto simp: sends logged_inv(2) [OF j] dest!: sess_send_cmd)
  show "lwftp_change_dir c w = Some (r, w') \<Longrightarrow> sess_inv (sess w')"
    unfolding lwftp_change_dir_def by (erule guarded_keeps [OF i]) (auto simp: sends logged_inv(2) [OF j] dest!: sess_send_cmd)
  show "lwftp_print_dir c w = Some (r, w') \<Longrightarrow> sess_inv (sess w')"
    unfolding lwftp_print_dir_def by (erule guarded_keeps [OF i]) (auto simp: sends logged_inv(2) [OF j])
  show "lwftp_move c w = Some (r, w') \<Longrightarrow> sess_inv (sess w')"
    unfolding lwftp_move_def by (erule guarded_keeps [OF i]) (auto simp: sends logged_inv(3) [OF j] dest!: sess_send_cmd)
qed

lemma connect_keeps:
  assumes i: "sess_inv (sess w)" and r: "lwftp_connect c w = Some (r, w')"
  shows "sess_inv (sess w')"
proof (cases "control_state (sess w) \<noteq> LWFTP_CLOSED \<or> control_pcb (sess w) \<noteq> None \<or> data_pcb (sess w) \<noteq> None
    \<or> user (sess w) = None \<or> pass (sess w) = None")
  case True
  then show ?thesis using r exit_with_keeps [OF i] unfolding lwftp_connect_def Let_def by (simp only: if_True)
next
  case False
  obtain po v where v: "tcp_new w = (po, v)" by fastforce
  have sv: "sess v = sess w" using sess_tcp(5) [of w] by (simp add: v)
  let ?u = "upd_sess (\<lambda>s. s\<lparr>control_pcb := po\<rparr>) v"
  have u: "sess_inv (sess ?u)" using i False sv by (auto simp: sess_inv_def sess_mid_def)
  show ?thesis
  proof (cases po)
    case None
    then have "exit_with c LWFTP_RESULT_ERR_MEMORY ?u = Some (r, w')"
      using r False by (simp add: lwftp_connect_def Let_def v del: not_None_eq)
    then show ?thesis using exit_with_keeps [OF u] by blast
  next
    case (Some p)
    let ?t = "tcp_register po (Some Control) (do_call (Tcp_arg p) ?u)"
    obtain e x where x: "tcp_connect po (server_ip (sess ?t)) (server_port (sess ?t)) Control ?t = (e, x)" by fastforce
    have sx: "sess x = sess ?u" using sess_tcp(2) [of po _ _ Control ?t] x by (metis sess_tcp(4) snd_conv upd_simps(1))
    have ix: "sess_inv (sess x)" using u by (simp only: sx)
    have step: "(if e = ERR_OK then exit_with c LWFTP_RESULT_INPROGRESS x
        else lwftp_control_close c None x \<bind> exit_with c LWFTP_RESULT_ERR_UNKNOWN) = Some (r, w')"
      using r False Some x unfolding lwftp_connect_def Let_def by (simp add: v del: not_None_eq)
    show ?thesis
    proof (cases "e = ERR_OK")
      case True
      then show ?thesis using step exit_with_keeps [OF ix] by simp
    next
      case False
      then obtain y where "lwftp_control_close c None x = Some y" "exit_with c LWFTP_RESULT_ERR_UNKNOWN y = Some (r, w')"
        using step by (auto simp: bind_eq_Some_conv)
      moreover have "remote_path (sess x) \<noteq> None" using ix by (simp add: sess_inv_def sess_mid_def)
      ultimately show ?thesis using control_close_keeps exit_with_keeps by blast
    qed
  qed
qed

end

lemma close_keeps:
  assumes i: "sess_inv (sess w)" and "lwftp_close w = Some w'"
  shows "sess_inv (sess w')"
proof (cases "control_state (sess w) = LWFTP_CLOSED")
  case True
  then show ?thesis using assms by (simp add: lwftp_close_def)
next
  case False
  then have "control_pcb (sess w) \<noteq> None" using i by (simp add: sess_inv_def sess_mid_def)
  then obtain v where "sess v = sess w" "w' = set_state LWFTP_QUIT_SENT v"
    using assms(2) False
    by (auto simp: lwftp_close_def lwftp_send_QUIT_def lwftp_tcpip_callback_def bind_eq_Some_conv dest: sess_tcp_output)
  then show ?thesis using i False by (simp add: sess_inv_def sess_mid_def)
qed

section \<open>The client fulfils the contract\<close>

lemma sess_inv_client [simp]:
  "sess_inv (s\<lparr>done_fn := f\<rparr>) = sess_inv s" "sess_inv (s\<lparr>data_sink := k\<rparr>) = sess_inv s"
  "sess_inv (s\<lparr>data_source := g\<rparr>) = sess_inv s"
  by (simp_all add: sess_inv_def sess_mid_def)

lemma sess_inv_path [simp]: "sess_inv s \<Longrightarrow> sess_inv (s\<lparr>remote_path := Some p\<rparr>)"
  and sess_inv_new_path [simp]: "sess_inv s \<Longrightarrow> sess_inv (s\<lparr>remote_new_path := Some p\<rparr>)"
  by (auto simp: sess_inv_def sess_mid_def)

lemma sess_client [sess_simps, simp]:
  "sess (set_busy b w) = sess w" "sess (fail_with r w) = sess w" "sess (menu_PrintMessage m w) = sess w"
  "sess (mark_remote w) = sess w" "sess (mark_local w) = sess w" "sess (mark_path w) = sess w"
  "sess (forget_selected w) = sess w" "sess (set_done f w) = (sess w)\<lparr>done_fn := f\<rparr>"
  "sess (set_sink k w) = (sess w)\<lparr>data_sink := Some k\<rparr>"
  by (simp_all add: set_busy_def fail_with_def menu_PrintMessage_def mark_remote_def mark_local_def mark_path_def
      forget_selected_def set_done_def set_sink_def)

lemma sess_append_file [sess_simps]: "append_file f w = Some w' \<Longrightarrow> sess w' = sess w"
  and sess_cut_path [sess_simps]: "cut_path w = Some w' \<Longrightarrow> sess w' = sess w"
  and sess_GetLocalFiles [sess_simps]: "util_GetLocalFiles w = Some w' \<Longrightarrow> sess w' = sess w"
  by (auto simp: append_file_def cut_path_def util_GetLocalFiles_def bind_eq_Some_conv)

lemma sess_AddRemoteFile [sess_simps]: "ftp_AddRemoteFile w = Some w' \<Longrightarrow> sess w' = sess w"
  by (auto simp: ftp_AddRemoteFile_def Let_def split: option.splits if_splits)

lemma sess_list_sink [sess_simps]: "list_sink q w = Some w' \<Longrightarrow> sess w' = sess w"
  by (induction q arbitrary: w)
     (auto simp: Let_def bind_eq_Some_conv split: if_splits dest!: sess_AddRemoteFile)

lemma sess_sink [sess_simps]: "ftp_sink k q w = Some w' \<Longrightarrow> sess w' = sess w"
  by (auto simp: ftp_sink_def ftp_ListDataSink_def ftp_PwdDataSink_def ftp_RetrDataSink_def Let_def bind_eq_Some_conv
      split: sink_cb.splits option.splits dest!: sess_list_sink)

lemma sess_source [sess_simps]: "ftp_source g p n w = Some (d, w') \<Longrightarrow> sess w' = sess w"
  by (auto simp: ftp_source_def ftp_StorDataSource_def Let_def split: if_splits)

context ftp_contract
begin

lemma GetRemoteFiles_keeps: "sess_inv (sess w) \<Longrightarrow> util_GetRemoteFiles c w = Some w' \<Longrightarrow> sess_inv (sess w')"
  by (auto simp: util_GetRemoteFiles_def Let_def bind_eq_Some_conv elim!: transfer_keeps(3) [rotated])

lemma GetDir_keeps: "sess_inv (sess w) \<Longrightarrow> util_GetDir c w = Some w' \<Longrightarrow> sess_inv (sess w')"
  by (auto simp: util_GetDir_def Let_def bind_eq_Some_conv elim!: command_keeps(4) [rotated])

lemma ChangeDir_keeps: "sess_inv (sess w) \<Longrightarrow> util_ChangeDir c w = Some w' \<Longrightarrow> sess_inv (sess w')"
  by (auto simp: util_ChangeDir_def Let_def bind_eq_Some_conv elim!: command_keeps(3) [rotated])

lemma DeleteFile_keeps: "sess_inv (sess w) \<Longrightarrow> util_DeleteFile c w = Some w' \<Longrightarrow> sess_inv (sess w')"
  by (auto simp: util_DeleteFile_def Let_def bind_eq_Some_conv split: if_splits
      dest!: sess_append_file sess_GetLocalFiles elim!: command_keeps(1) [rotated])

text \<open>What \<open>util_MoveFile\<close> amounts to once it does anything: the path is extended, and either nothing
  was typed or the move is started.\<close>

lemma MoveFile_result:
  assumes m: "util_MoveFile c w = Some w'" and "w' \<noteq> w"
  obtains f v t where "append_file f w = Some v" and
    "w' = (upd_sess (\<lambda>s. s\<lparr>remote_path := Some AppPath\<rparr>) v)\<lparr>move_input := t\<rparr>
     \<or> (\<exists>r. lwftp_move c (set_busy True (set_done (Some MoveCallback) (upd_sess (\<lambda>s. s\<lparr>remote_new_path := Some MoveInput\<rparr>)
          ((upd_sess (\<lambda>s. s\<lparr>remote_path := Some AppPath\<rparr>) v)\<lparr>move_input := t\<rparr>)))) = Some (r, w'))"
  using assms unfolding util_MoveFile_def Let_def bind_eq_Some_conv
  by (fastforce simp: bind_eq_Some_conv split: if_splits)

lemma MoveFile_keeps:
  assumes i: "sess_inv (sess w)" and m: "util_MoveFile c w = Some w'"
  shows "sess_inv (sess w')"
proof (cases "w' = w")
  case False
  from MoveFile_result [OF m False] obtain f v t where v: "append_file f w = Some v" and
    "w' = (upd_sess (\<lambda>s. s\<lparr>remote_path := Some AppPath\<rparr>) v)\<lparr>move_input := t\<rparr>
     \<or> (\<exists>r. lwftp_move c (set_busy True (set_done (Some MoveCallback) (upd_sess (\<lambda>s. s\<lparr>remote_new_path := Some MoveInput\<rparr>)
          ((upd_sess (\<lambda>s. s\<lparr>remote_path := Some AppPath\<rparr>) v)\<lparr>move_input := t\<rparr>)))) = Some (r, w'))" .
  then show ?thesis using i sess_append_file [OF v] by (auto elim!: command_keeps(5) [rotated])
qed (use i in simp)

lemma UploadFile_keeps: "sess_inv (sess w) \<Longrightarrow> util_UploadFile_begin c w = Some w' \<Longrightarrow> sess_inv (sess w')"
  by (auto simp: util_UploadFile_begin_def Let_def bind_eq_Some_conv split: if_splits
      dest!: sess_append_file elim!: transfer_keeps(2) [rotated])

lemma DownloadFile_keeps: "sess_inv (sess w) \<Longrightarrow> util_DownloadFile_begin c w = Some w' \<Longrightarrow> sess_inv (sess w')"
  by (auto simp: util_DownloadFile_begin_def Let_def bind_eq_Some_conv split: if_splits
      dest!: sess_append_file elim!: transfer_keeps(1) [rotated])

lemma ftp_done_keeps:
  assumes i: "sess_inv (sess w)" and "ftp_done c f r w = Some w'"
  shows "sess_inv (sess w')"
  using assms
  by (cases f)
     (auto simp: ftp_done_def ftp_ConnectCallback_def ftp_ListCallback_def ftp_PwdCallback_def ftp_CwdCallback_def
        ftp_DelCallback_def ftp_MoveCallback_def ftp_StorCallback_def ftp_RetrCallback_def Let_def bind_eq_Some_conv
      split: if_splits dest!: sess_cut_path sess_GetLocalFiles
      elim!: close_keeps [rotated] GetRemoteFiles_keeps [rotated] GetDir_keeps [rotated])

end

lemma client_contract: "ftp_contract (client_at n)"
proof (induction n)
  case 0
  show ?case by unfold_locales (auto simp: no_client_def)
next
  case (Suc n)
  show ?case
    by unfold_locales (auto dest: sess_sink sess_source intro: ftp_contract.ftp_done_keeps [OF Suc])
qed

interpretation fc: ftp_contract ftp_client
  unfolding ftp_client_def by (rule client_contract)

end
