(* ===== verification/Main_Loop.thy ===== *)
theory Main_Loop
  imports Lwftp_Inv
begin

text \<open>
  The program's main function, \<^verbatim>\<open>src/src/main.c\<close>, and the repainting it triggers in
  \<^verbatim>\<open>src/src/menu.c\<close>: start-up, the set-up of the session, one pass of the key loop, and what
  \<open>menu_UpdateMain\<close> draws. The drawing library and the keypad driver are outside: a pass of the
  loop takes the set of keys that are down, and a repaint yields the list of things drawn.
\<close>

section \<open>Start-up\<close>

text \<open>The three initialisations and the message shown when one fails.\<close>

definition main_StartLwIP :: "bool \<Rightarrow> bool \<Rightarrow> bool \<Rightarrow> world \<Rightarrow> bool \<times> world" where
  "main_StartLwIP mem_ok lwip_ok usb_ok w =
     (if \<not> mem_ok then (False, menu_PrintMessage ''mem_init failed'' w)
      else if \<not> lwip_ok then (False, menu_PrintMessage ''lwip_init failed'' w)
      else if \<not> usb_ok then (False, menu_PrintMessage ''usb_Init failed'' w)
      else (True, w))"

text \<open>What a pass of the waiting loop sees: whether there is an interface, whether Clear is down. The
  interface has the address it has just been given.\<close>

record tick =
  t_netif :: bool
  t_clear :: bool

definition IP_WAIT_TICKS :: nat where
  "IP_WAIT_TICKS = 3000"

fun wait_ticks :: "tick list \<Rightarrow> nat \<Rightarrow> nat list \<Rightarrow> bool" where
  "wait_ticks (t # ts) (Suc n) ip =
     (if t_netif t then \<not> list_all (\<lambda>b. b = 0) ip
      else if t_clear t then False
      else wait_ticks ts n ip)"
| "wait_ticks _ _ ip = False"

definition main_WaitForIP :: "tick list \<Rightarrow> preferences_t \<Rightarrow> bool" where
  "main_WaitForIP ts prefs = wait_ticks ts IP_WAIT_TICKS (client_ip prefs)"

text \<open>The session as \<open>main\<close> sets it up, and the connection attempt.\<close>

definition main_session :: "nat list \<Rightarrow> bytes \<Rightarrow> bytes \<Rightarrow> session" where
  "main_session srv usr pwd =
     \<lparr>server_ip = (srv ! 0, srv ! 1, srv ! 2, srv ! 3), server_port = 21,
      remote_path = Some AppPath, remote_new_path = None, user = Some usr, pass = Some pwd, data_source = None,
      data_sink = None, done_fn = Some ConnectCallback, control_state = LWFTP_CLOSED, target_state = LWFTP_CLOSED,
      data_state = LWFTP_CLOSED, control_pcb = None, data_pcb = None\<rparr>"

definition main_connect :: "client \<Rightarrow> nat list \<Rightarrow> bytes \<Rightarrow> bytes \<Rightarrow> world \<Rightarrow> (bool \<times> world) option" where
  "main_connect c srv usr pwd w = do {
     let w = upd_app (\<lambda>a. a\<lparr>connected := True\<rparr>) w;
     let w = menu_PrintMessage ''Connecting to FTP...'' (w\<lparr>sess := main_session srv (cstr usr) (cstr pwd)\<rparr>);
     (r, w) \<leftarrow> lwftp_connect c w;
     if r \<noteq> LWFTP_RESULT_INPROGRESS then Some (False, menu_PrintMessage ''Connection failed'' w)
     else Some (True, w) }"

section \<open>One pass of the key loop\<close>

datatype key = KLeft | KRight | KUp | KDown | K2nd | KYequ | KWindow | KZoom | KTrace | KGraph

text \<open>Moving the cursor. \<open>selected\<close>, \<open>start\<close> and \<open>total\<close> are 24-bit.\<close>

definition mark_column :: "app_t \<Rightarrow> app_t" where
  "mark_column a = (if remoteColumn a then a\<lparr>dirty := (dirty a)\<lparr>remote_dirty := True\<rparr>\<rparr>
                    else a\<lparr>dirty := (dirty a)\<lparr>local_dirty := True\<rparr>\<rparr>)"

definition cursor_up :: "app_t \<Rightarrow> app_t" where
  "cursor_up a =
     (let k = remoteColumn a
      in mark_column
        (if selected a k \<noteq> 0
         then let a = a\<lparr>selected := (selected a)(k := selected a k - 1)\<rparr>
              in if selected a k < start a k then a\<lparr>start := (start a)(k := start a k - 1)\<rparr> else a
         else let a = a\<lparr>selected := (selected a)(k := total a k - 1)\<rparr>
              in if MAX_SHOWN_FILES < total a k
                 then a\<lparr>start := (start a)(k := total a k - MAX_SHOWN_FILES)\<rparr> else a))"

definition cursor_down :: "app_t \<Rightarrow> app_t" where
  "cursor_down a =
     (let k = remoteColumn a
      in mark_column
        (if selected a k \<noteq> total a k - 1
         then let a = a\<lparr>selected := (selected a)(k := selected a k + 1)\<rparr>
              in if start a k + MAX_SHOWN_FILES - 1 < selected a k
                 then a\<lparr>start := (start a)(k := start a k + 1)\<rparr> else a
         else a\<lparr>selected := (selected a)(k := 0), start := (start a)(k := 0)\<rparr>))"

definition switch_column :: "app_t \<Rightarrow> app_t" where
  "switch_column a = a\<lparr>remoteColumn := \<not> remoteColumn a,
     dirty := (dirty a)\<lparr>local_dirty := True, remote_dirty := True\<rparr>\<rparr>"

definition main_cursor :: "(key \<Rightarrow> bool) \<Rightarrow> app_t \<Rightarrow> app_t" where
  "main_cursor down a =
     (if down KLeft \<or> down KRight then switch_column a
      else if down KUp then cursor_up a
      else if down KDown then cursor_down a
      else a)"

text \<open>The entry of the remote table at the cursor of whichever column is active.\<close>

definition remote_at_cursor :: "world \<Rightarrow> file_t option" where
  "remote_at_cursor w =
     (let i = unat (selected (app w) (remoteColumn (app w)))
      in if i < length (remote_files w) then Some (remote_files w ! i) else None)"

definition main_enter :: "client \<Rightarrow> file_t \<Rightarrow> world \<Rightarrow> world option" where
  "main_enter c f w = do {
     b \<leftarrow> append_name (path (app w)) (f_name f);
     w \<leftarrow> util_ChangeDir c (upd_app (\<lambda>a. a\<lparr>path := b\<rparr>) w);
     Some (upd_app (\<lambda>a. a\<lparr>dir := dir a + 1\<rparr>) w) }"

definition main_back :: "client \<Rightarrow> world \<Rightarrow> world option" where
  "main_back c w = do {
     w \<leftarrow> cut_path w;
     w \<leftarrow> util_ChangeDir c w;
     Some (upd_app (\<lambda>a. a\<lparr>dir := dir a - 1\<rparr>) w) }"

text \<open>Where the program is: waiting for the login, in the key loop, in the waiting loop of an upload or download, or past
  the key loop.\<close>

datatype mode = Connecting | Browsing | Uploading | Downloading | Quitting

text \<open>The condition of the first branch; reading outside the remote table has no defined result.\<close>

definition enters :: "(key \<Rightarrow> bool) \<Rightarrow> world \<Rightarrow> bool option" where
  "enters down w =
     (if down K2nd
      then do { f \<leftarrow> remote_at_cursor w;
                Some (f_type f = TYPE_DIR \<and> (8 :: u24) < of_nat RX_BUF_SIZE - of_nat (strlen (path (app w)))) }
      else Some False)"

definition main_action :: "client \<Rightarrow> (key \<Rightarrow> bool) \<Rightarrow> world \<Rightarrow> (mode \<times> world) option" where
  "main_action c down w =
     (if ftpStarted (app w) \<and> \<not> busy (app w)
      then do {
        e \<leftarrow> enters down w;
        if e then do { f \<leftarrow> remote_at_cursor w; w \<leftarrow> main_enter c f w; Some (Browsing, w) }
        else if down KYequ \<and> dir (app w) \<noteq> 0 then do { w \<leftarrow> main_back c w; Some (Browsing, w) }
        else if down KWindow then do {
          let m = (if remoteColumn (app w) then Browsing else Uploading);
          w \<leftarrow> util_UploadFile_begin c w;
          Some (m, w) }
        else if down KZoom then do { w \<leftarrow> util_DeleteFile c w; Some (Browsing, w) }
        else if down KTrace then do {
          let m = (if remoteColumn (app w) then Downloading else Browsing);
          w \<leftarrow> util_DownloadFile_begin c w;
          Some (m, w) }
        else if down KGraph then do { w \<leftarrow> util_MoveFile c w; Some (Browsing, w) }
        else Some (Browsing, w) }
      else Some (Browsing, w))"

definition main_keys :: "client \<Rightarrow> (key \<Rightarrow> bool) \<Rightarrow> world \<Rightarrow> (mode \<times> world) option" where
  "main_keys c down w = main_action c down (upd_app (main_cursor down) w)"

section \<open>Repainting\<close>

text \<open>The rows of a column: index of the entry, whether it is highlighted, height on the screen.
  The loop ends at the end of the table or at an unused entry.\<close>

fun draw_rows :: "file_t list \<Rightarrow> nat \<Rightarrow> nat option \<Rightarrow> nat \<Rightarrow> nat \<Rightarrow> (nat \<times> bool \<times> nat) list option" where
  "draw_rows tbl st hl i 0 = Some []"
| "draw_rows tbl st hl i (Suc n) =
     (if st + i = length tbl then Some []
      else if length tbl < st + i then None
      else if f_type (tbl ! (st + i)) = TYPE_UNKNOWN then Some []
      else do {
        rs \<leftarrow> draw_rows tbl st hl (Suc i) n;
        Some ((st + i, hl = Some (st + i), 26 + 13 * i) # rs) })"

definition menu_DrawFiles :: "bool \<Rightarrow> world \<Rightarrow> (nat \<times> bool \<times> nat) list option" where
  "menu_DrawFiles k w =
     (let a = app w
      in draw_rows (if k then remote_files w else local_files w) (unat (start a k))
           (if k = remoteColumn a then Some (unat (selected a k)) else None) 0 (unat MAX_SHOWN_FILES))"

datatype drawing =
    Fill_screen | Draw_buttons | Draw_path bytes | Draw_column bool "(nat \<times> bool \<times> nat) list" | Blit_buffer

definition menu_UpdateMain :: "world \<Rightarrow> (drawing list \<times> world) option" where
  "menu_UpdateMain w =
     (let d = dirty (app w)
      in do {
        rs \<leftarrow> (if remote_dirty d then menu_DrawFiles True w else Some []);
        ls \<leftarrow> (if local_dirty d then menu_DrawFiles False w else Some []);
        Some ((if d = ALL_DIRTY then [Fill_screen] else [])
              @ (if buttons_dirty d then [Draw_buttons] else [])
              @ (if path_dirty d \<and> remote_path (sess w) \<noteq> None then [Draw_path (cstr (path (app w)))] else [])
              @ (if remote_dirty d then [Draw_column True rs] else [])
              @ (if local_dirty d then [Draw_column False ls] else [])
              @ (if remote_dirty d \<or> local_dirty d \<or> path_dirty d \<or> buttons_dirty d then [Blit_buffer] else []),
              upd_app (\<lambda>a. a\<lparr>dirty := \<lparr>local_dirty = False, remote_dirty = False, path_dirty = False,
                                      buttons_dirty = False\<rparr>\<rparr>) w) })"

end
