(* ===== verification/Cursor.thy ===== *)
theory Cursor
  imports Main_Loop
begin

text \<open>
  The cursor of the two columns. \<open>column_ok\<close> says that the selected entry of a column that has any
  is one of its entries and lies in the window of fifteen that is shown. Moving the cursor keeps
  it, and a repaint then shows the selected entry, highlighted, once.
\<close>

definition column_ok :: "app_t \<Rightarrow> bool \<Rightarrow> bool" where
  "column_ok a k \<longleftrightarrow>
     (let s = unat (selected a k); st = unat (start a k); t = unat (total a k)
      in t \<le> MAX_LOCAL_FILES
       \<and> (t \<noteq> 0 \<longrightarrow> s < t \<and> st \<le> s \<and> s < st + 15 \<and> (st = 0 \<or> st + 15 \<le> t)))"

text \<open>A table with \<open>t\<close> entries in use, all of them at its beginning.\<close>

definition table_ok :: "file_t list \<Rightarrow> nat \<Rightarrow> bool" where
  "table_ok tbl t \<longleftrightarrow> t \<le> length tbl \<and> (\<forall>i < length tbl. f_type (tbl ! i) = TYPE_UNKNOWN \<longleftrightarrow> t \<le> i)"

section \<open>Moving\<close>

lemma unat_pred: "0 < unat (x :: u24) \<Longrightarrow> unat (x - 1) = unat x - 1"
  using unat_minus_one [of x] by (cases "x = 0") simp_all

lemma unat_succ: "unat (x :: u24) < 16777215 \<Longrightarrow> unat (x + 1) = unat x + 1"
  by (simp add: unat_word_ariths)

lemma mark_column_simps [simp]:
  "selected (mark_column a) = selected a" "start (mark_column a) = start a" "total (mark_column a) = total a"
  "remoteColumn (mark_column a) = remoteColumn a"
  by (simp_all add: mark_column_def)

lemma column_ok_other [simp]: "column_ok (mark_column a) k = column_ok a k"
  by (simp add: column_ok_def mark_column_def)

lemma column_ok_switch: "column_ok (switch_column a) k = column_ok a k"
  by (simp add: column_ok_def switch_column_def)

lemma column_ok_upd:
  "k \<noteq> j \<Longrightarrow> column_ok (a\<lparr>selected := (selected a)(j := x)\<rparr>) k = column_ok a k"
  "k \<noteq> j \<Longrightarrow> column_ok (a\<lparr>start := (start a)(j := y)\<rparr>) k = column_ok a k"
  by (simp_all add: column_ok_def)

text \<open>The cursor's movement on plain numbers: selected entry, first shown entry, number of entries.\<close>

definition at :: "app_t \<Rightarrow> bool \<Rightarrow> nat \<Rightarrow> nat \<Rightarrow> nat \<Rightarrow> bool" where
  "at a k s st t \<longleftrightarrow> unat (selected a k) = s \<and> unat (start a k) = st \<and> unat (total a k) = t"

lemma column_ok_at:
  "at a k s st t \<Longrightarrow> column_ok a k \<longleftrightarrow>
     t \<le> 500 \<and> (t \<noteq> 0 \<longrightarrow> s < t \<and> st \<le> s \<and> s < st + 15 \<and> (st = 0 \<or> st + 15 \<le> t))"
  by (simp add: at_def column_ok_def Let_def)

lemma at_mark [simp]: "at (mark_column a) k s st t = at a k s st t"
  by (simp add: at_def mark_column_def)

lemma cursor_up_at:
  assumes "at a k s st t" and "k = remoteColumn a" and "t \<noteq> 0"
  shows "at (cursor_up a) k (if s \<noteq> 0 then s - 1 else t - 1)
    (if s \<noteq> 0 then (if s - 1 < st then st - 1 else st) else if 15 < t then t - 15 else st) t"
proof -
  have s: "selected a k \<noteq> 0 \<longleftrightarrow> s \<noteq> 0" and t: "total a k \<noteq> 0"
    using assms by (auto simp: at_def unat_gt_0)
  have sp: "s \<noteq> 0 \<Longrightarrow> unat (selected a k - 1) = s - 1" using assms by (simp add: unat_pred at_def)
  have tp: "unat (total a k - 1) = t - 1" using assms by (simp add: unat_pred at_def)
  have stp: "st \<noteq> 0 \<Longrightarrow> unat (start a k - 1) = st - 1" using assms unat_pred [of "start a k"] by (auto simp: at_def)
  have t15: "15 < t \<Longrightarrow> unat (total a k - 15) = t - 15"
    using assms by (simp add: at_def unat_sub word_le_nat_alt)
  have e: "unat (selected a k) = s" "unat (start a k) = st" "unat (total a k) = t" "remoteColumn a = k"
    using assms by (simp_all add: at_def)
  show ?thesis
  proof (cases "s = 0")
    case True
    then show ?thesis using s by (simp add: cursor_up_def Let_def at_def word_less_nat_alt e tp t15)
  next
    case False
    then show ?thesis using s by (simp add: cursor_up_def Let_def at_def word_less_nat_alt e sp stp)
  qed
qed

lemma cursor_down_at:
  assumes "at a k s st t" and "k = remoteColumn a" and "t \<noteq> 0" and "s < 16777000" and "st < 16777000"
  shows "at (cursor_down a) k (if s \<noteq> t - 1 then s + 1 else 0)
    (if s \<noteq> t - 1 then (if st + 14 < s + 1 then st + 1 else st) else 0) t"
proof -
  have t: "total a k \<noteq> 0" using assms by (auto simp: at_def)
  have tp: "unat (total a k - 1) = t - 1" using assms by (simp add: unat_pred at_def)
  have s: "selected a k = total a k - 1 \<longleftrightarrow> s = t - 1" using assms tp by (auto simp: at_def word_unat_eq_iff)
  have sp: "unat (selected a k + 1) = s + 1" "unat (start a k + 1) = st + 1"
    using assms by (simp_all add: unat_succ at_def)
  have w: "unat (14 + start a k) = st + 14" using assms by (simp add: at_def unat_word_ariths)
  have e: "unat (selected a k) = s" "unat (start a k) = st" "unat (total a k) = t" "remoteColumn a = k"
    using assms by (simp_all add: at_def)
  show ?thesis
  proof (cases "s = t - 1")
    case True
    then show ?thesis using s by (simp add: cursor_down_def Let_def at_def e)
  next
    case False
    then show ?thesis using s w by (simp add: cursor_down_def Let_def at_def word_less_nat_alt e sp)
  qed
qed

lemma at_unat: "at a k (unat (selected a k)) (unat (start a k)) (unat (total a k))"
  by (simp add: at_def)

lemma cursor_up_ok:
  assumes "column_ok a k"
  shows "column_ok (cursor_up a) k"
proof (cases "k = remoteColumn a \<and> unat (total a k) \<noteq> 0")
  case True
  then show ?thesis
    using assms column_ok_at [OF at_unat, of a k] column_ok_at [OF cursor_up_at [OF at_unat [of a k]]] by auto
next
  case False
  then show ?thesis using assms by (auto simp: cursor_up_def Let_def column_ok_def)
qed

lemma cursor_down_ok:
  assumes "column_ok a k"
  shows "column_ok (cursor_down a) k"
proof (cases "k = remoteColumn a \<and> unat (total a k) \<noteq> 0")
  case True
  then show ?thesis
    using assms column_ok_at [OF at_unat, of a k] column_ok_at [OF cursor_down_at [OF at_unat [of a k]]] by auto
next
  case False
  then show ?thesis using assms by (auto simp: cursor_down_def Let_def column_ok_def)
qed

lemma cursor_ok: "column_ok a k \<Longrightarrow> column_ok (main_cursor down a) k"
  by (simp add: main_cursor_def cursor_up_ok cursor_down_ok column_ok_switch)

section \<open>Showing\<close>

lemma draw_rows_table:
  assumes "table_ok tbl t" and "st + i \<le> t"
  shows "draw_rows tbl st hl i n =
    Some (map (\<lambda>j. (st + j, hl = Some (st + j), 26 + 13 * j)) [i ..< min (i + n) (t - st)])"
  using assms
proof (induction n arbitrary: i)
  case (Suc n)
  show ?case
  proof (cases "st + i = t")
    case True
    then show ?thesis using Suc.prems by (auto simp: table_ok_def)
  next
    case False
    then have "st + Suc i \<le> t" "i < min (i + Suc n) (t - st)" using Suc.prems by auto
    moreover have "f_type (tbl ! (st + i)) \<noteq> TYPE_UNKNOWN" "st + i < length tbl"
      using Suc.prems False by (auto simp: table_ok_def)
    ultimately show ?thesis using Suc.IH [of "Suc i"] Suc.prems(1) by (simp add: upt_conv_Cons)
  qed
qed simp

lemma upt_single: "a \<le> x \<Longrightarrow> x < b \<Longrightarrow> filter (\<lambda>j. x = j) [a ..< b] = [x]"
proof -
  assume "a \<le> x" "x < b"
  then have "[a ..< b] = [a ..< x] @ x # [Suc x ..< b]"
    using upt_add_eq_append [of a x "b - x"] upt_conv_Cons [of x b] by simp
  then show "filter (\<lambda>j. x = j) [a ..< b] = [x]" by simp
qed

lemma DrawFiles_cursor:
  assumes "column_ok (app w) k" and "k = remoteColumn (app w)" and "total (app w) k \<noteq> 0"
    and "table_ok (if k then remote_files w else local_files w) (unat (total (app w) k))"
  shows "\<exists>rs. menu_DrawFiles k w = Some rs \<and> length rs \<le> 15 \<and> (\<forall>(i, _) \<in> set rs. i < unat (total (app w) k))
     \<and> filter (\<lambda>(_, h, _). h) rs = [(unat (selected (app w) k), True,
           26 + 13 * (unat (selected (app w) k) - unat (start (app w) k)))]"
proof -
  let ?s = "unat (selected (app w) k)" and ?st = "unat (start (app w) k)" and ?t = "unat (total (app w) k)"
  have "?t \<noteq> 0" using assms(3) by (simp add: unat_eq_zero)
  then have b: "?s < ?t" "?st \<le> ?s" "?s < ?st + 15"
    using assms(1) by (auto simp: column_ok_def Let_def)
  let ?f = "\<lambda>j. (?st + j, Some ?s = Some (?st + j), 26 + 13 * j)"
  have d: "menu_DrawFiles k w = Some (map ?f [0 ..< min 15 (?t - ?st)])"
    using assms(2) draw_rows_table [OF assms(4), of ?st 0 "Some ?s" 15] b by (simp add: menu_DrawFiles_def Let_def)
  have "filter (\<lambda>j. ?s - ?st = j) [0 ..< min 15 (?t - ?st)] = [?s - ?st]"
    by (rule upt_single) (use b in auto)
  moreover have "(\<lambda>(_, h, _). h) \<circ> ?f = (\<lambda>j. ?s - ?st = j)" using b by (auto simp: fun_eq_iff)
  ultimately have "filter (\<lambda>(_, h, _). h) (map ?f [0 ..< min 15 (?t - ?st)]) = [?f (?s - ?st)]"
    by (simp only: filter_map list.map)
  then show ?thesis using d b by auto
qed

section \<open>The local table\<close>

definition listed :: "bytes \<times> nat \<Rightarrow> bool" where
  "listed v \<longleftrightarrow> deref (fst v) \<noteq> CHR ''!'' \<and> deref (fst v) \<noteq> CHR ''#''
     \<and> snd v \<in> {OS_TYPE_APPVAR, OS_TYPE_PROT_PRGM, OS_TYPE_PRGM}"

definition local_entry :: "bytes \<times> nat \<Rightarrow> file_t" where
  "local_entry v = \<lparr>f_type = (if snd v = OS_TYPE_APPVAR then TYPE_APPVAR else TYPE_PROG), f_name = vat_name (fst v)\<rparr>"

lemma scan_vat_skip: "\<not> listed v \<Longrightarrow> scan_vat (v # vs) tbl i = scan_vat vs tbl i"
  by (cases v) (auto simp: listed_def Let_def)

lemma scan_vat_take:
  "listed v \<Longrightarrow> i < length tbl \<Longrightarrow> scan_vat (v # vs) tbl i = scan_vat vs (tbl[i := local_entry v]) (i + 1)"
  by (cases v)
     (auto simp: listed_def local_entry_def Let_def OS_TYPE_APPVAR_def OS_TYPE_PROT_PRGM_def OS_TYPE_PRGM_def)

lemma scan_vat_entries:
  assumes "length es + length (filter listed vs) \<le> length es + n"
  shows "scan_vat vs (es @ replicate n zero_file) (length es) =
    Some (es @ map local_entry (filter listed vs) @ replicate (n - length (filter listed vs)) zero_file,
          length es + length (filter listed vs))"
  using assms
proof (induction vs arbitrary: es n)
  case (Cons v vs)
  show ?case
  proof (cases "listed v")
    case False
    then show ?thesis using Cons by (simp add: scan_vat_skip)
  next
    case True
    then obtain m where m: "n = Suc m" using Cons.prems by (cases n) auto
    have "scan_vat vs ((es @ [local_entry v]) @ replicate m zero_file) (length (es @ [local_entry v])) =
        Some ((es @ [local_entry v]) @ map local_entry (filter listed vs) @ replicate (m - length (filter listed vs)) zero_file,
          length (es @ [local_entry v]) + length (filter listed vs))"
      by (rule Cons.IH) (use Cons.prems True m in simp)
    then show ?thesis using True m by (simp add: scan_vat_take list_update_append)
  qed
qed simp

lemma GetLocalFiles_some:
  assumes "length (filter listed (e_detect (envr w) (calls w))) \<le> 500"
  shows "\<exists>w'. util_GetLocalFiles w = Some w' \<and> sess w' = sess w \<and> calls w' = calls w \<and> busy (app w') = busy (app w)
    \<and> total (app w') False = of_nat (length (filter listed (e_detect (envr w) (calls w))))
    \<and> local_files w' = map local_entry (filter listed (e_detect (envr w) (calls w)))
         @ replicate (500 - length (filter listed (e_detect (envr w) (calls w)))) zero_file"
  using scan_vat_entries [of "[]" "e_detect (envr w) (calls w)" 500] assms
  by (simp add: util_GetLocalFiles_def mark_local_def)

section \<open>Properties\<close>

text \<open>Any number of passes of the key loop.\<close>

lemma cursors_keep:
  assumes "column_ok a k"
  shows "column_ok (fold main_cursor downs a) k \<and> total (fold main_cursor downs a) = total a"
  using assms
proof (induction downs arbitrary: a)
  case (Cons down downs)
  have "total (main_cursor down a) = total a"
    by (simp add: main_cursor_def switch_column_def cursor_up_def cursor_down_def Let_def)
  with Cons.IH [OF cursor_ok [OF Cons.prems, of down]] show ?case by simp
qed simp

text \<open>Both columns at their top, as at the start, and any number of passes of the key loop that
  only move the cursor, whatever keys are down in each: if the active column then has an entry, its
  cursor is on one of its entries, and the repaint shows at most fifteen rows, all of them entries
  in use, with the selected one highlighted and no other. The tables are as the program fills them,
  the entries in use at the beginning; nothing is said of a column without entries, where Up leaves
  the table.\<close>

theorem cursor_shown:
  assumes "\<And>k. selected (app w) k = 0 \<and> start (app w) k = 0"
    and "length (remote_files w) = MAX_REMOTE_FILES" and "length (local_files w) = MAX_LOCAL_FILES"
    and "table_ok (remote_files w) (unat (total (app w) True))" "table_ok (local_files w) (unat (total (app w) False))"
    and "v = upd_app (fold main_cursor downs) w" and "k = remoteColumn (app v)" and "total (app w) k \<noteq> 0"
  shows "unat (selected (app v) k) < unat (total (app w) k)
     \<and> (\<exists>rs. menu_DrawFiles k v = Some rs \<and> length rs \<le> 15 \<and> (\<forall>(i, _) \<in> set rs. i < unat (total (app w) k))
          \<and> filter (\<lambda>(_, h, _). h) rs = [(unat (selected (app v) k), True,
                26 + 13 * (unat (selected (app v) k) - unat (start (app v) k)))])"
proof -
  have "unat (total (app w) j) \<le> 500" for j
    using assms(2-5) by (cases j) (auto simp: table_ok_def)
  then have "column_ok (app w) j" for j using assms(1) by (simp add: column_ok_def Let_def)
  from cursors_keep [OF this, of downs] have ok: "column_ok (app v) k" and t: "total (app v) = total (app w)"
    using assms(6) by simp_all
  have "table_ok (if k then remote_files v else local_files v) (unat (total (app v) k))"
    using assms(4-6) t by (cases k) simp_all
  note shown = DrawFiles_cursor [OF ok assms(7) _ this]
  have "unat (total (app v) k) \<noteq> 0" using assms(8) t by (simp add: unat_eq_zero)
  then show ?thesis using ok shown assms(8) t by (simp add: column_ok_def Let_def)
qed

text \<open>A world with sixteen local programs. Up at the top goes to the last one and moves the window;
  Down from there goes back to the first, and once more to the second.\<close>

definition sixteen :: world where
  "sixteen = (upd_app (\<lambda>a. a\<lparr>total := (\<lambda>k. if k then 0 else 16)\<rparr>) example_world)
     \<lparr>local_files := replicate 16 \<lparr>f_type = TYPE_PROG, f_name = ''PROG'' @ replicate 5 nul\<rparr> @ replicate 484 zero_file\<rparr>"

abbreviation only :: "key \<Rightarrow> key \<Rightarrow> bool" where
  "only j \<equiv> \<lambda>k. k = j"

lemma sixteen_up:
  "selected (main_cursor (only KUp) (app sixteen)) False = 15" "start (main_cursor (only KUp) (app sixteen)) False = 1"
  "total (main_cursor (only KUp) (app sixteen)) False = 16" "remoteColumn (main_cursor (only KUp) (app sixteen)) = False"
  by (simp_all add: sixteen_def main_cursor_def cursor_up_def Let_def mark_column_def example_defs)

lemma sixteen_down:
  fixes a :: app_t
  assumes "total a False = 16" and "remoteColumn a = False" and "selected a False = 15"
  shows "selected (main_cursor (only KDown) (main_cursor (only KDown) a)) False = 1"
    "start (main_cursor (only KDown) (main_cursor (only KDown) a)) False = 0"
    "remoteColumn (main_cursor (only KDown) (main_cursor (only KDown) a)) = False"
  using assms by (simp_all add: main_cursor_def cursor_down_def Let_def mark_column_def)

theorem cursor_shown_witness:
  "(\<exists>rs. menu_DrawFiles False (upd_app (fold main_cursor [only KUp]) sixteen) = Some rs
          \<and> filter (\<lambda>(_, h, _). h) rs = [(15, True, 208)])
   \<and> (\<exists>rs. menu_DrawFiles False (upd_app (fold main_cursor [only KUp, only KDown, only KDown]) sixteen) = Some rs
          \<and> filter (\<lambda>(_, h, _). h) rs = [(1, True, 39)])"
proof -
  have h: "selected (app sixteen) k = 0 \<and> start (app sixteen) k = 0" for k by (simp add: sixteen_def example_defs)
  have l: "length (remote_files sixteen) = MAX_REMOTE_FILES" "length (local_files sixteen) = MAX_LOCAL_FILES"
    by (simp_all add: sixteen_def example_defs)
  have t: "table_ok (remote_files sixteen) (unat (total (app sixteen) True))"
    "table_ok (local_files sixteen) (unat (total (app sixteen) False))"
    by (auto simp: table_ok_def sixteen_def example_defs zero_file_def nth_append)
  have n: "total (app sixteen) False \<noteq> 0" by (simp add: sixteen_def example_defs)
  show ?thesis
    using cursor_shown [OF h l t refl _ n, of "[only KUp]"] cursor_shown [OF h l t refl _ n, of "[only KUp, only KDown, only KDown]"]
    by (auto simp: sixteen_up sixteen_down [OF sixteen_up(3,4,1)])
qed

text \<open>In a column without entries, Up at the top selects entry 16777215, and asking to enter a
  directory there reads outside the file table.\<close>

theorem empty_column_up:
  assumes "total (app w) (remoteColumn (app w)) = 0" and "selected (app w) (remoteColumn (app w)) = 0"
    and "length (remote_files w) = MAX_REMOTE_FILES"
    and "ftpStarted (app w)" and "\<not> busy (app w)" and "\<not> down KLeft" and "\<not> down KRight" and "down KUp" and "down K2nd"
  shows "selected (main_cursor down (app w)) (remoteColumn (app w)) = 16777215 \<and> main_keys c down w = None"
proof -
  let ?a = "main_cursor down (app w)"
  have s: "selected ?a (remoteColumn (app w)) = 16777215" and r: "remoteColumn ?a = remoteColumn (app w)"
    "ftpStarted ?a" "\<not> busy ?a"
    using assms by (cases "remoteColumn (app w)"; simp add: main_cursor_def cursor_up_def Let_def mark_column_def)+
  have "enters down (upd_app (main_cursor down) w) = None"
    using assms(3,9) s r by (simp add: enters_def remote_at_cursor_def)
  then show ?thesis using s r by (simp add: main_keys_def main_action_def)
qed

theorem empty_column_up_witness:
  "main_keys ftp_client (\<lambda>k. k \<in> {KUp, K2nd}) (upd_app (\<lambda>a. a\<lparr>ftpStarted := True, remoteColumn := True\<rparr>) example_world) = None"
  using empty_column_up [of "upd_app (\<lambda>a. a\<lparr>ftpStarted := True, remoteColumn := True\<rparr>) example_world"
      "\<lambda>k. k \<in> {KUp, K2nd}" ftp_client]
  by (simp add: example_defs)

text \<open>The local table after \<open>util_GetLocalFiles\<close> has an entry for every program and AppVar the
  calculator reports whose VAT name does not begin with \<open>!\<close> or \<open>#\<close>, and no other, in the order they
  are reported; the rest of the table is unused, and the count is the number of entries. Hidden
  variables are listed too, under the name with the first byte moved up by 64. Assumed: there are
  no more than 500 of them, which the code does not check.\<close>

theorem GetLocalFiles_table:
  assumes "vs = e_detect (envr w) (calls w)" and "length (filter listed vs) \<le> MAX_LOCAL_FILES"
  shows "\<exists>w'. util_GetLocalFiles w = Some w'
     \<and> unat (total (app w') False) = length (filter listed vs)
     \<and> local_files w' = map local_entry (filter listed vs) @ replicate (500 - length (filter listed vs)) zero_file
     \<and> table_ok (local_files w') (unat (total (app w') False))"
proof -
  have "table_ok (map local_entry (filter listed vs) @ replicate (500 - length (filter listed vs)) zero_file)
      (length (filter listed vs))"
    using assms(2) by (auto simp: table_ok_def nth_append local_entry_def zero_file_def)
  then show ?thesis using GetLocalFiles_some [of w] assms by (auto simp: unat_of_nat)
qed

theorem GetLocalFiles_table_witness:
  "\<exists>w'. util_GetLocalFiles (example_world\<lparr>envr := example_env\<lparr>e_detect := (\<lambda>_. [(''PROG'', 5), (''!'', 5), (CHR 0x01 # ''OO'', 6)])\<rparr>\<rparr>)
      = Some w' \<and> unat (total (app w') False) = 2
     \<and> cstr (f_name (local_files w' ! 0)) = ''PROG'' \<and> cstr (f_name (local_files w' ! 1)) = ''AOO''"
proof -
  let ?vs = "[(''PROG'', 5), (''!'', 5), (CHR 0x01 # ''OO'', 6)]"
  let ?w = "example_world\<lparr>envr := example_env\<lparr>e_detect := (\<lambda>_. ?vs)\<rparr>\<rparr>"
  have f: "filter listed ?vs = [(''PROG'', 5), (CHR 0x01 # ''OO'', 6)]"
    by (simp add: listed_def OS_TYPE_PRGM_def OS_TYPE_PROT_PRGM_def deref_def)
  have n: "cstr (f_name (local_entry (''PROG'', 5))) = ''PROG''" "cstr (f_name (local_entry (CHR 0x01 # ''OO'', 6))) = ''AOO''"
    by code_simp+
  have d: "?vs = e_detect (envr ?w) (calls ?w)" by simp
  from GetLocalFiles_table [OF d] show ?thesis unfolding f by (auto simp: n)
qed

end
