(* ===== verification/Lwftp_Pcbs.thy ===== *)
theory Lwftp_Pcbs
  imports Lwftp_Inv
begin

text \<open>
  Accounting for TCP control blocks. \<open>held\<close> computes from the calls made so far which control blocks
  the program has obtained and neither closed nor lost; \<open>acct\<close> says these are exactly the ones
  the session refers to. It needs of lwIP that closing succeeds and that a control block in use is
  not handed out again.
\<close>

section \<open>The account\<close>

fun hold :: "call \<Rightarrow> pcb set \<Rightarrow> pcb set" where
  "hold (Tcp_new (Some p)) H = insert p H"
| "hold (Tcp_close p e) H = (if e = ERR_OK then H - {p} else H)"
| "hold (Tcp_freed p) H = H - {p}"
| "hold _ H = H"

definition held :: "call list \<Rightarrow> pcb set" where
  "held cs = fold hold cs {}"

definition pcbs_ok :: "env \<Rightarrow> bool" where
  "pcbs_ok E \<longleftrightarrow> (\<forall>cs. e_tcp_close E cs = ERR_OK) \<and> (\<forall>cs p. e_tcp_new E cs = Some p \<longrightarrow> p \<notin> held cs)"

definition owned :: "session \<Rightarrow> pcb set" where
  "owned s = set_option (control_pcb s) \<union> set_option (data_pcb s)"

definition acct :: "world \<Rightarrow> bool" where
  "acct w \<longleftrightarrow> pcbs_ok (envr w) \<and> held (calls w) = owned (sess w)
     \<and> (control_pcb (sess w) = None \<or> control_pcb (sess w) \<noteq> data_pcb (sess w))"

lemma held_append [simp]: "held (cs @ ks) = fold hold ks (held cs)"
  by (simp add: held_def)

lemma hold_neutral [simp]:
  "hold (Tcp_err p k) H = H" "hold (Tcp_write p d e) H = H" "hold (Tcp_new None) H = H"
  by simp_all

section \<open>What the primitives do to the account\<close>

named_theorems acct_simps \<open>the account after a primitive\<close>

lemma acct_state [acct_simps, simp]:
  "acct (set_state st w) = acct w"
  "acct (upd_app g w) = acct w"
  "acct (upd_sess (\<lambda>s. s\<lparr>target_state := st\<rparr>) w) = acct w"
  "acct (upd_sess (\<lambda>s. s\<lparr>data_state := st\<rparr>) w) = acct w"
  "acct (upd_sess (\<lambda>s. s\<lparr>done_fn := f\<rparr>) w) = acct w"
  "acct (upd_sess (\<lambda>s. s\<lparr>data_sink := k\<rparr>) w) = acct w"
  "acct (upd_sess (\<lambda>s. s\<lparr>data_source := d\<rparr>) w) = acct w"
  "acct (upd_sess (\<lambda>s. s\<lparr>remote_path := q\<rparr>) w) = acct w"
  "acct (upd_sess (\<lambda>s. s\<lparr>remote_new_path := q\<rparr>) w) = acct w"
  "acct (w\<lparr>remote_files := ft\<rparr>) = acct w" "acct (w\<lparr>local_files := ft\<rparr>) = acct w"
  "acct (w\<lparr>file_buffer := m\<rparr>) = acct w" "acct (w\<lparr>move_input := b\<rparr>) = acct w"
  by (simp_all add: acct_def owned_def set_state_def)

lemma acct_call [acct_simps, simp]: "(\<And>H. hold k H = H) \<Longrightarrow> acct (do_call k w) = acct w"
  by (simp add: acct_def)

lemma acct_tcp [acct_simps, simp]:
  "acct (snd (tcp_write po d w)) = acct w" "acct (snd (tcp_connect po ip n k w)) = acct w"
  "acct (tcp_register po ko w) = acct w"
  by (simp_all add: tcp_write_def tcp_connect_def tcp_register_def Let_def split: option.split)

lemma acct_tcp_output [acct_simps]: "tcp_output po w = Some w' \<Longrightarrow> acct w' = acct w"
  by (auto simp: tcp_output_def split: option.splits)

lemma acct_send_msg [acct_simps, simp]: "acct (snd (lwftp_send_msg m w)) = acct w"
  by (simp add: lwftp_send_msg_def)

lemma acct_send_cmd [acct_simps]: "send_cmd v a w = Some w' \<Longrightarrow> acct w' = acct w"
  by (auto simp: send_cmd_def bind_eq_Some_conv)

lemma acct_data_open [acct_simps, simp]: "acct (snd (lwftp_data_open p w)) = acct w"
  by (simp add: lwftp_data_open_def Let_def split: option.split)

lemma calls_pcb_close:
  assumes "pcbs_ok (envr w)"
  shows "held (calls (lwftp_pcb_close (Some p) w)) = held (calls w) - {p}"
    and "envr (lwftp_pcb_close (Some p) w) = envr w"
  using assms by (simp_all add: lwftp_pcb_close_def tcp_close_def tcp_register_def Let_def pcbs_ok_def)

lemma pcb_close_None [simp]: "lwftp_pcb_close None w = w"
  by (simp add: lwftp_pcb_close_def)

lemma acct_close_data [intro]: "acct w \<Longrightarrow> acct (close_data_pcb w)"
  by (cases "data_pcb (sess w)") (auto simp: acct_def close_data_pcb_def owned_def calls_pcb_close)

lemma acct_close_control:
  assumes "acct w" and "control_pcb (sess w) = Some p"
  shows "acct (upd_sess (\<lambda>s. s\<lparr>control_pcb := None\<rparr>) (lwftp_pcb_close (Some p) w))"
  using assms by (auto simp: acct_def owned_def calls_pcb_close)

lemma acct_freed:
  assumes "acct w"
  shows "data_pcb (sess w) = Some p \<Longrightarrow> acct (upd_sess (\<lambda>s. s\<lparr>data_pcb := None\<rparr>) (do_call (Tcp_freed p) w))"
    and "control_pcb (sess w) = Some p \<Longrightarrow> acct (upd_sess (\<lambda>s. s\<lparr>control_pcb := None\<rparr>) (do_call (Tcp_freed p) w))"
  using assms by (auto simp: acct_def owned_def)

lemma acct_new:
  assumes "acct w" and "tcp_new w = (po, v)"
  shows "data_pcb (sess w) = None \<Longrightarrow> acct (upd_sess (\<lambda>s. s\<lparr>data_pcb := po\<rparr>) v)"
    and "control_pcb (sess w) = None \<Longrightarrow> data_pcb (sess w) = None \<Longrightarrow> acct (upd_sess (\<lambda>s. s\<lparr>control_pcb := po\<rparr>) v)"
  using assms by (cases po; auto simp: acct_def owned_def tcp_new_def Let_def pcbs_ok_def)+

section \<open>The contract, with accounts\<close>

locale ftp_accounts = ftp_contract +
  assumes done_acct: "acct w \<Longrightarrow> call_done c f r w = Some w' \<Longrightarrow> acct w'"
    and sink_acct: "acct w \<Longrightarrow> call_sink c k q w = Some w' \<Longrightarrow> acct w'"
    and source_acct: "acct w \<Longrightarrow> call_source c g p n w = Some (d, w') \<Longrightarrow> acct w'"
begin

lemma finish_acct: "acct w \<Longrightarrow> finish c r w = Some w' \<Longrightarrow> acct w'"
  by (auto simp: finish_def split: option.splits intro: done_acct)

lemma sink_option_acct:
  "acct w \<Longrightarrow> (case data_sink (sess w) of None \<Rightarrow> Some w | Some f \<Rightarrow> call_sink c f q w) = Some v \<Longrightarrow> acct v"
  by (auto split: option.splits intro: sink_acct)

lemma sink_chain_acct: "acct w \<Longrightarrow> sink_chain c qs w = Some w' \<Longrightarrow> acct w'"
  by (induction qs arbitrary: w) (auto simp: bind_eq_Some_conv dest: sink_acct)

lemma send_next_data_acct: "acct w \<Longrightarrow> lwftp_send_next_data c w = Some w' \<Longrightarrow> acct w'"
  by (auto simp: lwftp_send_next_data_def bind_eq_Some_conv split: option.splits if_splits dest: source_acct)

lemma data_sent_acct: "acct w \<Longrightarrow> lwftp_data_sent c n w = Some w' \<Longrightarrow> acct w'"
  by (auto simp: lwftp_data_sent_def bind_eq_Some_conv split: option.splits intro: send_next_data_acct dest: source_acct)

lemma data_recv_acct:
  assumes a: "acct w" and "lwftp_data_recv c t po w = Some w'"
  shows "acct w'"
proof (cases po)
  case None
  then obtain v where v: "(case data_sink (sess w) of None \<Rightarrow> Some w | Some f \<Rightarrow> call_sink c f None w) = Some v"
      "w' = (if data_pcb (sess v) \<noteq> None then close_data_pcb v else v)"
    using assms by (auto simp: lwftp_data_recv_def bind_eq_Some_conv)
  show ?thesis using sink_option_acct [OF a v(1)] by (auto simp: v(2))
next
  case (Some p)
  then obtain v where v: "(if data_sink (sess w) \<noteq> None then sink_chain c (payload p # chain p) w else Some w) = Some v"
      "w' = do_call Pbuf_free (do_call (Tcp_recved t (tot_len p)) v)"
    using assms by (auto simp: lwftp_data_recv_def bind_eq_Some_conv simp del: sink_chain.simps)
  have "acct v" using v(1) sink_chain_acct [OF a] a by (auto simp del: sink_chain.simps split: if_splits)
  then show ?thesis by (simp add: v(2))
qed

lemma data_close_acct: "acct w \<Longrightarrow> lwftp_data_close c r w = Some w' \<Longrightarrow> acct w'"
  by (auto simp: lwftp_data_close_def split: if_splits intro: finish_acct)

lemma control_close_acct:
  assumes "acct w" and "lwftp_control_close c r w = Some w'"
  shows "acct w'"
proof -
  define v where "v = (if data_pcb (sess w) \<noteq> None then close_data_pcb w else w)"
  define u where "u = set_state LWFTP_CLOSED (if control_pcb (sess v) \<noteq> None
    then upd_sess (\<lambda>s. s\<lparr>control_pcb := None\<rparr>) (lwftp_pcb_close (control_pcb (sess v)) v) else v)"
  have "acct v" using assms(1) by (auto simp: v_def)
  then have u: "acct u" by (auto simp: u_def acct_close_control)
  have "(case r of None \<Rightarrow> Some u | Some res \<Rightarrow> finish c res u) = Some w'"
    using assms(2) unfolding lwftp_control_close_def Let_def u_def v_def .
  with u show ?thesis by (cases r) (auto intro: finish_acct)
qed

lemma process_reply_acct:
  assumes a: "acct w" and "process_reply c n po w = Some (r, w')"
  shows "acct w'"
proof -
  have login: "process_login c n w = Some (r, w') \<Longrightarrow> acct w'"
    using a by (auto simp: process_login_def bind_eq_Some_conv split: lwftp_state_t.splits if_splits
        dest: acct_send_cmd intro: finish_acct [of "set_state LWFTP_LOGGED w"])
  have pasv: "process_pasv n p w = Some v \<Longrightarrow> acct v" for p v
    using a by (auto simp: process_pasv_def Let_def bind_eq_Some_conv split: if_splits option.splits)
  have transfer: "process_transfer c n p w = Some (r, w') \<Longrightarrow> acct w'" for p
    using a pasv by (auto simp: process_transfer_def bind_eq_Some_conv split: lwftp_state_t.splits if_splits
        intro: data_sent_acct [of "set_state LWFTP_XFERING w"])
  have xfering: "process_xfering n w = Some (r, w') \<Longrightarrow> acct w'"
    using a by (auto simp: process_xfering_def)
  have command: "process_command c n p w = Some (r, w') \<Longrightarrow> acct w'" for p
    using a by (auto simp: process_command_def Let_def bind_eq_Some_conv split: lwftp_state_t.splits if_splits
        dest: acct_send_cmd sink_option_acct)
  show ?thesis using assms login transfer xfering command
    by (auto simp: process_reply_def split: option.splits if_splits)
qed

lemma process_second_acct: "acct w \<Longrightarrow> process_second c r w = Some w' \<Longrightarrow> acct w'"
  by (auto simp: process_second_def bind_eq_Some_conv split: lwftp_state_t.splits dest: acct_tcp_output
      intro: data_close_acct [of "set_state LWFTP_LOGGED w"] finish_acct [of "set_state LWFTP_LOGGED w"] control_close_acct)

lemma control_process_acct:
  assumes "acct w" and "lwftp_control_process c po w = Some w'"
  shows "acct w'"
proof -
  obtain r v where v: "process_reply c (response_of po) po w = Some (r, v)"
      "process_second c r (case po of None \<Rightarrow> v | Some p \<Rightarrow> do_call Pbuf_free v) = Some w'"
    using assms(2) by (auto simp: lwftp_control_process_def bind_eq_Some_conv Let_def)
  from process_reply_acct [OF assms(1) v(1)]
  have "acct (case po of None \<Rightarrow> v | Some p \<Rightarrow> do_call Pbuf_free v)" by (simp split: option.split)
  then show ?thesis using v(2) by (rule process_second_acct)
qed

lemma data_err_acct:
  assumes "acct w" and "data_pcb (sess w) = Some p" and "lwftp_data_err c (do_call (Tcp_freed p) w) = Some w'"
  shows "acct w'"
proof -
  have "acct (upd_sess (\<lambda>s. s\<lparr>data_pcb := None\<rparr>) (do_call (Tcp_freed p) w))" by (rule acct_freed(1) [OF assms(1,2)])
  then show ?thesis using assms(3)
    by (auto simp: lwftp_data_err_def Let_def split: if_splits elim!: control_process_acct [rotated])
qed

lemma control_recv_acct: "acct w \<Longrightarrow> lwftp_control_recv c t po e w = Some w' \<Longrightarrow> acct w'"
  by (auto simp: lwftp_control_recv_def split: if_splits option.splits
      elim!: control_process_acct [rotated] control_close_acct [rotated])

lemma control_err_acct:
  assumes "acct w" and "control_pcb (sess w) = Some p" and "lwftp_control_err c (do_call (Tcp_freed p) w) = Some w'"
  shows "acct w'"
  using acct_freed(2) [OF assms(1,2)] assms(3) unfolding lwftp_control_err_def Let_def by (rule control_close_acct)

lemma exit_with_acct: "acct w \<Longrightarrow> exit_with c r w = Some (q, w') \<Longrightarrow> acct w'"
  by (auto simp: exit_with_def bind_eq_Some_conv intro: finish_acct)

lemma initiate_acct:
  assumes "\<And>v. f w = Some v \<Longrightarrow> acct v" and "initiate c f w = Some (r, w')"
  shows "acct w'"
proof -
  obtain v q where "f w = Some v" "exit_with c q v = Some (r, w')"
    using assms(2) by (auto simp: initiate_def lwftp_tcpip_callback_def bind_eq_Some_conv)
  then show ?thesis using assms(1) exit_with_acct by blast
qed

lemma start_acct:
  assumes "acct w"
  shows "lwftp_start_RETR c w = Some v \<Longrightarrow> acct v" "lwftp_start_STOR c w = Some v \<Longrightarrow> acct v"
    "lwftp_start_MLSD c w = Some v \<Longrightarrow> acct v" "lwftp_send_DELE c w = Some v \<Longrightarrow> acct v"
    "lwftp_send_RMD c w = Some v \<Longrightarrow> acct v" "lwftp_send_CWD c w = Some v \<Longrightarrow> acct v"
    "lwftp_send_PWD c w = Some v \<Longrightarrow> acct v" "lwftp_send_RNFR c w = Some v \<Longrightarrow> acct v"
  using assms
  by (auto simp: lwftp_start_RETR_def lwftp_start_STOR_def lwftp_start_MLSD_def lwftp_send_DELE_def lwftp_send_RMD_def
      lwftp_send_CWD_def lwftp_send_PWD_def lwftp_send_RNFR_def bind_eq_Some_conv
      split: if_splits dest: acct_send_cmd finish_acct)

lemma initiate_transfer_acct:
  assumes "acct w" and "initiate_transfer c f w = Some (r, w')" and f: "\<And>v u. acct v \<Longrightarrow> f v = Some u \<Longrightarrow> acct u"
  shows "acct w'"
proof (cases "control_state (sess w) \<noteq> LWFTP_LOGGED \<or> remote_path (sess w) = None \<or> data_pcb (sess w) \<noteq> None")
  case True
  then show ?thesis using assms(1,2) exit_with_acct by (auto simp: initiate_transfer_def)
next
  case False
  obtain po v where v: "tcp_new w = (po, v)" by fastforce
  let ?u = "upd_sess (\<lambda>s. s\<lparr>data_pcb := po\<rparr>) v"
  have u: "acct ?u" using acct_new(1) [OF assms(1) v] False by blast
  have "(if po = None then exit_with c LWFTP_RESULT_ERR_MEMORY ?u else initiate c f ?u) = Some (r, w')"
    using assms(2) False by (simp add: initiate_transfer_def Let_def v del: not_None_eq split: if_splits)
  then show ?thesis using exit_with_acct [OF u] initiate_acct [of f ?u r w', OF f [OF u]] by (auto split: if_splits)
qed

lemma transfer_acct:
  assumes "acct w"
  shows "lwftp_retrieve c w = Some (r, w') \<Longrightarrow> acct w'" "lwftp_store c w = Some (r, w') \<Longrightarrow> acct w'"
    "lwftp_mlsd c w = Some (r, w') \<Longrightarrow> acct w'"
  unfolding lwftp_retrieve_def lwftp_store_def lwftp_mlsd_def
  by (erule initiate_transfer_acct [OF assms], erule start_acct, assumption)+

lemma guarded_acct:
  assumes "acct w" and "(if g then exit_with c LWFTP_RESULT_ERR_ARGUMENT w else initiate c f w) = Some (r, w')"
    and "\<And>v. f w = Some v \<Longrightarrow> acct v"
  shows "acct w'"
  using assms exit_with_acct [OF assms(1)] initiate_acct [of f w r w'] by (cases g) auto

lemma command_acct:
  assumes "acct w"
  shows "lwftp_delete c w = Some (r, w') \<Longrightarrow> acct w'" "lwftp_remove_dir c w = Some (r, w') \<Longrightarrow> acct w'"
    "lwftp_change_dir c w = Some (r, w') \<Longrightarrow> acct w'" "lwftp_print_dir c w = Some (r, w') \<Longrightarrow> acct w'"
    "lwftp_move c w = Some (r, w') \<Longrightarrow> acct w'"
  unfolding lwftp_delete_def lwftp_remove_dir_def lwftp_change_dir_def lwftp_print_dir_def lwftp_move_def
  by (erule guarded_acct [OF assms], erule start_acct [OF assms])+

lemma connect_acct:
  assumes a: "acct w" and r: "lwftp_connect c w = Some (r, w')"
  shows "acct w'"
proof (cases "control_state (sess w) \<noteq> LWFTP_CLOSED \<or> control_pcb (sess w) \<noteq> None \<or> data_pcb (sess w) \<noteq> None
    \<or> user (sess w) = None \<or> pass (sess w) = None")
  case True
  then show ?thesis using r exit_with_acct [OF a] unfolding lwftp_connect_def Let_def by (simp only: if_True)
next
  case False
  obtain po v where v: "tcp_new w = (po, v)" by fastforce
  let ?u = "upd_sess (\<lambda>s. s\<lparr>control_pcb := po\<rparr>) v"
  have u: "acct ?u" using acct_new(2) [OF a v] False by blast
  show ?thesis
  proof (cases po)
    case None
    then have "exit_with c LWFTP_RESULT_ERR_MEMORY ?u = Some (r, w')"
      using r False by (simp add: lwftp_connect_def Let_def v del: not_None_eq)
    then show ?thesis using exit_with_acct [OF u] by blast
  next
    case (Some p)
    let ?t = "tcp_register po (Some Control) (do_call (Tcp_arg p) ?u)"
    obtain e x where x: "tcp_connect po (server_ip (sess ?t)) (server_port (sess ?t)) Control ?t = (e, x)" by fastforce
    have "acct (snd (tcp_connect po (server_ip (sess ?t)) (server_port (sess ?t)) Control ?t))" using u by simp
    then have ax: "acct x" by (simp only: x snd_conv)
    have "(if e = ERR_OK then exit_with c LWFTP_RESULT_INPROGRESS x
        else lwftp_control_close c None x \<bind> exit_with c LWFTP_RESULT_ERR_UNKNOWN) = Some (r, w')"
      using r False Some x unfolding lwftp_connect_def Let_def by (simp add: v del: not_None_eq)
    then show ?thesis using exit_with_acct [OF ax]
      by (auto simp: bind_eq_Some_conv split: if_splits dest: control_close_acct [OF ax] intro: exit_with_acct)
  qed
qed

end

lemma close_acct: "acct w \<Longrightarrow> lwftp_close w = Some w' \<Longrightarrow> acct w'"
  by (auto simp: lwftp_close_def lwftp_send_QUIT_def lwftp_tcpip_callback_def bind_eq_Some_conv
      split: if_splits dest: acct_tcp_output)

section \<open>The client fulfils it\<close>

lemma acct_client [acct_simps, simp]:
  "acct (set_busy b w) = acct w" "acct (fail_with r w) = acct w" "acct (menu_PrintMessage m w) = acct w"
  "acct (mark_remote w) = acct w" "acct (mark_local w) = acct w" "acct (mark_path w) = acct w"
  "acct (forget_selected w) = acct w" "acct (set_done f w) = acct w" "acct (set_sink k w) = acct w"
  by (simp_all add: set_busy_def fail_with_def menu_PrintMessage_def mark_remote_def mark_local_def mark_path_def
      forget_selected_def set_done_def set_sink_def)

lemma acct_append_file [acct_simps]: "append_file f w = Some w' \<Longrightarrow> acct w' = acct w"
  and acct_cut_path [acct_simps]: "cut_path w = Some w' \<Longrightarrow> acct w' = acct w"
  and acct_GetLocalFiles [acct_simps]: "util_GetLocalFiles w = Some w' \<Longrightarrow> acct w' = acct w"
  by (auto simp: append_file_def cut_path_def util_GetLocalFiles_def bind_eq_Some_conv)

lemma acct_AddRemoteFile [acct_simps]: "ftp_AddRemoteFile w = Some w' \<Longrightarrow> acct w' = acct w"
  by (auto simp: ftp_AddRemoteFile_def Let_def split: option.splits if_splits)

lemma acct_list_sink [acct_simps]: "list_sink q w = Some w' \<Longrightarrow> acct w' = acct w"
proof (induction q arbitrary: w)
  case (Cons a q)
  then show ?case by (auto simp: Let_def bind_eq_Some_conv split: if_splits dest!: Cons.IH acct_AddRemoteFile)
qed simp

lemma acct_sink [acct_simps]: "ftp_sink k q w = Some w' \<Longrightarrow> acct w' = acct w"
  by (auto simp: ftp_sink_def ftp_ListDataSink_def ftp_PwdDataSink_def ftp_RetrDataSink_def Let_def bind_eq_Some_conv
      split: sink_cb.splits option.splits dest!: acct_list_sink)

lemma acct_source [acct_simps]: "ftp_source g p n w = Some (d, w') \<Longrightarrow> acct w' = acct w"
  by (auto simp: ftp_source_def ftp_StorDataSource_def Let_def split: if_splits)

context ftp_accounts
begin

lemma client_ops_acct:
  assumes "acct w"
  shows "util_GetRemoteFiles c w = Some w' \<Longrightarrow> acct w'" "util_GetDir c w = Some w' \<Longrightarrow> acct w'"
    "util_ChangeDir c w = Some w' \<Longrightarrow> acct w'" "util_DeleteFile c w = Some w' \<Longrightarrow> acct w'"
    "util_UploadFile_begin c w = Some w' \<Longrightarrow> acct w'" "util_DownloadFile_begin c w = Some w' \<Longrightarrow> acct w'"
  using assms
  by (auto simp: util_GetRemoteFiles_def util_GetDir_def util_ChangeDir_def util_DeleteFile_def
      util_UploadFile_begin_def util_DownloadFile_begin_def Let_def bind_eq_Some_conv split: if_splits
      dest!: acct_append_file acct_GetLocalFiles elim!: transfer_acct [rotated] command_acct [rotated])

lemma MoveFile_acct:
  assumes i: "acct w" and m: "util_MoveFile c w = Some w'"
  shows "acct w'"
proof (cases "w' = w")
  case False
  from MoveFile_result [OF m False] obtain f v t where v: "append_file f w = Some v" and
    "w' = (upd_sess (\<lambda>s. s\<lparr>remote_path := Some AppPath\<rparr>) v)\<lparr>move_input := t\<rparr>
     \<or> (\<exists>r. lwftp_move c (set_busy True (set_done (Some MoveCallback) (upd_sess (\<lambda>s. s\<lparr>remote_new_path := Some MoveInput\<rparr>)
          ((upd_sess (\<lambda>s. s\<lparr>remote_path := Some AppPath\<rparr>) v)\<lparr>move_input := t\<rparr>)))) = Some (r, w'))" .
  then show ?thesis using i acct_append_file [OF v] by (auto elim!: command_acct(5) [rotated])
qed (use i in simp)

lemma ftp_done_acct:
  assumes i: "acct w" and "ftp_done c f r w = Some w'"
  shows "acct w'"
  using assms
  by (cases f)
     (auto simp: ftp_done_def ftp_ConnectCallback_def ftp_ListCallback_def ftp_PwdCallback_def ftp_CwdCallback_def
        ftp_DelCallback_def ftp_MoveCallback_def ftp_StorCallback_def ftp_RetrCallback_def Let_def bind_eq_Some_conv
      split: if_splits dest!: acct_cut_path acct_GetLocalFiles
      elim!: close_acct [rotated] client_ops_acct [rotated])

end

lemma client_accounts: "ftp_accounts (client_at n)"
proof (induction n)
  case 0
  show ?case
    using client_contract [of 0]
    by (intro ftp_accounts.intro ftp_accounts_axioms.intro) (auto simp: no_client_def)
next
  case (Suc n)
  show ?case
    by (intro ftp_accounts.intro client_contract ftp_accounts_axioms.intro)
       (auto dest: acct_sink acct_source intro: ftp_accounts.ftp_done_acct [OF Suc])
qed

interpretation fa: ftp_accounts ftp_client
  unfolding ftp_client_def by (rule client_accounts)

end
