(* ===== verification/System.thy ===== *)
theory System
  imports Cursor Lwftp_Pcbs
begin

text \<open>
  The running program as a step relation: the network delivers an event of a connection the
  session holds, or the user presses keys, or a waiting loop ends. Network events arrive in any
  mode (every loop of the program services the network), keys are read in the key loop. A state
  in which the C program has undefined behaviour has no step for the event that causes it.
  When lwIP reports an error it has freed the control block; \<open>Tcp_freed\<close> records it.
\<close>

section \<open>Steps\<close>

inductive step :: "mode \<times> world \<Rightarrow> mode \<times> world \<Rightarrow> bool" where
  connected: "control_pcb (sess w) = Some p \<Longrightarrow> control_state (sess w) = LWFTP_CLOSED
    \<Longrightarrow> step (m, w) (m, lwftp_control_connected e w)"
| reply: "control_pcb (sess w) = Some p \<Longrightarrow> lwftp_control_recv ftp_client p po e w = Some w'
    \<Longrightarrow> step (m, w) (m, w')"
| control_sent: "control_pcb (sess w) = Some p \<Longrightarrow> step (m, w) (m, lwftp_control_sent n w)"
| control_error: "control_pcb (sess w) = Some p \<Longrightarrow> lwftp_control_err ftp_client (do_call (Tcp_freed p) w) = Some w'
    \<Longrightarrow> step (m, w) (m, w')"
| data_connected: "data_pcb (sess w) = Some p \<Longrightarrow> step (m, w) (m, lwftp_data_connected e w)"
| data: "data_pcb (sess w) = Some p \<Longrightarrow> lwftp_data_recv ftp_client p po w = Some w' \<Longrightarrow> step (m, w) (m, w')"
| data_acked: "data_pcb (sess w) = Some p \<Longrightarrow> lwftp_data_sent ftp_client n w = Some w' \<Longrightarrow> step (m, w) (m, w')"
| data_error: "data_pcb (sess w) = Some p \<Longrightarrow> lwftp_data_err ftp_client (do_call (Tcp_freed p) w) = Some w'
    \<Longrightarrow> step (m, w) (m, w')"
| logged: "ftpStarted (app w) \<Longrightarrow> step (Connecting, w) (Browsing, w)"
| keys: "main_keys ftp_client down w = Some (m', w') \<Longrightarrow> step (Browsing, w) (m', w')"
| repaint: "menu_UpdateMain w = Some (ds, w') \<Longrightarrow> step (Browsing, w) (Browsing, w')"
| uploaded: "step (Uploading, w) (Browsing, util_UploadFile_end w)"
| downloaded: "util_DownloadFile_end w = Some w' \<Longrightarrow> step (Downloading, w) (Browsing, w')"
| quit: "lwftp_close w = Some w' \<Longrightarrow> step (Browsing, w) (Quitting, w')"

inductive_cases stepE: "step s s'"

text \<open>The program starts with a connection attempt, before any call to its surroundings.\<close>

inductive reachable :: "env \<Rightarrow> mode \<times> world \<Rightarrow> bool" for E where
  started: "envr w = E \<Longrightarrow> calls w = [] \<Longrightarrow> main_connect ftp_client srv usr pwd w = Some (True, w')
    \<Longrightarrow> reachable E (Connecting, w')"
| stepped: "reachable E s \<Longrightarrow> step s s' \<Longrightarrow> reachable E s'"

section \<open>The session invariant along every run\<close>

lemma main_session_inv: "sess_inv (main_session srv usr pwd)"
  by (simp add: main_session_def sess_inv_def sess_mid_def)

lemma main_connect_keeps: "main_connect ftp_client srv usr pwd w = Some (b, w') \<Longrightarrow> sess_inv (sess w')"
  by (auto simp: main_connect_def Let_def bind_eq_Some_conv main_session_inv split: if_splits
      elim!: fc.connect_keeps [rotated])

lemma main_enter_keeps: "sess_inv (sess w) \<Longrightarrow> main_enter ftp_client f w = Some w' \<Longrightarrow> sess_inv (sess w')"
  by (auto simp: main_enter_def bind_eq_Some_conv elim!: fc.ChangeDir_keeps [rotated])

lemma main_back_keeps: "sess_inv (sess w) \<Longrightarrow> main_back ftp_client w = Some w' \<Longrightarrow> sess_inv (sess w')"
  by (auto simp: main_back_def bind_eq_Some_conv dest!: sess_cut_path elim!: fc.ChangeDir_keeps [rotated])

lemma main_action_keeps:
  "sess_inv (sess w) \<Longrightarrow> main_action ftp_client down w = Some (m, w') \<Longrightarrow> sess_inv (sess w')"
  by (auto simp: main_action_def Let_def bind_eq_Some_conv split: if_splits
      intro: main_enter_keeps main_back_keeps fc.DeleteFile_keeps fc.MoveFile_keeps fc.UploadFile_keeps
        fc.DownloadFile_keeps)

lemma step_keeps: "step s s' \<Longrightarrow> sess_inv (sess (snd s)) \<Longrightarrow> sess_inv (sess (snd s'))"
proof (induction rule: step.induct)
  case (connected w p m e)
  then show ?case by (simp add: lwftp_control_connected_def sess_inv_def sess_mid_def)
next
  case (reply w p po e w' m)
  then show ?case using fc.control_recv_keeps by simp
next
  case (control_sent w p m n)
  then show ?case by (simp add: lwftp_control_sent_def)
next
  case (control_error w p w' m)
  then show ?case using fc.control_err_keeps [of "do_call (Tcp_freed p) w"] by simp
next
  case (data_connected w p m e)
  then show ?case by (auto simp: lwftp_data_connected_def sess_inv_def sess_mid_def)
next
  case (data w p po w' m)
  then show ?case using fc.data_recv_keeps by simp
next
  case (data_acked w p n w' m)
  then show ?case using fc.data_sent_keeps by simp
next
  case (data_error w p w' m)
  then show ?case using fc.data_err_keeps [of "do_call (Tcp_freed p) w"] by simp
next
  case (logged w)
  then show ?case by simp
next
  case (keys down w m' w')
  then show ?case using main_action_keeps [of "upd_app (main_cursor down) w"] by (simp add: main_keys_def)
next
  case (repaint w ds w')
  then show ?case by (auto simp: menu_UpdateMain_def Let_def bind_eq_Some_conv)
next
  case (uploaded w)
  then show ?case by (simp add: util_UploadFile_end_def)
next
  case (downloaded w w')
  then show ?case by (auto simp: util_DownloadFile_end_def bind_eq_Some_conv dest!: sess_cut_path)
next
  case (quit w w')
  then show ?case using close_keeps by simp
qed

lemma reachable_inv: "reachable E s \<Longrightarrow> sess_inv (sess (snd s))"
  by (induction rule: reachable.induct) (auto intro: main_connect_keeps step_keeps)

section \<open>The accounts along every run\<close>

lemma main_connect_acct:
  assumes "pcbs_ok (envr w)" and "calls w = []" and "main_connect ftp_client srv usr pwd w = Some (b, w')"
  shows "acct w'"
proof -
  let ?v = "menu_PrintMessage ''Connecting to FTP...'' ((upd_app (\<lambda>a. a\<lparr>connected := True\<rparr>) w)\<lparr>sess := main_session srv (cstr usr) (cstr pwd)\<rparr>)"
  have "acct ?v" using assms(1,2) by (simp add: acct_def main_session_def owned_def held_def menu_PrintMessage_def)
  moreover obtain r u where "lwftp_connect ftp_client ?v = Some (r, u)" "w' = u \<or> w' = menu_PrintMessage ''Connection failed'' u"
    using assms(3) by (auto simp: main_connect_def Let_def bind_eq_Some_conv split: if_splits)
  ultimately show ?thesis using fa.connect_acct [of ?v r u] by auto
qed

lemma main_action_acct: "acct w \<Longrightarrow> main_action ftp_client down w = Some (m, w') \<Longrightarrow> acct w'"
  by (auto simp: main_action_def main_enter_def main_back_def Let_def bind_eq_Some_conv split: if_splits
      dest!: acct_cut_path dest: fa.client_ops_acct fa.MoveFile_acct elim!: fa.client_ops_acct(3) [rotated])

lemma step_acct: "step s s' \<Longrightarrow> acct (snd s) \<Longrightarrow> acct (snd s')"
proof (induction rule: step.induct)
  case (keys down w m' w')
  then show ?case using main_action_acct [of "upd_app (main_cursor down) w"] by (simp add: main_keys_def)
qed (auto simp: lwftp_control_connected_def lwftp_control_sent_def lwftp_data_connected_def menu_UpdateMain_def
      util_UploadFile_end_def util_DownloadFile_end_def Let_def bind_eq_Some_conv
      dest!: acct_cut_path dest: fa.control_recv_acct fa.control_err_acct fa.data_recv_acct fa.data_sent_acct
      fa.data_err_acct close_acct)

lemma reachable_acct: "reachable E s \<Longrightarrow> pcbs_ok E \<Longrightarrow> acct (snd s)"
  by (induction rule: reachable.induct) (auto intro: main_connect_acct step_acct)

section \<open>Properties\<close>

text \<open>A run to try the properties on: the connection attempt on the example world, and the server
  accepting the connection.\<close>

definition example_connecting :: world where
  "example_connecting = snd (the (main_connect ftp_client [10, 0, 0, 1] ''anna'' ''secret'' example_world))"

lemma example_connecting_run:
  "main_connect ftp_client [10, 0, 0, 1] ''anna'' ''secret'' example_world = Some (True, example_connecting)"
  "control_pcb (sess example_connecting) = Some 1" "control_state (sess example_connecting) = LWFTP_CLOSED"
  "data_pcb (sess example_connecting) = None"
  by (simp_all add: example_connecting_def main_connect_def lwftp_connect_def main_session_def exit_with_def finish_def
      ftp_client_def numeral_2_eq_2 ftp_done_def ftp_ConnectCallback_def tcp_new_def tcp_connect_def tcp_register_def
      menu_PrintMessage_def example_defs Let_def)

lemma example_connected:
  "reachable example_env (Connecting, lwftp_control_connected ERR_OK example_connecting)"
proof (rule stepped)
  show "reachable example_env (Connecting, example_connecting)"
    by (rule started [OF _ _ example_connecting_run(1)]) (simp_all add: example_world_def)
  show "step (Connecting, example_connecting) (Connecting, lwftp_control_connected ERR_OK example_connecting)"
    by (rule step.connected [OF example_connecting_run(2,3)])
qed

lemma hold_issued: "p \<in> hold k H \<Longrightarrow> p \<in> H \<or> p = issued k"
  by (cases "(k, H)" rule: hold.cases) (auto split: if_splits)

lemma held_issued: "p \<in> held cs \<Longrightarrow> p \<le> sum_list (map issued cs)"
proof (induction cs rule: rev_induct)
  case (snoc k cs)
  then show ?case using hold_issued [of p k "held cs"] by fastforce
qed (simp add: held_def)

lemma example_pcbs_ok: "pcbs_ok example_env"
  by (auto simp: pcbs_ok_def example_env_def fresh_pcb_def dest: held_issued)

text \<open>C1. In every state the program can reach, the session is consistent: outside
  \<open>LWFTP_CLOSED\<close> there is a control connection, with a user name and password; a data connection
  exists only while a transfer (or the farewell) is under way; a pending transfer has a known
  verb and a pending rename a target; the path is set; and the control state is never one of the
  four the engine only passes through.\<close>

theorem session_consistent:
  assumes "reachable E (m, w)"
  shows "sess_inv (sess w)"
  using reachable_inv [OF assms] by simp

theorem session_consistent_witness:
  "sess_inv (sess (lwftp_control_connected ERR_OK example_connecting))"
  using session_consistent [OF example_connected] .

text \<open>C3. No control block leaks: if closing succeeds and lwIP never hands out a block that is in
  use, then in every reachable state the control blocks obtained and not given back are exactly
  those the session refers to, and a logged-in session at rest holds exactly one.\<close>

theorem no_pcb_leak:
  assumes "pcbs_ok E" and "reachable E (m, w)"
  shows "held (calls w) = owned (sess w)
     \<and> (control_state (sess w) = LWFTP_LOGGED \<longrightarrow> (\<exists>p. control_pcb (sess w) = Some p \<and> held (calls w) = {p}))"
proof -
  have a: "held (calls w) = owned (sess w)" using reachable_acct [OF assms(2,1)] by (simp add: acct_def)
  moreover have "\<exists>p. control_pcb (sess w) = Some p \<and> owned (sess w) = {p}" if "control_state (sess w) = LWFTP_LOGGED"
    using reachable_inv [OF assms(2)] that by (auto simp: sess_inv_def sess_mid_def owned_def)
  ultimately show ?thesis by simp
qed

theorem no_pcb_leak_witness:
  "held (calls (lwftp_control_connected ERR_OK example_connecting)) = {1}"
  using no_pcb_leak [OF example_pcbs_ok example_connected]
  by (simp add: owned_def lwftp_control_connected_def example_connecting_run)

end
