(* ===== verification/Lwftp_Behaviour.thy ===== *)
theory Lwftp_Behaviour
  imports System
begin

text \<open>
  What the engine does on the wire: the dialogue of a login, the opening of a data connection, the
  outcome of each plain command, and the cases where the outcome reported is not what happened.
\<close>

section \<open>What is written to a connection\<close>

definition written :: "pcb \<Rightarrow> call list \<Rightarrow> bytes" where
  "written p cs = concat (map (\<lambda>k. case k of Tcp_write q d e \<Rightarrow> if q = p then d else [] | _ \<Rightarrow> []) cs)"

lemma written_simps [simp]:
  "written p [] = []" "written p (cs @ ds) = written p cs @ written p ds"
  "written p (Tcp_write q d e # cs) = (if q = p then d else []) @ written p cs"
  "\<not> (\<exists>q d e. k = Tcp_write q d e) \<Longrightarrow> written p (k # cs) = written p cs"
  by (auto simp: written_def split: call.split)

lemma send_msg_calls:
  "control_pcb (sess w) = Some p \<Longrightarrow>
     \<exists>e. send_msg d w = do_call (Tcp_write p d e) w"
  by (auto simp: lwftp_send_msg_def tcp_write_def Let_def)

lemma send_msg_written:
  "control_pcb (sess w) = Some p \<Longrightarrow> written p (calls (send_msg d w)) = written p (calls w) @ d"
  by (auto simp: lwftp_send_msg_def tcp_write_def Let_def)

lemma send_msg_frame [simp]:
  "app (send_msg d w) = app w" "envr (send_msg d w) = envr w" "move_input (send_msg d w) = move_input w"
  "remote_files (send_msg d w) = remote_files w" "file_buffer (send_msg d w) = file_buffer w"
  "local_files (send_msg d w) = local_files w"
  by (simp_all add: lwftp_send_msg_def tcp_write_def Let_def split: option.split)

lemma set_state_frame [simp]:
  "app (set_state st w) = app w" "calls (set_state st w) = calls w" "envr (set_state st w) = envr w"
  "remote_files (set_state st w) = remote_files w" "file_buffer (set_state st w) = file_buffer w"
  "read_ptr (set_state st w) q = read_ptr w q"
  by (simp_all add: set_state_def)

lemma read_ptr_send_msg [simp]: "read_ptr (send_msg d w) q = read_ptr w q"
  by (cases q) (simp_all add: read_ptr_def)

lemma send_cmd_some: "send_cmd v (Some a) w = Some (send_msg [cr, lf] (send_msg a (send_msg v w)))"
  by (simp add: send_cmd_def)

section \<open>The address in a PASV reply\<close>

definition pasv_text :: "ip4 \<Rightarrow> nat \<Rightarrow> bytes" where
  "pasv_text ip port = (case ip of (a, b, c, d) \<Rightarrow>
     ''('' @ dec a @ '','' @ dec b @ '','' @ dec c @ '','' @ dec d @ '','' @ dec (port div 256) @ '','' @ dec (port mod 256) @ '')'')"

lemma strtoul_comma: "n < 2 ^ 32 \<Longrightarrow> strtoul (dec n @ CHR '','' # p) = (n, CHR '','' # p)"
  and strtoul_bracket: "n < 2 ^ 32 \<Longrightarrow> strtoul (dec n @ CHR '')'' # p) = (n, CHR '')'' # p)"
  by (rule strtoul_dec; simp)+

lemma parse_pasv_text:
  assumes "CHR ''('' \<notin> set s" and "nul \<notin> set s"
    and "a < 256" "b < 256" "c < 256" "d < 256" and "port < 65536"
  shows "parse_pasv (s @ pasv_text (a, b, c, d) port @ q) = Some ((a, b, c, d), port)"
proof -
  have "port div 256 < 256" using assms(7) by (simp add: less_mult_imp_div_less)
  then have p: "port div 256 * 256 mod 65536 + port mod 256 = port" by simp
  show ?thesis
    using assms p
    by (simp add: parse_pasv_def pasv_text_def strchr_skip strtoul_comma strtoul_bracket Let_def)
qed

lemma strtoul_code:
  assumes "n < 65536" and "txt = dec n @ '' '' @ q"
  shows "fst (strtoul txt) mod 65536 = n"
  using strtoul_dec [of n "'' '' @ q"] assms by simp

lemmas response_eval = response_of_def reply_def text_at_def strtoul_def isdigit_def isspace_def

section \<open>One reply at a time\<close>

lemma reply_connected:
  assumes "control_state (sess w) = LWFTP_CONNECTED" and "response_of (Some b) = 220" and "user (sess w) = Some u"
  shows "lwftp_control_process c (Some b) w =
    Some (do_call Pbuf_free (set_state LWFTP_USER_SENT (send_msg [cr, lf] (send_msg u (send_msg ''USER '' w)))))"
  using assms by (simp add: lwftp_control_process_def process_reply_def process_login_def send_cmd_some process_second_def)

lemma reply_user_sent:
  assumes "control_state (sess w) = LWFTP_USER_SENT" and "response_of (Some b) = 331" and "pass (sess w) = Some u"
  shows "lwftp_control_process c (Some b) w =
    Some (do_call Pbuf_free (set_state LWFTP_PASS_SENT (send_msg [cr, lf] (send_msg u (send_msg ''PASS '' w)))))"
  using assms by (simp add: lwftp_control_process_def process_reply_def process_login_def send_cmd_some process_second_def)

text \<open>After the done function has been called on login, the state is one the second switch leaves alone.\<close>

lemma second_rest: "control_state (sess w) \<notin> transient \<Longrightarrow> process_second c r w = Some w"
  by (auto simp: process_second_def split: lwftp_state_t.split)

lemma reply_pass_sent:
  assumes "control_state (sess w) = LWFTP_PASS_SENT" and "response_of (Some b) = 230"
    and "finish c LWFTP_RESULT_LOGGED (set_state LWFTP_LOGGED w) = Some v" and "control_state (sess v) \<notin> transient"
  shows "lwftp_control_process c (Some b) w = Some (do_call Pbuf_free v)"
  using assms by (simp add: lwftp_control_process_def process_reply_def process_login_def second_rest)

text \<open>A login that is not accepted: the engine says QUIT.\<close>

lemma reply_refused:
  assumes "control_pcb (sess w) = Some p"
    and "control_state (sess w) = LWFTP_CONNECTED \<and> n \<noteq> 220 \<or> control_state (sess w) = LWFTP_USER_SENT \<and> n \<noteq> 331
       \<or> control_state (sess w) = LWFTP_PASS_SENT \<and> n \<noteq> 230"
    and "response_of (Some b) = n" and "n \<noteq> 0"
  shows "lwftp_control_process c (Some b) w =
    Some (set_state LWFTP_QUIT_SENT (do_call (Tcp_output p)
      (send_msg (''QUIT'' @ [cr, lf]) (do_call Pbuf_free (set_state LWFTP_QUIT w)))))"
  using assms
  by (auto simp: lwftp_control_process_def process_reply_def process_login_def process_second_def tcp_output_def)

lemma reply_quit_sent:
  assumes "control_state (sess w) = LWFTP_QUIT_SENT" and "response_of (Some b) = 221"
  shows "lwftp_control_process c (Some b) w =
    lwftp_control_close c (Some LWFTP_RESULT_OK) (do_call Pbuf_free (set_state LWFTP_CLOSING w))"
  using assms by (simp add: lwftp_control_process_def process_reply_def process_command_def Let_def process_second_def)

text \<open>Asking for the remote listing opens a data connection's control block and sends \<open>TYPE I\<close>.\<close>

lemma GetRemoteFiles_started:
  assumes "control_state (sess w) = LWFTP_LOGGED" and "remote_path (sess w) \<noteq> None" and "data_pcb (sess w) = None"
    and "control_pcb (sess w) = Some p" and "e_tcp_new (envr w) (calls w) = Some q"
  shows "\<exists>v. util_GetRemoteFiles (client_at (Suc n)) w = Some v
    \<and> control_state (sess v) = LWFTP_TYPE_SENT \<and> target_state (sess v) = LWFTP_MLSD_SENT \<and> data_pcb (sess v) = Some q
    \<and> control_pcb (sess v) = Some p \<and> ftpStarted (app v) = ftpStarted (app w) \<and> path (app v) = path (app w)
    \<and> ftpResult (app v) = ftpResult (app w) \<and> busy (app v) \<and> done_fn (sess v) = Some ListCallback
    \<and> data_sink (sess v) = Some ListDataSink \<and> written p (calls v) = written p (calls w) @ ''TYPE I'' @ [cr, lf]"
proof -
  have f: "finish (client_at (Suc n)) LWFTP_RESULT_INPROGRESS x = Some x" if "done_fn (sess x) = Some ListCallback" for x
    using that by (simp add: finish_def ftp_done_def ftp_ListCallback_def)
  show ?thesis using assms
    by (simp add: util_GetRemoteFiles_def lwftp_mlsd_def initiate_transfer_def initiate_def
        lwftp_tcpip_callback_def lwftp_start_MLSD_def exit_with_def tcp_new_def Let_def set_done_def set_sink_def
        set_busy_def f send_msg_written del: client_above.simps not_None_eq)
qed

text \<open>What the client does when it is told of the login: it asks for the remote listing.\<close>

lemma logged_in_client:
  assumes "control_state (sess w) = LWFTP_LOGGED" and "remote_path (sess w) \<noteq> None" and "data_pcb (sess w) = None"
    and "control_pcb (sess w) = Some p" and "e_tcp_new (envr w) (calls w @ [Print_message ''Logged in'']) = Some q"
  shows "\<exists>v. ftp_ConnectCallback (client_at (Suc n)) LWFTP_RESULT_LOGGED w = Some v
    \<and> control_state (sess v) = LWFTP_TYPE_SENT \<and> target_state (sess v) = LWFTP_MLSD_SENT \<and> data_pcb (sess v) = Some q
    \<and> control_pcb (sess v) = Some p \<and> ftpStarted (app v) \<and> busy (app v) \<and> done_fn (sess v) = Some ListCallback
    \<and> data_sink (sess v) = Some ListDataSink \<and> written p (calls v) = written p (calls w) @ ''TYPE I'' @ [cr, lf]"
proof -
  let ?x = "upd_app (\<lambda>a. a\<lparr>ftpStarted := True\<rparr>) (menu_PrintMessage ''Logged in'' w)"
  have x: "sess ?x = sess w" "envr ?x = envr w" "calls ?x = calls w @ [Print_message ''Logged in'']" "ftpStarted (app ?x)"
    "written p (calls ?x) = written p (calls w)"
    by (simp_all add: menu_PrintMessage_def)
  have c: "ftp_ConnectCallback (client_at (Suc n)) LWFTP_RESULT_LOGGED w = util_GetRemoteFiles (client_at (Suc n)) ?x"
    by (simp add: ftp_ConnectCallback_def)
  show ?thesis unfolding c using GetRemoteFiles_started [of ?x p q n] assms x by auto
qed

text \<open>The result of a plain command by the server's answer.\<close>

definition command_result :: "lwftp_state_t \<Rightarrow> nat \<Rightarrow> lwftp_results" where
  "command_result st n =
     (if n = 250 then LWFTP_RESULT_OK
      else if n = 550 \<and> st \<noteq> LWFTP_RNTO_SENT then LWFTP_RESULT_ERR_FILENAME
      else LWFTP_RESULT_ERR_SRVR_RESP)"

section \<open>Properties\<close>

text \<open>C21. The login dialogue. To a connected session the server answers 220, 331 and 230; the client
  writes the user name, the password and then the request for binary mode with which the first
  listing begins, and nothing else, on the control connection; the program knows it is logged in
  and waits for the listing on a fresh data connection.\<close>

theorem login_dialogue:
  assumes "control_state (sess w) = LWFTP_CONNECTED" and "control_pcb (sess w) = Some p" and "data_pcb (sess w) = None"
    and "user (sess w) = Some u" and "pass (sess w) = Some s" and "remote_path (sess w) \<noteq> None"
    and "done_fn (sess w) = Some ConnectCallback"
    and "response_of (Some b1) = 220" and "response_of (Some b2) = 331" and "response_of (Some b3) = 230"
    and "\<And>cs. e_tcp_new (envr w) cs \<noteq> None"
  shows "\<exists>v. do { w1 \<leftarrow> lwftp_control_process ftp_client (Some b1) w; w2 \<leftarrow> lwftp_control_process ftp_client (Some b2) w1;
              lwftp_control_process ftp_client (Some b3) w2 } = Some v
     \<and> written p (calls v) = written p (calls w) @ ''USER '' @ u @ [cr, lf] @ ''PASS '' @ s @ [cr, lf] @ ''TYPE I'' @ [cr, lf]
     \<and> control_state (sess v) = LWFTP_TYPE_SENT \<and> target_state (sess v) = LWFTP_MLSD_SENT
     \<and> data_pcb (sess v) \<noteq> None \<and> ftpStarted (app v) \<and> busy (app v)"
proof -
  let ?w1 = "do_call Pbuf_free (set_state LWFTP_USER_SENT (send_msg [cr, lf] (send_msg u (send_msg ''USER '' w))))"
  let ?w2 = "do_call Pbuf_free (set_state LWFTP_PASS_SENT (send_msg [cr, lf] (send_msg s (send_msg ''PASS '' ?w1))))"
  let ?w3 = "set_state LWFTP_LOGGED ?w2"
  have 1: "lwftp_control_process ftp_client (Some b1) w = Some ?w1"
    using assms by (simp add: reply_connected)
  have 2: "lwftp_control_process ftp_client (Some b2) ?w1 = Some ?w2"
    by (rule reply_user_sent) (use assms in simp_all)
  obtain q where q: "e_tcp_new (envr ?w3) (calls ?w3 @ [Print_message ''Logged in'']) = Some q"
    using assms(11) by fastforce
  obtain v where v: "ftp_ConnectCallback (client_at (Suc 0)) LWFTP_RESULT_LOGGED ?w3 = Some v"
      "control_state (sess v) = LWFTP_TYPE_SENT" "target_state (sess v) = LWFTP_MLSD_SENT" "data_pcb (sess v) = Some q"
      "ftpStarted (app v)" "busy (app v)" "written p (calls v) = written p (calls ?w3) @ ''TYPE I'' @ [cr, lf]"
    using logged_in_client [OF _ _ _ _ q, of p 0] assms by auto
  have 3: "lwftp_control_process ftp_client (Some b3) ?w2 = Some (do_call Pbuf_free v)"
    by (rule reply_pass_sent)
       (use assms v in \<open>simp_all add: finish_def ftp_client_def numeral_2_eq_2 ftp_done_def del: client_above.simps(1)\<close>)
  have "written p (calls ?w3) = written p (calls w) @ ''USER '' @ u @ [cr, lf] @ ''PASS '' @ s @ [cr, lf]"
    using assms by (simp add: send_msg_written)
  then show ?thesis using v by (simp add: 1 2 3)
qed

theorem login_dialogue_witness:
  "\<exists>v. do { w1 \<leftarrow> lwftp_control_process ftp_client (Some (reply ''220 hello'')) (example_in LWFTP_CONNECTED ConnectCallback);
           w2 \<leftarrow> lwftp_control_process ftp_client (Some (reply ''331 password?'')) w1;
           lwftp_control_process ftp_client (Some (reply ''230 welcome'')) w2 } = Some v
     \<and> written 1 (calls v) = ''USER anna'' @ [cr, lf] @ ''PASS secret'' @ [cr, lf] @ ''TYPE I'' @ [cr, lf]"
proof -
  have "response_of (Some (reply ''220 hello'')) = 220" "response_of (Some (reply ''331 password?'')) = 331"
    "response_of (Some (reply ''230 welcome'')) = 230" by (simp_all add: response_eval)
  from login_dialogue [of "example_in LWFTP_CONNECTED ConnectCallback" 1 "''anna''" "''secret''", OF _ _ _ _ _ _ _ this]
  show ?thesis by (auto simp: example_in_simps)
qed

text \<open>A login the server refuses is reported as a success: whatever the server answers to the
  password but 230, the engine says QUIT, and the server's farewell (221) calls the done
  function with \<open>LWFTP_RESULT_OK\<close>, which becomes the program's result although it never logged in.\<close>

theorem refused_login_reported_ok:
  assumes "control_state (sess w) = LWFTP_PASS_SENT" and "control_pcb (sess w) = Some p" and "data_pcb (sess w) = None"
    and "done_fn (sess w) = Some ConnectCallback"
    and "response_of (Some b1) \<notin> {0, 230}" and "response_of (Some b2) = 221"
  shows "\<exists>v. do { w1 \<leftarrow> lwftp_control_process ftp_client (Some b1) w; lwftp_control_process ftp_client (Some b2) w1 } = Some v
     \<and> control_state (sess v) = LWFTP_CLOSED \<and> ftpResult (app v) = LWFTP_RESULT_OK \<and> ftpStarted (app v) = ftpStarted (app w)"
proof -
  let ?w1 = "set_state LWFTP_QUIT_SENT (do_call (Tcp_output p)
      (send_msg (''QUIT'' @ [cr, lf]) (do_call Pbuf_free (set_state LWFTP_QUIT w))))"
  have 1: "lwftp_control_process ftp_client (Some b1) w = Some ?w1"
    using reply_refused [OF assms(2) _ refl] assms by simp
  have 2: "lwftp_control_process ftp_client (Some b2) ?w1
      = lwftp_control_close ftp_client (Some LWFTP_RESULT_OK) (do_call Pbuf_free (set_state LWFTP_CLOSING ?w1))"
    by (rule reply_quit_sent) (use assms in simp_all)
  show ?thesis
    unfolding 1 bind.bind_lunit 2
    using assms
    by (simp add: lwftp_control_close_def Let_def finish_def ftp_client_def numeral_2_eq_2 ftp_done_def
        ftp_ConnectCallback_def lwftp_close_def lwftp_pcb_close_def tcp_close_def tcp_register_def set_busy_def)
qed

theorem refused_login_reported_ok_witness:
  "\<exists>v. do { w1 \<leftarrow> lwftp_control_process ftp_client (Some (reply ''530 no'')) (example_in LWFTP_PASS_SENT ConnectCallback);
           lwftp_control_process ftp_client (Some (reply ''221 bye'')) w1 } = Some v \<and> ftpResult (app v) = LWFTP_RESULT_OK"
proof -
  have "response_of (Some (reply ''530 no'')) \<notin> {0, 230}" "response_of (Some (reply ''221 bye'')) = 221"
    by (simp_all add: response_eval)
  from refused_login_reported_ok [of "example_in LWFTP_PASS_SENT ConnectCallback" 1, OF _ _ _ _ this]
  show ?thesis by (auto simp: example_in_simps)
qed

text \<open>C25. A PASV reply with an address in brackets opens the data connection to exactly that address
  and port, and the transfer command with the remote path follows on the control connection.\<close>

theorem pasv_opens_data:
  assumes "control_state (sess w) = LWFTP_PASV_SENT" and "control_pcb (sess w) = Some p" and "data_pcb (sess w) = Some q"
    and "p \<noteq> q" and "transfer_verb (target_state (sess w)) = Some verb" and "remote_path (sess w) = Some ptr"
    and "text_at b = ''227 '' @ s @ pasv_text (a1, a2, a3, a4) port @ rest"
    and "CHR ''('' \<notin> set s" and "nul \<notin> set s" and "a1 < 256" "a2 < 256" "a3 < 256" "a4 < 256" and "port < 65536"
  shows "\<exists>v e. lwftp_control_process c (Some b) w = Some v
     \<and> control_state (sess v) = target_state (sess w)
     \<and> Tcp_connect q (a1, a2, a3, a4) port Data e \<in> set (calls v)
     \<and> written p (calls v) = written p (calls w) @ verb @ read_ptr w ptr @ [cr, lf]"
proof -
  have n: "response_of (Some b) = 227"
    using assms(7) by (simp add: response_of_def strtoul_def isdigit_def isspace_def)
  have "parse_pasv (text_at b) = Some ((a1, a2, a3, a4), port)"
    using parse_pasv_text [of "''227 '' @ s" a1 a2 a3 a4 port rest] assms(7-14) by simp
  then obtain e where d: "snd (lwftp_data_open b w) = do_call (Tcp_connect q (a1, a2, a3, a4) port Data e)
      (do_call (Tcp_sent q (Some Data)) (do_call (Tcp_recv q (Some Data)) (do_call (Tcp_err q (Some Data)) (do_call (Tcp_arg q) w))))"
    using assms(3) by (auto simp: lwftp_data_open_def tcp_register_def tcp_connect_def Let_def)
  let ?d = "snd (lwftp_data_open b w)"
  let ?v = "set_state (target_state (sess w)) (send_msg [cr, lf] (send_msg (read_ptr w ptr) (send_msg verb ?d)))"
  have r: "read_ptr ?d ptr = read_ptr w ptr" by (simp add: d)
  have st: "process_pasv 227 b w = Some ?v"
    using assms(5,6) r by (simp add: process_pasv_def remote_path_text_def)
  have t: "target_state (sess w) \<in> {LWFTP_RETR_SENT, LWFTP_STOR_SENT, LWFTP_MLSD_SENT}"
    using assms(5) by (auto simp: transfer_verb_def split: lwftp_state_t.splits)
  then have "process_second c LWFTP_RESULT_ERR_SRVR_RESP (do_call Pbuf_free ?v) = Some (do_call Pbuf_free ?v)"
    by (intro second_rest) auto
  then have run: "lwftp_control_process c (Some b) w = Some (do_call Pbuf_free ?v)"
    using assms(1) n st by (simp add: lwftp_control_process_def process_reply_def process_transfer_def)
  obtain e1 e2 e3 where "calls ?v = calls ?d @ [Tcp_write p verb e1, Tcp_write p (read_ptr w ptr) e2, Tcp_write p [cr, lf] e3]"
    using assms(2) by (auto simp: lwftp_send_msg_def tcp_write_def Let_def)
  then have "Tcp_connect q (a1, a2, a3, a4) port Data e \<in> set (calls ?v)"
    "written p (calls ?v) = written p (calls w) @ verb @ read_ptr w ptr @ [cr, lf]"
    using assms(4) by (simp_all add: d)
  then show ?thesis using run by auto
qed

theorem pasv_opens_data_witness:
  "\<exists>v e. lwftp_control_process ftp_client (Some (reply (''227 Passive '' @ pasv_text (10, 0, 0, 1) 50001)))
        (upd_sess (\<lambda>s. s\<lparr>target_state := LWFTP_RETR_SENT, data_pcb := Some 2\<rparr>) (example_in LWFTP_PASV_SENT RetrCallback)) = Some v
     \<and> Tcp_connect 2 (10, 0, 0, 1) 50001 Data e \<in> set (calls v)"
  using pasv_opens_data [of "upd_sess (\<lambda>s. s\<lparr>target_state := LWFTP_RETR_SENT, data_pcb := Some 2\<rparr>) (example_in LWFTP_PASV_SENT RetrCallback)"
      1 2 "''RETR ''" AppPath "reply (''227 Passive '' @ pasv_text (10, 0, 0, 1) 50001)" "''Passive ''" 10 0 0 1 50001 "[cr, lf]" ftp_client]
  by (auto simp: example_in_simps transfer_verb_def reply_def text_at_def)

text \<open>C27. Every answer to DELE, RMD, CWD or RNTO ends the command: the session is logged in again and
  the done function is called, once, with success for 250, with \<open>ERR_FILENAME\<close> for 550 (not after
  RNTO), and with \<open>ERR_SRVR_RESP\<close> for anything else.\<close>

theorem command_concludes:
  assumes "control_state (sess w) \<in> {LWFTP_DELE_SENT, LWFTP_RMD_SENT, LWFTP_CWD_SENT, LWFTP_RNTO_SENT}"
    and "response_of (Some b) = n" and "n \<noteq> 0" and "done_fn (sess w) = Some f"
  shows "\<exists>v. lwftp_control_process c (Some b) w = call_done c f (command_result (control_state (sess w)) n) v
     \<and> sess v = (sess w)\<lparr>control_state := LWFTP_LOGGED\<rparr> \<and> app v = app w \<and> calls v = calls w @ [Pbuf_free]"
  using assms
  by (auto simp: lwftp_control_process_def process_reply_def process_command_def Let_def process_second_def finish_def
      command_result_def)

theorem command_concludes_witness:
  "\<exists>v. lwftp_control_process ftp_client (Some (reply ''550 no such file'')) (example_in LWFTP_DELE_SENT DelCallback)
      = call_done ftp_client DelCallback LWFTP_RESULT_ERR_FILENAME v \<and> control_state (sess v) = LWFTP_LOGGED"
proof -
  have "response_of (Some (reply ''550 no such file'')) = 550" by (simp add: response_eval)
  from command_concludes [of "example_in LWFTP_DELE_SENT DelCallback", OF _ this, of DelCallback ftp_client]
  show ?thesis by (auto simp: example_in_simps command_result_def)
qed

text \<open>C34. If the data connection of an upload breaks down before the server's go-ahead (150), the
  go-ahead makes the engine read the segment size of a control block that no longer exists.\<close>

theorem upload_after_data_error_faults:
  assumes "control_state (sess w) = LWFTP_STOR_SENT" and "data_source (sess w) = Some StorDataSource"
    and "response_of (Some b) = 150"
  shows "lwftp_data_err ftp_client w \<bind> lwftp_control_process ftp_client (Some b) = None"
proof -
  let ?v = "upd_sess (\<lambda>s. s\<lparr>data_pcb := None\<rparr>) w"
  have "lwftp_data_err ftp_client w = Some ?v" using assms(1) by (simp add: lwftp_data_err_def Let_def)
  moreover have "lwftp_data_sent ftp_client 0 (set_state LWFTP_XFERING ?v) = None"
    using assms(2) by (simp add: lwftp_data_sent_def lwftp_send_next_data_def ftp_client_def numeral_2_eq_2 ftp_source_def
        ftp_StorDataSource_def Let_def)
  ultimately show ?thesis
    using assms(1,3) by (simp add: lwftp_control_process_def process_reply_def process_transfer_def)
qed

theorem upload_after_data_error_faults_witness:
  "lwftp_data_err ftp_client (upd_sess (\<lambda>s. s\<lparr>data_source := Some StorDataSource, data_pcb := Some 2\<rparr>)
      (example_in LWFTP_STOR_SENT StorCallback)) \<bind> lwftp_control_process ftp_client (Some (reply ''150 go'')) = None"
  by (rule upload_after_data_error_faults) (simp_all add: example_in_simps response_eval)

end
