(* ===== verification/Ftp_Transfer.thy ===== *)
theory Ftp_Transfer
  imports Lwftp_Behaviour
begin

text \<open>
  The bytes of a transfer. An upload hands the file image to the data connection segment by
  segment as the server acknowledges them; a download collects what arrives, in whatever pieces,
  in the file buffer and then stores the variable.
\<close>

section \<open>Uploading\<close>

text \<open>A sequence of acknowledgements on the data connection.\<close>

primrec acks :: "client \<Rightarrow> nat list \<Rightarrow> world \<Rightarrow> world option" where
  "acks c [] w = Some w"
| "acks c (n # ns) w = lwftp_data_sent c n w \<bind> acks c ns"

text \<open>The lengths of the segments \<open>n\<close> bytes are cut into.\<close>

function segments :: "nat \<Rightarrow> nat \<Rightarrow> nat list" where
  "segments mss n = (if n = 0 \<or> mss = 0 then [] else min mss n # segments mss (n - min mss n))"
  by auto

termination segments
  by (relation "measure snd") auto

declare segments.simps [simp del]

lemma segments_0 [simp]: "segments mss 0 = []"
  by (simp add: segments.simps)

lemma segments_pos: "0 < mss \<Longrightarrow> 0 < n \<Longrightarrow> segments mss n = min mss n # segments mss (n - min mss n)"
  by (subst segments.simps) simp

text \<open>An acknowledgement of \<open>n\<close> bytes moves the offset on and writes the next segment, or closes.\<close>

definition advanced :: "nat \<Rightarrow> world \<Rightarrow> world" where
  "advanced n w = upd_app (\<lambda>a. a\<lparr>txOffset := txOffset (app w) + n\<rparr>) w"

lemma advanced_simps [simp]:
  "sess (advanced n w) = sess w" "calls (advanced n w) = calls w" "envr (advanced n w) = envr w"
  "file_buffer (advanced n w) = file_buffer w" "txSize (app (advanced n w)) = txSize (app w)"
  "txOffset (app (advanced n w)) = txOffset (app w) + n"
  by (simp_all add: advanced_def)

lemma data_sent_step:
  assumes "data_source (sess w) = Some StorDataSource" and "data_pcb (sess w) = Some q"
    and "txOffset (app w) + n \<le> txSize (app w)" and "0 < e_mss (envr w) q"
  shows "lwftp_data_sent ftp_client n w =
    Some (if txOffset (app w) + n = txSize (app w) then close_data_pcb (advanced n w)
          else snd (tcp_write (Some q) (block (file_buffer w) (txOffset (app w) + n)
                 (min (e_mss (envr w) q) (txSize (app w) - (txOffset (app w) + n)))) (advanced n w)))"
proof -
  have a: "ftp_StorDataSource False n w = ([], advanced n w)"
    using assms(3) by (simp add: ftp_StorDataSource_def Let_def advanced_def)
  have i: "upd_app (\<lambda>a. a\<lparr>txOffset := txOffset (app w) + n\<rparr>) (advanced n w) = advanced n w"
    by (simp add: advanced_def upd_app_def)
  have b: "ftp_StorDataSource True (e_mss (envr w) q) (advanced n w) =
     (if txOffset (app w) + n = txSize (app w) then []
      else block (file_buffer w) (txOffset (app w) + n)
             (min (e_mss (envr w) q) (txSize (app w) - (txOffset (app w) + n))), advanced n w)"
    using assms(3,4) i by (simp add: ftp_StorDataSource_def Let_def)
  have ne: "block m o' l = [] \<longleftrightarrow> l = 0" for m o' l by (auto simp: block_def)
  show ?thesis
    using assms by (simp add: lwftp_data_sent_def lwftp_send_next_data_def ftp_client_def numeral_2_eq_2 ftp_source_def
        a b ne)
qed

lemma tcp_write_simps [simp]:
  "app (snd (tcp_write po d w)) = app w" "envr (snd (tcp_write po d w)) = envr w"
  "file_buffer (snd (tcp_write po d w)) = file_buffer w"
  "written q (calls (snd (tcp_write (Some q) d w))) = written q (calls w) @ d"
  by (auto simp: tcp_write_def Let_def split: option.split)

lemma written_close [simp]: "written q (calls (close_data_pcb w)) = written q (calls w)"
  by (auto simp: close_data_pcb_def lwftp_pcb_close_def tcp_close_def tcp_register_def Let_def split: option.split)

lemma acks_upload:
  assumes "data_source (sess w) = Some StorDataSource" and "data_pcb (sess w) = Some q" and "e_mss (envr w) q = mss" and "0 < mss"
    and "txOffset (app w) + n \<le> txSize (app w)" and "rest = txSize (app w) - (txOffset (app w) + n)"
  shows "\<exists>v. acks ftp_client (n # segments mss rest) w = Some v \<and> data_pcb (sess v) = None
    \<and> written q (calls v) = written q (calls w) @ block (file_buffer w) (txOffset (app w) + n) rest"
  using assms
proof (induction rest arbitrary: w n rule: less_induct)
  case (less rest)
  show ?case
  proof (cases "rest = 0")
    case True
    then have "txOffset (app w) + n = txSize (app w)" using less.prems by simp
    then show ?thesis using True data_sent_step [OF less.prems(1,2)] less.prems by (simp add: block_def)
  next
    case False
    let ?off = "txOffset (app w) + n" and ?k = "min mss rest"
    let ?w = "snd (tcp_write (Some q) (block (file_buffer w) ?off ?k) (advanced n w))"
    have step: "lwftp_data_sent ftp_client n w = Some ?w"
      using data_sent_step [OF less.prems(1,2,5)] less.prems False by simp
    have "\<exists>v. acks ftp_client (?k # segments mss (rest - ?k)) ?w = Some v \<and> data_pcb (sess v) = None
      \<and> written q (calls v) = written q (calls ?w) @ block (file_buffer ?w) (txOffset (app ?w) + ?k) (rest - ?k)"
      by (rule less.IH) (use less.prems False in auto)
    moreover have "segments mss rest = ?k # segments mss (rest - ?k)" using False less.prems by (simp add: segments_pos)
    moreover have "block (file_buffer w) ?off rest = block (file_buffer w) ?off ?k @ block (file_buffer w) (?off + ?k) (rest - ?k)"
      using block_append [of "file_buffer w" ?off ?k "rest - ?k"] by simp
    ultimately show ?thesis using step by simp
  qed
qed

section \<open>Downloading\<close>

text \<open>A sequence of received pbufs on the data connection.\<close>

primrec recvs :: "client \<Rightarrow> pcb \<Rightarrow> pbuf list \<Rightarrow> world \<Rightarrow> world option" where
  "recvs c q [] w = Some w"
| "recvs c q (b # bs) w = lwftp_data_recv c q (Some b) w \<bind> recvs c q bs"

definition bytes_of :: "pbuf \<Rightarrow> bytes" where
  "bytes_of b = payload b @ concat (chain b)"

lemma poke_Nil [simp]: "poke i [] m = m"
  by (auto simp: poke_def fun_eq_iff)

lemma poke_append: "poke (i + length a) b (poke i a m) = poke i (a @ b) m"
  by (auto simp: poke_def fun_eq_iff nth_append)

text \<open>The buffer after a stretch of data: what fits is stored.\<close>

definition stored :: "bytes \<Rightarrow> world \<Rightarrow> world" where
  "stored d w = ftp_RetrDataSink (Some d) w"

lemma stored_simps [simp]:
  "sess (stored d w) = sess w" "calls (stored d w) = calls w" "envr (stored d w) = envr w"
  "remote_files (stored d w) = remote_files w" "local_files (stored d w) = local_files w"
  "move_input (stored d w) = move_input w"
  "path (app (stored d w)) = path (app w)"
  by (simp_all add: stored_def ftp_RetrDataSink_def Let_def)

lemma stored_offset:
  "rxOffset (app w) \<le> 65535 \<Longrightarrow> rxOffset (app (stored d w)) = min 65535 (rxOffset (app w) + length d)"
  by (simp add: stored_def ftp_RetrDataSink_def Let_def)

lemma stored_append:
  assumes "rxOffset (app w) \<le> 65535"
  shows "stored b (stored a w) = stored (a @ b) w"
proof -
  let ?o = "rxOffset (app w)" and ?n = "65535 - rxOffset (app w)"
  have s: "stored d v = upd_app (\<lambda>a. a\<lparr>rxOffset := min 65535 (rxOffset (app v) + length d)\<rparr>)
      (v\<lparr>file_buffer := poke (rxOffset (app v)) (take (65535 - rxOffset (app v)) d) (file_buffer v)\<rparr>)"
    if "rxOffset (app v) \<le> 65535" for d v
    using that by (simp add: stored_def ftp_RetrDataSink_def Let_def)
  have "poke (min 65535 (?o + length a)) (take (65535 - min 65535 (?o + length a)) b) (poke ?o (take ?n a) m)
      = poke ?o (take ?n (a @ b)) m" for m
  proof (cases "?o + length a \<le> 65535")
    case True
    then show ?thesis using poke_append [of ?o a "take (?n - length a) b" m] by simp
  next
    case False
    then show ?thesis by (auto simp: poke_def fun_eq_iff)
  qed
  then show ?thesis using assms by (simp add: s upd_app_def add.assoc)
qed

lemma sink_chain_stored:
  assumes "data_sink (sess w) = Some RetrDataSink" and "rxOffset (app w) \<le> 65535"
  shows "sink_chain ftp_client (q # qs) w = Some (stored (concat (q # qs)) w)"
  using assms
proof (induction qs arbitrary: q w)
  case Nil
  then show ?case by (simp add: ftp_client_def numeral_2_eq_2 ftp_sink_def stored_def)
next
  case (Cons r rs)
  have "sink_chain ftp_client (q # r # rs) w = sink_chain ftp_client (r # rs) (stored q w)"
    using Cons.prems by (simp add: ftp_client_def numeral_2_eq_2 ftp_sink_def stored_def)
  also have "\<dots> = Some (stored (concat (r # rs)) (stored q w))"
    by (rule Cons.IH) (use Cons.prems stored_offset in auto)
  finally show ?case using Cons.prems by (simp add: stored_append)
qed

lemma stored_call: "stored d (do_call k w) = do_call k (stored d w)"
  by (simp add: stored_def ftp_RetrDataSink_def Let_def do_call_def upd_app_def)

definition received :: "pcb \<Rightarrow> pbuf \<Rightarrow> call list" where
  "received q b = [Tcp_recved q (tot_len b), Pbuf_free]"

lemma recvs_stored:
  assumes "data_sink (sess w) = Some RetrDataSink" and "rxOffset (app w) \<le> 65535"
  shows "recvs ftp_client q bs w =
    Some ((stored (concat (map bytes_of bs)) w)\<lparr>calls := calls w @ concat (map (received q) bs)\<rparr>)"
  using assms
proof (induction bs arbitrary: w)
  case (Cons b bs)
  let ?v = "do_call Pbuf_free (do_call (Tcp_recved q (tot_len b)) (stored (bytes_of b) w))"
  have step: "lwftp_data_recv ftp_client q (Some b) w = Some ?v"
    using sink_chain_stored [OF Cons.prems(1,2)] Cons.prems(1)
    by (simp add: lwftp_data_recv_def bytes_of_def del: sink_chain.simps)
  have o': "rxOffset (app ?v) \<le> 65535" using stored_offset [OF Cons.prems(2)] by simp
  have "recvs ftp_client q bs ?v = Some ((stored (concat (map bytes_of bs)) ?v)\<lparr>calls := calls ?v @ concat (map (received q) bs)\<rparr>)"
    by (rule Cons.IH [OF _ o']) (simp add: Cons.prems)
  also have "stored (concat (map bytes_of bs)) ?v
      = do_call Pbuf_free (do_call (Tcp_recved q (tot_len b)) (stored (bytes_of b @ concat (map bytes_of bs)) w))"
    by (simp add: stored_call stored_append Cons.prems)
  finally show ?case using step by (simp add: received_def do_call_def)
qed (simp add: stored_def ftp_RetrDataSink_def Let_def upd_app_def)

text \<open>The calls that change a variable of the calculator.\<close>

fun file_call :: "call \<Rightarrow> bool" where
  "file_call (Ti_OpenVar _ _ _) = True"
| "file_call (Ti_Write _) = True"
| "file_call (Ti_SetArchiveStatus _) = True"
| "file_call (Ti_DeleteVar _ _) = True"
| "file_call _ = False"

text \<open>The calls a file image leads to.\<close>

definition image_calls :: "mem \<Rightarrow> call list" where
  "image_calls m = (if image_accepted m
     then [Ti_OpenVar (cstr (i_name (read_image m))) ''w'' (i_type (read_image m)), Ti_Write (image_data m),
           Ti_SetArchiveStatus (i_archived (read_image m))]
     else [])"

lemma RetrCallback_stores:
  assumes "\<And>cs. length (filter listed (e_detect (envr x) cs)) \<le> 500"
  shows "\<exists>v. ftp_RetrCallback LWFTP_RESULT_OK x = Some v \<and> sess v = sess x \<and> \<not> busy (app v)
     \<and> filter file_call (calls v) = filter file_call (calls x) @ image_calls (file_buffer x)
     \<and> (\<not> image_accepted (file_buffer x) \<longrightarrow> calls v = calls x @ [Print_message ''Invalid checksum'', Wait_any_key])"
proof (cases "image_accepted (file_buffer x)")
  case False
  then show ?thesis by (simp add: ftp_RetrCallback_def Let_def set_busy_def menu_PrintMessage_def image_calls_def)
next
  case True
  let ?f = "read_image (file_buffer x)"
  let ?y = "do_call Ti_Close (do_call (Ti_SetArchiveStatus (i_archived ?f)) (do_call (Ti_Write (image_data (file_buffer x)))
      (do_call (Ti_OpenVar (cstr (i_name ?f)) ''w'' (i_type ?f)) (set_busy False x))))"
  have r: "ftp_RetrCallback LWFTP_RESULT_OK x = util_GetLocalFiles ?y"
    using True by (simp add: ftp_RetrCallback_def Let_def set_busy_def)
  have e: "envr ?y = envr x" by (simp add: set_busy_def)
  obtain v where v: "util_GetLocalFiles ?y = Some v" "sess v = sess ?y" "calls v = calls ?y" "busy (app v) = busy (app ?y)"
    using GetLocalFiles_some [of ?y] assms e by metis
  show ?thesis unfolding r using v True by (simp add: set_busy_def image_calls_def)
qed

text \<open>The 226 ends the transfer: what is left of the data connection is closed and the call-back runs.\<close>

lemma close_calls: "filter file_call (calls (close_data_pcb w)) = filter file_call (calls w)"
  by (auto simp: close_data_pcb_def lwftp_pcb_close_def tcp_close_def tcp_register_def Let_def split: option.split)

lemma close_same [simp]:
  "app (close_data_pcb w) = app w" "envr (close_data_pcb w) = envr w" "file_buffer (close_data_pcb w) = file_buffer w"
  "sess (close_data_pcb w) = (sess w)\<lparr>data_pcb := None\<rparr>"
  by (auto simp: close_data_pcb_def lwftp_pcb_close_def tcp_close_def tcp_register_def Let_def split: option.split)

lemma transfer_concludes:
  assumes "control_state (sess u) = LWFTP_XFERING" and "done_fn (sess u) = Some RetrCallback"
    and "response_of (Some b) = 226"
  shows "\<exists>x. lwftp_control_recv ftp_client p (Some b) ERR_OK u = ftp_RetrCallback LWFTP_RESULT_OK x
     \<and> sess x = (sess u)\<lparr>control_state := LWFTP_LOGGED, data_pcb := None\<rparr> \<and> envr x = envr u
     \<and> file_buffer x = file_buffer u \<and> filter file_call (calls x) = filter file_call (calls u)"
proof -
  let ?y = "set_state LWFTP_LOGGED (do_call Pbuf_free (set_state LWFTP_DATAEND (do_call (Tcp_recved p (tot_len b)) u)))"
  let ?x = "if data_pcb (sess u) \<noteq> None then close_data_pcb ?y else ?y"
  have "lwftp_control_recv ftp_client p (Some b) ERR_OK u = ftp_RetrCallback LWFTP_RESULT_OK ?x"
    using assms by (simp add: lwftp_control_recv_def lwftp_control_process_def process_reply_def process_xfering_def
        process_second_def lwftp_data_close_def finish_def ftp_client_def numeral_2_eq_2 ftp_done_def)
  moreover have "sess ?x = (sess u)\<lparr>control_state := LWFTP_LOGGED, data_pcb := None\<rparr>" by simp
  moreover have "filter file_call (calls ?x) = filter file_call (calls u)" by (simp add: close_calls)
  ultimately show ?thesis by (intro exI [of _ ?x]) simp
qed

section \<open>Properties\<close>

text \<open>C22. An upload whose segments are acknowledged one by one hands the data connection exactly the
  bytes of the file image, in order, none twice and none left out, and then closes it.\<close>

theorem upload_sends_image:
  assumes "data_source (sess w) = Some StorDataSource" and "data_pcb (sess w) = Some q"
    and "0 < e_mss (envr w) q" and "txOffset (app w) = 0"
  shows "\<exists>v. acks ftp_client (0 # segments (e_mss (envr w) q) (txSize (app w))) w = Some v \<and> data_pcb (sess v) = None
     \<and> written q (calls v) = written q (calls w) @ block (file_buffer w) 0 (txSize (app w))"
  using acks_upload [OF assms(1,2) refl assms(3), of 0 "txSize (app w)"] assms(4) by simp

text \<open>An upload of 1000 bytes about to start.\<close>

definition example_upload :: world where
  "example_upload = upd_app (\<lambda>a. a\<lparr>txSize := 1000\<rparr>)
     (upd_sess (\<lambda>s. s\<lparr>data_source := Some StorDataSource, data_pcb := Some 2\<rparr>) (example_in LWFTP_XFERING StorCallback))"

theorem upload_sends_image_witness:
  "\<exists>v. acks ftp_client [0, 536, 464] example_upload = Some v \<and> data_pcb (sess v) = None
     \<and> length (written 2 (calls v)) = 1000"
proof -
  have "segments 536 1000 = [536, 464]" by (simp add: segments_pos)
  then show ?thesis
    using upload_sends_image [of example_upload 2] by (auto simp: example_upload_def example_in_simps app_init_def)
qed

text \<open>C35. A segment acknowledged in part is sent again from the acknowledged byte on, though the rest
  of it is still under way: the server receives those bytes twice.\<close>

theorem partial_ack_duplicates:
  assumes "data_source (sess w) = Some StorDataSource" and "data_pcb (sess w) = Some q" and "txOffset (app w) = 0"
    and "e_mss (envr w) q = mss" and "0 < n" and "n < mss" and "mss + n \<le> txSize (app w)"
  shows "\<exists>v. acks ftp_client [0, n] w = Some v
     \<and> written q (calls v) = written q (calls w) @ block (file_buffer w) 0 n
          @ block (file_buffer w) n (mss - n) @ block (file_buffer w) n (mss - n) @ block (file_buffer w) mss n"
proof -
  let ?m = "file_buffer w"
  let ?w = "snd (tcp_write (Some q) (block ?m 0 mss) (advanced 0 w))"
  have 1: "lwftp_data_sent ftp_client 0 w = Some ?w"
    using data_sent_step [OF assms(1,2), of 0] assms(3-7) by (simp add: min_def)
  let ?v = "snd (tcp_write (Some q) (block ?m n mss) (advanced n ?w))"
  have 2: "lwftp_data_sent ftp_client n ?w = Some ?v"
    using data_sent_step [of ?w q n] assms by (simp add: min_def)
  have "block ?m 0 mss = block ?m 0 n @ block ?m n (mss - n)" "block ?m n mss = block ?m n (mss - n) @ block ?m mss n"
    using block_append [of ?m 0 n "mss - n"] block_append [of ?m n "mss - n" n] assms(6) by simp_all
  moreover have "acks ftp_client [0, n] w = Some ?v" by (simp only: acks.simps 1 2 bind.bind_lunit)
  ultimately show ?thesis by (intro exI [of _ ?v]) simp
qed

theorem partial_ack_duplicates_witness:
  "\<exists>v. acks ftp_client [0, 100] example_upload = Some v \<and> length (written 2 (calls v)) = 1072"
  using partial_ack_duplicates [of example_upload 2 536 100]
  by (auto simp: example_upload_def example_in_simps app_init_def)

text \<open>C23. A download does not depend on how the network cuts it up. Whatever pbufs the file arrives
  in on the open data connection, and whether or not the server has closed that connection
  (\<open>closed\<close>) when its 226 comes, on the 226 the program stores the variable the image describes if
  its checksum is right; if it is not, it stores nothing, prints a message and waits for a key. The
  image is the received bytes, up to 65535 of them, at the start of the buffer. Afterwards the data
  connection is closed and the session logged in. Assumed: the transfer is under way, and the
  calculator never holds more than 500 programs and AppVars to list.\<close>

theorem download_stores:
  assumes "control_state (sess w) = LWFTP_XFERING" and "data_sink (sess w) = Some RetrDataSink"
    and "done_fn (sess w) = Some RetrCallback" and "rxOffset (app w) = 0" and "data_pcb (sess w) = Some q"
    and "response_of (Some b) = 226" and "\<And>cs. length (filter listed (e_detect (envr w) cs)) \<le> 500"
    and "m = poke 0 (take 65535 (concat (map bytes_of bs))) (file_buffer w)"
  shows "\<exists>v. do { w1 \<leftarrow> recvs ftp_client q bs w;
                 w2 \<leftarrow> (if closed then lwftp_data_recv ftp_client q None w1 else Some w1);
                 lwftp_control_recv ftp_client p (Some b) ERR_OK w2 } = Some v
     \<and> control_state (sess v) = LWFTP_LOGGED \<and> data_pcb (sess v) = None \<and> \<not> busy (app v)
     \<and> filter file_call (calls v) = filter file_call (calls w)
        @ (if image_accepted m
           then [Ti_OpenVar (cstr (i_name (read_image m))) ''w'' (i_type (read_image m)), Ti_Write (image_data m),
                 Ti_SetArchiveStatus (i_archived (read_image m))]
           else [])
     \<and> (\<not> image_accepted m \<longrightarrow> (\<exists>cs. calls v = cs @ [Print_message ''Invalid checksum'', Wait_any_key]))"
proof -
  let ?all = "concat (map bytes_of bs)"
  let ?w1 = "(stored ?all w)\<lparr>calls := calls w @ concat (map (received q) bs)\<rparr>"
  let ?w2 = "if closed then close_data_pcb ?w1 else ?w1"
  have w1: "recvs ftp_client q bs w = Some ?w1" by (rule recvs_stored) (use assms in auto)
  have "lwftp_data_recv ftp_client q None ?w1 = Some (close_data_pcb ?w1)"
    using assms(2,5) by (simp add: lwftp_data_recv_def ftp_client_def numeral_2_eq_2 ftp_sink_def ftp_RetrDataSink_def)
  then have w2: "(if closed then lwftp_data_recv ftp_client q None ?w1 else Some ?w1) = Some ?w2" by simp
  have m: "file_buffer ?w2 = m" "envr ?w2 = envr w"
    using assms(4,8) by (simp_all add: stored_def ftp_RetrDataSink_def Let_def)
  have quiet: "filter file_call (calls ?w2) = filter file_call (calls w)"
    by (auto simp: close_calls received_def filter_concat filter_empty_conv)
  have s2: "control_state (sess ?w2) = LWFTP_XFERING" "done_fn (sess ?w2) = Some RetrCallback" using assms(1,3) by simp_all
  obtain x where x0: "lwftp_control_recv ftp_client p (Some b) ERR_OK ?w2 = ftp_RetrCallback LWFTP_RESULT_OK x"
    "sess x = (sess ?w2)\<lparr>control_state := LWFTP_LOGGED, data_pcb := None\<rparr>" "envr x = envr ?w2"
    "file_buffer x = file_buffer ?w2" "filter file_call (calls x) = filter file_call (calls ?w2)"
    using transfer_concludes [OF s2 assms(6), of p] by blast
  have x: "control_state (sess x) = LWFTP_LOGGED" "data_pcb (sess x) = None" by (simp_all add: x0(2))
  have y: "envr x = envr w" "file_buffer x = m" "filter file_call (calls x) = filter file_call (calls w)"
    by (simp_all only: x0(3-5) m quiet)
  obtain v where "ftp_RetrCallback LWFTP_RESULT_OK x = Some v" "sess v = sess x" "\<not> busy (app v)"
    "filter file_call (calls v) = filter file_call (calls x) @ image_calls m"
    "\<not> image_accepted m \<longrightarrow> calls v = calls x @ [Print_message ''Invalid checksum'', Wait_any_key]"
    using RetrCallback_stores [of x] assms(7) y(1,2) by auto
  with x y(3) show ?thesis unfolding w1 bind.bind_lunit w2 x0(1) by (auto simp: image_calls_def)
qed

text \<open>A transfer under way, and a file with an AppVar of three bytes. The file comes in two pieces
  and the server closes the connection before its 226.\<close>

definition example_download :: world where
  "example_download = upd_app (\<lambda>a. a\<lparr>busy := True\<rparr>)
     ((upd_sess (\<lambda>s. s\<lparr>data_sink := Some RetrDataSink, data_pcb := Some 2\<rparr>) (example_in LWFTP_XFERING RetrCallback))
       \<lparr>calls := [Tcp_new (Some 1), Print_message ''Downloading file...'', Tcp_new (Some 2)]\<rparr>)"

definition example_file :: bytes where
  "example_file = file_header @ replicate 42 nul @ le16 22 @ le16 13 @ le16 5 @ [CHR 0x15] @ ''DATA'' @ replicate 5 nul
     @ [CHR 0x80] @ le16 5 @ [CHR 0x03, nul] @ ''abc'' @ le16 751"

abbreviation example_pieces :: "pbuf list" where
  "example_pieces \<equiv> [\<lparr>payload = take 60 example_file, beyond = [], chain = []\<rparr>,
     \<lparr>payload = drop 60 example_file, beyond = [], chain = []\<rparr>]"

lemma example_file_image:
  "length example_file = 79" "image_accepted (poke 0 example_file (\<lambda>_. nul))"
  "image_data (poke 0 example_file (\<lambda>_. nul)) = ''abc''" "cstr (i_name (read_image (poke 0 example_file (\<lambda>_. nul)))) = ''DATA''"
  "i_type (read_image (poke 0 example_file (\<lambda>_. nul))) = 21" "i_archived (read_image (poke 0 example_file (\<lambda>_. nul)))"
  by code_simp+

theorem download_stores_witness:
  "\<exists>v. do { w1 \<leftarrow> recvs ftp_client 2 example_pieces example_download; w2 \<leftarrow> lwftp_data_recv ftp_client 2 None w1;
           lwftp_control_recv ftp_client 1 (Some (reply ''226 done'')) ERR_OK w2 } = Some v
     \<and> control_state (sess v) = LWFTP_LOGGED \<and> data_pcb (sess v) = None
     \<and> filter file_call (calls v) = [Ti_OpenVar ''DATA'' ''w'' 21, Ti_Write ''abc'', Ti_SetArchiveStatus True]"
proof -
  let ?w = example_download
  have h: "control_state (sess ?w) = LWFTP_XFERING" "data_sink (sess ?w) = Some RetrDataSink" "done_fn (sess ?w) = Some RetrCallback"
    "rxOffset (app ?w) = 0" "data_pcb (sess ?w) = Some 2" "response_of (Some (reply ''226 done'')) = 226"
    by (simp_all add: example_download_def example_in_simps app_init_def response_eval)
  have l: "length (filter listed (e_detect (envr ?w) cs)) \<le> 500" for cs
    by (simp add: example_download_def example_in_simps, simp add: example_env_def)
  have m: "poke 0 (take 65535 (concat (map bytes_of example_pieces))) (file_buffer ?w) = poke 0 example_file (\<lambda>_. nul)"
    using example_file_image(1) by (simp add: bytes_of_def example_download_def example_defs)
  have c: "filter file_call (calls ?w) = []" by (simp add: example_download_def)
  from download_stores [OF h l m [symmetric], of True 1] show ?thesis
    unfolding c if_True by (simp only: example_file_image if_True append_Nil simp_thms) blast
qed

end
