(* ===== verification/Client_Paths.thy ===== *)
theory Client_Paths
  imports Ftp_Transfer
begin

text \<open>
  The remote path. File operations append the name of a file to the path and cut it off again;
  PWD fills it from the server's answer. The buffer has 257 bytes and no operation that appends
  looks at the room left. Then a move as a whole, from the key press to the new listing.
\<close>

section \<open>Appending and cutting\<close>

definition ext_of :: "file_t \<Rightarrow> bytes" where
  "ext_of f = ''.8x'' @ [if f_type f = TYPE_APPVAR then CHR ''v'' else CHR ''p'']"

definition file_name :: "file_t \<Rightarrow> bytes" where
  "file_name f = cstr (f_name f)"

text \<open>A table entry: nine bytes, the last one of them the terminator at the latest.\<close>

definition entry_ok :: "file_t \<Rightarrow> bool" where
  "entry_ok f \<longleftrightarrow> length (f_name f) = 9 \<and> nul \<in> set (f_name f)"

lemma cstr_zeros [simp]: "cstr (replicate n nul) = []"
  by (cases n) simp_all

lemma strlen_nul: "strlen p < length p \<longleftrightarrow> nul \<in> set p"
proof
  assume "nul \<in> set p"
  then obtain a b where "p = a @ nul # b" "nul \<notin> set a" by (metis split_list_first)
  then show "strlen p < length p" by (simp add: strlen_def cstr_terminated)
next
  assume "strlen p < length p"
  then show "nul \<in> set p" using strlen_less nth_mem by metis
qed

lemma cstr_split: "nul \<in> set p \<Longrightarrow> \<exists>r. p = cstr p @ nul # r"
proof -
  assume "nul \<in> set p"
  then obtain a b where "p = a @ nul # b" "nul \<notin> set a" by (metis split_list_first)
  then show ?thesis by (auto simp: cstr_terminated)
qed

lemma store_bytes_split:
  "length s = length t \<Longrightarrow> n = length a \<Longrightarrow> store_bytes n s (a @ t @ r) = Some (a @ s @ r)"
  by (simp add: store_bytes_def)

lemma append_name_text:
  assumes "nul \<in> set b" and "entry_ok f" and "strlen b + 10 \<le> length b"
  shows "\<exists>b'. append_name b (f_name f) = Some b' \<and> length b' = length b \<and> cstr b' = cstr b @ slash # file_name f"
proof -
  obtain r where r: "f_name f = file_name f @ nul # r" using cstr_split assms(2) by (auto simp: entry_ok_def file_name_def)
  have t: "take 9 (f_name f) = f_name f" using assms(2) by (simp add: entry_ok_def)
  have len: "length (f_name f) = 9" using assms(2) by (simp add: entry_ok_def)
  let ?b' = "cstr b @ slash # f_name f @ drop (strlen b + 10) b"
  have p: "take (strlen b) b = cstr b" by (simp add: cstr_prefix)
  have l: "length (cstr b) = strlen b" by (simp add: strlen_def)
  have "append_name b (f_name f) = Some ?b'"
    using assms(3) len by (auto simp: append_name_def store_bytes_def t p l take_Cons' add.commute)
  moreover have "cstr ?b' = cstr b @ slash # file_name f"
    by (subst r) (simp add: cstr_append cstr_no_nul file_name_def)
  moreover have "length ?b' = length b" using assms(3) len by (simp add: l)
  ultimately show ?thesis by blast
qed

lemma length_five: "length xs = 5 \<Longrightarrow> \<exists>a b c d e. xs = [a, b, c, d, e]"
  by (auto simp: numeral_eq_Suc length_Suc_conv)

lemma append_ext_text:
  assumes "nul \<in> set b" and "strlen b + 5 \<le> length b"
  shows "\<exists>b'. append_ext f b = Some b' \<and> length b' = length b \<and> cstr b' = cstr b @ ext_of f"
proof -
  have l: "length (cstr b) = strlen b" by (simp add: strlen_def)
  let ?r = "drop (strlen b + 5) b" and ?x = "take 5 (drop (strlen b) b)"
  have b: "b = cstr b @ ?x @ ?r"
    by (simp add: cstr_prefix [of b] append_take_drop_id flip: drop_drop add.commute [of 5])
  have "length ?x = 5" using assms(2) by simp
  then obtain x0 x1 x2 x3 x4 where x: "?x = [x0, x1, x2, x3, x4]"
    using length_five by blast
  let ?e = "if f_type f = TYPE_APPVAR then CHR ''v'' else CHR ''p''"
  have 1: "store_bytes (strlen b) (''.8x'' @ [nul]) b = Some (cstr b @ (''.8x'' @ [nul]) @ x4 # ?r)"
    using store_bytes_split [of "''.8x'' @ [nul]" "[x0, x1, x2, x3]" "strlen b" "cstr b" "x4 # ?r"] b x l by simp
  have 2: "store_bytes (strlen b + 3) [?e] (cstr b @ (''.8x'' @ [nul]) @ x4 # ?r) = Some (cstr b @ ext_of f @ x4 # ?r)"
    using store_bytes_split [of "[?e]" "[nul]" "strlen b + 3" "cstr b @ ''.8x''" "x4 # ?r"] l by (simp add: ext_of_def)
  have 3: "store_bytes (strlen b + 4) [nul] (cstr b @ ext_of f @ x4 # ?r) = Some (cstr b @ ext_of f @ nul # ?r)"
    using store_bytes_split [of "[nul]" "[x4]" "strlen b + 4" "cstr b @ ext_of f" ?r] l by (simp add: ext_of_def)
  have "append_ext f b = Some (cstr b @ ext_of f @ nul # ?r)"
    unfolding append_ext_def Let_def 1 bind.bind_lunit 2 3 ..
  moreover have "nul \<notin> set (ext_of f)" by (simp add: ext_of_def)
  then have "cstr (cstr b @ ext_of f @ nul # ?r) = cstr b @ ext_of f" by (simp add: cstr_append cstr_no_nul)
  moreover have "length (cstr b @ ext_of f @ nul # ?r) = length b" using assms(2) by (simp add: l ext_of_def)
  ultimately show ?thesis by blast
qed

lemma entry_name_bound: "entry_ok f \<Longrightarrow> length (file_name f) \<le> 8"
  using strlen_nul [of "f_name f"] by (simp add: entry_ok_def file_name_def strlen_def)

text \<open>Room for a slash, a name of eight characters and an extension of four.\<close>

lemma append_file_text:
  assumes "length (path (app w)) = 257" and "nul \<in> set (path (app w))" and "entry_ok f" and "strlen (path (app w)) + 14 \<le> 257"
  shows "\<exists>b. append_file f w = Some (upd_app (\<lambda>a. a\<lparr>path := b\<rparr>) w) \<and> length b = 257 \<and> nul \<in> set b
    \<and> cstr b = cstr (path (app w)) @ slash # file_name f @ ext_of f"
proof -
  obtain b1 where b1: "append_name (path (app w)) (f_name f) = Some b1" "length b1 = 257"
      "cstr b1 = cstr (path (app w)) @ slash # file_name f"
    using append_name_text [OF assms(2,3)] assms(1,4) by auto
  have s: "strlen b1 + 5 \<le> 257" using b1(3) assms(4) entry_name_bound [OF assms(3)] by (simp add: strlen_def)
  then have n: "nul \<in> set b1" using b1(2) strlen_nul [of b1] by simp
  obtain b2 where b2: "append_ext f b1 = Some b2" "length b2 = 257" "cstr b2 = cstr b1 @ ext_of f"
    using append_ext_text [OF n] s b1(2) by auto
  have "strlen b2 < 257" using b2(3) s by (simp add: strlen_def ext_of_def)
  then have "nul \<in> set b2" using strlen_nul [of b2] b2(2) by simp
  then show ?thesis using b1 b2 by (auto simp: append_file_def)
qed

lemma cut_path_text:
  assumes "cstr (path (app w)) = a @ slash # n" and "slash \<notin> set n" and "length (path (app w)) = 257"
  shows "\<exists>b. cut_path w = Some (upd_app (\<lambda>a. a\<lparr>path := b\<rparr>) w) \<and> cstr b = a \<and> length b = 257 \<and> nul \<in> set b"
proof -
  have i: "strrchr (path (app w)) slash = Some (length a)" using strrchr_last assms(1,2) by blast
  have na: "nul \<notin> set a" using cstr_no_nul [of "path (app w)"] assms(1) by auto
  have "strlen (path (app w)) \<le> 257" using strlen_le [of "path (app w)"] assms(3) by simp
  then have la: "length a < 257" using assms(1) by (simp add: strlen_def)
  have ta: "take (length a) (path (app w)) = a"
    using assms(1) cstr_prefix [of "path (app w)"] by (metis append_eq_conv_conj take_take min.absorb1 strlen_def le_add1 length_append)
  let ?b = "a @ nul # drop (length a + 1) (path (app w))"
  have "store_bytes (length a) [nul] (path (app w)) = Some ?b" using la assms(3) by (simp add: store_bytes_def ta)
  moreover have "cstr ?b = a" using na by (rule cstr_terminated)
  moreover have "length ?b = 257" using la assms(3) by simp
  ultimately show ?thesis using i by (auto simp: cut_path_def)
qed

section \<open>Properties\<close>

text \<open>C29. Appending a file's name to the path and cutting the path at its last slash gives the path
  back, as long as there is room for fourteen more bytes and the name has no slash.\<close>

theorem path_restored:
  assumes "length (path (app w)) = 257" and "nul \<in> set (path (app w))" and "entry_ok f"
    and "strlen (path (app w)) + 14 \<le> 257" and "slash \<notin> set (file_name f)"
  shows "\<exists>v u. append_file f w = Some v \<and> cstr (path (app v)) = cstr (path (app w)) @ slash # file_name f @ ext_of f
     \<and> cut_path v = Some u \<and> cstr (path (app u)) = cstr (path (app w)) \<and> length (path (app u)) = 257"
proof -
  obtain b where b: "append_file f w = Some (upd_app (\<lambda>a. a\<lparr>path := b\<rparr>) w)" "length b = 257"
      "cstr b = cstr (path (app w)) @ slash # file_name f @ ext_of f"
    using append_file_text [OF assms(1-4)] by blast
  let ?v = "upd_app (\<lambda>a. a\<lparr>path := b\<rparr>) w"
  have n: "slash \<notin> set (file_name f @ ext_of f)" using assms(5) by (simp add: ext_of_def)
  have "cstr (path (app ?v)) = cstr (path (app w)) @ slash # (file_name f @ ext_of f)" "length (path (app ?v)) = 257"
    using b by simp_all
  from cut_path_text [OF this(1) n this(2)] show ?thesis using b by auto
qed

theorem path_restored_witness:
  "\<exists>v u. append_file \<lparr>f_type = TYPE_APPVAR, f_name = ''DATA'' @ replicate 5 nul\<rparr> example_world = Some v
     \<and> cstr (path (app v)) = ''/DATA.8xv'' \<and> cut_path v = Some u \<and> cstr (path (app u)) = []"
proof -
  have p: "path (app example_world) = replicate 257 nul" by (simp add: example_defs)
  show ?thesis
    using path_restored [of example_world "\<lparr>f_type = TYPE_APPVAR, f_name = ''DATA'' @ replicate 5 nul\<rparr>"]
    by (simp add: p entry_ok_def file_name_def ext_of_def strlen_def) blast
qed

text \<open>With a path of 248 characters or more, appending the name of a file writes past the end of
  the path buffer.\<close>

theorem path_overflow:
  assumes "length (path (app w)) = 257" and "entry_ok f" and "248 \<le> strlen (path (app w))"
  shows "append_file f w = None"
  using assms by (auto simp: append_file_def append_name_def store_bytes_def entry_ok_def bind_eq_None_conv)

theorem path_overflow_witness:
  "append_file zero_file (upd_app (\<lambda>a. a\<lparr>path := replicate 248 (CHR ''d'') @ replicate 9 nul\<rparr>) example_world) = None"
proof -
  have "strlen (replicate 248 (CHR ''d'') @ replicate 9 nul) = 248"
    by (simp add: strlen_def cstr_append)
  then show ?thesis by (intro path_overflow) (simp_all add: entry_ok_def zero_file_def)
qed

text \<open>C28. The working directory: the server's 257 reply with the directory in double quotes puts
  that directory in the path, ends the command and makes the program ready again.\<close>

theorem pwd_sets_path:
  assumes "control_state (sess w) = LWFTP_PWD_SENT" and "data_sink (sess w) = Some PwdDataSink"
    and "done_fn (sess w) = Some PwdCallback" and "length (path (app w)) = 257"
    and "response_of (Some b) = 257" and "payload b = s @ dquote # d @ dquote # r"
    and "dquote \<notin> set s" and "dquote \<notin> set d" and "nul \<notin> set d" and "length d \<le> 255"
  shows "\<exists>v. lwftp_control_process ftp_client (Some b) w = Some v
     \<and> cstr (path (app v)) = d \<and> control_state (sess v) = LWFTP_LOGGED \<and> \<not> busy (app v)"
proof -
  have m: "memchr (payload b) dquote = Some (length s)" "memchr (d @ dquote # r) dquote = Some (length d)"
    using assms(6-8) by (simp_all add: memchr_skip)
  let ?p = "d @ nul # drop (length d + 1) (path (app w))"
  have "store_bytes 0 d (path (app w)) = Some (d @ drop (length d) (path (app w)))"
    using assms(4,10) by (simp add: store_bytes_def)
  moreover have "store_bytes (length d) [nul] (d @ drop (length d) (path (app w))) = Some ?p"
    using assms(4,10) by (simp add: store_bytes_def)
  ultimately have sink: "ftp_PwdDataSink (Some (payload b)) w =
      Some (mark_path (upd_app (\<lambda>a. a\<lparr>path := ?p, rxOffset := length d\<rparr>) w))"
    using m assms(6,10) by (simp add: ftp_PwdDataSink_def Let_def)
  have c: "cstr ?p = d" using assms(9) by (rule cstr_terminated)
  show ?thesis using assms(1-5) sink c
    by (simp add: lwftp_control_process_def process_reply_def process_command_def process_second_def finish_def
        ftp_client_def numeral_2_eq_2 ftp_done_def ftp_sink_def ftp_PwdCallback_def set_busy_def mark_path_def)
qed

theorem pwd_sets_path_witness:
  "\<exists>v. lwftp_control_process ftp_client (Some (reply (''257 '' @ dquote # ''/pub'' @ dquote # '' is it'')))
        (upd_sess (\<lambda>s. s\<lparr>data_sink := Some PwdDataSink\<rparr>) (example_in LWFTP_PWD_SENT PwdCallback)) = Some v
     \<and> cstr (path (app v)) = ''/pub''"
  using pwd_sets_path [of "upd_sess (\<lambda>s. s\<lparr>data_sink := Some PwdDataSink\<rparr>) (example_in LWFTP_PWD_SENT PwdCallback)"
      "reply (''257 '' @ dquote # ''/pub'' @ dquote # '' is it'')" "''257 ''" "''/pub''" "'' is it'' @ [cr, lf]"]
  by (auto simp: example_in_simps app_init_def response_eval)

text \<open>Deleting a local file counts it twice: the table is read anew and the number of entries is
  then lowered once more, so the last entry of the table is no longer reachable, and when the last
  file is deleted the number of entries becomes 16777215.\<close>

theorem local_delete_counts_twice:
  assumes "\<not> remoteColumn (app w)" and "selected_file False w = Some f"
    and "vs = e_detect (envr w) (calls w @ [Ti_DeleteVar (file_name f) (os_type f)])"
    and "length (filter listed vs) \<le> 500"
  shows "\<exists>v. util_DeleteFile c w = Some v \<and> total (app v) False = of_nat (length (filter listed vs)) - 1"
proof -
  let ?w = "do_call (Ti_DeleteVar (file_name f) (os_type f)) w"
  obtain v where v: "util_GetLocalFiles ?w = Some v" "total (app v) False = of_nat (length (filter listed vs))"
    using GetLocalFiles_some [of ?w] assms(3,4) by auto
  have r: "remoteColumn (app v) = False"
    using v(1) assms(1) by (auto simp: util_GetLocalFiles_def mark_local_def bind_eq_Some_conv)
  show ?thesis using assms(1,2) v r
    by (simp add: util_DeleteFile_def file_name_def forget_selected_def Let_def)
qed

theorem local_delete_counts_twice_witness:
  "\<exists>v. util_DeleteFile ftp_client (example_world\<lparr>envr := example_env\<lparr>e_detect := (\<lambda>_. [])\<rparr>\<rparr>) = Some v
     \<and> total (app v) False = 16777215"
proof -
  have m: "(16777215 :: u24) = - 1" by simp
  show ?thesis
    unfolding m
    using local_delete_counts_twice [of "example_world\<lparr>envr := example_env\<lparr>e_detect := (\<lambda>_. [])\<rparr>\<rparr>"
        "\<lparr>f_type = TYPE_PROG, f_name = ''PROG'' @ replicate 5 nul\<rparr>" "[]" ftp_client]
    by (simp add: example_defs selected_file_def)
qed

section \<open>Moving a file\<close>

text \<open>The first step: the path of the file is named.\<close>

lemma MoveFile_starts:
  assumes "remoteColumn (app w)" and "selected_file True w = Some f" and "f_type f \<noteq> TYPE_DIR" and "entry_ok f"
    and "length (path (app w)) = 257" and "nul \<in> set (path (app w))" and "strlen (path (app w)) + 14 \<le> 257"
    and "control_state (sess w) = LWFTP_LOGGED" and "control_pcb (sess w) = Some p" and "data_pcb (sess w) = None"
    and "move_text w = Some t" and "deref t \<noteq> nul" and "t ! (strlen t - 1) \<noteq> slash"
  shows "\<exists>v. util_MoveFile ftp_client w = Some v \<and> control_state (sess v) = LWFTP_RNFR_SENT
     \<and> control_pcb (sess v) = Some p \<and> data_pcb (sess v) = None \<and> remote_path (sess v) = Some AppPath
     \<and> remote_new_path (sess v) = Some MoveInput \<and> done_fn (sess v) = Some MoveCallback \<and> move_input v = t
     \<and> envr v = envr w \<and> ftpResult (app v) = ftpResult (app w) \<and> length (path (app v)) = 257
     \<and> cstr (path (app v)) = cstr (path (app w)) @ slash # file_name f @ ext_of f
     \<and> written p (calls v) = written p (calls w) @ ''RNFR '' @ cstr (path (app w)) @ slash # file_name f @ ext_of f @ [cr, lf]"
proof -
  obtain b where b: "append_file f w = Some (upd_app (\<lambda>a. a\<lparr>path := b\<rparr>) w)" "length b = 257"
      "cstr b = cstr (path (app w)) @ slash # file_name f @ ext_of f"
    using append_file_text [OF assms(5,6,4,7)] by blast
  let ?w = "upd_sess (\<lambda>s. s\<lparr>remote_path := Some AppPath\<rparr>) (upd_app (\<lambda>a. a\<lparr>path := b\<rparr>) w)"
  have t: "move_text ?w = Some t" using assms(11) by (simp add: move_text_def)
  let ?x = "set_busy True (set_done (Some MoveCallback) (upd_sess (\<lambda>s. s\<lparr>remote_new_path := Some MoveInput\<rparr>) (?w\<lparr>move_input := t\<rparr>)))"
  have f: "finish ftp_client LWFTP_RESULT_INPROGRESS y = Some y" if "done_fn (sess y) = Some MoveCallback" for y
    using that by (simp add: finish_def ftp_client_def numeral_2_eq_2 ftp_done_def ftp_MoveCallback_def)
  have r: "read_ptr ?x AppPath = cstr b" by (simp add: read_ptr_def set_busy_def set_done_def)
  let ?v = "set_state LWFTP_RNFR_SENT (send_msg [cr, lf] (send_msg (cstr b) (send_msg ''RNFR '' ?x)))"
  have m: "lwftp_move ftp_client ?x = Some (LWFTP_RESULT_INPROGRESS, ?v)"
    using assms(8-10) r by (simp add: lwftp_move_def initiate_def lwftp_tcpip_callback_def lwftp_send_RNFR_def exit_with_def
        send_cmd_some remote_path_text_def f)
  have "util_MoveFile ftp_client w = Some ?v"
    using assms(1-3,12,13) b(1) t m by (simp add: util_MoveFile_def)
  moreover have "written p (calls ?v) = written p (calls w) @ ''RNFR '' @ cstr b @ [cr, lf]"
    using assms(9) by (simp add: send_msg_written set_busy_def set_done_def)
  moreover have "move_input ?v = t" "envr ?v = envr w" "path (app ?v) = b" "ftpResult (app ?v) = ftpResult (app w)"
    "sess ?v = (sess w)\<lparr>remote_path := Some AppPath, remote_new_path := Some MoveInput, done_fn := Some MoveCallback,
       control_state := LWFTP_RNFR_SENT\<rparr>"
    by (simp_all add: set_state_def set_busy_def set_done_def)
  ultimately show ?thesis using b(2,3) assms(9,10) by (intro exI [of _ ?v]) simp
qed

text \<open>The two answers of the server.\<close>

lemma move_answered:
  assumes "control_state (sess w) = LWFTP_RNFR_SENT" and "control_pcb (sess w) = Some p" and "data_pcb (sess w) = None"
    and "remote_path (sess w) = Some AppPath" and "remote_new_path (sess w) = Some MoveInput"
    and "done_fn (sess w) = Some MoveCallback" and "length (path (app w)) = 257"
    and "cstr (path (app w)) = d @ slash # n" and "slash \<notin> set n"
    and "response_of (Some b1) = 350" and "response_of (Some b2) = 250" and "\<And>cs. e_tcp_new (envr w) cs \<noteq> None"
  shows "\<exists>v. lwftp_control_process ftp_client (Some b1) w \<bind> lwftp_control_process ftp_client (Some b2) = Some v
     \<and> cstr (path (app v)) = d \<and> ftpResult (app v) = ftpResult (app w)
     \<and> control_state (sess v) = LWFTP_TYPE_SENT \<and> target_state (sess v) = LWFTP_MLSD_SENT
     \<and> written p (calls v) = written p (calls w) @ ''RNTO '' @ cstr (move_input w) @ [cr, lf] @ ''TYPE I'' @ [cr, lf]"
proof -
  let ?w1 = "do_call Pbuf_free (set_state LWFTP_RNTO_SENT (send_msg [cr, lf] (send_msg (cstr (move_input w)) (send_msg ''RNTO '' w))))"
  have 1: "lwftp_control_process ftp_client (Some b1) w = Some ?w1"
    using assms(1,5,10) by (simp add: lwftp_control_process_def process_reply_def process_command_def Let_def process_second_def
        send_cmd_some remote_new_path_text_def read_ptr_def)
  let ?x = "set_state LWFTP_LOGGED (do_call Pbuf_free (set_state LWFTP_CMDEND ?w1))"
  have 2: "lwftp_control_process ftp_client (Some b2) ?w1 = ftp_MoveCallback (client_at (Suc 0)) LWFTP_RESULT_OK ?x"
    using assms(6,11) by (simp add: lwftp_control_process_def process_reply_def process_command_def Let_def process_second_def
        finish_def ftp_client_def numeral_2_eq_2 ftp_done_def del: client_above.simps(1))
  have x: "path (app ?x) = path (app w)" "ftpResult (app ?x) = ftpResult (app w)" "envr ?x = envr w"
    "sess ?x = (sess w)\<lparr>control_state := LWFTP_LOGGED\<rparr>"
    "written p (calls ?x) = written p (calls w) @ ''RNTO '' @ cstr (move_input w) @ [cr, lf]"
    using assms(2) by (simp_all add: send_msg_written)
  obtain b where b: "cut_path ?x = Some (upd_app (\<lambda>a. a\<lparr>path := b\<rparr>) ?x)" "cstr b = d"
    using cut_path_text [of ?x d n] assms(7-9) x(1) by auto
  let ?y = "forget_selected (upd_app (\<lambda>a. a\<lparr>path := b\<rparr>) ?x)"
  have y: "sess ?y = sess ?x" "envr ?y = envr ?x" "calls ?y = calls ?x" "path (app ?y) = b" "ftpResult (app ?y) = ftpResult (app ?x)"
    by (simp_all add: forget_selected_def Let_def)
  have cb: "ftp_MoveCallback (client_at (Suc 0)) LWFTP_RESULT_OK ?x = util_GetRemoteFiles (client_at (Suc 0)) ?y"
    unfolding ftp_MoveCallback_def b(1) bind.bind_lunit by simp
  obtain q where q: "e_tcp_new (envr ?y) (calls ?y) = Some q" using assms(12) x(3) y(2) by (metis option.exhaust)
  have s: "control_state (sess ?y) = LWFTP_LOGGED" "remote_path (sess ?y) \<noteq> None" "data_pcb (sess ?y) = None"
    "control_pcb (sess ?y) = Some p" unfolding y(1) x(4) using assms(2-4) by simp_all
  from GetRemoteFiles_started [OF s q, of 0] show ?thesis
    unfolding 1 2 cb bind.bind_lunit y(3-5) x(2,5) using b(2) by auto
qed

text \<open>Leaving the input line of a move with Clear does not cancel it: if something has been typed,
  the move is started all the same, to the name typed so far.\<close>

theorem cancelled_move_moves:
  assumes "remoteColumn (app w)" and "selected_file True w = Some f" and "f_type f \<noteq> TYPE_DIR" and "entry_ok f"
    and "length (path (app w)) = 257" and "nul \<in> set (path (app w))" and "strlen (path (app w)) + 14 \<le> 257"
    and "control_state (sess w) = LWFTP_LOGGED" and "control_pcb (sess w) = Some p" and "data_pcb (sess w) = None"
    and "menu_StringInput (e_getchar (envr w)) (e_keys (envr w) (calls w) @ [SClear]) (replicate 64 nul) = Entered 1 t"
    and "deref t \<noteq> nul" and "t ! (strlen t - 1) \<noteq> slash"
  shows "\<exists>v. util_MoveFile ftp_client w = Some v \<and> control_state (sess v) = LWFTP_RNFR_SENT \<and> cstr (move_input v) = cstr t
     \<and> written p (calls v) = written p (calls w) @ ''RNFR '' @ cstr (path (app w)) @ slash # file_name f @ ext_of f @ [cr, lf]"
proof -
  have "move_text w = Some t" using assms(11) by (simp add: move_text_def)
  from MoveFile_starts [OF assms(1-10) this assms(12,13)] show ?thesis by auto
qed

text \<open>A logged-in world in the directory /pub with one remote program, and a user who types a letter.\<close>

definition example_move :: world where
  "example_move = (upd_app (\<lambda>a. a\<lparr>remoteColumn := True, path := ''/pub'' @ replicate 253 nul\<rparr>) (example_in LWFTP_LOGGED PwdCallback))
     \<lparr>remote_files := \<lparr>f_type = TYPE_PROG, f_name = ''GAME'' @ replicate 5 nul\<rparr> # replicate 339 zero_file\<rparr>"

abbreviation example_game :: file_t where
  "example_game \<equiv> \<lparr>f_type = TYPE_PROG, f_name = ''GAME'' @ replicate 5 nul\<rparr>"

lemma example_move_facts:
  "remoteColumn (app example_move)" "selected_file True example_move = Some example_game" "f_type example_game \<noteq> TYPE_DIR"
  "entry_ok example_game" "length (path (app example_move)) = 257" "nul \<in> set (path (app example_move))"
  "strlen (path (app example_move)) + 14 \<le> 257" "control_state (sess example_move) = LWFTP_LOGGED"
  "control_pcb (sess example_move) = Some 1" "data_pcb (sess example_move) = None"
  "deref (CHR ''B'' # replicate 63 nul) \<noteq> nul"
  "(CHR ''B'' # replicate 63 nul) ! (strlen (CHR ''B'' # replicate 63 nul) - 1) \<noteq> slash"
  "slash \<notin> set (file_name example_game)" "cstr (path (app example_move)) = ''/pub''" "file_name example_game = ''GAME''"
  "ext_of example_game = ''.8xp''" "cstr (CHR ''B'' # replicate 63 nul) = ''B''" "calls example_move = []"
  by (simp_all add: example_move_def example_in_simps app_init_def selected_file_def entry_ok_def strlen_def file_name_def ext_of_def)

lemma example_typed:
  "menu_StringInput (e_getchar (envr example_move)) (e_keys (envr example_move) (calls example_move) @ [SClear]) (replicate 64 nul)
     = Entered 1 (CHR ''B'' # replicate 63 nul)"
proof -
  have "menu_StringInput (\<lambda>_ _. CHR ''B'') ([SKey True 1] @ [SClear]) (replicate 64 nul) = Entered 1 (CHR ''B'' # replicate 63 nul)"
    by code_simp
  then show ?thesis by (simp add: example_move_def example_in_simps, simp add: example_env_def)
qed

theorem cancelled_move_moves_witness:
  "\<exists>v. util_MoveFile ftp_client example_move = Some v \<and> written 1 (calls v) = ''RNFR /pub/GAME.8xp'' @ [cr, lf]"
  using cancelled_move_moves [of example_move example_game 1 "CHR ''B'' # replicate 63 nul", OF example_move_facts(1-10)
      example_typed] example_move_facts(11-)
  by (auto simp: example_move_facts file_name_def ext_of_def)

text \<open>C26. Moving a file, from the key press to the new listing. The program names the file's path, on
  the server's consent (350) the text the user typed, and on success (250) it has its path back as
  it was, reports no error and asks for the directory anew (\<open>TYPE I\<close>); nothing else is written on the
  control connection. Assumed: the typed text does not end in a slash, the name is free of slashes
  and fits the path buffer, and lwIP has a control block for the data connection.\<close>

theorem move_dialogue:
  assumes "remoteColumn (app w)" and "selected_file True w = Some f" and "f_type f \<noteq> TYPE_DIR" and "entry_ok f"
    and "length (path (app w)) = 257" and "nul \<in> set (path (app w))" and "strlen (path (app w)) + 14 \<le> 257"
    and "control_state (sess w) = LWFTP_LOGGED" and "control_pcb (sess w) = Some p" and "data_pcb (sess w) = None"
    and "move_text w = Some t" and "deref t \<noteq> nul" and "t ! (strlen t - 1) \<noteq> slash" and "slash \<notin> set (file_name f)"
    and "response_of (Some b1) = 350" and "response_of (Some b2) = 250" and "\<And>cs. e_tcp_new (envr w) cs \<noteq> None"
  shows "\<exists>v. do { w1 \<leftarrow> util_MoveFile ftp_client w; w2 \<leftarrow> lwftp_control_process ftp_client (Some b1) w1;
              lwftp_control_process ftp_client (Some b2) w2 } = Some v
     \<and> cstr (path (app v)) = cstr (path (app w)) \<and> ftpResult (app v) = ftpResult (app w)
     \<and> control_state (sess v) = LWFTP_TYPE_SENT \<and> target_state (sess v) = LWFTP_MLSD_SENT
     \<and> written p (calls v) = written p (calls w)
          @ ''RNFR '' @ cstr (path (app w)) @ slash # file_name f @ ext_of f @ [cr, lf]
          @ ''RNTO '' @ cstr t @ [cr, lf] @ ''TYPE I'' @ [cr, lf]"
proof -
  from MoveFile_starts [OF assms(1-13)] obtain w1 where w1: "util_MoveFile ftp_client w = Some w1"
    "control_state (sess w1) = LWFTP_RNFR_SENT" "control_pcb (sess w1) = Some p" "data_pcb (sess w1) = None"
    "remote_path (sess w1) = Some AppPath" "remote_new_path (sess w1) = Some MoveInput" "done_fn (sess w1) = Some MoveCallback"
    "move_input w1 = t" "envr w1 = envr w" "ftpResult (app w1) = ftpResult (app w)" "length (path (app w1)) = 257"
    "cstr (path (app w1)) = cstr (path (app w)) @ slash # file_name f @ ext_of f"
    "written p (calls w1) = written p (calls w) @ ''RNFR '' @ cstr (path (app w)) @ slash # file_name f @ ext_of f @ [cr, lf]"
    by blast
  have "slash \<notin> set (file_name f @ ext_of f)" using assms(14) by (simp add: ext_of_def)
  from move_answered [OF w1(2-7,11,12) this assms(15,16)] assms(17) w1(8-10,13) show ?thesis
    unfolding w1(1) bind.bind_lunit by auto
qed

theorem move_dialogue_witness:
  "\<exists>v. do { w1 \<leftarrow> util_MoveFile ftp_client example_move; w2 \<leftarrow> lwftp_control_process ftp_client (Some (reply ''350 ok'')) w1;
              lwftp_control_process ftp_client (Some (reply ''250 done'')) w2 } = Some v
     \<and> cstr (path (app v)) = ''/pub''
     \<and> written 1 (calls v) = ''RNFR /pub/GAME.8xp'' @ [cr, lf] @ ''RNTO B'' @ [cr, lf] @ ''TYPE I'' @ [cr, lf]"
proof -
  have r: "response_of (Some (reply ''350 ok'')) = 350" "response_of (Some (reply ''250 done'')) = 250"
    by (simp_all add: response_eval)
  have t: "move_text example_move = Some (CHR ''B'' # replicate 63 nul)"
    using example_typed by (simp add: move_text_def)
  have e: "e_tcp_new (envr example_move) cs \<noteq> None" for cs by (simp add: example_move_def example_in_simps)
  from move_dialogue [OF example_move_facts(1-10) t example_move_facts(11-13) r e] show ?thesis
    by (auto simp: example_move_facts file_name_def ext_of_def)
qed

end
