(* ===== verification/Mem_Buffer.thy ===== *)
theory Mem_Buffer
  imports Prelude
begin

text \<open>
  The buffer manager, \<^verbatim>\<open>src/src/drivers/mem.c\<close>: ring buffers and block pools that grow and shrink
  under a common heap budget and report memory pressure. Every function of the file is here, in
  the order of the file.

  \<open>size_t\<close> has 24 bits; sums and products are wrapped where they can overflow. The union of a
  buffer (ring fields over pool fields) is modelled as the three words both share: \<open>u_0\<close> is
  \<open>ring.len\<close> and \<open>pool_block_size\<close>, \<open>u_1\<close> is \<open>ring.head\<close> and \<open>pool_block_count\<close>, \<open>u_2\<close> is
  \<open>ring.lock_size\<close> and \<open>pool_used_blocks\<close>. Buffers live in a store and are named by numbers, so
  that a pool reached through the list of lwIP pools is the same pool. The allocator functions
  handed to \<open>mem_init\<close> are an environment; throttle hooks and low-memory call-backs are logged,
  and are assumed not to call back into this file.
\<close>

section \<open>Data\<close>

datatype mem_pressure_level = MEM_PRESSURE_NONE | MEM_PRESSURE_MILD | MEM_PRESSURE_HIGH | MEM_PRESSURE_CRITICAL

primrec level_num :: "mem_pressure_level \<Rightarrow> nat" where
  "level_num MEM_PRESSURE_NONE = 0"
| "level_num MEM_PRESSURE_MILD = 1"
| "level_num MEM_PRESSURE_HIGH = 2"
| "level_num MEM_PRESSURE_CRITICAL = 3"

instantiation mem_pressure_level :: linorder
begin

definition less_eq_mem_pressure_level :: "mem_pressure_level \<Rightarrow> mem_pressure_level \<Rightarrow> bool" where
  "less_eq_mem_pressure_level a b \<longleftrightarrow> level_num a \<le> level_num b"

definition less_mem_pressure_level :: "mem_pressure_level \<Rightarrow> mem_pressure_level \<Rightarrow> bool" where
  "less_mem_pressure_level a b \<longleftrightarrow> level_num a < level_num b"

instance
proof
  fix a b :: mem_pressure_level
  show "a \<le> b \<Longrightarrow> b \<le> a \<Longrightarrow> a = b"
    by (cases a; cases b; simp add: less_eq_mem_pressure_level_def)
qed (auto simp: less_eq_mem_pressure_level_def less_mem_pressure_level_def)

end

datatype mem_buffer_owner =
    MEM_BUF_OWNER_UNKNOWN | MEM_BUF_OWNER_LWIP_POOL | MEM_BUF_OWNER_ETH_RX | MEM_BUF_OWNER_ETH_TX
  | MEM_BUF_OWNER_TLS_RX | MEM_BUF_OWNER_TLS_TX

record mem_flags =
  secure_mode :: bool
  lock_size_flag :: bool
  malloc_type :: bool

record mem_buffer =
  mb_addr :: nat
  mb_buf :: bytes
  mb_cap :: nat
  mb_max_cap :: nat
  mb_owner :: mem_buffer_owner
  mb_flags :: mem_flags
  mb_last_level :: mem_pressure_level
  mb_step :: nat
  mb_grow_pct :: nat
  mb_shrink_pct :: nat
  mb_hold_count :: nat
  mb_hold_base :: nat
  mb_hold_next :: nat
  mb_stage :: nat
  mb_hits :: nat
  mb_low_cb :: bool
  mb_drain :: bool
  u_0 :: nat
  u_1 :: nat
  u_2 :: nat
  mb_bitmap :: "u8 list option"
  mb_bitmap_bytes :: nat

text \<open>What the file calls: the allocator, the throttle hooks, the low-memory call-backs. A freed
  block is logged with its contents.\<close>

datatype mem_event =
    Ev_malloc nat
  | Ev_realloc nat nat
  | Ev_free nat bytes
  | Ev_internal_low nat mem_pressure_level
  | Ev_low nat mem_pressure_level
  | Ev_eth_throttle mem_pressure_level
  | Ev_tls_throttle mem_pressure_level

text \<open>The allocator: \<open>malloc\<close> answers with an address and the contents of the new block, \<open>realloc\<close>
  with an address and the contents of the new block, whose front is overlaid with the old block.\<close>

record mem_env =
  em_malloc :: "mem_event list \<Rightarrow> nat \<Rightarrow> (nat \<times> bytes) option"
  em_realloc :: "mem_event list \<Rightarrow> nat \<Rightarrow> nat \<Rightarrow> (nat \<times> bytes) option"
  em_sizeof :: nat

record mem_state =
  g_max_heap :: nat
  g_heap_used :: nat
  g_step :: nat
  g_grow_pct :: nat
  g_shrink_pct :: nat
  g_hold_count :: nat
  g_has_malloc :: bool
  g_has_realloc :: bool
  g_internal_cb :: bool
  g_ready :: bool
  g_lwip_heap :: "nat option"
  g_lwip_pools :: "nat list"
  g_hook_eth :: bool
  g_hook_tls :: bool
  g_glob_active :: bool
  g_eth_active :: bool
  g_tls_active :: bool
  g_glob_level :: mem_pressure_level
  g_eth_level :: mem_pressure_level
  g_tls_level :: mem_pressure_level
  g_eth_eff :: mem_pressure_level
  g_tls_eff :: mem_pressure_level
  g_clear_pct :: nat
  g_bufs :: "nat \<Rightarrow> mem_buffer"
  g_next :: nat
  g_log :: "mem_event list"
  g_env :: mem_env

definition mem_log :: "mem_event \<Rightarrow> mem_state \<Rightarrow> mem_state" where
  "mem_log e \<sigma> = \<sigma>\<lparr>g_log := g_log \<sigma> @ [e]\<rparr>"

definition buf_upd :: "nat \<Rightarrow> (mem_buffer \<Rightarrow> mem_buffer) \<Rightarrow> mem_state \<Rightarrow> mem_state" where
  "buf_upd b f \<sigma> = \<sigma>\<lparr>g_bufs := (g_bufs \<sigma>)(b := f (g_bufs \<sigma> b))\<rparr>"

definition call_malloc :: "nat \<Rightarrow> mem_state \<Rightarrow> (nat \<times> bytes) option \<times> mem_state" where
  "call_malloc n \<sigma> = (em_malloc (g_env \<sigma>) (g_log \<sigma>) n, mem_log (Ev_malloc n) \<sigma>)"

definition call_realloc :: "nat \<Rightarrow> nat \<Rightarrow> mem_state \<Rightarrow> (nat \<times> bytes) option \<times> mem_state" where
  "call_realloc a n \<sigma> = (em_realloc (g_env \<sigma>) (g_log \<sigma>) a n, mem_log (Ev_realloc a n) \<sigma>)"

section \<open>Arithmetic\<close>

abbreviation MEM_SIZE_MAX :: nat where "MEM_SIZE_MAX \<equiv> 2 ^ 24 - 1"
abbreviation MEM_POOL_HEADER_SIZE :: nat where "MEM_POOL_HEADER_SIZE \<equiv> 2"
abbreviation MEM_LWIP_MAX_POOLS :: nat where "MEM_LWIP_MAX_POOLS \<equiv> 6"

definition threshold_bytes :: "nat \<Rightarrow> nat \<Rightarrow> nat" where
  "threshold_bytes c pct = wrap (c * pct) div 100"

definition align_step :: "nat \<Rightarrow> nat \<Rightarrow> nat" where
  "align_step v step = (if step = 0 then v
     else let r = v mod step in if r = 0 then v else wrap (v + (step - r)))"

definition mem_buffer_charge :: "nat \<Rightarrow> mem_state \<Rightarrow> bool \<times> mem_state" where
  "mem_buffer_charge n \<sigma> =
     (if g_max_heap \<sigma> = 0 then (True, \<sigma>)
      else if g_max_heap \<sigma> < wrap (g_heap_used \<sigma> + n) then (False, \<sigma>)
      else (True, \<sigma>\<lparr>g_heap_used := wrap (g_heap_used \<sigma> + n)\<rparr>))"

definition mem_buffer_release :: "nat \<Rightarrow> mem_state \<Rightarrow> mem_state" where
  "mem_buffer_release n \<sigma> = \<sigma>\<lparr>g_heap_used := (if n \<le> g_heap_used \<sigma> then g_heap_used \<sigma> - n else 0)\<rparr>"

definition mem_buffer_hold_for_stage :: "nat \<Rightarrow> nat \<Rightarrow> nat" where
  "mem_buffer_hold_for_stage base stage =
     (if base = 0 then 0 else base * 2 ^ (if 15 \<le> stage then 15 else stage) mod 65536)"

section \<open>Memory pressure\<close>

definition mem_buffer_usage_pct :: "mem_buffer \<Rightarrow> nat \<Rightarrow> mem_state \<Rightarrow> nat" where
  "mem_buffer_usage_pct rb used \<sigma> =
     (if mb_cap rb = 0 then 0
      else let limit = (if mb_max_cap rb \<noteq> MEM_SIZE_MAX \<and> 0 < mb_max_cap rb
                        then if mb_max_cap rb < mb_cap rb then mb_cap rb else mb_max_cap rb
                        else mb_cap rb);
               used = (if limit < used then limit else used);
               buf_pct = wrap (used * 100) div limit mod 256;
               heap_pct = (if 0 < g_max_heap \<sigma>
                           then let h = (if g_max_heap \<sigma> < g_heap_used \<sigma> then g_max_heap \<sigma> else g_heap_used \<sigma>)
                                in wrap (h * 100) div g_max_heap \<sigma> mod 256
                           else 0)
           in if buf_pct < heap_pct then heap_pct else buf_pct)"

definition mem_pressure_level_from_usage :: "nat \<Rightarrow> mem_pressure_level" where
  "mem_pressure_level_from_usage pct =
     (if 85 \<le> pct then MEM_PRESSURE_HIGH else if 70 \<le> pct then MEM_PRESSURE_MILD else MEM_PRESSURE_NONE)"

definition mem_pressure_level_relief :: "mem_pressure_level \<Rightarrow> nat \<Rightarrow> mem_pressure_level" where
  "mem_pressure_level_relief current pct =
     (let level = mem_pressure_level_from_usage pct
      in if current = MEM_PRESSURE_CRITICAL \<and> level < MEM_PRESSURE_HIGH then MEM_PRESSURE_HIGH
         else if current = MEM_PRESSURE_HIGH \<and> level < MEM_PRESSURE_MILD then MEM_PRESSURE_MILD
         else level)"

definition mem_pressure_update_effective :: "mem_state \<Rightarrow> mem_state" where
  "mem_pressure_update_effective \<sigma> =
     (let eth = (if g_glob_active \<sigma> then g_glob_level \<sigma> else g_eth_level \<sigma>);
          eth = (if g_eth_active \<sigma> \<and> eth < g_eth_level \<sigma> then g_eth_level \<sigma> else eth);
          \<sigma> = (if eth \<noteq> g_eth_eff \<sigma>
               then (if g_hook_eth \<sigma> then mem_log (Ev_eth_throttle eth) \<sigma> else \<sigma>)\<lparr>g_eth_eff := eth\<rparr>
               else \<sigma>);
          tls = (if g_glob_active \<sigma> then g_glob_level \<sigma> else g_tls_level \<sigma>);
          tls = (if g_tls_active \<sigma> \<and> tls < g_tls_level \<sigma> then g_tls_level \<sigma> else tls)
      in if tls \<noteq> g_tls_eff \<sigma>
         then (if g_hook_tls \<sigma> then mem_log (Ev_tls_throttle tls) \<sigma> else \<sigma>)\<lparr>g_tls_eff := tls\<rparr>
         else \<sigma>)"

text \<open>\<open>pool_used_blocks * pool_block_size\<close>\<close>

definition pool_used_bytes :: "mem_buffer \<Rightarrow> nat" where
  "pool_used_bytes rb = wrap (u_2 rb * u_0 rb)"

definition mem_pressure_pools_below_clear :: "mem_state \<Rightarrow> bool" where
  "mem_pressure_pools_below_clear \<sigma> \<longleftrightarrow>
     list_all (\<lambda>i. let rb = g_bufs \<sigma> i in mem_buffer_usage_pct rb (pool_used_bytes rb) \<sigma> \<le> g_clear_pct \<sigma>) (g_lwip_pools \<sigma>)"

fun pools_level :: "mem_state \<Rightarrow> nat list \<Rightarrow> mem_pressure_level \<Rightarrow> bool \<Rightarrow> mem_pressure_level \<times> bool" where
  "pools_level \<sigma> [] level over = (level, over)"
| "pools_level \<sigma> (i # is) level over =
     (let rb = g_bufs \<sigma> i;
          usage = mem_buffer_usage_pct rb (pool_used_bytes rb) \<sigma>;
          candidate = mem_pressure_level_relief (mb_last_level rb) usage
      in pools_level \<sigma> is (if level < candidate then candidate else level) (over \<or> g_clear_pct \<sigma> < usage))"

definition mem_pressure_pools_level :: "mem_state \<Rightarrow> mem_pressure_level" where
  "mem_pressure_pools_level \<sigma> =
     (case pools_level \<sigma> (g_lwip_pools \<sigma>) MEM_PRESSURE_NONE False of (level, over) \<Rightarrow>
        if level = MEM_PRESSURE_NONE \<and> over then MEM_PRESSURE_MILD else level)"

definition mem_pressure_mark :: "nat \<Rightarrow> mem_pressure_level \<Rightarrow> mem_state \<Rightarrow> mem_state" where
  "mem_pressure_mark b level \<sigma> =
     (if level = MEM_PRESSURE_NONE then \<sigma>
      else mem_pressure_update_effective (case mb_owner (g_bufs \<sigma> b) of
          MEM_BUF_OWNER_LWIP_POOL \<Rightarrow> \<sigma>\<lparr>g_glob_active := True, g_glob_level := max (g_glob_level \<sigma>) level\<rparr>
        | MEM_BUF_OWNER_ETH_RX \<Rightarrow> \<sigma>\<lparr>g_eth_active := True, g_eth_level := max (g_eth_level \<sigma>) level\<rparr>
        | MEM_BUF_OWNER_TLS_RX \<Rightarrow> \<sigma>\<lparr>g_tls_active := True, g_tls_level := max (g_tls_level \<sigma>) level\<rparr>
        | _ \<Rightarrow> \<sigma>))"

definition mem_pressure_maybe_clear :: "nat \<Rightarrow> mem_state \<Rightarrow> mem_state" where
  "mem_pressure_maybe_clear b \<sigma> =
     (if 100 < g_clear_pct \<sigma> then \<sigma>
      else let rb = g_bufs \<sigma> b;
               used = (if malloc_type (mb_flags rb) then pool_used_bytes rb else u_0 rb);
               level = mem_pressure_level_relief (mb_last_level rb) (mem_buffer_usage_pct rb used \<sigma>);
               \<sigma> = buf_upd b (\<lambda>m. m\<lparr>mb_last_level := level\<rparr>) \<sigma>;
               on = (level \<noteq> MEM_PRESSURE_NONE)
           in case mb_owner rb of
                MEM_BUF_OWNER_LWIP_POOL \<Rightarrow>
                  if g_glob_active \<sigma> \<and> mem_pressure_pools_below_clear \<sigma>
                  then mem_pressure_update_effective (\<sigma>\<lparr>g_glob_active := False, g_glob_level := MEM_PRESSURE_NONE\<rparr>)
                  else let pl = mem_pressure_pools_level \<sigma>
                       in mem_pressure_update_effective
                            (\<sigma>\<lparr>g_glob_active := (pl \<noteq> MEM_PRESSURE_NONE), g_glob_level := pl\<rparr>)
              | MEM_BUF_OWNER_ETH_RX \<Rightarrow>
                  mem_pressure_update_effective (\<sigma>\<lparr>g_eth_active := on, g_eth_level := level\<rparr>)
              | MEM_BUF_OWNER_TLS_RX \<Rightarrow>
                  mem_pressure_update_effective (\<sigma>\<lparr>g_tls_active := on, g_tls_level := level\<rparr>)
              | _ \<Rightarrow> \<sigma>)"

definition mem_buffer_notify_lowmem :: "nat \<Rightarrow> nat \<Rightarrow> mem_pressure_level \<Rightarrow> mem_state \<Rightarrow> mem_state" where
  "mem_buffer_notify_lowmem b requested level \<sigma> =
     (let \<sigma> = buf_upd b (\<lambda>m. m\<lparr>mb_last_level := level\<rparr>) (mem_pressure_mark b level \<sigma>);
          \<sigma> = (if g_internal_cb \<sigma> then mem_log (Ev_internal_low requested level) \<sigma> else \<sigma>)
      in if mb_low_cb (g_bufs \<sigma> b) then mem_log (Ev_low requested level) \<sigma> else \<sigma>)"

section \<open>Resizing\<close>

text \<open>The contents of a ring copied out to the front of a new block.\<close>

definition unroll :: "mem_buffer \<Rightarrow> bytes \<Rightarrow> bytes option" where
  "unroll rb new =
     (if 0 < u_0 rb
      then let first = wrap (mb_cap rb + 2 ^ 24 - u_1 rb);
               first = (if u_0 rb < first then u_0 rb else first)
           in do {
             a \<leftarrow> read_bytes (u_1 rb) first (mb_buf rb);
             new \<leftarrow> store_bytes 0 a new;
             b \<leftarrow> read_bytes 0 (u_0 rb - first) (mb_buf rb);
             store_bytes first b new }
      else Some new)"

text \<open>The fields set at the end of a resize.\<close>

definition resized :: "nat \<Rightarrow> nat \<Rightarrow> bytes \<Rightarrow> nat \<Rightarrow> nat \<Rightarrow> mem_state \<Rightarrow> mem_state" where
  "resized b addr new new_cap shrink \<sigma> =
     (let \<sigma> = buf_upd b (\<lambda>m. m\<lparr>mb_addr := addr, mb_buf := new, mb_cap := new_cap, u_1 := 0, mb_hits := 0, mb_stage := 0,
                                mb_hold_next := mb_hold_base m\<rparr>) \<sigma>
      in if 0 < shrink then mem_buffer_release shrink \<sigma> else \<sigma>)"

text \<open>What a failed resize gives back of the charge for a growth.\<close>

definition refund :: "nat \<Rightarrow> mem_state \<Rightarrow> mem_state" where
  "refund grow \<sigma> = (if 0 < grow then mem_buffer_release grow \<sigma> else \<sigma>)"

text \<open>The two ways to a new block: \<open>realloc\<close> of a ring that starts at the front of its block, and a copy.\<close>

definition resize_in_place :: "nat \<Rightarrow> nat \<Rightarrow> mem_state \<Rightarrow> (bool \<times> mem_state) option" where
  "resize_in_place b new_cap \<sigma> =
     (let rb = g_bufs \<sigma> b; grow = new_cap - mb_cap rb; shrink = mb_cap rb - new_cap
      in do {
        old \<leftarrow> (if secure_mode (mb_flags rb) \<and> 0 < shrink
                then store_bytes new_cap (replicate shrink nul) (mb_buf rb) else Some (mb_buf rb));
        let \<sigma> = buf_upd b (\<lambda>m. m\<lparr>mb_buf := old\<rparr>) \<sigma>;
        let (r, \<sigma>) = call_realloc (mb_addr rb) new_cap \<sigma>;
        case r of
          None \<Rightarrow> Some (False, refund grow (mem_buffer_notify_lowmem b new_cap MEM_PRESSURE_CRITICAL \<sigma>))
        | Some (addr, extra) \<Rightarrow> Some (True, resized b addr (take new_cap (old @ drop (length old) extra)) new_cap shrink \<sigma>) })"

definition resize_by_copy :: "nat \<Rightarrow> nat \<Rightarrow> mem_state \<Rightarrow> (bool \<times> mem_state) option" where
  "resize_by_copy b new_cap \<sigma> =
     (let rb = g_bufs \<sigma> b; grow = new_cap - mb_cap rb; shrink = mb_cap rb - new_cap;
          (r, \<sigma>) = call_malloc new_cap \<sigma>
      in case r of
           None \<Rightarrow> Some (False, refund grow \<sigma>)
         | Some (addr, new) \<Rightarrow> do {
             new \<leftarrow> unroll rb new;
             let old = (if secure_mode (mb_flags rb)
                        then replicate (mb_cap rb) nul @ drop (mb_cap rb) (mb_buf rb) else mb_buf rb);
             Some (True, resized b addr new new_cap shrink (mem_log (Ev_free (mb_addr rb) old) \<sigma>)) })"

definition mem_buffer_resize :: "nat \<Rightarrow> nat \<Rightarrow> mem_state \<Rightarrow> (bool \<times> mem_state) option" where
  "mem_buffer_resize b new_cap \<sigma> =
     (let rb = g_bufs \<sigma> b
      in if new_cap < u_0 rb \<or> new_cap = mb_cap rb then Some (new_cap = mb_cap rb, \<sigma>)
         else if lock_size_flag (mb_flags rb) then Some (False, \<sigma>)
         else if mb_max_cap rb \<noteq> MEM_SIZE_MAX \<and> mb_max_cap rb < new_cap then Some (False, \<sigma>)
         else let grow = new_cap - mb_cap rb;
                  (ok, \<sigma>) = (if 0 < grow then mem_buffer_charge grow \<sigma> else (True, \<sigma>))
         in if \<not> ok then Some (False, \<sigma>)
            else if g_has_realloc \<sigma> \<and> u_1 rb = 0 \<and> u_0 rb \<le> mb_cap rb then resize_in_place b new_cap \<sigma>
            else resize_by_copy b new_cap \<sigma>)"

section \<open>Configuration\<close>

definition mem_init :: "nat \<Rightarrow> bool \<Rightarrow> bool \<Rightarrow> bool \<Rightarrow> mem_state \<Rightarrow> bool \<times> mem_state" where
  "mem_init max_heap has_malloc has_free has_realloc \<sigma> =
     (if \<not> has_malloc \<or> \<not> has_free then (False, \<sigma>)
      else (True, \<sigma>\<lparr>g_max_heap := max_heap, g_heap_used := 0, g_step := 0, g_grow_pct := 0, g_shrink_pct := 0,
                     g_hold_count := 1, g_has_malloc := True, g_has_realloc := has_realloc, g_internal_cb := False,
                     g_ready := True\<rparr>))"

definition mem_set_internal_lowmem_cb :: "bool \<Rightarrow> mem_state \<Rightarrow> mem_state" where
  "mem_set_internal_lowmem_cb cb \<sigma> = \<sigma>\<lparr>g_internal_cb := cb\<rparr>"

definition mem_register_pressure_hook_eth_rx :: "bool \<Rightarrow> mem_state \<Rightarrow> mem_state" where
  "mem_register_pressure_hook_eth_rx hook \<sigma> = mem_pressure_update_effective (\<sigma>\<lparr>g_hook_eth := hook\<rparr>)"

definition mem_register_pressure_hook_tls_rx :: "bool \<Rightarrow> mem_state \<Rightarrow> mem_state" where
  "mem_register_pressure_hook_tls_rx hook \<sigma> = mem_pressure_update_effective (\<sigma>\<lparr>g_hook_tls := hook\<rparr>)"

definition mem_set_pressure_clear_pct :: "nat \<Rightarrow> mem_state \<Rightarrow> mem_state" where
  "mem_set_pressure_clear_pct pct \<sigma> = (if pct \<le> 100 then \<sigma>\<lparr>g_clear_pct := pct\<rparr> else \<sigma>)"

section \<open>Creating and destroying\<close>

definition mem_buffer_destroy :: "nat option \<Rightarrow> mem_state \<Rightarrow> mem_state" where
  "mem_buffer_destroy mb \<sigma> = (case mb of None \<Rightarrow> \<sigma> | Some b \<Rightarrow>
     let rb = g_bufs \<sigma> b;
         old = (if secure_mode (mb_flags rb) then replicate (mb_cap rb) nul @ drop (mb_cap rb) (mb_buf rb) else mb_buf rb);
         \<sigma> = mem_buffer_release (mb_cap rb) (mem_log (Ev_free (mb_addr rb) old) \<sigma>);
         \<sigma> = (case mb_bitmap rb of None \<Rightarrow> \<sigma>
              | Some bm \<Rightarrow> buf_upd b (\<lambda>m. m\<lparr>mb_bitmap := None, mb_bitmap_bytes := 0\<rparr>)
                             (mem_buffer_release (mb_bitmap_bytes rb) (mem_log (Ev_free 0 []) \<sigma>)))
     in mem_buffer_release (em_sizeof (g_env \<sigma>)) (mem_log (Ev_free 0 []) (buf_upd b (\<lambda>m. m\<lparr>mb_buf := []\<rparr>) \<sigma>)))"

text \<open>The fresh buffer before its size is locked or its pool is set up. The pool fields are cleared
  after the ring fields, over the same words.\<close>

definition fresh_buffer :: "nat \<Rightarrow> bytes \<Rightarrow> nat \<Rightarrow> nat \<Rightarrow> mem_flags \<Rightarrow> bool \<Rightarrow> mem_state \<Rightarrow> mem_buffer" where
  "fresh_buffer addr content c max_cap fl low_cb \<sigma> =
     \<lparr>mb_addr = addr, mb_buf = content, mb_cap = c,
      mb_max_cap = (if max_cap \<noteq> MEM_SIZE_MAX \<and> max_cap < c then c else max_cap),
      mb_owner = MEM_BUF_OWNER_UNKNOWN, mb_flags = fl, mb_last_level = MEM_PRESSURE_NONE, mb_step = g_step \<sigma>,
      mb_grow_pct = g_grow_pct \<sigma>, mb_shrink_pct = g_shrink_pct \<sigma>, mb_hold_count = g_hold_count \<sigma>,
      mb_hold_base = g_hold_count \<sigma>, mb_hold_next = g_hold_count \<sigma>, mb_stage = 0, mb_hits = 0, mb_low_cb = low_cb,
      mb_drain = False, u_0 = 0, u_1 = 0, u_2 = 0, mb_bitmap = None, mb_bitmap_bytes = 0\<rparr>"

text \<open>A locked size other than the initial one: the block is reallocated. \<open>None\<close> as the inner result
  is the failure that frees the buffer.\<close>

definition create_locked :: "nat \<Rightarrow> nat \<Rightarrow> mem_state \<Rightarrow> bool \<times> mem_state" where
  "create_locked b initial_cap \<sigma> =
     (let rb = g_bufs \<sigma> b; c = mb_cap rb; header = em_sizeof (g_env \<sigma>);
          drop_all = (\<lambda>\<sigma>. mem_buffer_release (wrap (header + initial_cap))
                            (mem_log (Ev_free 0 []) (mem_log (Ev_free (mb_addr rb) (mb_buf rb)) \<sigma>)));
          again = (\<lambda>\<sigma>. if g_has_realloc \<sigma>
                        then case call_realloc (mb_addr rb) c \<sigma> of (r, \<sigma>) \<Rightarrow>
                               (map_option (\<lambda>(a, extra). (a, take c (mb_buf rb @ drop (length (mb_buf rb)) extra))) r, \<sigma>)
                        else case call_malloc c \<sigma> of (r, \<sigma>) \<Rightarrow>
                               (r, if r \<noteq> None then mem_log (Ev_free (mb_addr rb) (mb_buf rb)) \<sigma> else \<sigma>))
      in if initial_cap < c
         then case mem_buffer_charge (c - initial_cap) \<sigma> of (ok, \<sigma>) \<Rightarrow>
           if \<not> ok then (False, drop_all \<sigma>)
           else (case again \<sigma> of
                   (None, \<sigma>) \<Rightarrow> (False, drop_all (mem_buffer_release (c - initial_cap) \<sigma>))
                 | (Some (a, new), \<sigma>) \<Rightarrow> (True, buf_upd b (\<lambda>m. m\<lparr>mb_addr := a, mb_buf := new\<rparr>) \<sigma>))
         else if c < initial_cap
         then (case again \<sigma> of
                 (None, \<sigma>) \<Rightarrow> (True, \<sigma>)
               | (Some (a, new), \<sigma>) \<Rightarrow>
                   (True, mem_buffer_release (initial_cap - c) (buf_upd b (\<lambda>m. m\<lparr>mb_addr := a, mb_buf := new\<rparr>) \<sigma>)))
         else (True, \<sigma>))"

definition create_pool :: "nat \<Rightarrow> nat \<Rightarrow> mem_state \<Rightarrow> bool \<times> mem_state" where
  "create_pool b lock_size \<sigma> =
     (let rb = g_bufs \<sigma> b; block_size = (if lock_size \<noteq> 0 then lock_size else mb_step rb)
      in if block_size = 0 \<or> mb_cap rb < block_size then (False, mem_buffer_destroy (Some b) \<sigma>)
         else let count = mb_cap rb div block_size;
                  bytes = wrap (count + 7) div 8;
                  \<sigma> = buf_upd b (\<lambda>m. m\<lparr>u_0 := block_size, u_1 := count, mb_bitmap_bytes := bytes\<rparr>) \<sigma>
         in case mem_buffer_charge bytes \<sigma> of (ok, \<sigma>) \<Rightarrow>
           if \<not> ok then (False, mem_buffer_destroy (Some b) \<sigma>)
           else case call_malloc bytes \<sigma> of
                  (None, \<sigma>) \<Rightarrow> (False, mem_buffer_destroy (Some b) (mem_buffer_release bytes \<sigma>))
                | (Some _, \<sigma>) \<Rightarrow> (True, buf_upd b (\<lambda>m. m\<lparr>mb_bitmap := Some (replicate bytes 0)\<rparr>) \<sigma>))"

definition mem_buffer_create ::
    "nat \<Rightarrow> nat \<Rightarrow> nat \<Rightarrow> mem_flags \<Rightarrow> bool \<Rightarrow> mem_state \<Rightarrow> nat option \<times> mem_state" where
  "mem_buffer_create initial_cap max_cap lock_size fl low_cb \<sigma> =
     (if \<not> g_ready \<sigma> \<or> initial_cap = 0 \<or> \<not> g_has_malloc \<sigma> then (None, \<sigma>)
      else let header = em_sizeof (g_env \<sigma>)
      in case mem_buffer_charge (wrap (header + initial_cap)) \<sigma> of (ok, \<sigma>) \<Rightarrow>
        if \<not> ok then (None, \<sigma>)
        else case call_malloc header \<sigma> of
          (None, \<sigma>) \<Rightarrow> (None, mem_buffer_release (wrap (header + initial_cap)) \<sigma>)
        | (Some _, \<sigma>) \<Rightarrow> (case call_malloc initial_cap \<sigma> of
            (None, \<sigma>) \<Rightarrow> (None, mem_buffer_release (wrap (header + initial_cap)) (mem_log (Ev_free 0 []) \<sigma>))
          | (Some (addr, content), \<sigma>) \<Rightarrow>
              let b = g_next \<sigma>;
                  c = (if lock_size_flag fl \<and> 0 < lock_size then lock_size else initial_cap);
                  \<sigma> = buf_upd b (\<lambda>_. fresh_buffer addr content c max_cap fl low_cb \<sigma>) (\<sigma>\<lparr>g_next := b + 1\<rparr>)
              in case (if lock_size_flag fl \<and> c \<noteq> initial_cap then create_locked b initial_cap \<sigma> else (True, \<sigma>)) of
                   (ok, \<sigma>) \<Rightarrow> if \<not> ok then (None, \<sigma>)
                     else if malloc_type fl
                     then (case create_pool b lock_size \<sigma> of (ok, \<sigma>) \<Rightarrow> (if ok then Some b else None, \<sigma>))
                     else (Some b, \<sigma>)))"

section \<open>Ring buffers\<close>

definition mem_buffer_len :: "nat option \<Rightarrow> mem_state \<Rightarrow> nat" where
  "mem_buffer_len mb \<sigma> = (case mb of None \<Rightarrow> 0 | Some b \<Rightarrow> u_0 (g_bufs \<sigma> b))"

definition mem_buffer_capacity :: "nat option \<Rightarrow> mem_state \<Rightarrow> nat" where
  "mem_buffer_capacity mb \<sigma> = (case mb of None \<Rightarrow> 0 | Some b \<Rightarrow> mb_cap (g_bufs \<sigma> b))"

definition mem_buffer_space :: "nat option \<Rightarrow> mem_state \<Rightarrow> nat" where
  "mem_buffer_space mb \<sigma> = (case mb of None \<Rightarrow> 0 | Some b \<Rightarrow>
     let rb = g_bufs \<sigma> b in if mb_cap rb < u_0 rb then 0 else mb_cap rb - u_0 rb)"

text \<open>Reading \<open>n\<close> bytes from position \<open>pos\<close> on, around the end of the block.\<close>

definition read_around :: "mem_buffer \<Rightarrow> nat \<Rightarrow> nat \<Rightarrow> bytes option" where
  "read_around rb pos n =
     (let first = mb_cap rb - pos; first = (if n < first then n else first)
      in do { a \<leftarrow> read_bytes pos first (mb_buf rb); b \<leftarrow> read_bytes 0 (n - first) (mb_buf rb); Some (a @ b) })"

text \<open>\<open>Some None\<close> is the result \<open>false\<close>.\<close>

definition mem_buffer_peek :: "nat option \<Rightarrow> nat \<Rightarrow> nat \<Rightarrow> mem_state \<Rightarrow> bytes option option" where
  "mem_buffer_peek mb offset n \<sigma> = (case mb of None \<Rightarrow> Some None | Some b \<Rightarrow>
     let rb = g_bufs \<sigma> b
     in if n = 0 \<or> u_0 rb < wrap (offset + n) then Some None
        else if mb_cap rb = 0 then None
        else map_option Some (read_around rb (wrap (u_1 rb + offset) mod mb_cap rb) n))"

text \<open>The pressure a request for \<open>needed\<close> bytes would cause is reported when it is new.\<close>

definition notify_usage :: "nat \<Rightarrow> nat \<Rightarrow> mem_state \<Rightarrow> mem_state" where
  "notify_usage b needed \<sigma> =
     (let level = mem_pressure_level_from_usage (mem_buffer_usage_pct (g_bufs \<sigma> b) needed \<sigma>)
      in if level \<noteq> MEM_PRESSURE_NONE \<and> level \<noteq> mb_last_level (g_bufs \<sigma> b)
         then mem_buffer_notify_lowmem b needed level \<sigma> else \<sigma>)"

definition grow_target :: "mem_buffer \<Rightarrow> nat \<Rightarrow> nat" where
  "grow_target rb needed =
     (let t = (if mb_cap rb < needed then needed else mb_cap rb);
          t = align_step t (mb_step rb);
          t = (if t \<le> mb_cap rb then wrap (mb_cap rb + mb_step rb) else t)
      in if t < needed then needed else t)"

definition mem_buffer_maybe_grow :: "nat \<Rightarrow> nat \<Rightarrow> mem_state \<Rightarrow> (bool \<times> mem_state) option" where
  "mem_buffer_maybe_grow b incoming \<sigma> =
     (let rb = g_bufs \<sigma> b;
          needed = wrap (u_0 rb + incoming);
          critical = mem_buffer_notify_lowmem b needed MEM_PRESSURE_CRITICAL;
          \<sigma> = notify_usage b needed \<sigma>
      in if lock_size_flag (mb_flags rb)
         then Some (needed \<le> mb_cap rb, if mb_cap rb < needed then critical \<sigma> else \<sigma>)
         else if needed \<le> mb_cap rb \<and> needed < threshold_bytes (mb_cap rb) (mb_grow_pct rb) then Some (True, \<sigma>)
         else let t = grow_target rb needed;
                  limited = (mb_max_cap rb \<noteq> MEM_SIZE_MAX \<and> mb_max_cap rb < t);
                  t = (if limited then mb_max_cap rb else t)
         in if limited \<and> t < needed then Some (False, critical \<sigma>)
            else do {
              (ok, \<sigma>) \<leftarrow> mem_buffer_resize b t \<sigma>;
              Some (ok, if ok then \<sigma> else critical \<sigma>) })"

definition mem_buffer_reserve :: "nat option \<Rightarrow> nat \<Rightarrow> mem_state \<Rightarrow> (bool \<times> mem_state) option" where
  "mem_buffer_reserve mb n \<sigma> = (case mb of None \<Rightarrow> Some (False, \<sigma>) | Some b \<Rightarrow>
     if n = 0 \<or> malloc_type (mb_flags (g_bufs \<sigma> b)) then Some (False, \<sigma>) else mem_buffer_maybe_grow b n \<sigma>)"

definition mem_buffer_set_owner :: "nat option \<Rightarrow> mem_buffer_owner \<Rightarrow> mem_state \<Rightarrow> mem_state" where
  "mem_buffer_set_owner mb ow \<sigma> = (case mb of None \<Rightarrow> \<sigma> | Some b \<Rightarrow> buf_upd b (\<lambda>m. m\<lparr>mb_owner := ow\<rparr>) \<sigma>)"

definition mem_buffer_get_owner :: "nat option \<Rightarrow> mem_state \<Rightarrow> mem_buffer_owner" where
  "mem_buffer_get_owner mb \<sigma> = (case mb of None \<Rightarrow> MEM_BUF_OWNER_UNKNOWN | Some b \<Rightarrow> mb_owner (g_bufs \<sigma> b))"

definition mem_buffer_set_drain :: "nat option \<Rightarrow> bool \<Rightarrow> mem_state \<Rightarrow> mem_state" where
  "mem_buffer_set_drain mb f \<sigma> = (case mb of None \<Rightarrow> \<sigma> | Some b \<Rightarrow> buf_upd b (\<lambda>m. m\<lparr>mb_drain := f\<rparr>) \<sigma>)"

text \<open>\<open>shrink_stage++\<close> (8 bits, only with a base) and the next hold count.\<close>

definition next_stage :: "mem_buffer \<Rightarrow> mem_buffer" where
  "next_stage m =
     (let s = (if mb_hold_base m \<noteq> 0 then (mb_stage m + 1) mod 256 else mb_stage m)
      in m\<lparr>mb_hits := 0, mb_stage := s, mb_hold_next := mem_buffer_hold_for_stage (mb_hold_base m) s\<rparr>)"

definition reset_shrink :: "mem_buffer \<Rightarrow> mem_buffer" where
  "reset_shrink m = m\<lparr>mb_hits := 0, mb_stage := 0, mb_hold_next := mb_hold_base m\<rparr>"

definition mem_buffer_maybe_shrink :: "nat \<Rightarrow> bool \<Rightarrow> mem_state \<Rightarrow> mem_state option" where
  "mem_buffer_maybe_shrink b wrapped \<sigma> =
     (let rb = g_bufs \<sigma> b
      in if lock_size_flag (mb_flags rb) \<or> mb_step rb = 0 \<or> mb_cap rb \<le> mb_step rb \<or> \<not> wrapped \<or> u_1 rb \<noteq> 0 then Some \<sigma>
         else if threshold_bytes (mb_cap rb) (mb_shrink_pct rb) < u_0 rb then Some (buf_upd b reset_shrink \<sigma>)
         else if mb_hold_count rb = 0 then Some \<sigma>
         else let hits = (mb_hits rb + 1) mod 65536; \<sigma> = buf_upd b (\<lambda>m. m\<lparr>mb_hits := hits\<rparr>) \<sigma>
         in if hits < mb_hold_next rb then Some \<sigma>
            else let t = mb_cap rb - mb_step rb; t = (if t < u_0 rb then u_0 rb else t)
            in do { (ok, \<sigma>) \<leftarrow> mem_buffer_resize b t \<sigma>; Some (buf_upd b next_stage \<sigma>) })"

text \<open>Writing around the end of the block.\<close>

definition write_around :: "mem_buffer \<Rightarrow> nat \<Rightarrow> bytes \<Rightarrow> bytes option" where
  "write_around rb pos d =
     (let first = mb_cap rb - pos; first = (if length d < first then length d else first)
      in do { a \<leftarrow> store_bytes pos (take first d) (mb_buf rb); store_bytes 0 (drop first d) a })"

definition mem_buffer_push :: "nat option \<Rightarrow> bytes \<Rightarrow> mem_state \<Rightarrow> (bool \<times> mem_state) option" where
  "mem_buffer_push mb d \<sigma> = (case mb of None \<Rightarrow> Some (False, \<sigma>) | Some b \<Rightarrow>
     if d = [] \<or> malloc_type (mb_flags (g_bufs \<sigma> b)) then Some (False, \<sigma>)
     else do {
       (ok, \<sigma>) \<leftarrow> mem_buffer_maybe_grow b (length d) \<sigma>;
       if \<not> ok then Some (False, \<sigma>)
       else let rb = g_bufs \<sigma> b
       in if mb_cap rb = 0 then None
          else do {
            a \<leftarrow> write_around rb (wrap (u_1 rb + u_0 rb) mod mb_cap rb) d;
            Some (True, buf_upd b (\<lambda>m. m\<lparr>mb_buf := a, u_0 := wrap (u_0 rb + length d)\<rparr>) \<sigma>) } })"

text \<open>The bytes popped; none where the C function returns 0.\<close>

definition mem_buffer_pop :: "nat option \<Rightarrow> nat \<Rightarrow> mem_state \<Rightarrow> (bytes \<times> mem_state) option" where
  "mem_buffer_pop mb n \<sigma> = (case mb of None \<Rightarrow> Some ([], \<sigma>) | Some b \<Rightarrow>
     let rb = g_bufs \<sigma> b
     in if n = 0 \<or> u_0 rb < n \<or> malloc_type (mb_flags rb) then Some ([], \<sigma>)
        else if mb_cap rb = 0 then None
        else do {
          out \<leftarrow> read_around rb (u_1 rb) n;
          a \<leftarrow> (if secure_mode (mb_flags rb) then write_around rb (u_1 rb) (replicate n nul) else Some (mb_buf rb));
          let \<sigma> = buf_upd b (\<lambda>m. m\<lparr>mb_buf := a, u_1 := wrap (u_1 rb + n) mod mb_cap rb, u_0 := u_0 rb - n\<rparr>) \<sigma>;
          \<sigma> \<leftarrow> mem_buffer_maybe_shrink b (mb_cap rb \<le> wrap (u_1 rb + n)) \<sigma>;
          Some (out, mem_pressure_maybe_clear b \<sigma>) })"

section \<open>Pools\<close>

definition bm_get :: "u8 list \<Rightarrow> nat \<Rightarrow> bool" where
  "bm_get bm i = bit (bm ! (i div 8)) (i mod 8)"

definition bm_set :: "nat \<Rightarrow> u8 list \<Rightarrow> u8 list" where
  "bm_set i bm = bm[i div 8 := set_bit (i mod 8) (bm ! (i div 8))]"

definition bm_clear :: "nat \<Rightarrow> u8 list \<Rightarrow> u8 list" where
  "bm_clear i bm = bm[i div 8 := unset_bit (i mod 8) (bm ! (i div 8))]"

text \<open>The first run of \<open>need\<close> free blocks: \<open>n\<close> blocks from \<open>i\<close> on are still to be looked at, \<open>run\<close> free
  ones have just been seen, starting at \<open>start\<close>.\<close>

fun find_run :: "u8 list \<Rightarrow> nat \<Rightarrow> nat \<Rightarrow> nat \<Rightarrow> nat \<Rightarrow> nat \<Rightarrow> nat option" where
  "find_run bm need i 0 run start = None"
| "find_run bm need i (Suc n) run start =
     (if bm_get bm i then find_run bm need (i + 1) n 0 start
      else let start = (if run = 0 then i else start)
           in if run + 1 = need then Some start else find_run bm need (i + 1) n (run + 1) start)"

text \<open>The result is the pointer.\<close>

definition mem_buffer_malloc :: "nat option \<Rightarrow> nat \<Rightarrow> mem_state \<Rightarrow> (nat option \<times> mem_state) option" where
  "mem_buffer_malloc mb sz \<sigma> = (case mb of None \<Rightarrow> Some (None, \<sigma>) | Some b \<Rightarrow>
     let rb = g_bufs \<sigma> b
     in if \<not> malloc_type (mb_flags rb) \<or> sz = 0 then Some (None, \<sigma>)
        else if u_0 rb = 0 then None
        else let need = wrap (wrap (sz + MEM_POOL_HEADER_SIZE) + u_0 rb - 1) div u_0 rb
        in if need = 0 \<or> u_1 rb < need then Some (None, \<sigma>)
           else do {
             bm \<leftarrow> mb_bitmap rb;
             case find_run bm need 0 (u_1 rb) 0 0 of
               None \<Rightarrow> Some (None, \<sigma>)
             | Some start \<Rightarrow> do {
                 a \<leftarrow> store_bytes (start * u_0 rb) (le16 need) (mb_buf rb);
                 Some (Some (mb_addr rb + start * u_0 rb + MEM_POOL_HEADER_SIZE),
                       buf_upd b (\<lambda>m. m\<lparr>mb_bitmap := Some (fold bm_set [start ..< start + need] bm), mb_buf := a,
                                         u_2 := wrap (u_2 rb + need)\<rparr>) \<sigma>) } })"

text \<open>Free blocks at the end of the pool.\<close>

fun free_tail :: "u8 list \<Rightarrow> nat \<Rightarrow> nat" where
  "free_tail bm 0 = 0"
| "free_tail bm (Suc i) = (if bm_get bm i then 0 else Suc (free_tail bm i))"

text \<open>What follows the release of the blocks: the pool may shrink.\<close>

definition pool_maybe_shrink :: "nat \<Rightarrow> mem_state \<Rightarrow> mem_state option" where
  "pool_maybe_shrink b \<sigma> =
     (let rb = g_bufs \<sigma> b; bs = u_0 rb
      in if mb_step rb = 0 \<or> bs = 0 then Some (mem_pressure_maybe_clear b \<sigma>)
         else if threshold_bytes (mb_cap rb) (mb_shrink_pct rb) < pool_used_bytes rb
         then Some (mem_pressure_maybe_clear b (buf_upd b reset_shrink \<sigma>))
         else do {
           bm \<leftarrow> mb_bitmap rb;
           let free_blocks = free_tail bm (u_1 rb);
           let step = (if mb_step rb < bs then bs else mb_step rb);
           let step = step div bs * bs;
           if free_blocks = 0 \<or> mb_hold_count rb = 0 then Some (mem_pressure_maybe_clear b \<sigma>)
           else let hits = (mb_hits rb + 1) mod 65536; \<sigma> = buf_upd b (\<lambda>m. m\<lparr>mb_hits := hits\<rparr>) \<sigma>
           in if hits < mb_hold_next rb \<or> wrap (free_blocks * bs) < step \<or> wrap (mb_cap rb + 2 ^ 24 - step) < bs
              then Some (mem_pressure_maybe_clear b \<sigma>)
              else let new_cap = wrap (mb_cap rb + 2 ^ 24 - step)
              in do {
                (ok, \<sigma>) \<leftarrow> mem_buffer_resize b new_cap \<sigma>;
                Some (mem_pressure_maybe_clear b
                  (if ok then buf_upd b (\<lambda>m. next_stage (m\<lparr>u_1 := new_cap div u_0 m\<rparr>)) \<sigma> else \<sigma>)) } })"

definition mem_buffer_free :: "nat option \<Rightarrow> nat \<Rightarrow> mem_state \<Rightarrow> mem_state option" where
  "mem_buffer_free mb ptr \<sigma> = (case mb of None \<Rightarrow> Some \<sigma> | Some b \<Rightarrow>
     let rb = g_bufs \<sigma> b; bs = u_0 rb
     in if \<not> malloc_type (mb_flags rb) \<or> ptr = 0 then Some \<sigma>
        else let base = ptr - MEM_POOL_HEADER_SIZE
        in if base < mb_addr rb \<or> mb_addr rb + mb_cap rb \<le> base then Some \<sigma>
           else if bs = 0 then None
           else let offset = base - mb_addr rb; start = offset div bs
           in if offset mod bs \<noteq> 0 then Some \<sigma>
              else do {
                h \<leftarrow> read_bytes offset 2 (mb_buf rb);
                let blocks = of_le16 (h ! 0) (h ! 1);
                if blocks = 0 \<or> u_1 rb < start + blocks then Some \<sigma>
                else do {
                  a \<leftarrow> (if secure_mode (mb_flags rb) then store_bytes offset (replicate (blocks * bs) nul) (mb_buf rb)
                        else Some (mb_buf rb));
                  bm \<leftarrow> mb_bitmap rb;
                  pool_maybe_shrink b
                    (buf_upd b (\<lambda>m. m\<lparr>mb_buf := a, mb_bitmap := Some (fold bm_clear [start ..< start + blocks] bm),
                                      u_2 := (if blocks \<le> u_2 rb then u_2 rb - blocks else 0)\<rparr>) \<sigma>) } })"

section \<open>Tuning\<close>

definition mem_buffer_set_grow :: "nat option \<Rightarrow> nat \<Rightarrow> nat \<Rightarrow> mem_state \<Rightarrow> mem_state" where
  "mem_buffer_set_grow mb pct step \<sigma> = (case mb of None \<Rightarrow> \<sigma> | Some b \<Rightarrow>
     if 100 < pct then \<sigma> else buf_upd b (\<lambda>m. m\<lparr>mb_grow_pct := pct, mb_step := step\<rparr>) \<sigma>)"

definition mem_buffer_set_shrink :: "nat option \<Rightarrow> nat \<Rightarrow> nat \<Rightarrow> mem_state \<Rightarrow> mem_state" where
  "mem_buffer_set_shrink mb pct step \<sigma> = (case mb of None \<Rightarrow> \<sigma> | Some b \<Rightarrow>
     if 100 < pct then \<sigma>
     else buf_upd b (\<lambda>m. m\<lparr>mb_shrink_pct := pct, mb_step := step, mb_hold_count := 1, mb_hold_base := 1, mb_hold_next := 1,
                           mb_stage := 0, mb_hits := 0\<rparr>) \<sigma>)"

definition mem_buffer_set_max_size :: "nat option \<Rightarrow> nat \<Rightarrow> mem_state \<Rightarrow> mem_state" where
  "mem_buffer_set_max_size mb max_cap \<sigma> = (case mb of None \<Rightarrow> \<sigma> | Some b \<Rightarrow>
     buf_upd b (\<lambda>m. m\<lparr>mb_max_cap := (if max_cap < mb_cap m then mb_cap m else max_cap)\<rparr>) \<sigma>)"

section \<open>The pools of lwIP\<close>

record pool_cfg =
  pc_block_size :: nat
  pc_block_count :: nat
  pc_max_cap :: nat
  pc_flags :: mem_flags
  pc_low_cb :: bool
  pc_owner :: mem_buffer_owner

definition mem_buffer_set_lwip_heap :: "nat option \<Rightarrow> mem_state \<Rightarrow> bool \<times> mem_state" where
  "mem_buffer_set_lwip_heap mb \<sigma> = (case mb of None \<Rightarrow> (False, \<sigma>) | Some b \<Rightarrow>
     if \<not> malloc_type (mb_flags (g_bufs \<sigma> b)) then (False, \<sigma>)
     else (True, mem_buffer_set_owner mb MEM_BUF_OWNER_LWIP_POOL (\<sigma>\<lparr>g_lwip_heap := Some b\<rparr>)))"

text \<open>The two nested loops of the sort: position \<open>i\<close> against every later one.\<close>

definition sort_swap :: "mem_state \<Rightarrow> nat \<Rightarrow> nat \<Rightarrow> nat list \<Rightarrow> nat list" where
  "sort_swap \<sigma> i j ps = (if u_0 (g_bufs \<sigma> (ps ! j)) < u_0 (g_bufs \<sigma> (ps ! i))
     then ps[i := ps ! j, j := ps ! i] else ps)"

definition mem_buffer_sort_pools :: "mem_state \<Rightarrow> mem_state" where
  "mem_buffer_sort_pools \<sigma> =
     \<sigma>\<lparr>g_lwip_pools := (let n = length (g_lwip_pools \<sigma>)
        in fold (\<lambda>i ps. fold (\<lambda>j ps. sort_swap \<sigma> i j ps) [i + 1 ..< n] ps) [0 ..< n - 1] (g_lwip_pools \<sigma>))\<rparr>"

fun init_pools :: "pool_cfg list \<Rightarrow> mem_state \<Rightarrow> mem_state" where
  "init_pools [] \<sigma> = \<sigma>"
| "init_pools (pc # pcs) \<sigma> =
     (if pc_block_size pc = 0 \<or> pc_block_count pc = 0 then init_pools pcs \<sigma>
      else let initial_cap = wrap (pc_block_size pc * pc_block_count pc);
               max_cap = (if pc_max_cap pc \<noteq> 0 then pc_max_cap pc else initial_cap)
      in case mem_buffer_create initial_cap max_cap (pc_block_size pc) ((pc_flags pc)\<lparr>malloc_type := True\<rparr>) (pc_low_cb pc) \<sigma> of
           (None, \<sigma>) \<Rightarrow> init_pools pcs \<sigma>
         | (Some b, \<sigma>) \<Rightarrow>
             let ow = (if pc_owner pc \<noteq> MEM_BUF_OWNER_UNKNOWN then pc_owner pc else MEM_BUF_OWNER_LWIP_POOL);
                 \<sigma> = mem_buffer_set_owner (Some b) ow \<sigma>
             in init_pools pcs (\<sigma>\<lparr>g_lwip_pools := g_lwip_pools \<sigma> @ [b]\<rparr>))"

definition mem_buffer_lwip_init_pools :: "pool_cfg list \<Rightarrow> mem_state \<Rightarrow> bool \<times> mem_state" where
  "mem_buffer_lwip_init_pools pools \<sigma> =
     (if pools = [] \<or> \<not> g_ready \<sigma> then (False, \<sigma>)
      else let \<sigma> = init_pools (take MEM_LWIP_MAX_POOLS pools) (\<sigma>\<lparr>g_lwip_pools := []\<rparr>)
      in if g_lwip_pools \<sigma> = [] then (False, \<sigma>) else (True, mem_buffer_sort_pools \<sigma>))"

definition mem_buffer_is_lwip_pool :: "nat option \<Rightarrow> mem_state \<Rightarrow> bool" where
  "mem_buffer_is_lwip_pool mb \<sigma> = (case mb of None \<Rightarrow> False | Some b \<Rightarrow> b \<in> set (g_lwip_pools \<sigma>))"

text \<open>\<open>pool_block_size * pool_block_count\<close>\<close>

definition pool_max_bytes :: "mem_buffer \<Rightarrow> nat" where
  "pool_max_bytes rb = wrap (u_0 rb * u_1 rb)"

text \<open>First the pools with blocks large enough, then the others.\<close>

fun malloc_large :: "nat \<Rightarrow> nat list \<Rightarrow> nat option \<Rightarrow> mem_state \<Rightarrow> (nat option \<times> nat option \<times> mem_state) option" where
  "malloc_large sz [] preferred \<sigma> = Some (None, preferred, \<sigma>)"
| "malloc_large sz (i # is) preferred \<sigma> =
     (let rb = g_bufs \<sigma> i; needed = sz + MEM_POOL_HEADER_SIZE
      in if pool_max_bytes rb < needed \<or> u_0 rb < needed then malloc_large sz is preferred \<sigma>
         else let level = mem_pressure_level_from_usage (mem_buffer_usage_pct rb (pool_used_bytes rb) \<sigma>);
                  \<sigma> = (if level \<noteq> MEM_PRESSURE_NONE \<and> level \<noteq> mb_last_level rb
                       then mem_buffer_notify_lowmem i needed level \<sigma> else \<sigma>);
                  preferred = (case preferred of None \<Rightarrow> Some i | Some j \<Rightarrow> Some j)
         in do {
           (r, \<sigma>) \<leftarrow> mem_buffer_malloc (Some i) sz \<sigma>;
           case r of Some ptr \<Rightarrow> Some (Some ptr, preferred, \<sigma>) | None \<Rightarrow> malloc_large sz is preferred \<sigma> })"

fun malloc_small :: "nat \<Rightarrow> nat list \<Rightarrow> mem_state \<Rightarrow> (nat option \<times> mem_state) option" where
  "malloc_small sz [] \<sigma> = Some (None, \<sigma>)"
| "malloc_small sz (i # is) \<sigma> =
     (let rb = g_bufs \<sigma> i; needed = sz + MEM_POOL_HEADER_SIZE
      in if pool_max_bytes rb < needed \<or> needed \<le> u_0 rb then malloc_small sz is \<sigma>
         else do {
           (r, \<sigma>) \<leftarrow> mem_buffer_malloc (Some i) sz \<sigma>;
           case r of Some ptr \<Rightarrow> Some (Some ptr, \<sigma>) | None \<Rightarrow> malloc_small sz is \<sigma> })"

definition mem_buffer_custom_malloc :: "nat \<Rightarrow> mem_state \<Rightarrow> (nat option \<times> mem_state) option" where
  "mem_buffer_custom_malloc sz \<sigma> =
     (if g_lwip_pools \<sigma> \<noteq> []
      then if MEM_SIZE_MAX - MEM_POOL_HEADER_SIZE < sz then Some (None, \<sigma>)
           else do {
             (r, preferred, \<sigma>) \<leftarrow> malloc_large sz (g_lwip_pools \<sigma>) None \<sigma>;
             case r of Some ptr \<Rightarrow> Some (Some ptr, \<sigma>)
             | None \<Rightarrow> malloc_small sz (g_lwip_pools \<sigma>)
                 (case preferred of None \<Rightarrow> \<sigma>
                  | Some j \<Rightarrow> mem_buffer_notify_lowmem j (sz + MEM_POOL_HEADER_SIZE) MEM_PRESSURE_CRITICAL \<sigma>) }
      else mem_buffer_malloc (g_lwip_heap \<sigma>) sz \<sigma>)"

fun free_in_pools :: "nat \<Rightarrow> nat list \<Rightarrow> mem_state \<Rightarrow> nat option" where
  "free_in_pools ptr [] \<sigma> = None"
| "free_in_pools ptr (i # is) \<sigma> =
     (let rb = g_bufs \<sigma> i
      in if mb_addr rb < ptr \<and> ptr < mb_addr rb + mb_cap rb then Some i else free_in_pools ptr is \<sigma>)"

definition mem_buffer_custom_free :: "nat \<Rightarrow> mem_state \<Rightarrow> mem_state option" where
  "mem_buffer_custom_free ptr \<sigma> =
     (if ptr = 0 then Some \<sigma>
      else case free_in_pools ptr (g_lwip_pools \<sigma>) \<sigma> of
             Some i \<Rightarrow> mem_buffer_free (Some i) ptr \<sigma>
           | None \<Rightarrow> mem_buffer_free (g_lwip_heap \<sigma>) ptr \<sigma>)"

text \<open>The block is cleared in whichever pool the pointer lies in.\<close>

definition clear_at :: "nat \<Rightarrow> nat \<Rightarrow> nat \<Rightarrow> mem_state \<Rightarrow> mem_state option" where
  "clear_at i ptr n \<sigma> = do {
     a \<leftarrow> store_bytes (ptr - mb_addr (g_bufs \<sigma> i)) (replicate n nul) (mb_buf (g_bufs \<sigma> i));
     Some (buf_upd i (\<lambda>m. m\<lparr>mb_buf := a\<rparr>) \<sigma>) }"

definition mem_buffer_custom_calloc :: "nat \<Rightarrow> nat \<Rightarrow> mem_state \<Rightarrow> (nat option \<times> mem_state) option" where
  "mem_buffer_custom_calloc count sz \<sigma> =
     (if count = 0 \<or> sz = 0 \<or> MEM_SIZE_MAX div count < sz then Some (None, \<sigma>)
      else do {
        (r, \<sigma>) \<leftarrow> mem_buffer_custom_malloc (count * sz) \<sigma>;
        case r of None \<Rightarrow> Some (None, \<sigma>)
        | Some ptr \<Rightarrow> do {
            i \<leftarrow> (case free_in_pools ptr (g_lwip_pools \<sigma>) \<sigma> of Some i \<Rightarrow> Some i | None \<Rightarrow> g_lwip_heap \<sigma>);
            \<sigma> \<leftarrow> clear_at i ptr (count * sz) \<sigma>;
            Some (Some ptr, \<sigma>) } })"

end
