(* ===== verification/Mem_Ring.thy ===== *)
theory Mem_Ring
  imports Mem_Buffer
begin

text \<open>
  The ring buffers of \<^verbatim>\<open>src/src/drivers/mem.c\<close> are first-in first-out queues of bytes. The contents
  of a ring are read off its block from the head on, around the end; every operation is shown to
  act on the contents as on a list, through growth, shrinking and wrap-around, and never to
  touch memory outside the block. The interface a client relies on is the locale \<open>byte_queue\<close>.
\<close>

section \<open>Contents and well-formedness\<close>

text \<open>
  What \<open>malloc\<close> and \<open>realloc\<close> promise of the blocks they return: they have the size asked for.
\<close>

definition alloc_ok :: "mem_env \<Rightarrow> bool" where
  "alloc_ok E \<longleftrightarrow>
     (\<forall>l n a c. em_malloc E l n = Some (a, c) \<longrightarrow> length c = n) \<and>
     (\<forall>l a n a' c. em_realloc E l a n = Some (a', c) \<longrightarrow> length c = n)"

definition ring_ok :: "mem_buffer \<Rightarrow> bool" where
  "ring_ok rb \<longleftrightarrow> \<not> malloc_type (mb_flags rb) \<and> length (mb_buf rb) = mb_cap rb \<and> 0 < mb_cap rb \<and>
     mb_cap rb \<le> mb_max_cap rb \<and> mb_max_cap rb \<le> 2 ^ 23 \<and> u_1 rb < mb_cap rb \<and> u_0 rb \<le> mb_cap rb"

definition ring_of :: "mem_buffer \<Rightarrow> bytes" where
  "ring_of rb = map (\<lambda>i. mb_buf rb ! ((u_1 rb + i) mod mb_cap rb)) [0 ..< u_0 rb]"

lemma length_ring_of [simp]: "length (ring_of rb) = u_0 rb"
  by (simp add: ring_of_def)

section \<open>Reading and writing around the end of the block\<close>

lemma mod_around: "pos < (c::nat) \<Longrightarrow> i \<le> c \<Longrightarrow> (pos + i) mod c = (if pos + i < c then pos + i else pos + i - c)"
  by (auto simp: mod_if not_less)

lemma read_around_eq:
  assumes "length (mb_buf rb) = mb_cap rb" and "pos < mb_cap rb" and "n \<le> mb_cap rb"
  shows "read_around rb pos n = Some (map (\<lambda>i. mb_buf rb ! ((pos + i) mod mb_cap rb)) [0 ..< n])"
proof -
  define f where "f = (if n < mb_cap rb - pos then n else mb_cap rb - pos)"
  have f: "f \<le> n" "pos + f \<le> mb_cap rb" "n - f \<le> mb_cap rb" using assms by (auto simp: f_def)
  have "take f (drop pos (mb_buf rb)) @ take (n - f) (mb_buf rb)
      = map (\<lambda>i. mb_buf rb ! ((pos + i) mod mb_cap rb)) [0 ..< n]" (is "?l = ?r")
  proof (rule nth_equalityI)
    show "length ?l = length ?r" using assms f by simp
  next
    fix i assume "i < length ?l"
    then have i: "i < n" using assms f by simp
    show "?l ! i = ?r ! i"
    proof (cases "i < f")
      case True
      with assms i f show ?thesis by (simp add: nth_append)
    next
      case False
      then have "f = mb_cap rb - pos" using i by (simp add: f_def split: if_splits)
      moreover from this have "(pos + i) mod mb_cap rb = i - f" using False assms i by (subst mod_around) auto
      ultimately show ?thesis using False assms i f by (simp add: nth_append)
    qed
  qed
  with assms f show ?thesis
    by (simp add: read_around_def Let_def read_bytes_def flip: f_def)
qed

lemma write_around_eq:
  assumes "length (mb_buf rb) = mb_cap rb" and "pos < mb_cap rb" and "length d \<le> mb_cap rb"
  obtains a where "write_around rb pos d = Some a" and "length a = mb_cap rb"
    and "\<And>i. i < mb_cap rb \<Longrightarrow>
           a ! ((pos + i) mod mb_cap rb) = (if i < length d then d ! i else mb_buf rb ! ((pos + i) mod mb_cap rb))"
proof -
  define f where "f = (if length d < mb_cap rb - pos then length d else mb_cap rb - pos)"
  have f: "f \<le> length d" "pos + f \<le> mb_cap rb" "length d - f \<le> pos" using assms by (auto simp: f_def)
  obtain a1 where a1: "store_bytes pos (take f d) (mb_buf rb) = Some a1"
    using assms f by (simp add: store_bytes_def)
  then have l1: "length a1 = mb_cap rb" using assms store_bytes_length by fastforce
  obtain a where a: "store_bytes 0 (drop f d) a1 = Some a"
    using assms f l1 by (simp add: store_bytes_def)
  then have l: "length a = mb_cap rb" using l1 store_bytes_length by fastforce
  show ?thesis
  proof
    show "write_around rb pos d = Some a"
      using a1 a by (simp add: write_around_def Let_def flip: f_def)
    show "length a = mb_cap rb" by (rule l)
  next
    fix i assume i: "i < mb_cap rb"
    have m: "(pos + i) mod mb_cap rb = (if pos + i < mb_cap rb then pos + i else pos + i - mb_cap rb)"
      using assms i by (simp add: mod_around)
    show "a ! ((pos + i) mod mb_cap rb) = (if i < length d then d ! i else mb_buf rb ! ((pos + i) mod mb_cap rb))"
    proof (cases "pos + i < mb_cap rb")
      case True
      then have "a ! (pos + i) = a1 ! (pos + i)"
        using store_bytes_nth [OF a, of "pos + i"] l1 f by simp
      with True m f show ?thesis
        using store_bytes_nth [OF a1, of "pos + i"] assms by (auto simp: f_def)
    next
      case False
      then have "a ! (pos + i - mb_cap rb) = (if pos + i - mb_cap rb < length d - f then drop f d ! (pos + i - mb_cap rb) else a1 ! (pos + i - mb_cap rb))"
        using store_bytes_nth [OF a, of "pos + i - mb_cap rb"] l1 i assms by simp
      moreover have "a1 ! (pos + i - mb_cap rb) = mb_buf rb ! (pos + i - mb_cap rb)"
        using store_bytes_nth [OF a1, of "pos + i - mb_cap rb"] assms(1,2) i False by (auto split: if_splits)
      moreover have "i < length d \<Longrightarrow> f = mb_cap rb - pos"
        using False by (auto simp: f_def)
      moreover have "pos + i - mb_cap rb < length d - f \<longleftrightarrow> i < length d"
        using False assms(2) by (auto simp: f_def)
      ultimately show ?thesis using False m i f assms by (auto simp: nth_append)
    qed
  qed
qed

text \<open>Copying the contents out to a new block, which is what a resize does.\<close>

lemma unroll_eq:
  assumes "ring_ok rb" and "u_0 rb \<le> length new"
  obtains a where "unroll rb new = Some a" and "length a = length new" and "take (u_0 rb) a = ring_of rb"
proof (cases "u_0 rb = 0")
  case True
  then show ?thesis using that [of new] by (simp add: unroll_def ring_of_def)
next
  case False
  define f where "f = (if u_0 rb < mb_cap rb - u_1 rb then u_0 rb else mb_cap rb - u_1 rb)"
  have w: "wrap (mb_cap rb + 2 ^ 24 - u_1 rb) = mb_cap rb - u_1 rb"
    using assms mod_add_self2 [of "mb_cap rb - u_1 rb" "2 ^ 24"] mod_less [of "mb_cap rb - u_1 rb" "2 ^ 24"]
    by (auto simp: ring_ok_def wrap_def)
  have f: "f \<le> u_0 rb" "u_1 rb + f \<le> mb_cap rb" "u_0 rb - f \<le> mb_cap rb"
    using assms by (auto simp: f_def ring_ok_def)
  define p q where "p = take f (drop (u_1 rb) (mb_buf rb))" and "q = take (u_0 rb - f) (mb_buf rb)"
  have "read_around rb (u_1 rb) (u_0 rb) = Some (ring_of rb)"
    using assms by (simp add: read_around_eq ring_ok_def ring_of_def)
  then have pq: "ring_of rb = p @ q"
    using assms f by (auto simp: read_around_def Let_def read_bytes_def ring_ok_def p_def q_def f_def split: if_splits)
  have lp: "length p = f" and lq: "length q = u_0 rb - f"
    using assms f by (auto simp: p_def q_def ring_ok_def)
  obtain a1 where a1: "store_bytes 0 p new = Some a1" using assms f lp by (simp add: store_bytes_def)
  then have l1: "length a1 = length new" by (rule store_bytes_length)
  have t1: "take f a1 = p" using a1 lp by (auto simp: store_bytes_def split: if_splits)
  obtain a where a: "store_bytes f q a1 = Some a" using assms f lq l1 by (simp add: store_bytes_def)
  have "take (u_0 rb) a = p @ q"
    using store_bytes_prefix [OF _ a] t1 lq f l1 assms by simp
  moreover have "unroll rb new = Some a"
    using False w f a1 a assms
    by (simp add: unroll_def Let_def read_bytes_def ring_ok_def flip: f_def p_def q_def)
  moreover have "length a = length new" using a l1 store_bytes_length by fastforce
  ultimately show ?thesis using that pq by simp
qed

section \<open>What the pressure reports leave alone\<close>

named_theorems mem_frame \<open>what an operation of the buffer manager leaves as it was\<close>

lemma mem_log_frame [mem_frame, simp]:
  "g_bufs (mem_log e \<sigma>) = g_bufs \<sigma>" "g_env (mem_log e \<sigma>) = g_env \<sigma>"
  by (simp_all add: mem_log_def)

lemma mem_buffer_release_frame [mem_frame, simp]:
  "g_bufs (mem_buffer_release n \<sigma>) = g_bufs \<sigma>" "g_env (mem_buffer_release n \<sigma>) = g_env \<sigma>"
  by (simp_all add: mem_buffer_release_def)

lemma mem_buffer_charge_frame [mem_frame]:
  "mem_buffer_charge n \<sigma> = (ok, \<sigma>') \<Longrightarrow> g_bufs \<sigma>' = g_bufs \<sigma> \<and> g_env \<sigma>' = g_env \<sigma> \<and> g_has_realloc \<sigma>' = g_has_realloc \<sigma>"
  by (auto simp: mem_buffer_charge_def split: if_splits)

lemma mem_pressure_update_effective_frame [mem_frame, simp]:
  "g_bufs (mem_pressure_update_effective \<sigma>) = g_bufs \<sigma>" "g_env (mem_pressure_update_effective \<sigma>) = g_env \<sigma>"
  by (simp_all add: mem_pressure_update_effective_def Let_def mem_log_def)

lemma mem_pressure_mark_frame [mem_frame, simp]:
  "g_bufs (mem_pressure_mark b l \<sigma>) = g_bufs \<sigma>" "g_env (mem_pressure_mark b l \<sigma>) = g_env \<sigma>"
  by (simp_all add: mem_pressure_mark_def split: mem_buffer_owner.split)

lemma buf_upd_simps [simp]:
  "g_bufs (buf_upd b f \<sigma>) = (g_bufs \<sigma>)(b := f (g_bufs \<sigma> b))" "g_env (buf_upd b f \<sigma>) = g_env \<sigma>"
  by (simp_all add: buf_upd_def)

text \<open>A buffer that differs from another in its pressure level and its shrink counters only.\<close>

definition same_ring :: "mem_buffer \<Rightarrow> mem_buffer \<Rightarrow> bool" where
  "same_ring m m' \<longleftrightarrow> mb_buf m' = mb_buf m \<and> mb_cap m' = mb_cap m \<and> mb_max_cap m' = mb_max_cap m \<and>
     mb_flags m' = mb_flags m \<and> u_0 m' = u_0 m \<and> u_1 m' = u_1 m"

lemma same_ringD:
  assumes "same_ring m m'"
  shows "ring_ok m' = ring_ok m" and "ring_of m' = ring_of m" and "mb_cap m' = mb_cap m" and "mb_flags m' = mb_flags m"
  using assms by (simp_all add: same_ring_def ring_ok_def ring_of_def)

lemma mem_buffer_notify_lowmem_frame [mem_frame]:
  "g_env (mem_buffer_notify_lowmem b r l \<sigma>) = g_env \<sigma>"
  "g_bufs (mem_buffer_notify_lowmem b r l \<sigma>) = (g_bufs \<sigma>)(b := (g_bufs \<sigma> b)\<lparr>mb_last_level := l\<rparr>)"
  by (simp_all add: mem_buffer_notify_lowmem_def Let_def)

lemma mem_pressure_maybe_clear_frame [mem_frame]:
  "g_env (mem_pressure_maybe_clear b \<sigma>) = g_env \<sigma>"
  "\<exists>l. g_bufs (mem_pressure_maybe_clear b \<sigma>) = (g_bufs \<sigma>)(b := (g_bufs \<sigma> b)\<lparr>mb_last_level := l\<rparr>)"
proof -
  show "g_env (mem_pressure_maybe_clear b \<sigma>) = g_env \<sigma>"
    by (simp add: mem_pressure_maybe_clear_def Let_def split: mem_buffer_owner.split)
  define l where "l = (if 100 < g_clear_pct \<sigma> then mb_last_level (g_bufs \<sigma> b)
    else mem_pressure_level_relief (mb_last_level (g_bufs \<sigma> b)) (mem_buffer_usage_pct (g_bufs \<sigma> b)
      (if malloc_type (mb_flags (g_bufs \<sigma> b)) then pool_used_bytes (g_bufs \<sigma> b) else u_0 (g_bufs \<sigma> b)) \<sigma>))"
  have "g_bufs (mem_pressure_maybe_clear b \<sigma>) = (g_bufs \<sigma>)(b := (g_bufs \<sigma> b)\<lparr>mb_last_level := l\<rparr>)"
    by (simp add: mem_pressure_maybe_clear_def l_def Let_def split: mem_buffer_owner.split)
  then show "\<exists>l. g_bufs (mem_pressure_maybe_clear b \<sigma>) = (g_bufs \<sigma>)(b := (g_bufs \<sigma> b)\<lparr>mb_last_level := l\<rparr>)" ..
qed

section \<open>Resizing keeps the contents\<close>

text \<open>The ring \<open>b\<close> is well-formed and holds \<open>xs\<close> afterwards; nothing else has changed.\<close>

definition ring_becomes :: "nat \<Rightarrow> bytes \<Rightarrow> mem_state \<Rightarrow> mem_state \<Rightarrow> bool" where
  "ring_becomes b xs \<sigma> \<sigma>' \<longleftrightarrow> ring_ok (g_bufs \<sigma>' b) \<and> ring_of (g_bufs \<sigma>' b) = xs \<and> g_env \<sigma>' = g_env \<sigma> \<and>
     (\<forall>i. i \<noteq> b \<longrightarrow> g_bufs \<sigma>' i = g_bufs \<sigma> i) \<and> mb_flags (g_bufs \<sigma>' b) = mb_flags (g_bufs \<sigma> b)"

definition ring_inv :: "nat \<Rightarrow> mem_state \<Rightarrow> bool" where
  "ring_inv b \<sigma> \<longleftrightarrow> ring_ok (g_bufs \<sigma> b) \<and> alloc_ok (g_env \<sigma>)"

lemma ring_becomes_inv: "ring_inv b \<sigma> \<Longrightarrow> ring_becomes b xs \<sigma> \<sigma>' \<Longrightarrow> ring_inv b \<sigma>'"
  by (simp add: ring_inv_def ring_becomes_def)

lemma ring_becomesD: "ring_becomes b xs \<sigma> \<sigma>' \<Longrightarrow> ring_of (g_bufs \<sigma>' b) = xs"
  by (simp add: ring_becomes_def)

lemma ring_becomes_trans:
  "ring_becomes b xs \<sigma> \<sigma>' \<Longrightarrow> ring_becomes b ys \<sigma>' \<sigma>'' \<Longrightarrow> ring_becomes b ys \<sigma> \<sigma>''"
  by (simp add: ring_becomes_def)

lemma ring_becomes_same:
  assumes "ring_becomes b xs \<sigma> \<sigma>1" and "same_ring (g_bufs \<sigma>1 b) (g_bufs \<sigma>' b)"
    and "g_env \<sigma>' = g_env \<sigma>1" and "\<And>i. i \<noteq> b \<Longrightarrow> g_bufs \<sigma>' i = g_bufs \<sigma>1 i"
  shows "ring_becomes b xs \<sigma> \<sigma>'"
  using assms same_ringD [OF assms(2)] by (simp add: ring_becomes_def)

lemma ring_becomes_refl: "ring_inv b \<sigma> \<Longrightarrow> ring_becomes b (ring_of (g_bufs \<sigma> b)) \<sigma> \<sigma>"
  by (simp add: ring_becomes_def ring_inv_def)

lemma same_ring_level [simp]: "same_ring m (m\<lparr>mb_last_level := l\<rparr>)"
  by (simp add: same_ring_def)

lemma ring_becomes_notify:
  "ring_becomes b xs \<sigma> \<sigma>1 \<Longrightarrow> ring_becomes b xs \<sigma> (mem_buffer_notify_lowmem b r l \<sigma>1)"
  by (erule ring_becomes_same) (simp_all add: mem_buffer_notify_lowmem_frame)

lemma ring_of_head0: "ring_ok rb \<Longrightarrow> u_1 rb = 0 \<Longrightarrow> ring_of rb = take (u_0 rb) (mb_buf rb)"
  by (rule nth_equalityI) (auto simp: ring_of_def ring_ok_def)

lemma resized_ring:
  assumes "ring_ok (g_bufs \<sigma>0 b)" and "length new = t" and "take (u_0 (g_bufs \<sigma>0 b)) new = ring_of (g_bufs \<sigma>0 b)"
    and "0 < t" and "u_0 (g_bufs \<sigma>0 b) \<le> t" and "t \<le> mb_max_cap (g_bufs \<sigma>0 b)"
    and "g_env \<sigma> = g_env \<sigma>0" and "g_bufs \<sigma> = (g_bufs \<sigma>0)(b := (g_bufs \<sigma>0 b)\<lparr>mb_buf := old\<rparr>)"
  shows "ring_becomes b (ring_of (g_bufs \<sigma>0 b)) \<sigma>0 (resized b addr new t sh \<sigma>)"
    and "mb_cap (g_bufs (resized b addr new t sh \<sigma>) b) = t"
proof -
  define rb' where "rb' = g_bufs (resized b addr new t sh \<sigma>) b"
  have f: "mb_buf rb' = new" "mb_cap rb' = t" "u_1 rb' = 0" "u_0 rb' = u_0 (g_bufs \<sigma>0 b)"
    "mb_max_cap rb' = mb_max_cap (g_bufs \<sigma>0 b)" "mb_flags rb' = mb_flags (g_bufs \<sigma>0 b)"
    using assms by (simp_all add: rb'_def resized_def Let_def)
  then have ok: "ring_ok rb'" using assms by (simp add: ring_ok_def)
  with f assms have "ring_of rb' = ring_of (g_bufs \<sigma>0 b)" by (simp add: ring_of_head0)
  with f ok assms show "ring_becomes b (ring_of (g_bufs \<sigma>0 b)) \<sigma>0 (resized b addr new t sh \<sigma>)"
    by (simp add: ring_becomes_def flip: rb'_def) (simp add: resized_def Let_def)
  show "mb_cap (g_bufs (resized b addr new t sh \<sigma>) b) = t"
    using f by (simp add: rb'_def)
qed

lemma refund_frame [mem_frame, simp]: "g_bufs (refund n \<sigma>) = g_bufs \<sigma>" "g_env (refund n \<sigma>) = g_env \<sigma>"
  by (simp_all add: refund_def)

lemma resize_in_place_ring:
  assumes inv: "ring_inv b \<sigma>" and t: "0 < t" "u_0 (g_bufs \<sigma> b) \<le> t" "t \<le> mb_max_cap (g_bufs \<sigma> b)"
    and head: "u_1 (g_bufs \<sigma> b) = 0"
  obtains ok \<sigma>' where "resize_in_place b t \<sigma> = Some (ok, \<sigma>')"
    and "ring_becomes b (ring_of (g_bufs \<sigma> b)) \<sigma> \<sigma>'"
    and "mb_cap (g_bufs \<sigma>' b) = (if ok then t else mb_cap (g_bufs \<sigma> b))"
proof -
  let ?rb = "g_bufs \<sigma> b"
  have ok: "ring_ok ?rb" and al: "alloc_ok (g_env \<sigma>)" using inv by (simp_all add: ring_inv_def)
  define shrink where "shrink = mb_cap ?rb - t"
  obtain old where old: "(if secure_mode (mb_flags ?rb) \<and> 0 < shrink
      then store_bytes t (replicate shrink nul) (mb_buf ?rb) else Some (mb_buf ?rb)) = Some old"
    and lo: "length old = mb_cap ?rb" and to: "take (u_0 ?rb) old = take (u_0 ?rb) (mb_buf ?rb)"
  proof (cases "secure_mode (mb_flags ?rb) \<and> 0 < shrink")
    case True
    then have "t < mb_cap ?rb" by (simp add: shrink_def)
    moreover from this obtain o' where "store_bytes t (replicate shrink nul) (mb_buf ?rb) = Some o'"
      using ok by (simp add: store_bytes_def shrink_def ring_ok_def)
    ultimately show ?thesis using that [of o'] True ok t store_bytes_length [of t _ "mb_buf ?rb" o']
        store_bytes_before [of t _ "mb_buf ?rb" o'] by (auto simp: ring_ok_def) (metis min.absorb1 take_take)
  next
    case False
    then show ?thesis using that [of "mb_buf ?rb"] ok by (auto simp: ring_ok_def)
  qed
  define \<sigma>1 where "\<sigma>1 = mem_log (Ev_realloc (mb_addr ?rb) t) (buf_upd b (\<lambda>m. m\<lparr>mb_buf := old\<rparr>) \<sigma>)"
  have f1: "g_env \<sigma>1 = g_env \<sigma>" "g_bufs \<sigma>1 = (g_bufs \<sigma>)(b := ?rb\<lparr>mb_buf := old\<rparr>)"
    by (simp_all add: \<sigma>1_def)
  have keep: "ring_becomes b (ring_of ?rb) \<sigma> \<sigma>1"
  proof -
    have "ring_ok (?rb\<lparr>mb_buf := old\<rparr>)" using ok lo by (simp add: ring_ok_def)
    then have "ring_of (?rb\<lparr>mb_buf := old\<rparr>) = ring_of ?rb"
      using ring_of_head0 [OF ok head] ring_of_head0 [of "?rb\<lparr>mb_buf := old\<rparr>"] head to by simp
    then show ?thesis using f1 ok lo by (simp add: ring_becomes_def ring_ok_def)
  qed
  define r where "r = em_realloc (g_env \<sigma>) (g_log \<sigma>) (mb_addr ?rb) t"
  have eq: "resize_in_place b t \<sigma> = (case r of
      None \<Rightarrow> Some (False, refund (t - mb_cap ?rb) (mem_buffer_notify_lowmem b t MEM_PRESSURE_CRITICAL \<sigma>1))
    | Some (addr, extra) \<Rightarrow> Some (True, resized b addr (take t (old @ drop (length old) extra)) t shrink \<sigma>1))"
    unfolding resize_in_place_def Let_def shrink_def [symmetric] old \<sigma>1_def r_def
    by (simp add: call_realloc_def buf_upd_def mem_log_def split: option.split)
  show ?thesis
  proof (cases r)
    case None
    have "ring_becomes b (ring_of ?rb) \<sigma> (refund (t - mb_cap ?rb) (mem_buffer_notify_lowmem b t MEM_PRESSURE_CRITICAL \<sigma>1))"
      using ring_becomes_notify [OF keep] by (simp add: ring_becomes_def)
    then show ?thesis using that [of False] eq None f1 by (simp add: mem_buffer_notify_lowmem_frame)
  next
    case (Some p)
    then obtain addr extra where p: "r = Some (addr, extra)" by (cases p) auto
    then have "length extra = t" using al by (simp add: alloc_ok_def r_def)
    then have "length (take t (old @ drop (length old) extra)) = t"
      and "take (u_0 ?rb) (take t (old @ drop (length old) extra)) = ring_of ?rb"
      using lo to t ok ring_of_head0 [OF ok head] by (auto simp: ring_ok_def min_def)
    from resized_ring [OF ok this t(1,2,3) f1] that eq p show ?thesis by simp
  qed
qed

lemma resize_by_copy_ring:
  assumes inv: "ring_inv b \<sigma>" and t: "0 < t" "u_0 (g_bufs \<sigma> b) \<le> t" "t \<le> mb_max_cap (g_bufs \<sigma> b)"
  obtains ok \<sigma>' where "resize_by_copy b t \<sigma> = Some (ok, \<sigma>')"
    and "ring_becomes b (ring_of (g_bufs \<sigma> b)) \<sigma> \<sigma>'"
    and "mb_cap (g_bufs \<sigma>' b) = (if ok then t else mb_cap (g_bufs \<sigma> b))"
proof -
  let ?rb = "g_bufs \<sigma> b"
  have ok: "ring_ok ?rb" and al: "alloc_ok (g_env \<sigma>)" using inv by (simp_all add: ring_inv_def)
  show ?thesis
  proof (cases "em_malloc (g_env \<sigma>) (g_log \<sigma>) t")
    case None
    then have "resize_by_copy b t \<sigma> = Some (False, refund (t - mb_cap ?rb) (mem_log (Ev_malloc t) \<sigma>))"
      by (simp add: resize_by_copy_def Let_def call_malloc_def)
    moreover have "ring_becomes b (ring_of ?rb) \<sigma> (refund (t - mb_cap ?rb) (mem_log (Ev_malloc t) \<sigma>))"
      using ok by (simp add: ring_becomes_def)
    ultimately show ?thesis using that [of False] by simp
  next
    case (Some p)
    then obtain addr new where p: "em_malloc (g_env \<sigma>) (g_log \<sigma>) t = Some (addr, new)" by (cases p) auto
    then have len: "length new = t" using al by (simp add: alloc_ok_def)
    with t obtain a where a: "unroll ?rb new = Some a" "length a = t" "take (u_0 ?rb) a = ring_of ?rb"
      using unroll_eq [OF ok, of new] by metis
    define \<sigma>1 where "\<sigma>1 = mem_log (Ev_free (mb_addr ?rb) (if secure_mode (mb_flags ?rb)
      then replicate (mb_cap ?rb) nul @ drop (mb_cap ?rb) (mb_buf ?rb) else mb_buf ?rb)) (mem_log (Ev_malloc t) \<sigma>)"
    have "resize_by_copy b t \<sigma> = Some (True, resized b addr a t (mb_cap ?rb - t) \<sigma>1)"
      using p a by (simp add: resize_by_copy_def Let_def call_malloc_def \<sigma>1_def)
    moreover have "g_env \<sigma>1 = g_env \<sigma>" "g_bufs \<sigma>1 = (g_bufs \<sigma>)(b := ?rb\<lparr>mb_buf := mb_buf ?rb\<rparr>)"
      by (simp_all add: \<sigma>1_def)
    ultimately show ?thesis using that [of True] resized_ring [OF ok a(2,3) t] by metis
  qed
qed

lemma mem_buffer_resize_ring:
  assumes inv: "ring_inv b \<sigma>" and t: "0 < t"
  obtains ok \<sigma>' where "mem_buffer_resize b t \<sigma> = Some (ok, \<sigma>')"
    and "ring_becomes b (ring_of (g_bufs \<sigma> b)) \<sigma> \<sigma>'"
    and "mb_cap (g_bufs \<sigma>' b) = (if ok then t else mb_cap (g_bufs \<sigma> b))"
proof -
  let ?rb = "g_bufs \<sigma> b"
  have ok: "ring_ok ?rb" and al: "alloc_ok (g_env \<sigma>)" using inv by (simp_all add: ring_inv_def)
  have refl: "ring_becomes b (ring_of ?rb) \<sigma> \<sigma>" using inv by (rule ring_becomes_refl)
  have mx: "mb_max_cap ?rb \<noteq> MEM_SIZE_MAX" using ok by (simp add: ring_ok_def)
  consider (early) "t < u_0 ?rb \<or> t = mb_cap ?rb \<or> lock_size_flag (mb_flags ?rb) \<or> mb_max_cap ?rb < t"
    | (go) "u_0 ?rb \<le> t" "t \<noteq> mb_cap ?rb" "\<not> lock_size_flag (mb_flags ?rb)" "t \<le> mb_max_cap ?rb"
    by linarith
  then show ?thesis
  proof cases
    case early
    with mx have "mem_buffer_resize b t \<sigma> = Some (t = mb_cap ?rb, \<sigma>)"
      by (auto simp: mem_buffer_resize_def Let_def)
    then show ?thesis using that refl by simp
  next
    case go
    obtain c \<sigma>1 where c: "(if 0 < t - mb_cap ?rb then mem_buffer_charge (t - mb_cap ?rb) \<sigma> else (True, \<sigma>)) = (c, \<sigma>1)"
      by (cases "if 0 < t - mb_cap ?rb then mem_buffer_charge (t - mb_cap ?rb) \<sigma> else (True, \<sigma>)")
    then have f1: "g_bufs \<sigma>1 = g_bufs \<sigma>" "g_env \<sigma>1 = g_env \<sigma>"
      using mem_buffer_charge_frame by (auto split: if_splits)
    have r1: "ring_becomes b (ring_of ?rb) \<sigma> \<sigma>1" using refl f1 by (simp add: ring_becomes_def)
    have inv1: "ring_inv b \<sigma>1" using inv r1 by (rule ring_becomes_inv)
    have eq: "mem_buffer_resize b t \<sigma> = (if \<not> c then Some (False, \<sigma>1)
        else if g_has_realloc \<sigma>1 \<and> u_1 ?rb = 0 \<and> u_0 ?rb \<le> mb_cap ?rb then resize_in_place b t \<sigma>1
        else resize_by_copy b t \<sigma>1)"
      unfolding mem_buffer_resize_def Let_def c prod.case using go mx by auto
    consider (no) "\<not> c" | (place) "c" "g_has_realloc \<sigma>1 \<and> u_1 ?rb = 0 \<and> u_0 ?rb \<le> mb_cap ?rb"
      | (copy) "c" "\<not> (g_has_realloc \<sigma>1 \<and> u_1 ?rb = 0 \<and> u_0 ?rb \<le> mb_cap ?rb)" by blast
    then show ?thesis
    proof cases
      case no
      then show ?thesis using that eq r1 f1 by simp
    next
      case place
      obtain ok' \<sigma>' where "resize_in_place b t \<sigma>1 = Some (ok', \<sigma>')" "ring_becomes b (ring_of ?rb) \<sigma>1 \<sigma>'"
        "mb_cap (g_bufs \<sigma>' b) = (if ok' then t else mb_cap ?rb)"
        using resize_in_place_ring [OF inv1, of t] place go t f1 by (metis (no_types, lifting))
      then show ?thesis using that eq place ring_becomes_trans [OF r1] by simp
    next
      case copy
      obtain ok' \<sigma>' where "resize_by_copy b t \<sigma>1 = Some (ok', \<sigma>')" "ring_becomes b (ring_of ?rb) \<sigma>1 \<sigma>'"
        "mb_cap (g_bufs \<sigma>' b) = (if ok' then t else mb_cap ?rb)"
        using resize_by_copy_ring [OF inv1, of t] go t f1 by (metis (no_types, lifting))
      then show ?thesis using that eq copy ring_becomes_trans [OF r1] by simp
    qed
  qed
qed

section \<open>The operations on the contents\<close>

lemma notify_usage_ring:
  "ring_becomes b xs \<sigma>0 \<sigma> \<Longrightarrow> ring_becomes b xs \<sigma>0 (notify_usage b n \<sigma>)"
  "mb_cap (g_bufs (notify_usage b n \<sigma>) b) = mb_cap (g_bufs \<sigma> b)"
  by (auto simp: notify_usage_def Let_def mem_buffer_notify_lowmem_frame intro: ring_becomes_notify)

text \<open>A growth keeps the contents, and after a successful one the incoming bytes fit.\<close>

lemma mem_buffer_maybe_grow_ring:
  assumes inv: "ring_inv b \<sigma>" and n: "0 < n" "n < 2 ^ 23"
  obtains ok \<sigma>' where "mem_buffer_maybe_grow b n \<sigma> = Some (ok, \<sigma>')"
    and "ring_becomes b (ring_of (g_bufs \<sigma> b)) \<sigma> \<sigma>'"
    and "ok \<Longrightarrow> u_0 (g_bufs \<sigma> b) + n \<le> mb_cap (g_bufs \<sigma>' b)"
proof -
  let ?rb = "g_bufs \<sigma> b"
  define needed where "needed = u_0 ?rb + n"
  define \<sigma>1 where "\<sigma>1 = notify_usage b needed \<sigma>"
  have ok: "ring_ok ?rb" using inv by (simp add: ring_inv_def)
  then have w: "wrap (u_0 ?rb + n) = needed" and mx: "mb_max_cap ?rb \<noteq> MEM_SIZE_MAX"
    using n by (auto simp: ring_ok_def needed_def intro!: wrap_id)
  have r1: "ring_becomes b (ring_of ?rb) \<sigma> \<sigma>1"
    using ring_becomes_refl [OF inv] by (simp add: \<sigma>1_def notify_usage_ring)
  have c1: "mb_cap (g_bufs \<sigma>1 b) = mb_cap ?rb" by (simp add: \<sigma>1_def notify_usage_ring)
  have inv1: "ring_inv b \<sigma>1" using inv r1 by (rule ring_becomes_inv)
  have of1: "ring_of (g_bufs \<sigma>1 b) = ring_of ?rb" using r1 by (simp add: ring_becomes_def)
  let ?crit = "mem_buffer_notify_lowmem b needed MEM_PRESSURE_CRITICAL"
  define t0 t where "t0 = grow_target ?rb needed" and "t = (if mb_max_cap ?rb < t0 then mb_max_cap ?rb else t0)"
  have t0: "needed \<le> t0" by (simp add: t0_def grow_target_def Let_def)
  have eq: "mem_buffer_maybe_grow b n \<sigma> =
      (if lock_size_flag (mb_flags ?rb) then Some (needed \<le> mb_cap ?rb, if mb_cap ?rb < needed then ?crit \<sigma>1 else \<sigma>1)
       else if needed \<le> mb_cap ?rb \<and> needed < threshold_bytes (mb_cap ?rb) (mb_grow_pct ?rb) then Some (True, \<sigma>1)
       else if mb_max_cap ?rb < t0 \<and> t < needed then Some (False, ?crit \<sigma>1)
       else do { (ok, \<sigma>) \<leftarrow> mem_buffer_resize b t \<sigma>1; Some (ok, if ok then \<sigma> else ?crit \<sigma>) })"
    unfolding mem_buffer_maybe_grow_def Let_def w using mx by (simp add: \<sigma>1_def t0_def t_def)
  consider (lock) "lock_size_flag (mb_flags ?rb)"
    | (fits) "\<not> lock_size_flag (mb_flags ?rb)" "needed \<le> mb_cap ?rb \<and> needed < threshold_bytes (mb_cap ?rb) (mb_grow_pct ?rb)"
    | (full) "\<not> lock_size_flag (mb_flags ?rb)" "\<not> (needed \<le> mb_cap ?rb \<and> needed < threshold_bytes (mb_cap ?rb) (mb_grow_pct ?rb))"
        "mb_max_cap ?rb < t0 \<and> t < needed"
    | (grow) "\<not> lock_size_flag (mb_flags ?rb)" "\<not> (needed \<le> mb_cap ?rb \<and> needed < threshold_bytes (mb_cap ?rb) (mb_grow_pct ?rb))"
        "\<not> (mb_max_cap ?rb < t0 \<and> t < needed)" by blast
  then show ?thesis
  proof cases
    case lock
    then show ?thesis
      using that [of "needed \<le> mb_cap ?rb" "if mb_cap ?rb < needed then ?crit \<sigma>1 else \<sigma>1"] eq r1 c1
        ring_becomes_notify [OF r1] by (simp add: needed_def)
  next
    case fits
    then show ?thesis using that eq r1 c1 by (auto simp: needed_def)
  next
    case full
    then show ?thesis using that [of False] eq ring_becomes_notify [OF r1] by simp
  next
    case grow
    have t: "needed \<le> t" using grow t0 by (auto simp: t_def)
    have "0 < t" using t n by (simp add: needed_def)
    then obtain ok' \<sigma>2 where r2: "mem_buffer_resize b t \<sigma>1 = Some (ok', \<sigma>2)"
      "ring_becomes b (ring_of ?rb) \<sigma>1 \<sigma>2" "mb_cap (g_bufs \<sigma>2 b) = (if ok' then t else mb_cap (g_bufs \<sigma>1 b))"
      using mem_buffer_resize_ring [OF inv1] of1 by metis
    then have "ring_becomes b (ring_of ?rb) \<sigma> \<sigma>2" using r1 ring_becomes_trans by blast
    moreover have "mem_buffer_maybe_grow b n \<sigma> = Some (ok', if ok' then \<sigma>2 else ?crit \<sigma>2)"
      unfolding eq using grow r2(1) by auto
    ultimately show ?thesis
      using that [of ok' "if ok' then \<sigma>2 else ?crit \<sigma>2"] r2(3) t ring_becomes_notify by (simp add: needed_def)
  qed
qed

lemma ring_push:
  assumes ok: "ring_ok rb" and fit: "u_0 rb + length d \<le> mb_cap rb"
  obtains a where "write_around rb (wrap (u_1 rb + u_0 rb) mod mb_cap rb) d = Some a"
    and "wrap (u_0 rb + length d) = u_0 rb + length d"
    and "ring_ok (rb\<lparr>mb_buf := a, u_0 := u_0 rb + length d\<rparr>)"
    and "ring_of (rb\<lparr>mb_buf := a, u_0 := u_0 rb + length d\<rparr>) = ring_of rb @ d"
proof -
  let ?c = "mb_cap rb" and ?pos = "(u_1 rb + u_0 rb) mod mb_cap rb"
  have w: "wrap (u_1 rb + u_0 rb) = u_1 rb + u_0 rb" "wrap (u_0 rb + length d) = u_0 rb + length d"
    using ok fit by (auto simp: ring_ok_def intro!: wrap_id)
  have c: "0 < ?c" "length (mb_buf rb) = ?c" "length d \<le> ?c" using ok fit by (auto simp: ring_ok_def)
  obtain a where a: "write_around rb ?pos d = Some a" "length a = ?c"
    "\<And>i. i < ?c \<Longrightarrow> a ! ((?pos + i) mod ?c) = (if i < length d then d ! i else mb_buf rb ! ((?pos + i) mod ?c))"
    using write_around_eq [of rb ?pos d] c by auto
  have "ring_of (rb\<lparr>mb_buf := a, u_0 := u_0 rb + length d\<rparr>) = ring_of rb @ d"
  proof (rule nth_equalityI)
    fix i assume "i < length (ring_of (rb\<lparr>mb_buf := a, u_0 := u_0 rb + length d\<rparr>))"
    then have i: "i < u_0 rb + length d" by simp
    have "a ! ((u_1 rb + i) mod ?c) = (ring_of rb @ d) ! i"
    proof (cases "i < u_0 rb")
      case True
      have e: "(?pos + (?c - u_0 rb + i)) mod ?c = (u_1 rb + i) mod ?c"
      proof -
        have "(?pos + (?c - u_0 rb + i)) mod ?c = (u_1 rb + u_0 rb + (?c - u_0 rb + i)) mod ?c"
          by (simp add: mod_add_left_eq)
        also have "u_1 rb + u_0 rb + (?c - u_0 rb + i) = u_1 rb + i + ?c" using fit by simp
        finally show ?thesis by simp
      qed
      have "?c - u_0 rb + i < ?c" "\<not> ?c - u_0 rb + i < length d" using True fit by auto
      then have "a ! ((u_1 rb + i) mod ?c) = mb_buf rb ! ((u_1 rb + i) mod ?c)"
        using a(3) [of "?c - u_0 rb + i"] e by simp
      with True show ?thesis by (simp add: nth_append ring_of_def)
    next
      case False
      have "(?pos + (i - u_0 rb)) mod ?c = (u_1 rb + i) mod ?c"
        using False mod_add_left_eq [of "u_1 rb + u_0 rb" ?c "i - u_0 rb"] by simp
      moreover have "i - u_0 rb < length d" "i - u_0 rb < ?c" using False i fit by auto
      ultimately show ?thesis using a(3) [of "i - u_0 rb"] False by (simp add: nth_append)
    qed
    with i show "ring_of (rb\<lparr>mb_buf := a, u_0 := u_0 rb + length d\<rparr>) ! i = (ring_of rb @ d) ! i"
      by (simp add: ring_of_def)
  qed simp
  then show ?thesis using that a w ok fit by (simp add: ring_ok_def)
qed

lemma mem_buffer_push_ring:
  assumes inv: "ring_inv b \<sigma>" and d: "length d < 2 ^ 23"
  obtains ok \<sigma>' where "mem_buffer_push (Some b) d \<sigma> = Some (ok, \<sigma>')"
    and "ring_becomes b (if ok then ring_of (g_bufs \<sigma> b) @ d else ring_of (g_bufs \<sigma> b)) \<sigma> \<sigma>'"
proof (cases "d = []")
  case True
  then show ?thesis using that [of False \<sigma>] ring_becomes_refl [OF inv] by (simp add: mem_buffer_push_def)
next
  case False
  let ?rb = "g_bufs \<sigma> b"
  have mt: "\<not> malloc_type (mb_flags ?rb)" using inv by (simp add: ring_inv_def ring_ok_def)
  obtain ok \<sigma>1 where g: "mem_buffer_maybe_grow b (length d) \<sigma> = Some (ok, \<sigma>1)"
    "ring_becomes b (ring_of ?rb) \<sigma> \<sigma>1" "ok \<Longrightarrow> u_0 ?rb + length d \<le> mb_cap (g_bufs \<sigma>1 b)"
    using mem_buffer_maybe_grow_ring [OF inv] False d by (metis length_greater_0_conv)
  show ?thesis
  proof (cases ok)
    case False
    with g mt \<open>d \<noteq> []\<close> show ?thesis using that [of False \<sigma>1] by (simp add: mem_buffer_push_def)
  next
    case True
    let ?r1 = "g_bufs \<sigma>1 b"
    have r1: "ring_ok ?r1" "ring_of ?r1 = ring_of ?rb" using g(2) by (simp_all add: ring_becomes_def)
    then have "u_0 ?r1 = u_0 ?rb" by (metis length_ring_of)
    with g(3) True obtain a where a: "write_around ?r1 (wrap (u_1 ?r1 + u_0 ?r1) mod mb_cap ?r1) d = Some a"
      "wrap (u_0 ?r1 + length d) = u_0 ?r1 + length d"
      "ring_ok (?r1\<lparr>mb_buf := a, u_0 := u_0 ?r1 + length d\<rparr>)"
      "ring_of (?r1\<lparr>mb_buf := a, u_0 := u_0 ?r1 + length d\<rparr>) = ring_of ?r1 @ d"
      using ring_push [OF r1(1), of d] by auto
    define \<sigma>2 where "\<sigma>2 = buf_upd b (\<lambda>m. m\<lparr>mb_buf := a, u_0 := u_0 ?r1 + length d\<rparr>) \<sigma>1"
    have "mb_cap ?r1 \<noteq> 0" using r1 by (simp add: ring_ok_def)
    then have "mem_buffer_push (Some b) d \<sigma> = Some (True, \<sigma>2)"
      using g(1) True mt \<open>d \<noteq> []\<close> a by (simp add: mem_buffer_push_def \<sigma>2_def)
    moreover have "ring_becomes b (ring_of ?rb @ d) \<sigma> \<sigma>2"
      using g(2) a r1 by (simp add: ring_becomes_def \<sigma>2_def)
    ultimately show ?thesis using that by simp
  qed
qed

lemma ring_pop:
  assumes ok: "ring_ok rb" and n: "n \<le> u_0 rb"
    and a: "length a = mb_cap rb"
      "\<And>i. n \<le> i \<Longrightarrow> i < mb_cap rb \<Longrightarrow> a ! ((u_1 rb + i) mod mb_cap rb) = mb_buf rb ! ((u_1 rb + i) mod mb_cap rb)"
  defines "rb' \<equiv> rb\<lparr>mb_buf := a, u_1 := (u_1 rb + n) mod mb_cap rb, u_0 := u_0 rb - n\<rparr>"
  shows "ring_ok rb'" and "ring_of rb' = drop n (ring_of rb)"
proof -
  show "ring_ok rb'" using ok a by (auto simp: ring_ok_def rb'_def)
  show "ring_of rb' = drop n (ring_of rb)"
  proof (rule nth_equalityI)
    fix i assume "i < length (ring_of rb')"
    then have i: "i < u_0 rb - n" by (simp add: rb'_def)
    then have "n + i < u_0 rb" by linarith
    then have "n + i < mb_cap rb" using ok unfolding ring_ok_def by linarith
    have "((u_1 rb + n) mod mb_cap rb + i) mod mb_cap rb = (u_1 rb + (n + i)) mod mb_cap rb"
      by (simp add: mod_add_left_eq add.assoc)
    with a(2) [of "n + i"] i \<open>n + i < u_0 rb\<close> \<open>n + i < mb_cap rb\<close> show "ring_of rb' ! i = drop n (ring_of rb) ! i"
      by (simp add: ring_of_def rb'_def)
  qed (simp add: rb'_def)
qed

lemma mem_buffer_maybe_shrink_ring:
  assumes inv: "ring_inv b \<sigma>"
  obtains \<sigma>' where "mem_buffer_maybe_shrink b w \<sigma> = Some \<sigma>'" and "ring_becomes b (ring_of (g_bufs \<sigma> b)) \<sigma> \<sigma>'"
proof -
  let ?rb = "g_bufs \<sigma> b"
  have keep0: "ring_becomes b (ring_of ?rb) \<sigma> \<sigma>" using inv by (rule ring_becomes_refl)
  have upd: "ring_becomes b xs \<sigma> (buf_upd b f \<sigma>1)"
    if "ring_becomes b xs \<sigma> \<sigma>1" "\<And>m. same_ring m (f m)" for xs f \<sigma>1
    using that by (auto intro: ring_becomes_same)
  have same: "same_ring m (reset_shrink m)" "same_ring m (next_stage m)" "same_ring m (m\<lparr>mb_hits := h\<rparr>)" for m h
    by (simp_all add: same_ring_def reset_shrink_def next_stage_def Let_def)
  define hits where "hits = (mb_hits ?rb + 1) mod 65536"
  define \<sigma>1 where "\<sigma>1 = buf_upd b (\<lambda>m. m\<lparr>mb_hits := hits\<rparr>) \<sigma>"
  define t where "t = (if mb_cap ?rb - mb_step ?rb < u_0 ?rb then u_0 ?rb else mb_cap ?rb - mb_step ?rb)"
  have r1: "ring_becomes b (ring_of ?rb) \<sigma> \<sigma>1" using upd [OF keep0] same by (simp add: \<sigma>1_def)
  have inv1: "ring_inv b \<sigma>1" using inv r1 by (rule ring_becomes_inv)
  have of1: "ring_of (g_bufs \<sigma>1 b) = ring_of ?rb" using r1 by (simp add: ring_becomes_def)
  let ?stay = "lock_size_flag (mb_flags ?rb) \<or> mb_step ?rb = 0 \<or> mb_cap ?rb \<le> mb_step ?rb \<or> \<not> w \<or> u_1 ?rb \<noteq> 0"
  have eq: "mem_buffer_maybe_shrink b w \<sigma> =
      (if ?stay then Some \<sigma>
       else if threshold_bytes (mb_cap ?rb) (mb_shrink_pct ?rb) < u_0 ?rb then Some (buf_upd b reset_shrink \<sigma>)
       else if mb_hold_count ?rb = 0 then Some \<sigma>
       else if hits < mb_hold_next ?rb then Some \<sigma>1
       else do { (ok, \<sigma>) \<leftarrow> mem_buffer_resize b t \<sigma>1; Some (buf_upd b next_stage \<sigma>) })"
    unfolding mem_buffer_maybe_shrink_def Let_def hits_def \<sigma>1_def t_def by (rule refl)
  show ?thesis
  proof (cases "?stay")
    case True
    then show ?thesis using that eq keep0 by simp
  next
    case False
    then have "0 < t" by (auto simp: t_def)
    then obtain ok \<sigma>2 where r2: "mem_buffer_resize b t \<sigma>1 = Some (ok, \<sigma>2)" "ring_becomes b (ring_of ?rb) \<sigma>1 \<sigma>2"
      using mem_buffer_resize_ring [OF inv1] of1 by metis
    then have "ring_becomes b (ring_of ?rb) \<sigma> (buf_upd b next_stage \<sigma>2)"
      using upd [OF ring_becomes_trans [OF r1 r2(2)]] same by simp
    then show ?thesis using that eq False keep0 r1 r2(1) upd [OF keep0 same(1)] by (auto split: if_splits)
  qed
qed

lemma mem_buffer_pop_ring:
  assumes inv: "ring_inv b \<sigma>"
  obtains \<sigma>' where "mem_buffer_pop (Some b) n \<sigma> =
      Some (if n \<le> u_0 (g_bufs \<sigma> b) then take n (ring_of (g_bufs \<sigma> b)) else [], \<sigma>')"
    and "ring_becomes b (if n \<le> u_0 (g_bufs \<sigma> b) then drop n (ring_of (g_bufs \<sigma> b)) else ring_of (g_bufs \<sigma> b)) \<sigma> \<sigma>'"
proof (cases "n = 0 \<or> u_0 (g_bufs \<sigma> b) < n")
  case True
  then show ?thesis using that [of \<sigma>] ring_becomes_refl [OF inv] by (auto simp: mem_buffer_pop_def)
next
  case False
  let ?rb = "g_bufs \<sigma> b" and ?c = "mb_cap (g_bufs \<sigma> b)"
  have ok: "ring_ok ?rb" using inv by (simp add: ring_inv_def)
  then have c: "0 < ?c" "length (mb_buf ?rb) = ?c" "u_1 ?rb < ?c" "n \<le> ?c" "\<not> malloc_type (mb_flags ?rb)"
    and w: "wrap (u_1 ?rb + n) = u_1 ?rb + n"
    using False by (auto simp: ring_ok_def intro!: wrap_id)
  have out: "read_around ?rb (u_1 ?rb) n = Some (take n (ring_of ?rb))"
    using c False by (simp add: read_around_eq ring_of_def take_map)
  obtain a where a: "(if secure_mode (mb_flags ?rb) then write_around ?rb (u_1 ?rb) (replicate n nul) else Some (mb_buf ?rb)) = Some a"
    "length a = ?c" "\<And>i. n \<le> i \<Longrightarrow> i < ?c \<Longrightarrow> a ! ((u_1 ?rb + i) mod ?c) = mb_buf ?rb ! ((u_1 ?rb + i) mod ?c)"
  proof (cases "secure_mode (mb_flags ?rb)")
    case True
    then show ?thesis using that write_around_eq [of ?rb "u_1 ?rb" "replicate n nul"] c
      by (metis (no_types, lifting) length_replicate not_le)
  qed (use that c in auto)
  define \<sigma>1 where "\<sigma>1 = buf_upd b (\<lambda>m. m\<lparr>mb_buf := a, u_1 := (u_1 ?rb + n) mod ?c, u_0 := u_0 ?rb - n\<rparr>) \<sigma>"
  have r1: "ring_becomes b (drop n (ring_of ?rb)) \<sigma> \<sigma>1"
    using ring_pop [OF ok _ a(2,3)] False by (simp add: ring_becomes_def \<sigma>1_def)
  then have "ring_inv b \<sigma>1" "ring_of (g_bufs \<sigma>1 b) = drop n (ring_of ?rb)"
    using ring_becomes_inv [OF inv] by (simp_all add: ring_becomes_def)
  then obtain \<sigma>2 where s: "mem_buffer_maybe_shrink b (?c \<le> u_1 ?rb + n) \<sigma>1 = Some \<sigma>2"
    "ring_becomes b (drop n (ring_of ?rb)) \<sigma>1 \<sigma>2" using mem_buffer_maybe_shrink_ring by metis
  have "ring_becomes b (drop n (ring_of ?rb)) \<sigma> (mem_pressure_maybe_clear b \<sigma>2)"
    using ring_becomes_trans [OF r1 s(2)] mem_pressure_maybe_clear_frame(2) [of b \<sigma>2]
    by (elim exE ring_becomes_same) (auto simp: mem_pressure_maybe_clear_frame(1))
  moreover have "mem_buffer_pop (Some b) n \<sigma> = Some (take n (ring_of ?rb), mem_pressure_maybe_clear b \<sigma>2)"
    using False c w out a(1) s(1) by (simp add: mem_buffer_pop_def Let_def \<sigma>1_def)
  ultimately show ?thesis using that False by simp
qed

lemma mem_buffer_peek_ring:
  assumes inv: "ring_inv b \<sigma>" and n: "offset + n < 2 ^ 24"
  shows "mem_buffer_peek (Some b) offset n \<sigma> =
    Some (if 0 < n \<and> offset + n \<le> u_0 (g_bufs \<sigma> b) then Some (take n (drop offset (ring_of (g_bufs \<sigma> b)))) else None)"
proof (cases "n = 0 \<or> u_0 (g_bufs \<sigma> b) < offset + n")
  case True
  with n show ?thesis by (auto simp: mem_buffer_peek_def Let_def)
next
  case False
  let ?rb = "g_bufs \<sigma> b" and ?c = "mb_cap (g_bufs \<sigma> b)"
  have ok: "ring_ok ?rb" using inv by (simp add: ring_inv_def)
  then have c: "0 < ?c" "length (mb_buf ?rb) = ?c" "n \<le> ?c" and w: "wrap (u_1 ?rb + offset) = u_1 ?rb + offset"
    using False by (auto simp: ring_ok_def intro!: wrap_id)
  have "map (\<lambda>i. mb_buf ?rb ! (((u_1 ?rb + offset) mod ?c + i) mod ?c)) [0 ..< n] = take n (drop offset (ring_of ?rb))"
    using False by (intro nth_equalityI) (auto simp: ring_of_def mod_add_left_eq add.assoc)
  then show ?thesis using False c w n by (simp add: mem_buffer_peek_def Let_def read_around_eq)
qed

lemma mem_buffer_reserve_ring:
  assumes inv: "ring_inv b \<sigma>" and n: "n < 2 ^ 23"
  obtains ok \<sigma>' where "mem_buffer_reserve (Some b) n \<sigma> = Some (ok, \<sigma>')"
    and "ring_becomes b (ring_of (g_bufs \<sigma> b)) \<sigma> \<sigma>'"
proof (cases "n = 0")
  case True
  then show ?thesis using that [of False \<sigma>] ring_becomes_refl [OF inv] by (simp add: mem_buffer_reserve_def)
next
  case False
  then have "mem_buffer_reserve (Some b) n \<sigma> = mem_buffer_maybe_grow b n \<sigma>"
    using inv by (simp add: mem_buffer_reserve_def ring_inv_def ring_ok_def)
  moreover obtain ok \<sigma>' where "mem_buffer_maybe_grow b n \<sigma> = Some (ok, \<sigma>')" "ring_becomes b (ring_of (g_bufs \<sigma> b)) \<sigma> \<sigma>'"
    using mem_buffer_maybe_grow_ring [OF inv, of n] False n by blast
  ultimately show ?thesis using that by simp
qed

section \<open>Room in a ring\<close>

text \<open>The bytes fit and stay below the mark from which on the ring grows.\<close>

definition roomy :: "nat \<Rightarrow> nat \<Rightarrow> mem_state \<Rightarrow> bool" where
  "roomy b n \<sigma> \<longleftrightarrow> (let rb = g_bufs \<sigma> b in u_0 rb + n \<le> mb_cap rb \<and>
     (lock_size_flag (mb_flags rb) \<or> u_0 rb + n < threshold_bytes (mb_cap rb) (mb_grow_pct rb)))"

definition room_used :: "nat \<Rightarrow> nat \<Rightarrow> mem_state \<Rightarrow> mem_state \<Rightarrow> bool" where
  "room_used b n \<sigma> \<sigma>' \<longleftrightarrow> (\<forall>k. roomy b (n + k) \<sigma> \<longrightarrow> roomy b k \<sigma>')"

lemma notify_usage_room: "room_used b 0 \<sigma> (notify_usage b n \<sigma>)"
  by (simp add: room_used_def roomy_def notify_usage_def Let_def mem_buffer_notify_lowmem_frame)

lemma maybe_grow_room:
  assumes "ring_inv b \<sigma>" and "roomy b n \<sigma>"
  shows "mem_buffer_maybe_grow b n \<sigma> = Some (True, notify_usage b (u_0 (g_bufs \<sigma> b) + n) \<sigma>)"
proof -
  have "u_0 (g_bufs \<sigma> b) + n \<le> 2 ^ 23" using assms by (auto simp: ring_inv_def ring_ok_def roomy_def Let_def)
  then have w: "wrap (u_0 (g_bufs \<sigma> b) + n) = u_0 (g_bufs \<sigma> b) + n" by (simp add: wrap_def)
  show ?thesis using assms(2) by (cases "lock_size_flag (mb_flags (g_bufs \<sigma> b))") (simp_all add: mem_buffer_maybe_grow_def roomy_def Let_def w)
qed

lemma reserve_room:
  assumes "ring_inv b \<sigma>" and "roomy b n \<sigma>" and "0 < n"
  obtains \<sigma>' where "mem_buffer_reserve (Some b) n \<sigma> = Some (True, \<sigma>')" and "room_used b 0 \<sigma> \<sigma>'"
  using assms that notify_usage_room maybe_grow_room [OF assms(1,2)]
  by (simp add: mem_buffer_reserve_def ring_inv_def ring_ok_def)

lemma push_room:
  assumes inv: "ring_inv b \<sigma>" and room: "roomy b (length d) \<sigma>" and d: "0 < length d"
  obtains \<sigma>' where "mem_buffer_push (Some b) d \<sigma> = Some (True, \<sigma>')" and "room_used b (length d) \<sigma> \<sigma>'"
proof -
  have "length d \<le> 2 ^ 23" using inv room by (auto simp: ring_inv_def ring_ok_def roomy_def Let_def)
  define \<sigma>1 where "\<sigma>1 = notify_usage b (u_0 (g_bufs \<sigma> b) + length d) \<sigma>"
  have inv1: "ring_inv b \<sigma>1"
    using ring_becomes_inv [OF inv notify_usage_ring(1) [OF ring_becomes_refl [OF inv]]] by (simp add: \<sigma>1_def)
  have u1: "u_0 (g_bufs \<sigma>1 b) = u_0 (g_bufs \<sigma> b)" "mb_cap (g_bufs \<sigma>1 b) = mb_cap (g_bufs \<sigma> b)"
    "mb_flags (g_bufs \<sigma>1 b) = mb_flags (g_bufs \<sigma> b)" "mb_grow_pct (g_bufs \<sigma>1 b) = mb_grow_pct (g_bufs \<sigma> b)"
    by (simp_all add: \<sigma>1_def notify_usage_def Let_def mem_buffer_notify_lowmem_frame)
  have ok1: "ring_ok (g_bufs \<sigma>1 b)" "u_0 (g_bufs \<sigma>1 b) + length d \<le> mb_cap (g_bufs \<sigma>1 b)"
    using inv1 room u1 by (simp_all add: ring_inv_def roomy_def Let_def)
  from ring_push [OF ok1] obtain a where
    a: "write_around (g_bufs \<sigma>1 b) (wrap (u_1 (g_bufs \<sigma>1 b) + u_0 (g_bufs \<sigma>1 b)) mod mb_cap (g_bufs \<sigma>1 b)) d = Some a"
      "wrap (u_0 (g_bufs \<sigma>1 b) + length d) = u_0 (g_bufs \<sigma>1 b) + length d" by blast
  have p: "d \<noteq> []" "\<not> malloc_type (mb_flags (g_bufs \<sigma> b))" "mb_cap (g_bufs \<sigma>1 b) \<noteq> 0"
    using d inv ok1 by (auto simp: ring_inv_def ring_ok_def)
  show thesis
  proof (rule that)
    show "mem_buffer_push (Some b) d \<sigma> =
        Some (True, buf_upd b (\<lambda>m. m\<lparr>mb_buf := a, u_0 := u_0 (g_bufs \<sigma>1 b) + length d\<rparr>) \<sigma>1)"
      using p a maybe_grow_room [OF inv room] by (simp add: mem_buffer_push_def Let_def \<sigma>1_def [symmetric])
  qed (simp add: room_used_def roomy_def Let_def u1 add.assoc)
qed

section \<open>The interface of a byte queue\<close>

text \<open>
  What a client of a ring may rely on: every operation returns, keeps the invariant, and acts on
  the contents as on a list. A push may be refused, and then nothing has changed.
\<close>

locale byte_queue =
  fixes inv :: "'s \<Rightarrow> bool" and contents :: "'s \<Rightarrow> bytes"
    and push :: "bytes \<Rightarrow> 's \<Rightarrow> (bool \<times> 's) option" and pop :: "nat \<Rightarrow> 's \<Rightarrow> (bytes \<times> 's) option"
    and peek :: "nat \<Rightarrow> nat \<Rightarrow> 's \<Rightarrow> bytes option option" and reserve :: "nat \<Rightarrow> 's \<Rightarrow> (bool \<times> 's) option"
  assumes push: "\<lbrakk>inv s; length d < 2 ^ 23\<rbrakk> \<Longrightarrow>
      \<exists>ok s'. push d s = Some (ok, s') \<and> inv s' \<and> contents s' = (if ok then contents s @ d else contents s)"
    and pop: "inv s \<Longrightarrow>
      \<exists>s'. pop n s = Some (if n \<le> length (contents s) then take n (contents s) else [], s') \<and> inv s' \<and>
           contents s' = (if n \<le> length (contents s) then drop n (contents s) else contents s)"
    and peek: "\<lbrakk>inv s; i + n < 2 ^ 24\<rbrakk> \<Longrightarrow>
      peek i n s = Some (if 0 < n \<and> i + n \<le> length (contents s) then Some (take n (drop i (contents s))) else None)"
    and reserve: "\<lbrakk>inv s; n < 2 ^ 23\<rbrakk> \<Longrightarrow> \<exists>ok s'. reserve n s = Some (ok, s') \<and> inv s' \<and> contents s' = contents s"

text \<open>A run of pushes and pops: the bytes accepted and the bytes handed out, in order.\<close>

datatype queue_op = Op_push bytes | Op_pop nat

fun run_queue :: "(bytes \<Rightarrow> 's \<Rightarrow> (bool \<times> 's) option) \<Rightarrow> (nat \<Rightarrow> 's \<Rightarrow> (bytes \<times> 's) option) \<Rightarrow>
    queue_op list \<Rightarrow> 's \<Rightarrow> (bytes \<times> bytes \<times> 's) option" where
  "run_queue push pop [] s = Some ([], [], s)"
| "run_queue push pop (Op_push d # ops) s = do {
     (ok, s) \<leftarrow> push d s;
     (i, o', s) \<leftarrow> run_queue push pop ops s;
     Some (if ok then d @ i else i, o', s) }"
| "run_queue push pop (Op_pop n # ops) s = do {
     (d, s) \<leftarrow> pop n s;
     (i, o', s) \<leftarrow> run_queue push pop ops s;
     Some (i, d @ o', s) }"

fun op_size :: "queue_op \<Rightarrow> nat" where
  "op_size (Op_push d) = length d"
| "op_size (Op_pop n) = 0"

context byte_queue
begin

lemma fifo:
  assumes "inv s" and "\<forall>x \<in> set ops. op_size x < 2 ^ 23"
  shows "\<exists>i out s'. run_queue push pop ops s = Some (i, out, s') \<and> inv s' \<and> contents s @ i = out @ contents s'"
  using assms
proof (induction ops arbitrary: s)
  case Nil
  then show ?case by simp
next
  case (Cons x ops)
  then have rest: "\<forall>x \<in> set ops. op_size x < 2 ^ 23" by simp
  show ?case
  proof (cases x)
    case (Op_push d)
    then obtain ok s1 where s1: "push d s = Some (ok, s1)" "inv s1" "contents s1 = (if ok then contents s @ d else contents s)"
      using push Cons.prems by force
    with Cons.IH [OF s1(2) rest] Op_push show ?thesis by auto
  next
    case (Op_pop n)
    then obtain d s1 where s1: "pop n s = Some (d, s1)" "inv s1" "contents s = d @ contents s1"
      using pop [OF Cons.prems(1), of n] by (metis append_Nil append_take_drop_id)
    moreover obtain i out s' where "run_queue push pop ops s1 = Some (i, out, s')" "inv s'" "contents s1 @ i = out @ contents s'"
      using Cons.IH [OF s1(2) rest] by blast
    ultimately show ?thesis using Op_pop by simp
  qed
qed

text \<open>Two pieces pushed one after the other, both accepted, are one piece.\<close>

lemma push_both:
  assumes "inv s" and "length h < 2 ^ 23" and "length d < 2 ^ 23"
  shows "\<exists>o1 s1 o2 s2. push h s = Some (o1, s1) \<and> push d s1 = Some (o2, s2) \<and> inv s1 \<and> inv s2 \<and>
     contents s1 = (if o1 then contents s @ h else contents s) \<and>
     contents s2 = (if o2 then contents s1 @ d else contents s1)"
  using assms push by metis

lemma pop_front:
  assumes "inv s" and "contents s = x @ y"
  shows "\<exists>s'. pop (length x) s = Some (x, s') \<and> inv s' \<and> contents s' = y"
  using pop [OF assms(1), of "length x"] assms(2) by simp

end

interpretation rq: byte_queue "ring_inv b" "\<lambda>\<sigma>. ring_of (g_bufs \<sigma> b)" "mem_buffer_push (Some b)" "mem_buffer_pop (Some b)"
    "mem_buffer_peek (Some b)" "mem_buffer_reserve (Some b)" for b
proof (unfold_locales, goal_cases)
  case (1 \<sigma> d)
  obtain ok \<sigma>' where "mem_buffer_push (Some b) d \<sigma> = Some (ok, \<sigma>')"
    and r: "ring_becomes b (if ok then ring_of (g_bufs \<sigma> b) @ d else ring_of (g_bufs \<sigma> b)) \<sigma> \<sigma>'"
    by (rule mem_buffer_push_ring [OF 1])
  with ring_becomes_inv [OF 1(1) r] ring_becomesD [OF r] show ?case by simp
next
  case (2 \<sigma> n)
  obtain \<sigma>' where "mem_buffer_pop (Some b) n \<sigma> =
      Some (if n \<le> u_0 (g_bufs \<sigma> b) then take n (ring_of (g_bufs \<sigma> b)) else [], \<sigma>')"
    and r: "ring_becomes b (if n \<le> u_0 (g_bufs \<sigma> b) then drop n (ring_of (g_bufs \<sigma> b)) else ring_of (g_bufs \<sigma> b)) \<sigma> \<sigma>'"
    by (rule mem_buffer_pop_ring [OF 2])
  with ring_becomes_inv [OF 2 r] ring_becomesD [OF r] show ?case by simp
next
  case (3 \<sigma> i n)
  then show ?case using mem_buffer_peek_ring by simp
next
  case (4 \<sigma> n)
  obtain ok \<sigma>' where "mem_buffer_reserve (Some b) n \<sigma> = Some (ok, \<sigma>')"
    and r: "ring_becomes b (ring_of (g_bufs \<sigma> b)) \<sigma> \<sigma>'" by (rule mem_buffer_reserve_ring [OF 4])
  with ring_becomes_inv [OF 4(1) r] ring_becomesD [OF r] show ?case by simp
qed

section \<open>Properties\<close>

text \<open>An example state: a budget of 4096 bytes, and a ring of 16 bytes that may grow to 64.\<close>

definition example_env :: mem_env where
  "example_env = \<lparr>em_malloc = (\<lambda>l n. Some (1000 + 100 * length l, replicate n nul)),
     em_realloc = (\<lambda>l a n. Some (a, replicate n nul)), em_sizeof = 60\<rparr>"

definition blank_buffer :: mem_buffer where
  "blank_buffer = \<lparr>mb_addr = 0, mb_buf = [], mb_cap = 0, mb_max_cap = 0, mb_owner = MEM_BUF_OWNER_UNKNOWN,
     mb_flags = \<lparr>secure_mode = False, lock_size_flag = False, malloc_type = False\<rparr>, mb_last_level = MEM_PRESSURE_NONE,
     mb_step = 0, mb_grow_pct = 0, mb_shrink_pct = 0, mb_hold_count = 0, mb_hold_base = 0, mb_hold_next = 0, mb_stage = 0,
     mb_hits = 0, mb_low_cb = False, mb_drain = False, u_0 = 0, u_1 = 0, u_2 = 0, mb_bitmap = None, mb_bitmap_bytes = 0\<rparr>"

definition mem_zero :: mem_state where
  "mem_zero = \<lparr>g_max_heap = 0, g_heap_used = 0, g_step = 0, g_grow_pct = 0, g_shrink_pct = 0, g_hold_count = 0,
     g_has_malloc = False, g_has_realloc = False, g_internal_cb = False, g_ready = False, g_lwip_heap = None,
     g_lwip_pools = [], g_hook_eth = False, g_hook_tls = False, g_glob_active = False, g_eth_active = False,
     g_tls_active = False, g_glob_level = MEM_PRESSURE_NONE, g_eth_level = MEM_PRESSURE_NONE,
     g_tls_level = MEM_PRESSURE_NONE, g_eth_eff = MEM_PRESSURE_NONE, g_tls_eff = MEM_PRESSURE_NONE, g_clear_pct = 50,
     g_bufs = (\<lambda>_. blank_buffer), g_next = 0, g_log = [], g_env = example_env\<rparr>"

definition example_ring :: "nat \<Rightarrow> nat \<Rightarrow> nat \<Rightarrow> mem_state" where
  "example_ring budget c mx = (let \<sigma> = snd (mem_init budget True True True mem_zero);
     (r, \<sigma>) = mem_buffer_create c mx 0 \<lparr>secure_mode = False, lock_size_flag = False, malloc_type = False\<rparr> False \<sigma>
     in mem_buffer_set_shrink r 30 c (mem_buffer_set_grow r 85 c \<sigma>))"

lemmas example_ring_defs = example_ring_def mem_zero_def mem_init_def mem_buffer_create_def mem_buffer_charge_def Let_def call_malloc_def
  example_env_def blank_buffer_def mem_log_def buf_upd_def fresh_buffer_def mem_buffer_set_shrink_def mem_buffer_set_grow_def wrap_def

lemma example_ring_inv:
  assumes "76 \<le> budget" and "budget < 2 ^ 24"
  shows "ring_inv 0 (example_ring budget 16 64)"
  using assms by (simp add: ring_inv_def ring_ok_def alloc_ok_def example_ring_defs)

lemma alloc_ok_example: "alloc_ok example_env"
  by (simp add: alloc_ok_def example_env_def)

text \<open>C4. A ring buffer is a first-in first-out queue of bytes: for any run of pushes and pops on a
  well-formed ring no operation leaves the block, and the bytes handed out followed by the bytes
  still in the ring are the bytes that were in the ring followed by the bytes accepted. This holds
  through wrap-around, growth and shrinking, with any answers of the allocator.\<close>

theorem ring_fifo:
  assumes "ring_inv b \<sigma>" and "\<forall>x \<in> set ops. op_size x < 2 ^ 23"
  shows "\<exists>i out \<sigma>'. run_queue (mem_buffer_push (Some b)) (mem_buffer_pop (Some b)) ops \<sigma> = Some (i, out, \<sigma>') \<and>
    ring_inv b \<sigma>' \<and> ring_of (g_bufs \<sigma> b) @ i = out @ ring_of (g_bufs \<sigma>' b)"
  by (rule rq.fifo [OF assms])

theorem ring_fifo_witness:
  "ring_inv 0 (example_ring 4096 16 64) \<and>
   (\<exists>i out \<sigma>'. run_queue (mem_buffer_push (Some 0)) (mem_buffer_pop (Some 0))
      [Op_push ''abcdefghijkl'', Op_pop 10, Op_push ''mnopqrstuv'', Op_pop 12] (example_ring 4096 16 64) = Some (i, out, \<sigma>') \<and>
    ring_inv 0 \<sigma>' \<and> ring_of (g_bufs (example_ring 4096 16 64) 0) @ i = out @ ring_of (g_bufs \<sigma>' 0))"
proof -
  have inv: "ring_inv 0 (example_ring 4096 16 64)" by (simp add: example_ring_inv)
  have ops: "\<forall>x \<in> set [Op_push ''abcdefghijkl'', Op_pop 10, Op_push ''mnopqrstuv'', Op_pop 12]. op_size x < 2 ^ 23"
    by simp
  show ?thesis by (rule conjI [OF inv ring_fifo [OF inv ops]])
qed

end
