(* ===== verification/Mem_Budget.thy ===== *)
theory Mem_Budget
  imports Mem_Ring
begin

text \<open>
  The heap budget: what the buffers occupy, their structures, blocks and bitmaps, is never more than
  what has been charged, and that is never more than the budget.
\<close>

section \<open>What an operation may change\<close>

definition bitmap_size :: "mem_buffer \<Rightarrow> nat" where
  "bitmap_size m = (if mb_bitmap m = None then 0 else mb_bitmap_bytes m)"

definition budget :: "mem_state \<Rightarrow> nat \<times> nat \<times> nat \<times> nat \<times> (nat \<Rightarrow> nat \<times> nat \<times> nat)" where
  "budget \<sigma> = (g_heap_used \<sigma>, g_max_heap \<sigma>, em_sizeof (g_env \<sigma>), g_next \<sigma>,
     \<lambda>b. (mb_cap (g_bufs \<sigma> b), mb_max_cap (g_bufs \<sigma> b), bitmap_size (g_bufs \<sigma> b)))"

lemma budget_eqs:
  assumes "budget \<sigma>' = budget \<sigma>"
  shows "g_heap_used \<sigma>' = g_heap_used \<sigma>" "g_max_heap \<sigma>' = g_max_heap \<sigma>" "em_sizeof (g_env \<sigma>') = em_sizeof (g_env \<sigma>)"
    "g_next \<sigma>' = g_next \<sigma>" "mb_cap (g_bufs \<sigma>' b) = mb_cap (g_bufs \<sigma> b)" "mb_max_cap (g_bufs \<sigma>' b) = mb_max_cap (g_bufs \<sigma> b)"
    "bitmap_size (g_bufs \<sigma>' b) = bitmap_size (g_bufs \<sigma> b)"
  using assms by (auto simp: budget_def dest: fun_cong [where x = b])

lemma budget_log [simp]: "budget (mem_log e \<sigma>) = budget \<sigma>"
  by (simp add: budget_def mem_log_def)

lemma budget_buf_upd:
  assumes "mb_cap (f (g_bufs \<sigma> b)) = mb_cap (g_bufs \<sigma> b)" "mb_max_cap (f (g_bufs \<sigma> b)) = mb_max_cap (g_bufs \<sigma> b)"
    "bitmap_size (f (g_bufs \<sigma> b)) = bitmap_size (g_bufs \<sigma> b)"
  shows "budget (buf_upd b f \<sigma>) = budget \<sigma>"
  using assms by (auto simp: budget_def buf_upd_def)

lemma g_next_simps [simp]: "g_next (buf_upd b f \<sigma>) = g_next \<sigma>" "g_next (mem_log e \<sigma>) = g_next \<sigma>" "g_next (mem_buffer_release n \<sigma>) = g_next \<sigma>"
  by (simp_all add: buf_upd_def mem_log_def mem_buffer_release_def)

lemma budget_effective [simp]: "budget (mem_pressure_update_effective \<sigma>) = budget \<sigma>"
  by (simp add: mem_pressure_update_effective_def Let_def budget_def mem_log_def)

lemma budget_flags [simp]:
  "budget (\<sigma>\<lparr>g_glob_active := a, g_glob_level := l\<rparr>) = budget \<sigma>" "budget (\<sigma>\<lparr>g_eth_active := a, g_eth_level := l\<rparr>) = budget \<sigma>"
  "budget (\<sigma>\<lparr>g_tls_active := a, g_tls_level := l\<rparr>) = budget \<sigma>" "budget (\<sigma>\<lparr>g_hook_eth := a\<rparr>) = budget \<sigma>" "budget (\<sigma>\<lparr>g_hook_tls := a\<rparr>) = budget \<sigma>"
  "budget (\<sigma>\<lparr>g_internal_cb := a\<rparr>) = budget \<sigma>" "budget (\<sigma>\<lparr>g_clear_pct := n\<rparr>) = budget \<sigma>" "budget (\<sigma>\<lparr>g_lwip_heap := h\<rparr>) = budget \<sigma>"
  "budget (\<sigma>\<lparr>g_lwip_pools := ps\<rparr>) = budget \<sigma>"
  by (simp_all add: budget_def)

lemma budget_mark [simp]: "budget (mem_pressure_mark b l \<sigma>) = budget \<sigma>"
  by (simp add: mem_pressure_mark_def split: mem_buffer_owner.split)

lemma budget_level [simp]: "budget (buf_upd b (\<lambda>m. m\<lparr>mb_last_level := l\<rparr>) \<sigma>) = budget \<sigma>"
  by (rule budget_buf_upd) (simp_all add: bitmap_size_def)

lemma budget_notify [simp]: "budget (mem_buffer_notify_lowmem b r l \<sigma>) = budget \<sigma>"
  by (simp add: mem_buffer_notify_lowmem_def Let_def)

lemma budget_maybe_clear [simp]: "budget (mem_pressure_maybe_clear b \<sigma>) = budget \<sigma>"
  by (simp add: mem_pressure_maybe_clear_def Let_def split: mem_buffer_owner.split)

lemma budget_notify_usage [simp]: "budget (notify_usage b n \<sigma>) = budget \<sigma>"
  by (simp add: notify_usage_def Let_def)

section \<open>Accounts\<close>

definition occupied :: "mem_state \<Rightarrow> nat \<Rightarrow> nat" where
  "occupied \<sigma> b = em_sizeof (g_env \<sigma>) + mb_cap (g_bufs \<sigma> b) + bitmap_size (g_bufs \<sigma> b)"

text \<open>The live buffers \<open>L\<close> and \<open>k\<close> bytes more are covered by what has been charged, within the budget \<open>N\<close>.\<close>

definition accounted :: "nat \<Rightarrow> nat set \<Rightarrow> nat \<Rightarrow> mem_state \<Rightarrow> bool" where
  "accounted N L k \<sigma> \<longleftrightarrow> finite L \<and> (\<forall>b \<in> L. b < g_next \<sigma> \<and> mb_max_cap (g_bufs \<sigma> b) \<le> 2 ^ 23) \<and> em_sizeof (g_env \<sigma>) \<le> 2 ^ 16 \<and>
     g_max_heap \<sigma> = N \<and> 0 < N \<and> N < 2 ^ 23 \<and> sum (occupied \<sigma>) L + k \<le> g_heap_used \<sigma> \<and> g_heap_used \<sigma> \<le> N"

lemma accounted_cong:
  assumes "budget \<sigma>' = budget \<sigma>"
  shows "accounted N L k \<sigma>' = accounted N L k \<sigma>"
proof -
  note e = budget_eqs [OF assms]
  have "sum (occupied \<sigma>') L = sum (occupied \<sigma>) L" using e by (simp add: occupied_def)
  then show ?thesis using e by (simp add: accounted_def)
qed

lemma accounted_less: "accounted N L (k + n) \<sigma> \<Longrightarrow> accounted N L k \<sigma>"
  by (simp add: accounted_def)

lemma accounted_charge:
  assumes "mem_buffer_charge n \<sigma> = (ok, \<sigma>')" and "accounted N L k \<sigma>" and "n \<le> 2 ^ 23"
  shows "accounted N L (if ok then k + n else k) \<sigma>'" and "g_bufs \<sigma>' = g_bufs \<sigma>" and "g_env \<sigma>' = g_env \<sigma>" and "g_next \<sigma>' = g_next \<sigma>" and "\<not> ok \<Longrightarrow> \<sigma>' = \<sigma>"
proof -
  have w: "wrap (g_heap_used \<sigma> + n) = g_heap_used \<sigma> + n" using assms(2,3) by (simp add: accounted_def wrap_def)
  have "sum (occupied (\<sigma>\<lparr>g_heap_used := h\<rparr>)) L = sum (occupied \<sigma>) L" for h by (simp add: occupied_def)
  then show "accounted N L (if ok then k + n else k) \<sigma>'"
    using assms w by (auto simp: mem_buffer_charge_def accounted_def split: if_splits)
  show "g_bufs \<sigma>' = g_bufs \<sigma>" "g_env \<sigma>' = g_env \<sigma>" "g_next \<sigma>' = g_next \<sigma>" "\<not> ok \<Longrightarrow> \<sigma>' = \<sigma>"
    using assms(1) by (auto simp: mem_buffer_charge_def split: if_splits)
qed

lemma accounted_release: "accounted N L (k + n) \<sigma> \<Longrightarrow> accounted N L k (mem_buffer_release n \<sigma>)"
  by (auto simp: accounted_def mem_buffer_release_def occupied_def)

lemma accounted_buffer:
  assumes "accounted N L k \<sigma>" and "b \<in> L" and "mb_max_cap (f (g_bufs \<sigma> b)) \<le> 2 ^ 23"
    and "mb_cap (f (g_bufs \<sigma> b)) + bitmap_size (f (g_bufs \<sigma> b)) + k' = mb_cap (g_bufs \<sigma> b) + bitmap_size (g_bufs \<sigma> b) + k"
  shows "accounted N L k' (buf_upd b f \<sigma>)"
proof -
  have fin: "finite L" using assms(1) by (simp add: accounted_def)
  have "sum (occupied (buf_upd b f \<sigma>)) (L - {b}) = sum (occupied \<sigma>) (L - {b})"
    by (rule sum.cong) (auto simp: occupied_def)
  then have "sum (occupied (buf_upd b f \<sigma>)) L + k' = sum (occupied \<sigma>) L + k"
    using assms(4) sum.remove [OF fin assms(2), of "occupied \<sigma>"] sum.remove [OF fin assms(2), of "occupied (buf_upd b f \<sigma>)"]
    by (simp add: occupied_def)
  then show ?thesis using assms(1,3) by (auto simp: accounted_def buf_upd_def)
qed

section \<open>Resizing\<close>

lemma accounted_resized:
  assumes "accounted N L (t - mb_cap (g_bufs \<sigma> b)) \<sigma>" and "b \<in> L"
  shows "accounted N L 0 (resized b addr new t (mb_cap (g_bufs \<sigma> b) - t) \<sigma>)"
proof -
  let ?f = "\<lambda>m. m\<lparr>mb_addr := addr, mb_buf := new, mb_cap := t, u_1 := 0, mb_hits := 0, mb_stage := 0, mb_hold_next := mb_hold_base m\<rparr>"
  have "accounted N L (0 + (mb_cap (g_bufs \<sigma> b) - t)) (buf_upd b ?f \<sigma>)"
    using assms by (intro accounted_buffer [OF assms(1)]) (auto simp: accounted_def bitmap_size_def)
  from accounted_release [OF this] accounted_less [OF this] show ?thesis by (simp add: resized_def Let_def)
qed

lemma accounted_refund: "accounted N L n \<sigma> \<Longrightarrow> accounted N L 0 (refund n \<sigma>)"
  using accounted_release [of N L 0 n \<sigma>] by (cases "n = 0") (simp_all add: refund_def)

lemma budget_content: "budget (buf_upd b (\<lambda>m. m\<lparr>mb_buf := x\<rparr>) \<sigma>) = budget \<sigma>"
  by (rule budget_buf_upd) (simp_all add: bitmap_size_def)

lemma accounted_in_place:
  assumes r: "resize_in_place b t \<sigma> = Some (ok, \<sigma>')" and acc: "accounted N L (t - mb_cap (g_bufs \<sigma> b)) \<sigma>" and b: "b \<in> L"
  shows "accounted N L 0 \<sigma>'"
proof -
  let ?c = "mb_cap (g_bufs \<sigma> b)"
  from r obtain old where old: "(if secure_mode (mb_flags (g_bufs \<sigma> b)) \<and> 0 < ?c - t
      then store_bytes t (replicate (?c - t) nul) (mb_buf (g_bufs \<sigma> b)) else Some (mb_buf (g_bufs \<sigma> b))) = Some old"
    by (auto simp: resize_in_place_def Let_def bind_eq_Some_conv)
  define \<sigma>1 where "\<sigma>1 = mem_log (Ev_realloc (mb_addr (g_bufs \<sigma> b)) t) (buf_upd b (\<lambda>m. m\<lparr>mb_buf := old\<rparr>) \<sigma>)"
  have \<sigma>1: "accounted N L (t - ?c) \<sigma>1" "mb_cap (g_bufs \<sigma>1 b) = ?c"
    using acc accounted_cong [OF budget_content, of N L "t - ?c" b old \<sigma>] accounted_cong [OF budget_log] by (simp_all add: \<sigma>1_def)
  have n: "accounted N L (t - ?c) (mem_buffer_notify_lowmem b t MEM_PRESSURE_CRITICAL \<sigma>1)"
    using \<sigma>1(1) accounted_cong [OF budget_notify] by blast
  from accounted_resized [OF \<sigma>1(1) [folded \<sigma>1(2)] b, unfolded \<sigma>1(2)] accounted_refund [OF n] r old show ?thesis
    by (auto simp: resize_in_place_def Let_def call_realloc_def \<sigma>1_def [symmetric] split: option.splits)
qed

lemma accounted_by_copy:
  assumes r: "resize_by_copy b t \<sigma> = Some (ok, \<sigma>')" and acc: "accounted N L (t - mb_cap (g_bufs \<sigma> b)) \<sigma>" and b: "b \<in> L"
  shows "accounted N L 0 \<sigma>'"
proof -
  let ?c = "mb_cap (g_bufs \<sigma> b)"
  have log: "accounted N L (t - ?c) (mem_log e \<sigma>)" "accounted N L (t - ?c) (mem_log e (mem_log e' \<sigma>))" for e e'
    using acc accounted_cong [OF budget_log] by blast+
  have "accounted N L 0 (resized b addr new t (?c - t) (mem_log e (mem_log e' \<sigma>)))" for addr new e e'
    using accounted_resized [of N L t "mem_log e (mem_log e' \<sigma>)" b addr new] log(2) b by simp
  with accounted_refund [OF log(1)] r show ?thesis
    by (auto simp: resize_by_copy_def Let_def call_malloc_def bind_eq_Some_conv split: option.splits)
qed

lemma accounted_resize:
  assumes r: "mem_buffer_resize b t \<sigma> = Some (ok, \<sigma>')" and acc: "accounted N L 0 \<sigma>" and b: "b \<in> L"
  shows "accounted N L 0 \<sigma>'"
proof (cases "t < u_0 (g_bufs \<sigma> b) \<or> t = mb_cap (g_bufs \<sigma> b) \<or> lock_size_flag (mb_flags (g_bufs \<sigma> b)) \<or> mb_max_cap (g_bufs \<sigma> b) < t")
  case True
  have "mb_max_cap (g_bufs \<sigma> b) \<noteq> MEM_SIZE_MAX" using acc b by (auto simp: accounted_def)
  with True r acc show ?thesis by (auto simp: mem_buffer_resize_def Let_def split: if_splits)
next
  case False
  define grow where "grow = t - mb_cap (g_bufs \<sigma> b)"
  obtain ok1 \<sigma>1 where c: "(if 0 < grow then mem_buffer_charge grow \<sigma> else (True, \<sigma>)) = (ok1, \<sigma>1)" by fastforce
  have "grow \<le> 2 ^ 23" using False acc b by (auto simp: accounted_def grow_def)
  then have \<sigma>1: "accounted N L (if ok1 then grow else 0) \<sigma>1" "g_bufs \<sigma>1 = g_bufs \<sigma>"
    using c acc accounted_charge [of grow \<sigma> ok1 \<sigma>1 N L 0] by (auto split: if_splits)
  have "(if \<not> ok1 then Some (False, \<sigma>1) else if g_has_realloc \<sigma>1 \<and> u_1 (g_bufs \<sigma> b) = 0 \<and> u_0 (g_bufs \<sigma> b) \<le> mb_cap (g_bufs \<sigma> b)
      then resize_in_place b t \<sigma>1 else resize_by_copy b t \<sigma>1) = Some (ok, \<sigma>')"
    using r False c unfolding mem_buffer_resize_def Let_def grow_def by (auto split: if_splits)
  then show ?thesis using \<sigma>1 accounted_in_place [OF _ _ b, of t \<sigma>1 ok \<sigma>'] accounted_by_copy [OF _ _ b, of t \<sigma>1 ok \<sigma>']
    by (auto simp: grow_def split: if_splits)
qed

section \<open>Rings and pools\<close>

lemma accounted_view: "budget \<sigma>' = budget \<sigma> \<Longrightarrow> accounted N L k \<sigma> \<Longrightarrow> accounted N L k \<sigma>'"
  using accounted_cong by blast

lemma accounted_grow:
  assumes "mem_buffer_maybe_grow b n \<sigma> = Some (ok, \<sigma>')" and "accounted N L 0 \<sigma>" and "b \<in> L"
  shows "accounted N L 0 \<sigma>'"
proof -
  have u: "accounted N L 0 (notify_usage b k \<sigma>)" for k using assms(2) by (simp add: accounted_cong [OF budget_notify_usage])
  have notify: "accounted N L 0 (mem_buffer_notify_lowmem b k l \<sigma>1)" if "accounted N L 0 \<sigma>1" for k l \<sigma>1
    using that by (simp add: accounted_cong [OF budget_notify])
  from assms(1) show ?thesis
    using u notify accounted_resize [OF _ u assms(3)]
    by (auto simp: mem_buffer_maybe_grow_def Let_def bind_eq_Some_conv split: if_splits)
qed

lemma accounted_reserve:
  "mem_buffer_reserve (Some b) n \<sigma> = Some (ok, \<sigma>') \<Longrightarrow> accounted N L 0 \<sigma> \<Longrightarrow> b \<in> L \<Longrightarrow> accounted N L 0 \<sigma>'"
  by (auto simp: mem_buffer_reserve_def split: if_splits intro: accounted_grow)

lemma budget_ring: "budget (buf_upd b (\<lambda>m. m\<lparr>mb_buf := x, u_0 := i\<rparr>) \<sigma>) = budget \<sigma>"
  "budget (buf_upd b (\<lambda>m. m\<lparr>mb_buf := x, u_1 := j, u_0 := i\<rparr>) \<sigma>) = budget \<sigma>"
  "budget (buf_upd b (\<lambda>m. m\<lparr>mb_hits := h\<rparr>) \<sigma>) = budget \<sigma>" "budget (buf_upd b reset_shrink \<sigma>) = budget \<sigma>"
  "budget (buf_upd b next_stage \<sigma>) = budget \<sigma>" "budget (buf_upd b (\<lambda>m. next_stage (m\<lparr>u_1 := c m\<rparr>)) \<sigma>) = budget \<sigma>"
  by (rule budget_buf_upd; simp add: bitmap_size_def reset_shrink_def next_stage_def Let_def)+

lemma accounted_push:
  assumes "mem_buffer_push (Some b) d \<sigma> = Some (ok, \<sigma>')" and "accounted N L 0 \<sigma>" and "b \<in> L"
  shows "accounted N L 0 \<sigma>'"
  using assms accounted_grow [OF _ assms(2,3), of "length d"]
  by (auto simp: mem_buffer_push_def Let_def bind_eq_Some_conv accounted_cong [OF budget_ring(1)] split: if_splits)

lemma accounted_shrink:
  assumes "mem_buffer_maybe_shrink b w \<sigma> = Some \<sigma>'" and "accounted N L 0 \<sigma>" and "b \<in> L"
  shows "accounted N L 0 \<sigma>'"
proof -
  have hits: "accounted N L 0 (buf_upd b (\<lambda>m. m\<lparr>mb_hits := h\<rparr>) \<sigma>)" for h using assms(2) by (simp add: accounted_cong [OF budget_ring(3)])
  show ?thesis using assms hits accounted_resize [OF _ hits assms(3)]
    by (auto simp: mem_buffer_maybe_shrink_def Let_def bind_eq_Some_conv accounted_cong [OF budget_ring(4)] accounted_cong [OF budget_ring(5)]
        split: if_splits)
qed

lemma accounted_pop:
  assumes "mem_buffer_pop (Some b) n \<sigma> = Some (out, \<sigma>')" and "accounted N L 0 \<sigma>" and "b \<in> L"
  shows "accounted N L 0 \<sigma>'"
proof -
  have upd: "accounted N L 0 (buf_upd b (\<lambda>m. m\<lparr>mb_buf := x, u_1 := j, u_0 := i\<rparr>) \<sigma>)" for x j i
    using assms(2) by (simp add: accounted_cong [OF budget_ring(2)])
  show ?thesis using assms accounted_shrink [OF _ upd assms(3)]
    by (auto simp: mem_buffer_pop_def Let_def bind_eq_Some_conv accounted_cong [OF budget_maybe_clear] split: if_splits)
qed

lemma budget_pool:
  assumes "mb_bitmap (g_bufs \<sigma> b) \<noteq> None"
  shows "budget (buf_upd b (\<lambda>m. m\<lparr>mb_bitmap := Some bm, mb_buf := x, u_2 := n\<rparr>) \<sigma>) = budget \<sigma>"
    and "budget (buf_upd b (\<lambda>m. m\<lparr>mb_buf := x, mb_bitmap := Some bm, u_2 := n\<rparr>) \<sigma>) = budget \<sigma>"
  using assms by (auto intro!: budget_buf_upd simp: bitmap_size_def)

lemma budget_malloc: "mem_buffer_malloc mb n \<sigma> = Some (r, \<sigma>') \<Longrightarrow> budget \<sigma>' = budget \<sigma>"
  by (auto simp: mem_buffer_malloc_def Let_def bind_eq_Some_conv budget_pool split: option.splits if_splits)

lemma accounted_pool_shrink:
  assumes "pool_maybe_shrink b \<sigma> = Some \<sigma>'" and "accounted N L 0 \<sigma>" and "b \<in> L"
  shows "accounted N L 0 \<sigma>'"
proof -
  have hits: "accounted N L 0 (buf_upd b (\<lambda>m. m\<lparr>mb_hits := h\<rparr>) \<sigma>)" for h using assms(2) by (simp add: accounted_cong [OF budget_ring(3)])
  show ?thesis using assms hits accounted_resize [OF _ hits assms(3)]
    by (auto simp: pool_maybe_shrink_def Let_def bind_eq_Some_conv accounted_cong [OF budget_maybe_clear] accounted_cong [OF budget_ring(4)]
        accounted_cong [OF budget_ring(6)] split: if_splits)
qed

lemma accounted_free:
  assumes "mem_buffer_free (Some b) ptr \<sigma> = Some \<sigma>'" and "accounted N L 0 \<sigma>" and "b \<in> L"
  shows "accounted N L 0 \<sigma>'"
proof -
  have upd: "accounted N L 0 (buf_upd b (\<lambda>m. m\<lparr>mb_buf := x, mb_bitmap := Some bm, u_2 := n\<rparr>) \<sigma>)" if "mb_bitmap (g_bufs \<sigma> b) \<noteq> None" for x bm n
    using assms(2) by (simp add: accounted_cong [OF budget_pool(2) [OF that]])
  show ?thesis using assms accounted_pool_shrink [OF _ upd assms(3)]
    by (auto simp: mem_buffer_free_def Let_def bind_eq_Some_conv split: if_splits)
qed

text \<open>The allocator lwIP uses.\<close>

lemma budget_malloc_large: "malloc_large n is pref \<sigma> = Some (r, pref', \<sigma>') \<Longrightarrow> budget \<sigma>' = budget \<sigma>"
proof (induction "is" arbitrary: pref \<sigma>)
  case (Cons i "is")
  from Cons.prems show ?case
    by (auto simp: Let_def bind_eq_Some_conv split: if_splits option.splits dest!: budget_malloc Cons.IH)
qed simp

lemma budget_malloc_small: "malloc_small n is \<sigma> = Some (r, \<sigma>') \<Longrightarrow> budget \<sigma>' = budget \<sigma>"
proof (induction "is" arbitrary: \<sigma>)
  case (Cons i "is")
  from Cons.prems show ?case
    by (auto simp: Let_def bind_eq_Some_conv split: if_splits option.splits dest!: budget_malloc Cons.IH)
qed simp

lemma budget_custom_malloc: "mem_buffer_custom_malloc n \<sigma> = Some (r, \<sigma>') \<Longrightarrow> budget \<sigma>' = budget \<sigma>"
  by (auto simp: mem_buffer_custom_malloc_def bind_eq_Some_conv split: if_splits option.splits
      dest!: budget_malloc budget_malloc_large budget_malloc_small)

lemma budget_clear_at: "clear_at i ptr n \<sigma> = Some \<sigma>' \<Longrightarrow> budget \<sigma>' = budget \<sigma>"
  by (auto simp: clear_at_def bind_eq_Some_conv budget_content)

lemma budget_custom_calloc:
  assumes "mem_buffer_custom_calloc count n \<sigma> = Some (r, \<sigma>')"
  shows "budget \<sigma>' = budget \<sigma>"
proof (cases "count = 0 \<or> n = 0 \<or> MEM_SIZE_MAX div count < n")
  case False
  with assms obtain r1 \<sigma>1 where r1: "mem_buffer_custom_malloc (count * n) \<sigma> = Some (r1, \<sigma>1)"
    by (auto simp: mem_buffer_custom_calloc_def bind_eq_Some_conv)
  with assms False have "budget \<sigma>' = budget \<sigma>1"
    by (cases r1) (auto simp: mem_buffer_custom_calloc_def bind_eq_Some_conv dest: budget_clear_at)
  with budget_custom_malloc [OF r1] show ?thesis by simp
qed (use assms in \<open>auto simp: mem_buffer_custom_calloc_def\<close>)

lemma free_in_pools_mem: "free_in_pools ptr is \<sigma> = Some i \<Longrightarrow> i \<in> set is"
  by (induction "is") (auto simp: Let_def split: if_splits)

lemma accounted_custom_free:
  assumes "mem_buffer_custom_free ptr \<sigma> = Some \<sigma>'" and "accounted N L 0 \<sigma>" and "set (g_lwip_pools \<sigma>) \<subseteq> L" and "set_option (g_lwip_heap \<sigma>) \<subseteq> L"
  shows "accounted N L 0 \<sigma>'"
  using assms accounted_free [OF _ assms(2)]
  by (cases "g_lwip_heap \<sigma>") (auto simp: mem_buffer_custom_free_def mem_buffer_free_def [of None] split: if_splits option.splits dest!: free_in_pools_mem)

section \<open>Creating and destroying\<close>

lemma accounted_other: "b \<notin> L \<Longrightarrow> accounted N L k (buf_upd b f \<sigma>) = accounted N L k \<sigma>"
proof -
  assume "b \<notin> L"
  then have "sum (occupied (buf_upd b f \<sigma>)) L = sum (occupied \<sigma>) L" by (intro sum.cong) (auto simp: occupied_def)
  with \<open>b \<notin> L\<close> show ?thesis by (auto simp: accounted_def buf_upd_def)
qed

lemma accounted_insert:
  assumes "accounted N L (k + occupied \<sigma> b) \<sigma>" and "b \<notin> L" and "b < g_next \<sigma>" and "mb_max_cap (g_bufs \<sigma> b) \<le> 2 ^ 23"
  shows "accounted N (insert b L) k \<sigma>"
  using assms by (auto simp: accounted_def)

lemma accounted_remove:
  assumes "accounted N L k \<sigma>" and "b \<in> L"
  shows "accounted N (L - {b}) (k + occupied \<sigma> b) \<sigma>"
proof -
  have "finite L" using assms(1) by (simp add: accounted_def)
  from sum.remove [OF this assms(2), of "occupied \<sigma>"] assms(1) show ?thesis by (simp add: accounted_def)
qed

lemma accounted_log: "accounted N L k (mem_log e \<sigma>) = accounted N L k \<sigma>"
  by (rule accounted_cong) simp

lemma accounted_destroy:
  assumes "accounted N L (k + occupied \<sigma> b) \<sigma>" and "b \<notin> L"
  shows "accounted N L k (mem_buffer_destroy (Some b) \<sigma>)"
proof -
  define old where "old = (if secure_mode (mb_flags (g_bufs \<sigma> b)) then replicate (mb_cap (g_bufs \<sigma> b)) nul @ drop (mb_cap (g_bufs \<sigma> b)) (mb_buf (g_bufs \<sigma> b))
    else mb_buf (g_bufs \<sigma> b))"
  let ?h = "em_sizeof (g_env \<sigma>)" and ?m = "bitmap_size (g_bufs \<sigma> b)"
  define \<sigma>1 where "\<sigma>1 = mem_buffer_release (mb_cap (g_bufs \<sigma> b)) (mem_log (Ev_free (mb_addr (g_bufs \<sigma> b)) old) \<sigma>)"
  have \<sigma>1: "accounted N L ((k + ?h) + ?m) \<sigma>1"
    unfolding \<sigma>1_def by (rule accounted_release) (use assms(1) in \<open>simp add: accounted_log occupied_def add_ac\<close>)
  define \<sigma>2 where "\<sigma>2 = (case mb_bitmap (g_bufs \<sigma> b) of None \<Rightarrow> \<sigma>1
    | Some bm \<Rightarrow> buf_upd b (\<lambda>m. m\<lparr>mb_bitmap := None, mb_bitmap_bytes := 0\<rparr>) (mem_buffer_release (mb_bitmap_bytes (g_bufs \<sigma> b)) (mem_log (Ev_free 0 []) \<sigma>1)))"
  have \<sigma>2: "accounted N L (k + ?h) \<sigma>2" "em_sizeof (g_env \<sigma>2) = ?h"
  proof -
    show "accounted N L (k + ?h) \<sigma>2"
    proof (cases "mb_bitmap (g_bufs \<sigma> b)")
      case None
      with \<sigma>1 show ?thesis by (simp add: \<sigma>2_def bitmap_size_def)
    next
      case (Some bm)
      have "accounted N L (k + ?h) (mem_buffer_release (mb_bitmap_bytes (g_bufs \<sigma> b)) (mem_log (Ev_free 0 []) \<sigma>1))"
        by (rule accounted_release) (use \<sigma>1 Some in \<open>simp add: accounted_log bitmap_size_def\<close>)
      with Some assms(2) show ?thesis by (simp add: \<sigma>2_def accounted_other)
    qed
    show "em_sizeof (g_env \<sigma>2) = ?h" by (simp add: \<sigma>2_def \<sigma>1_def split: option.split)
  qed
  have "accounted N L k (mem_buffer_release (em_sizeof (g_env \<sigma>2)) (mem_log (Ev_free 0 []) (buf_upd b (\<lambda>m. m\<lparr>mb_buf := []\<rparr>) \<sigma>2)))"
    by (rule accounted_release) (use \<sigma>2 assms(2) in \<open>simp add: accounted_log accounted_other\<close>)
  then show ?thesis unfolding mem_buffer_destroy_def option.case Let_def old_def [symmetric] \<sigma>1_def [symmetric] \<sigma>2_def [symmetric] .
qed

text \<open>A buffer under construction: its block has been charged, its bitmap not yet.\<close>

definition raw :: "nat \<Rightarrow> nat \<Rightarrow> mem_state \<Rightarrow> bool" where
  "raw b c \<sigma> \<longleftrightarrow> mb_cap (g_bufs \<sigma> b) = c \<and> mb_max_cap (g_bufs \<sigma> b) \<le> 2 ^ 23 \<and> mb_bitmap (g_bufs \<sigma> b) = None \<and> b < g_next \<sigma>"

lemma raw_occupied: "raw b c \<sigma> \<Longrightarrow> occupied \<sigma> b = em_sizeof (g_env \<sigma>) + c"
  by (simp add: raw_def occupied_def bitmap_size_def)

lemma create_pool_accounted:
  assumes "create_pool b lock_size \<sigma> = (ok, \<sigma>')" and acc: "accounted N L (em_sizeof (g_env \<sigma>) + c) \<sigma>" and raw: "raw b c \<sigma>" and b: "b \<notin> L" and c: "c \<le> 2 ^ 22"
  shows "accounted N (if ok then insert b L else L) 0 \<sigma>'"
proof -
  define bs where "bs = (if lock_size \<noteq> 0 then lock_size else mb_step (g_bufs \<sigma> b))"
  have dead: "accounted N L 0 (mem_buffer_destroy (Some b) \<sigma>1)"
    if "accounted N L (em_sizeof (g_env \<sigma>) + c) \<sigma>1" "raw b c \<sigma>1" "g_env \<sigma>1 = g_env \<sigma>" for \<sigma>1
    using accounted_destroy [of N L 0 \<sigma>1 b] raw_occupied [OF that(2)] that b by simp
  show ?thesis
  proof (cases "bs = 0 \<or> c < bs")
    case True
    with assms(1) dead [OF acc raw] raw show ?thesis by (auto simp: create_pool_def Let_def bs_def raw_def)
  next
    case False
    have cap_b: "mb_cap (g_bufs \<sigma> b) = c" using raw by (simp add: raw_def)
    define n where "n = c div bs"
    define bytes where "bytes = wrap (n + 7) div 8"
    define \<sigma>1 where "\<sigma>1 = buf_upd b (\<lambda>m. m\<lparr>u_0 := bs, u_1 := n, mb_bitmap_bytes := bytes\<rparr>) \<sigma>"
    have \<sigma>1: "accounted N L (em_sizeof (g_env \<sigma>) + c) \<sigma>1" "raw b c \<sigma>1" "g_env \<sigma>1 = g_env \<sigma>"
      using acc raw b by (simp_all add: \<sigma>1_def accounted_other raw_def)
    obtain ok1 \<sigma>2 where \<sigma>2: "mem_buffer_charge bytes \<sigma>1 = (ok1, \<sigma>2)" by fastforce
    have "n \<le> c" by (simp add: n_def)
    then have "n + 7 < 2 ^ 24" using c by simp
    then have "bytes \<le> 2 ^ 23" using \<open>n \<le> c\<close> c by (simp add: bytes_def wrap_def)
    note ch = accounted_charge [OF \<sigma>2 \<sigma>1(1) this]
    have eq: "create_pool b lock_size \<sigma> = (if \<not> ok1 then (False, mem_buffer_destroy (Some b) \<sigma>2)
        else case call_malloc bytes \<sigma>2 of (None, \<sigma>) \<Rightarrow> (False, mem_buffer_destroy (Some b) (mem_buffer_release bytes \<sigma>))
          | (Some _, \<sigma>) \<Rightarrow> (True, buf_upd b (\<lambda>m. m\<lparr>mb_bitmap := Some (replicate bytes 0)\<rparr>) \<sigma>))"
      using False unfolding create_pool_def Let_def bs_def [symmetric] cap_b n_def [symmetric] bytes_def [symmetric] \<sigma>1_def [symmetric] \<sigma>2 prod.case
      by simp
    define \<sigma>3 where "\<sigma>3 = mem_log (Ev_malloc bytes) \<sigma>2"
    have raw3: "raw b c \<sigma>2" "raw b c \<sigma>3" "g_env \<sigma>3 = g_env \<sigma>" "g_bufs \<sigma>3 = g_bufs \<sigma>1" "g_next \<sigma>3 = g_next \<sigma>1"
      using \<sigma>1 ch(2-4) by (simp_all add: raw_def \<sigma>3_def)
    show ?thesis
    proof (cases ok1)
      case False
      with eq assms(1) ch(1,3) dead [OF _ raw3(1)] \<sigma>1(3) show ?thesis by auto
    next
      case True
      with ch(1) have acc3: "accounted N L (em_sizeof (g_env \<sigma>) + c + bytes) \<sigma>3" by (simp add: \<sigma>3_def accounted_log)
      have "raw b c (mem_buffer_release bytes \<sigma>3)" using raw3(2) by (simp add: raw_def mem_buffer_release_def)
      from dead [OF accounted_release [OF acc3] this] raw3(3) have "accounted N L 0 (mem_buffer_destroy (Some b) (mem_buffer_release bytes \<sigma>3))"
        by simp
      moreover have "accounted N (insert b L) 0 (buf_upd b (\<lambda>m. m\<lparr>mb_bitmap := Some (replicate bytes 0)\<rparr>) \<sigma>3)"
        using acc3 b raw3 \<sigma>1(2)
        by (intro accounted_insert) (simp_all add: accounted_other occupied_def raw_def bitmap_size_def \<sigma>1_def)
      ultimately show ?thesis using eq assms(1) True by (auto simp: call_malloc_def \<sigma>3_def [symmetric] split: option.splits)
    qed
  qed
qed

text \<open>A new block for a locked size.\<close>

definition block_again :: "nat \<Rightarrow> nat \<Rightarrow> mem_state \<Rightarrow> (nat \<times> bytes) option \<times> mem_state" where
  "block_again b c \<sigma> = (if g_has_realloc \<sigma>
     then case call_realloc (mb_addr (g_bufs \<sigma> b)) c \<sigma> of (r, \<sigma>') \<Rightarrow>
       (map_option (\<lambda>(a, extra). (a, take c (mb_buf (g_bufs \<sigma> b) @ drop (length (mb_buf (g_bufs \<sigma> b))) extra))) r, \<sigma>')
     else case call_malloc c \<sigma> of (r, \<sigma>') \<Rightarrow>
       (r, if r \<noteq> None then mem_log (Ev_free (mb_addr (g_bufs \<sigma> b)) (mb_buf (g_bufs \<sigma> b))) \<sigma>' else \<sigma>'))"

lemma block_again_log: "block_again b c \<sigma> = (r, \<sigma>') \<Longrightarrow> budget \<sigma>' = budget \<sigma> \<and> g_bufs \<sigma>' = g_bufs \<sigma> \<and> g_env \<sigma>' = g_env \<sigma>"
  by (auto simp: block_again_def call_realloc_def call_malloc_def split: if_splits)

lemma create_locked_accounted:
  assumes eq: "create_locked b initial \<sigma> = (ok, \<sigma>')" and acc: "accounted N L (em_sizeof (g_env \<sigma>) + initial) \<sigma>" and raw: "raw b c \<sigma>" and b: "b \<notin> L"
    and c: "c \<le> 2 ^ 22" "initial \<le> 2 ^ 22"
  shows "accounted N L (if ok then em_sizeof (g_env \<sigma>) + c else 0) \<sigma>' \<and> (ok \<longrightarrow> raw b c \<sigma>') \<and> g_env \<sigma>' = g_env \<sigma>"
proof -
  let ?h = "em_sizeof (g_env \<sigma>)"
  have cap_b: "mb_cap (g_bufs \<sigma> b) = c" using raw by (simp add: raw_def)
  have w: "wrap (?h + initial) = ?h + initial" using acc c by (simp add: accounted_def wrap_def)
  define drop_all where "drop_all \<sigma>1 = mem_buffer_release (?h + initial) (mem_log (Ev_free 0 []) (mem_log (Ev_free (mb_addr (g_bufs \<sigma> b)) (mb_buf (g_bufs \<sigma> b))) \<sigma>1))" for \<sigma>1
  have drop_all: "accounted N L 0 (drop_all \<sigma>1)" if "accounted N L (?h + initial) \<sigma>1" for \<sigma>1
    unfolding drop_all_def by (rule accounted_release) (use that in \<open>simp add: accounted_log\<close>)
  have env: "g_env (drop_all \<sigma>1) = g_env \<sigma>1" for \<sigma>1 by (simp add: drop_all_def)
  have block: "accounted N L k (buf_upd b (\<lambda>m. m\<lparr>mb_addr := a, mb_buf := x\<rparr>) \<sigma>1) = accounted N L k \<sigma>1" for k a x \<sigma>1
    using b by (rule accounted_other)
  have rawb: "raw b c (buf_upd b (\<lambda>m. m\<lparr>mb_addr := a, mb_buf := x\<rparr>) \<sigma>1)" if "g_bufs \<sigma>1 = g_bufs \<sigma>" "g_next \<sigma>1 = g_next \<sigma>" for a x \<sigma>1
    using raw that by (auto simp: raw_def)
  consider (grow) "initial < c" | (shrink) "c < initial" | (same) "c = initial" by linarith
  then show ?thesis
  proof cases
    case grow
    obtain ok1 \<sigma>1 where \<sigma>1: "mem_buffer_charge (c - initial) \<sigma> = (ok1, \<sigma>1)" by fastforce
    have "c - initial \<le> 2 ^ 23" using c by simp
    note ch = accounted_charge [OF \<sigma>1 acc this]
    obtain r \<sigma>2 where \<sigma>2: "block_again b c \<sigma>1 = (r, \<sigma>2)" by fastforce
    note ba = block_again_log [OF \<sigma>2]
    have "create_locked b initial \<sigma> = (if \<not> ok1 then (False, drop_all \<sigma>1)
        else case r of None \<Rightarrow> (False, drop_all (mem_buffer_release (c - initial) \<sigma>2))
          | Some (a, x) \<Rightarrow> (True, buf_upd b (\<lambda>m. m\<lparr>mb_addr := a, mb_buf := x\<rparr>) \<sigma>2))"
      using grow \<sigma>1 \<sigma>2 ch(2) by (auto simp: create_locked_def Let_def cap_b w drop_all_def block_again_def split: option.splits if_splits prod.splits)
    moreover have "accounted N L (?h + initial + (c - initial)) \<sigma>2" if ok1 using ch(1) that accounted_cong [OF ba [THEN conjunct1]] by simp
    moreover have "g_next \<sigma>2 = g_next \<sigma>" using budget_eqs(4) [of \<sigma>2 \<sigma>1] ba ch(4) by simp
    ultimately show ?thesis using eq grow ch(1-3) ba drop_all accounted_release [of N L "?h + initial" "c - initial" \<sigma>2] rawb [of \<sigma>2]
      by (cases ok1; cases r) (auto simp: env block)
  next
    case shrink
    obtain r \<sigma>2 where \<sigma>2: "block_again b c \<sigma> = (r, \<sigma>2)" by fastforce
    note ba = block_again_log [OF \<sigma>2]
    have "create_locked b initial \<sigma> = (case r of None \<Rightarrow> (True, \<sigma>2)
          | Some (a, x) \<Rightarrow> (True, mem_buffer_release (initial - c) (buf_upd b (\<lambda>m. m\<lparr>mb_addr := a, mb_buf := x\<rparr>) \<sigma>2)))"
      using shrink \<sigma>2 by (auto simp: create_locked_def Let_def cap_b block_again_def split: option.splits if_splits prod.splits)
    moreover have "accounted N L (?h + c + (initial - c)) \<sigma>2" using acc shrink accounted_cong [OF ba [THEN conjunct1]] by simp
    moreover have "g_next \<sigma>2 = g_next \<sigma>" using budget_eqs(4) [of \<sigma>2 \<sigma>] ba by simp
    ultimately show ?thesis
      using eq ba rawb [of \<sigma>2] raw accounted_less [of N L "?h + c" "initial - c" \<sigma>2] accounted_release [of N L "?h + c" "initial - c"]
      by (cases r) (auto simp: block raw_def)
  next
    case same
    with eq acc raw show ?thesis by (auto simp: create_locked_def Let_def cap_b)
  qed
qed

lemma accounted_fresh:
  assumes "accounted N L k \<sigma>"
  shows "accounted N L k (buf_upd (g_next \<sigma>) f (\<sigma>\<lparr>g_next := g_next \<sigma> + 1\<rparr>))" and "g_next \<sigma> \<notin> L"
proof -
  show n: "g_next \<sigma> \<notin> L" using assms by (auto simp: accounted_def)
  have "accounted N L k (\<sigma>\<lparr>g_next := g_next \<sigma> + 1\<rparr>)" using assms by (auto simp: accounted_def occupied_def)
  with n show "accounted N L k (buf_upd (g_next \<sigma>) f (\<sigma>\<lparr>g_next := g_next \<sigma> + 1\<rparr>))" by (simp add: accounted_other)
qed

lemma create_accounted:
  assumes eq: "mem_buffer_create initial max_cap lock_size fl low_cb \<sigma> = (r, \<sigma>')" and acc: "accounted N L 0 \<sigma>"
    and sizes: "initial \<le> 2 ^ 22" "lock_size \<le> 2 ^ 22" "max_cap \<le> 2 ^ 23"
  shows "accounted N (L \<union> set_option r) 0 \<sigma>'"
proof (cases "\<not> g_ready \<sigma> \<or> initial = 0 \<or> \<not> g_has_malloc \<sigma>")
  case True
  with eq acc show ?thesis by (auto simp: mem_buffer_create_def)
next
  case False
  let ?h = "em_sizeof (g_env \<sigma>)"
  have w: "wrap (?h + initial) = ?h + initial" "?h + initial \<le> 2 ^ 23" using acc sizes(1) by (simp_all add: accounted_def wrap_def)
  obtain ok \<sigma>1 where \<sigma>1: "mem_buffer_charge (?h + initial) \<sigma> = (ok, \<sigma>1)" by fastforce
  note ch = accounted_charge [OF \<sigma>1 acc w(2)]
  define \<sigma>2' where "\<sigma>2' = mem_log (Ev_malloc ?h) \<sigma>1"
  define \<sigma>2 where "\<sigma>2 = mem_log (Ev_malloc initial) \<sigma>2'"
  have env: "g_env \<sigma>2 = g_env \<sigma>" using ch(3) by (simp add: \<sigma>2_def \<sigma>2'_def)
  have undo: "accounted N L 0 (mem_buffer_release (?h + initial) \<sigma>2')" "accounted N L 0 (mem_buffer_release (?h + initial) (mem_log e \<sigma>2))" if ok for e
    by (rule accounted_release, use ch(1) that in \<open>simp add: \<sigma>2_def \<sigma>2'_def accounted_log\<close>)+
  define c where "c = (if lock_size_flag fl \<and> 0 < lock_size then lock_size else initial)"
  have c: "c \<le> 2 ^ 22" using sizes by (simp add: c_def)
  define b where "b = g_next \<sigma>2"
  define \<sigma>3 where "\<sigma>3 a x = buf_upd b (\<lambda>_. fresh_buffer a x c max_cap fl low_cb \<sigma>2) (\<sigma>2\<lparr>g_next := b + 1\<rparr>)" for a x
  have \<sigma>3: "accounted N L (?h + initial) (\<sigma>3 a x)" "b \<notin> L" "raw b c (\<sigma>3 a x)" "g_env (\<sigma>3 a x) = g_env \<sigma>" if ok for a x
    using accounted_fresh [of N L "?h + initial" \<sigma>2] ch(1) that sizes(3) c env
    by (simp_all add: \<sigma>3_def b_def \<sigma>2_def \<sigma>2'_def accounted_log raw_def fresh_buffer_def)
  define fin where "fin p = (case p of (ok, \<sigma>) \<Rightarrow> if \<not> ok then (None, \<sigma>) else if malloc_type fl
    then (case create_pool b lock_size \<sigma> of (ok, \<sigma>) \<Rightarrow> (if ok then Some b else None, \<sigma>)) else (Some b, \<sigma>))" for p :: "bool \<times> mem_state"
  have body: "mem_buffer_create initial max_cap lock_size fl low_cb \<sigma> =
      (if \<not> ok then (None, \<sigma>1) else case em_malloc (g_env \<sigma>1) (g_log \<sigma>1) ?h of None \<Rightarrow> (None, mem_buffer_release (?h + initial) \<sigma>2')
       | Some _ \<Rightarrow> (case em_malloc (g_env \<sigma>2') (g_log \<sigma>2') initial of None \<Rightarrow> (None, mem_buffer_release (?h + initial) (mem_log (Ev_free 0 []) \<sigma>2))
         | Some (a, x) \<Rightarrow> fin (if lock_size_flag fl \<and> c \<noteq> initial then create_locked b initial (\<sigma>3 a x) else (True, \<sigma>3 a x))))"
    using False unfolding mem_buffer_create_def Let_def w(1) \<sigma>1 prod.case call_malloc_def \<sigma>2'_def [symmetric] \<sigma>2_def [symmetric]
      c_def [symmetric] b_def [symmetric] \<sigma>3_def [symmetric] fin_def by (simp split: option.split)
  have finish: "accounted N (L \<union> set_option q) 0 \<sigma>5"
    if f: "fin (ok4, \<sigma>4) = (q, \<sigma>5)" and a: "accounted N L (if ok4 then ?h + c else 0) \<sigma>4" "ok4 \<longrightarrow> raw b c \<sigma>4" "g_env \<sigma>4 = g_env \<sigma>" "b \<notin> L" for ok4 \<sigma>4 q \<sigma>5
  proof (cases ok4)
    case True
    with a have r: "accounted N L (em_sizeof (g_env \<sigma>4) + c) \<sigma>4" "raw b c \<sigma>4" by simp_all
    obtain ok5 \<sigma>6 where p: "create_pool b lock_size \<sigma>4 = (ok5, \<sigma>6)" by fastforce
    have "accounted N (insert b L) 0 \<sigma>4"
      using accounted_insert [of N L 0 \<sigma>4 b] r a(4) raw_occupied [OF r(2)] by (simp add: raw_def)
    with create_pool_accounted [OF p r a(4) c] f True p show ?thesis by (auto simp: fin_def split: if_splits)
  qed (use f a(1) in \<open>auto simp: fin_def\<close>)
  have locked: "accounted N (L \<union> set_option q) 0 \<sigma>5"
    if "fin (if lock_size_flag fl \<and> c \<noteq> initial then create_locked b initial (\<sigma>3 a x) else (True, \<sigma>3 a x)) = (q, \<sigma>5)" ok for a x q \<sigma>5
  proof (cases "lock_size_flag fl \<and> c \<noteq> initial")
    case True
    obtain ok4 \<sigma>4 where l: "create_locked b initial (\<sigma>3 a x) = (ok4, \<sigma>4)" by fastforce
    note e3 = \<sigma>3(4) [OF that(2), of a x]
    from create_locked_accounted [OF l _ \<sigma>3(3) [OF that(2)] \<sigma>3(2) [OF that(2)] c sizes(1), unfolded e3, OF \<sigma>3(1) [OF that(2)]]
    show ?thesis using that(1) True l by (intro finish [of ok4 \<sigma>4]) (auto simp: \<sigma>3(2) [OF that(2)])
  next
    case False
    then have "c = initial" by (auto simp: c_def)
    with \<sigma>3(1,3,4) [OF that(2), of a x] \<sigma>3(2) [OF that(2)] that(1) False show ?thesis by (intro finish [of True "\<sigma>3 a x"]) simp_all
  qed
  show ?thesis
  proof (cases ok)
    case False
    with eq body ch(1) show ?thesis by auto
  next
    case True
    with eq body undo [OF True] locked [OF _ True] show ?thesis by (auto split: option.splits)
  qed
qed

section \<open>Runs\<close>

lemma budget_setters [simp]: "budget (mem_buffer_set_owner mb ow \<sigma>) = budget \<sigma>" "budget (mem_buffer_set_drain mb f \<sigma>) = budget \<sigma>"
  "budget (mem_buffer_set_grow mb pct step \<sigma>) = budget \<sigma>" "budget (mem_buffer_set_shrink mb pct step \<sigma>) = budget \<sigma>"
  "budget (mem_register_pressure_hook_eth_rx h \<sigma>) = budget \<sigma>" "budget (mem_register_pressure_hook_tls_rx h \<sigma>) = budget \<sigma>"
  "budget (mem_set_pressure_clear_pct pct \<sigma>) = budget \<sigma>" "budget (mem_set_internal_lowmem_cb h \<sigma>) = budget \<sigma>"
  by (auto simp: mem_buffer_set_owner_def mem_buffer_set_drain_def mem_buffer_set_grow_def mem_buffer_set_shrink_def mem_register_pressure_hook_eth_rx_def
      mem_register_pressure_hook_tls_rx_def mem_set_pressure_clear_pct_def mem_set_internal_lowmem_cb_def bitmap_size_def
      intro!: budget_buf_upd split: option.split)

lemma budget_set_heap [simp]: "budget (snd (mem_buffer_set_lwip_heap mb \<sigma>)) = budget \<sigma>"
  by (simp add: mem_buffer_set_lwip_heap_def split: option.split)

lemma sort_pools_set: "set (g_lwip_pools (mem_buffer_sort_pools \<sigma>)) = set (g_lwip_pools \<sigma>)"
proof -
  let ?n = "length (g_lwip_pools \<sigma>)"
  let ?P = "\<lambda>ps. set ps = set (g_lwip_pools \<sigma>) \<and> length ps = ?n"
  have swap: "?P (sort_swap \<sigma> i j ps)" if "i < ?n" "j < ?n" "?P ps" for i j ps
    using that by (simp add: sort_swap_def)
  have inner: "?P (fold (\<lambda>j ps. sort_swap \<sigma> i j ps) [i + 1 ..< ?n] ps)" if "i < ?n" "?P ps" for i ps
    by (rule fold_invariant [where Q = "\<lambda>j. j < ?n"]) (use that swap in auto)
  have "?P (fold (\<lambda>i ps. fold (\<lambda>j ps. sort_swap \<sigma> i j ps) [i + 1 ..< ?n] ps) [0 ..< ?n - 1] (g_lwip_pools \<sigma>))"
    by (rule fold_invariant [where Q = "\<lambda>i. i < ?n"]) (use inner in auto)
  then show ?thesis by (simp add: mem_buffer_sort_pools_def Let_def)
qed

definition pool_fits :: "pool_cfg \<Rightarrow> bool" where
  "pool_fits pc \<longleftrightarrow> pc_block_size pc * pc_block_count pc \<le> 2 ^ 22 \<and> pc_block_size pc \<le> 2 ^ 22 \<and> pc_max_cap pc \<le> 2 ^ 23"

lemma pools_simps [simp]: "g_lwip_pools (buf_upd b f \<sigma>) = g_lwip_pools \<sigma>" "g_lwip_pools (mem_log e \<sigma>) = g_lwip_pools \<sigma>"
  "g_lwip_pools (mem_buffer_release n \<sigma>) = g_lwip_pools \<sigma>" "g_lwip_pools (snd (mem_buffer_charge n \<sigma>)) = g_lwip_pools \<sigma>"
  "g_lwip_pools (mem_buffer_destroy mb \<sigma>) = g_lwip_pools \<sigma>"
  by (simp_all add: buf_upd_def mem_log_def mem_buffer_release_def mem_buffer_charge_def)
    (simp add: mem_buffer_destroy_def Let_def mem_log_def mem_buffer_release_def buf_upd_def split: option.split)

lemma charge_pools: "mem_buffer_charge n \<sigma> = (ok, \<sigma>') \<Longrightarrow> g_lwip_pools \<sigma>' = g_lwip_pools \<sigma>"
  using pools_simps(4) [of n \<sigma>] by simp

lemma create_pools:
  "mem_buffer_create c mx ls fl cb \<sigma> = (r, \<sigma>') \<Longrightarrow> g_lwip_pools \<sigma>' = g_lwip_pools \<sigma>"
proof -
  have locked: "g_lwip_pools \<sigma>' = g_lwip_pools \<sigma>" if "create_locked b i \<sigma> = (ok, \<sigma>')" for b i \<sigma> ok \<sigma>'
    using that by (auto simp: create_locked_def Let_def call_realloc_def call_malloc_def split: if_splits prod.splits option.splits dest!: charge_pools)
  have pool: "g_lwip_pools \<sigma>' = g_lwip_pools \<sigma>" if "create_pool b n \<sigma> = (ok, \<sigma>')" for b n \<sigma> ok \<sigma>'
    using that by (auto simp: create_pool_def Let_def call_malloc_def split: if_splits prod.splits option.splits dest!: charge_pools)
  show "mem_buffer_create c mx ls fl cb \<sigma> = (r, \<sigma>') \<Longrightarrow> g_lwip_pools \<sigma>' = g_lwip_pools \<sigma>"
    by (auto simp: mem_buffer_create_def Let_def call_malloc_def split: if_splits prod.splits option.splits dest!: charge_pools locked pool)
qed

lemma init_pools_keep: "set (g_lwip_pools \<sigma>) \<subseteq> set (g_lwip_pools (init_pools pcs \<sigma>))"
proof (induction pcs arbitrary: \<sigma>)
  case (Cons pc pcs)
  show ?case using Cons [of "_ :: mem_state"]
    by (auto simp: Let_def mem_buffer_set_owner_def split: prod.split option.split dest!: create_pools) fastforce+
qed simp

lemma init_pools_accounted:
  "accounted N L 0 \<sigma> \<Longrightarrow> \<forall>pc \<in> set pcs. pool_fits pc \<Longrightarrow> set (g_lwip_pools \<sigma>) \<subseteq> L \<Longrightarrow>
   accounted N (L \<union> set (g_lwip_pools (init_pools pcs \<sigma>))) 0 (init_pools pcs \<sigma>)"
proof (induction pcs arbitrary: L \<sigma>)
  case Nil
  then show ?case by (simp add: Un_absorb2)
next
  case (Cons pc pcs)
  show ?case
  proof (cases "pc_block_size pc = 0 \<or> pc_block_count pc = 0")
    case True
    with Cons show ?thesis by simp
  next
    case False
    have fits: "pool_fits pc" using Cons.prems(2) by simp
    define c where "c = wrap (pc_block_size pc * pc_block_count pc)"
    have c: "c \<le> 2 ^ 22" using fits by (simp add: c_def wrap_def pool_fits_def)
    define mx where "mx = (if pc_max_cap pc \<noteq> 0 then pc_max_cap pc else c)"
    have mx: "mx \<le> 2 ^ 23" using fits c by (simp add: mx_def pool_fits_def)
    obtain r \<sigma>1 where r: "mem_buffer_create c mx (pc_block_size pc) ((pc_flags pc)\<lparr>malloc_type := True\<rparr>) (pc_low_cb pc) \<sigma> = (r, \<sigma>1)" by fastforce
    have "pc_block_size pc \<le> 2 ^ 22" using fits by (simp add: pool_fits_def)
    note acc = create_accounted [OF r Cons.prems(1) c this mx] and p = create_pools [OF r]
    have rest: "\<forall>pc \<in> set pcs. pool_fits pc" using Cons.prems(2) by simp
    show ?thesis
    proof (cases r)
      case None
      have "init_pools (pc # pcs) \<sigma> = init_pools pcs \<sigma>1"
        using False unfolding init_pools.simps Let_def c_def [symmetric] mx_def [symmetric] r None prod.case option.case by simp
      then show ?thesis using Cons.IH [of L \<sigma>1] acc None rest Cons.prems(3) p by simp
    next
      case (Some b)
      define \<sigma>2 where "\<sigma>2 = mem_buffer_set_owner (Some b) (if pc_owner pc \<noteq> MEM_BUF_OWNER_UNKNOWN then pc_owner pc else MEM_BUF_OWNER_LWIP_POOL) \<sigma>1"
      define \<sigma>3 where "\<sigma>3 = \<sigma>2\<lparr>g_lwip_pools := g_lwip_pools \<sigma>2 @ [b]\<rparr>"
      have "budget \<sigma>3 = budget \<sigma>1"
        by (simp add: \<sigma>3_def \<sigma>2_def)
      then have "accounted N (L \<union> {b}) 0 \<sigma>3" using acc Some accounted_view by simp
      moreover have pools: "g_lwip_pools \<sigma>3 = g_lwip_pools \<sigma> @ [b]" using p by (simp add: \<sigma>3_def \<sigma>2_def mem_buffer_set_owner_def)
      ultimately have "accounted N ((L \<union> {b}) \<union> set (g_lwip_pools (init_pools pcs \<sigma>3))) 0 (init_pools pcs \<sigma>3)"
        using Cons.prems(3) by (intro Cons.IH [OF _ rest]) auto
      moreover have "init_pools (pc # pcs) \<sigma> = init_pools pcs \<sigma>3"
        using False unfolding init_pools.simps Let_def c_def [symmetric] mx_def [symmetric] r Some prod.case option.case \<sigma>2_def [symmetric] \<sigma>3_def [symmetric]
        by simp
      moreover have "b \<in> set (g_lwip_pools (init_pools pcs \<sigma>3))" using init_pools_keep [of \<sigma>3 pcs] pools by auto
      ultimately show ?thesis by (simp add: insert_absorb)
    qed
  qed
qed

text \<open>The calls of the buffer manager, with the live buffers: those created and not destroyed. The pools
  lwIP allocates from are live.\<close>

inductive mem_step :: "nat set \<times> mem_state \<Rightarrow> nat set \<times> mem_state \<Rightarrow> bool" where
  create: "mem_buffer_create initial max_cap lock_size fl cb \<sigma> = (r, \<sigma>') \<Longrightarrow> initial \<le> 2 ^ 22 \<Longrightarrow> lock_size \<le> 2 ^ 22 \<Longrightarrow> max_cap \<le> 2 ^ 23 \<Longrightarrow>
    mem_step (L, \<sigma>) (L \<union> set_option r, \<sigma>')"
| destroy: "b \<in> L \<Longrightarrow> mem_step (L, \<sigma>) (L - {b}, mem_buffer_destroy (Some b) \<sigma>)"
| push: "b \<in> L \<Longrightarrow> mem_buffer_push (Some b) d \<sigma> = Some (ok, \<sigma>') \<Longrightarrow> mem_step (L, \<sigma>) (L, \<sigma>')"
| pop: "b \<in> L \<Longrightarrow> mem_buffer_pop (Some b) n \<sigma> = Some (out, \<sigma>') \<Longrightarrow> mem_step (L, \<sigma>) (L, \<sigma>')"
| reserve: "b \<in> L \<Longrightarrow> mem_buffer_reserve (Some b) n \<sigma> = Some (ok, \<sigma>') \<Longrightarrow> mem_step (L, \<sigma>) (L, \<sigma>')"
| malloc: "b \<in> L \<Longrightarrow> mem_buffer_malloc (Some b) n \<sigma> = Some (ptr, \<sigma>') \<Longrightarrow> mem_step (L, \<sigma>) (L, \<sigma>')"
| free: "b \<in> L \<Longrightarrow> mem_buffer_free (Some b) a \<sigma> = Some \<sigma>' \<Longrightarrow> mem_step (L, \<sigma>) (L, \<sigma>')"
| init_pools: "mem_buffer_lwip_init_pools pcs \<sigma> = (ok, \<sigma>') \<Longrightarrow> pcs \<noteq> [] \<Longrightarrow> g_ready \<sigma> \<Longrightarrow> \<forall>pc \<in> set pcs. pool_fits pc \<Longrightarrow> mem_step (L, \<sigma>) (L \<union> set (g_lwip_pools \<sigma>'), \<sigma>')"
| custom_malloc: "mem_buffer_custom_malloc n \<sigma> = Some (ptr, \<sigma>') \<Longrightarrow> mem_step (L, \<sigma>) (L, \<sigma>')"
| custom_calloc: "mem_buffer_custom_calloc count n \<sigma> = Some (ptr, \<sigma>') \<Longrightarrow> mem_step (L, \<sigma>) (L, \<sigma>')"
| custom_free: "mem_buffer_custom_free a \<sigma> = Some \<sigma>' \<Longrightarrow> set (g_lwip_pools \<sigma>) \<union> set_option (g_lwip_heap \<sigma>) \<subseteq> L \<Longrightarrow> mem_step (L, \<sigma>) (L, \<sigma>')"
| set_max: "b \<in> L \<Longrightarrow> n \<le> 2 ^ 23 \<Longrightarrow> mem_step (L, \<sigma>) (L, mem_buffer_set_max_size (Some b) n \<sigma>)"
| set_owner: "mem_step (L, \<sigma>) (L, mem_buffer_set_owner mb ow \<sigma>)"
| set_drain: "mem_step (L, \<sigma>) (L, mem_buffer_set_drain mb f \<sigma>)"
| set_grow: "mem_step (L, \<sigma>) (L, mem_buffer_set_grow mb pct step \<sigma>)"
| set_shrink: "mem_step (L, \<sigma>) (L, mem_buffer_set_shrink mb pct step \<sigma>)"
| set_heap: "mem_step (L, \<sigma>) (L, snd (mem_buffer_set_lwip_heap mb \<sigma>))"
| hook_eth: "mem_step (L, \<sigma>) (L, mem_register_pressure_hook_eth_rx h \<sigma>)"
| hook_tls: "mem_step (L, \<sigma>) (L, mem_register_pressure_hook_tls_rx h \<sigma>)"
| clear_pct: "mem_step (L, \<sigma>) (L, mem_set_pressure_clear_pct pct \<sigma>)"
| internal_cb: "mem_step (L, \<sigma>) (L, mem_set_internal_lowmem_cb h \<sigma>)"

lemma cap_bound:
  assumes "accounted N L k \<sigma>" and "b \<in> L"
  shows "mb_cap (g_bufs \<sigma> b) < 2 ^ 23"
proof -
  have "occupied \<sigma> b \<le> sum (occupied \<sigma>) L" using assms by (intro member_le_sum) (auto simp: accounted_def)
  with assms(1) show ?thesis by (auto simp: accounted_def occupied_def)
qed

lemma mem_step_accounted:
  assumes "mem_step (L, \<sigma>) (L', \<sigma>')" and "accounted N L 0 \<sigma>"
  shows "accounted N L' 0 \<sigma>'"
  using assms
proof (cases rule: mem_step.cases)
  case (create initial max_cap lock_size fl cb r)
  from create_accounted [OF this(2) assms(2) this(3-5)] this(1) show ?thesis by simp
next
  case (destroy b)
  from accounted_destroy [OF accounted_remove [OF assms(2) this(3)]] this(1,2) show ?thesis by simp
next
  case (init_pools pcs ok)
  define \<sigma>1 where "\<sigma>1 = init_pools (take MEM_LWIP_MAX_POOLS pcs) (\<sigma>\<lparr>g_lwip_pools := []\<rparr>)"
  have "accounted N (L \<union> set (g_lwip_pools \<sigma>1)) 0 \<sigma>1"
    unfolding \<sigma>1_def using init_pools(5) accounted_view [OF budget_flags(9) assms(2)]
    by (intro init_pools_accounted) (auto dest: in_set_takeD)
  moreover have "budget \<sigma>' = budget \<sigma>1" "set (g_lwip_pools \<sigma>') = set (g_lwip_pools \<sigma>1)"
    using init_pools(2-4) sort_pools_set [of \<sigma>1]
    by (auto simp: mem_buffer_lwip_init_pools_def Let_def \<sigma>1_def [symmetric] mem_buffer_sort_pools_def split: if_splits)
  ultimately show ?thesis using init_pools(1) accounted_view by metis
next
  case (set_max b n)
  then show ?thesis using assms(2) cap_bound [OF assms(2), of b]
    by (auto simp: mem_buffer_set_max_size_def bitmap_size_def intro!: accounted_buffer [OF assms(2)])
next
  case (malloc b n ptr)
  then show ?thesis using accounted_view [OF budget_malloc assms(2)] by simp
next
  case (custom_malloc n ptr)
  then show ?thesis using accounted_view [OF budget_custom_malloc assms(2)] by simp
next
  case (custom_calloc count n ptr)
  then show ?thesis using accounted_view [OF budget_custom_calloc assms(2)] by simp
next
  case (custom_free a)
  then show ?thesis using accounted_custom_free [OF custom_free(2) assms(2)] by simp
qed (use assms(2) in \<open>auto simp: accounted_cong [OF budget_setters(1)] accounted_cong [OF budget_setters(2)] accounted_cong [OF budget_setters(3)]
    accounted_cong [OF budget_setters(4)] accounted_cong [OF budget_setters(5)] accounted_cong [OF budget_setters(6)] accounted_cong [OF budget_setters(7)]
    accounted_cong [OF budget_setters(8)] accounted_cong [OF budget_set_heap] intro: accounted_push accounted_pop accounted_reserve accounted_free\<close>)

text \<open>C11. The buffers keep to the heap budget: after any run of calls, the structures, blocks and bitmaps of
  all live buffers together take no more than has been charged, and no more than the budget given
  to \<open>mem_init\<close> has been charged.\<close>

theorem heap_budget:
  assumes "mem_init N True True re \<sigma>0 = (True, \<sigma>)" and "0 < N" and "N < 2 ^ 23" and "em_sizeof (g_env \<sigma>0) \<le> 2 ^ 16"
    and "mem_step\<^sup>*\<^sup>* ({}, \<sigma>) (L, \<sigma>')"
  shows "(\<Sum>b \<in> L. em_sizeof (g_env \<sigma>') + mb_cap (g_bufs \<sigma>' b) + bitmap_size (g_bufs \<sigma>' b)) \<le> g_heap_used \<sigma>' \<and> g_heap_used \<sigma>' \<le> N"
proof -
  have "accounted N {} 0 \<sigma>" using assms(1-4) by (auto simp: mem_init_def accounted_def)
  with assms(5) have "accounted N L 0 \<sigma>'"
    by (induction "(L, \<sigma>')" arbitrary: L \<sigma>' rule: rtranclp_induct) (use mem_step_accounted in auto)
  then show ?thesis by (simp add: accounted_def occupied_def)
qed

theorem heap_budget_witness:
  "\<exists>L \<sigma>'. mem_step\<^sup>*\<^sup>* ({}, snd (mem_init 4096 True True True mem_zero)) (L, \<sigma>') \<and> L = {0} \<and> g_heap_used \<sigma>' \<le> 4096"
proof -
  let ?\<sigma> = "snd (mem_init 4096 True True True mem_zero)"
  obtain \<sigma>' where s: "mem_buffer_create 512 2048 0 \<lparr>secure_mode = False, lock_size_flag = False, malloc_type = False\<rparr> False ?\<sigma> = (Some 0, \<sigma>')"
    by (simp add: example_ring_defs)
  then have "mem_step ({}, ?\<sigma>) ({} \<union> set_option (Some 0), \<sigma>')" by (rule mem_step.create) simp_all
  then have run: "mem_step\<^sup>*\<^sup>* ({}, ?\<sigma>) ({0}, \<sigma>')" by simp
  have "mem_init 4096 True True True mem_zero = (True, ?\<sigma>)" by (simp add: mem_init_def)
  from heap_budget [OF this _ _ _ run] run show ?thesis by (auto simp: mem_zero_def example_env_def)
qed

end
