(* ===== verification/Pbuf.thy ===== *)
theory Pbuf
  imports Prelude
begin

text \<open>
  Packet buffers, \<^verbatim>\<open>src/src/core/pbuf.c\<close>: reference-counted chains of byte blocks. A pbuf lives at an
  address of an explicit store, and a pointer to it is its address or NULL (\<open>None\<close>); following a
  pointer to a pbuf that has been freed has no defined result. The memory behind the payload
  pointer is the block \<open>p_mem\<close>, and the payload starts at \<open>p_off\<close> in it: for pbufs with contiguous
  data the block is the memory behind the structure, where headers are added and removed; for
  referenced data it is the memory referred to, and such memory is not shared between pbufs.

  Chains are followed by loops that need not end (a chain may be a cycle), which are partial
  functions: no result stands for a loop that does not end as well as for undefined behaviour.
  The answers of the allocator below are an environment. Assertions are compiled out in this
  configuration and are not part of the model.
\<close>

section \<open>Data\<close>

datatype pbuf_type = PBUF_RAM | PBUF_ROM | PBUF_REF | PBUF_POOL

datatype pbuf_layer = PBUF_TRANSPORT | PBUF_IP | PBUF_LINK | PBUF_RAW_TX | PBUF_RAW

text \<open>The room in front of the payload: link header 14, IPv6 header 40, TCP header 20.\<close>

primrec layer_room :: "pbuf_layer \<Rightarrow> nat" where
  "layer_room PBUF_TRANSPORT = 74"
| "layer_room PBUF_IP = 54"
| "layer_room PBUF_LINK = 14"
| "layer_room PBUF_RAW_TX = 0"
| "layer_room PBUF_RAW = 0"

record pbuf =
  p_next :: "nat option"
  p_mem :: bytes
  p_off :: nat
  p_tot_len :: nat
  p_len :: nat
  p_type :: pbuf_type
  p_custom :: bool
  p_ref :: nat

text \<open>Where a freed pbuf goes.\<close>

datatype pbuf_home = Home_pool | Home_memp | Home_heap | Home_custom

text \<open>The environment answers the \<open>k\<close>-th request, for \<open>n\<close> bytes behind the structure, with the
  contents of the block or with NULL.\<close>

record pbufs =
  pb_heap :: "nat \<Rightarrow> pbuf option"
  pb_fresh :: nat
  pb_calls :: nat
  pb_env :: "nat \<Rightarrow> nat \<Rightarrow> bytes option"
  pb_freed :: "(nat \<times> pbuf_home) list"
  pb_ooseq :: bool

abbreviation PBUF_POOL_BUFSIZE :: nat where "PBUF_POOL_BUFSIZE \<equiv> 256"

definition u16 :: "nat \<Rightarrow> nat" where
  "u16 n = n mod 2 ^ 16"

definition put_pbuf :: "nat \<Rightarrow> pbuf \<Rightarrow> pbufs \<Rightarrow> pbufs" where
  "put_pbuf a b s = s\<lparr>pb_heap := (pb_heap s)(a \<mapsto> b)\<rparr>"

definition upd_pbuf :: "nat \<Rightarrow> (pbuf \<Rightarrow> pbuf) \<Rightarrow> pbufs \<Rightarrow> pbufs option" where
  "upd_pbuf a f s = do { b \<leftarrow> pb_heap s a; Some (put_pbuf a (f b) s) }"

definition request :: "nat \<Rightarrow> pbufs \<Rightarrow> (nat \<times> bytes) option \<times> pbufs" where
  "request n s = (case pb_env s (pb_calls s) n of
      None \<Rightarrow> (None, s\<lparr>pb_calls := pb_calls s + 1\<rparr>)
    | Some c \<Rightarrow> (Some (pb_fresh s, c), s\<lparr>pb_calls := pb_calls s + 1, pb_fresh := pb_fresh s + 1\<rparr>))"

text \<open>Reading from and writing to the payload.\<close>

definition payload_read :: "pbuf \<Rightarrow> nat \<Rightarrow> nat \<Rightarrow> bytes option" where
  "payload_read b i n = read_bytes (p_off b + i) n (p_mem b)"

definition payload_write :: "nat \<Rightarrow> nat \<Rightarrow> bytes \<Rightarrow> pbufs \<Rightarrow> pbufs option" where
  "payload_write a i d s = do {
     b \<leftarrow> pb_heap s a;
     m \<leftarrow> store_bytes (p_off b + i) d (p_mem b);
     Some (put_pbuf a (b\<lparr>p_mem := m\<rparr>) s) }"

section \<open>Freeing and reference counts\<close>

definition pbuf_home :: "pbuf \<Rightarrow> pbuf_home" where
  "pbuf_home b = (if p_custom b then Home_custom else case p_type b of
      PBUF_POOL \<Rightarrow> Home_pool | PBUF_ROM \<Rightarrow> Home_memp | PBUF_REF \<Rightarrow> Home_memp | PBUF_RAM \<Rightarrow> Home_heap)"

definition dealloc :: "nat \<Rightarrow> pbuf \<Rightarrow> pbufs \<Rightarrow> pbufs" where
  "dealloc a b s = s\<lparr>pb_heap := (pb_heap s)(a := None), pb_freed := pb_freed s @ [(a, pbuf_home b)]\<rparr>"

partial_function (option) free_loop :: "nat option \<Rightarrow> nat \<Rightarrow> pbufs \<Rightarrow> (nat \<times> pbufs) option" where
  "free_loop p n s = (case p of None \<Rightarrow> Some (n, s) | Some a \<Rightarrow> do {
     b \<leftarrow> pb_heap s a;
     let ref = (p_ref b + 255) mod 256;
     if ref = 0 then free_loop (p_next b) ((n + 1) mod 256) (dealloc a b s)
     else Some (n, put_pbuf a (b\<lparr>p_ref := ref\<rparr>) s) })"

definition pbuf_free :: "nat option \<Rightarrow> pbufs \<Rightarrow> (nat \<times> pbufs) option" where
  "pbuf_free p s = (if p = None then Some (0, s) else free_loop p 0 s)"

partial_function (option) clen_loop :: "nat option \<Rightarrow> nat \<Rightarrow> pbufs \<Rightarrow> nat option" where
  "clen_loop p n s = (case p of None \<Rightarrow> Some n | Some a \<Rightarrow> do { b \<leftarrow> pb_heap s a; clen_loop (p_next b) (u16 (n + 1)) s })"

definition pbuf_clen :: "nat option \<Rightarrow> pbufs \<Rightarrow> nat option" where
  "pbuf_clen p s = clen_loop p 0 s"

definition pbuf_ref :: "nat option \<Rightarrow> pbufs \<Rightarrow> pbufs option" where
  "pbuf_ref p s = (case p of None \<Rightarrow> Some s | Some a \<Rightarrow> upd_pbuf a (\<lambda>b. b\<lparr>p_ref := (p_ref b + 1) mod 256\<rparr>) s)"

section \<open>Allocating\<close>

definition pbuf_init_alloced_pbuf :: "bytes \<Rightarrow> nat \<Rightarrow> nat \<Rightarrow> nat \<Rightarrow> pbuf_type \<Rightarrow> bool \<Rightarrow> pbuf" where
  "pbuf_init_alloced_pbuf mem off tot_len len ty custom =
     \<lparr>p_next = None, p_mem = mem, p_off = off, p_tot_len = tot_len, p_len = len, p_type = ty, p_custom = custom, p_ref = 1\<rparr>"

definition pbuf_alloc_reference :: "bytes \<Rightarrow> nat \<Rightarrow> pbuf_type \<Rightarrow> pbufs \<Rightarrow> nat option \<times> pbufs" where
  "pbuf_alloc_reference payload len ty s = (case request 0 s of
      (None, s) \<Rightarrow> (None, s)
    | (Some (a, _), s) \<Rightarrow> (Some a, put_pbuf a (pbuf_init_alloced_pbuf payload 0 len len ty False) s))"

text \<open>The loop over the pool: \<open>p\<close> is the head of the chain so far, \<open>lst\<close> its last pbuf.\<close>

partial_function (option) pool_loop ::
    "nat \<Rightarrow> nat \<Rightarrow> nat option \<Rightarrow> nat option \<Rightarrow> pbufs \<Rightarrow> (nat option \<times> pbufs) option" where
  "pool_loop off rem p lst s = (case request PBUF_POOL_BUFSIZE s of
      (None, s) \<Rightarrow> do { (n, s) \<leftarrow> pbuf_free p (s\<lparr>pb_ooseq := True\<rparr>); Some (None, s) }
    | (Some (q, mem), s) \<Rightarrow>
        let qlen = min rem (PBUF_POOL_BUFSIZE - off);
            s = put_pbuf q (pbuf_init_alloced_pbuf mem off rem qlen PBUF_POOL False) s;
            p = (case p of None \<Rightarrow> Some q | Some h \<Rightarrow> Some h)
        in do {
          s \<leftarrow> (case lst of None \<Rightarrow> Some s | Some l \<Rightarrow> upd_pbuf l (\<lambda>b. b\<lparr>p_next := Some q\<rparr>) s);
          if 0 < rem - qlen then pool_loop 0 (rem - qlen) p (Some q) s else Some (p, s) })"

definition pbuf_alloc :: "pbuf_layer \<Rightarrow> nat \<Rightarrow> pbuf_type \<Rightarrow> pbufs \<Rightarrow> (nat option \<times> pbufs) option" where
  "pbuf_alloc layer len ty s = (case ty of
      PBUF_REF \<Rightarrow> Some (pbuf_alloc_reference [] len ty s)
    | PBUF_ROM \<Rightarrow> Some (pbuf_alloc_reference [] len ty s)
    | PBUF_POOL \<Rightarrow> pool_loop (layer_room layer) len None None s
    | PBUF_RAM \<Rightarrow>
        let payload_len = wrap (layer_room layer + len)
        in if payload_len < len then Some (None, s)
           else case request payload_len s of
                  (None, s) \<Rightarrow> Some (None, s)
                | (Some (a, mem), s) \<Rightarrow>
                    Some (Some a, put_pbuf a (pbuf_init_alloced_pbuf mem (layer_room layer) len len PBUF_RAM False) s))"

text \<open>A custom pbuf is initialised at an address of the caller, over memory of the caller.\<close>

definition pbuf_alloced_custom ::
    "pbuf_layer \<Rightarrow> nat \<Rightarrow> pbuf_type \<Rightarrow> nat \<Rightarrow> bytes \<Rightarrow> nat \<Rightarrow> pbufs \<Rightarrow> nat option \<times> pbufs" where
  "pbuf_alloced_custom l len ty a payload_mem payload_mem_len s =
     (if payload_mem_len < layer_room l + len then (None, s)
      else (Some a, put_pbuf a (pbuf_init_alloced_pbuf payload_mem (layer_room l) len len ty True) s))"

section \<open>Changing lengths\<close>

partial_function (option) realloc_loop :: "nat \<Rightarrow> nat \<Rightarrow> nat \<Rightarrow> pbufs \<Rightarrow> pbufs option" where
  "realloc_loop q rem shrink s = do {
     b \<leftarrow> pb_heap s q;
     if p_len b < rem
     then do {
       q' \<leftarrow> p_next b;
       realloc_loop q' (rem - p_len b) shrink (put_pbuf q (b\<lparr>p_tot_len := u16 (p_tot_len b + 2 ^ 16 - shrink)\<rparr>) s) }
     else do {
       (n, s) \<leftarrow> pbuf_free (p_next b) (put_pbuf q (b\<lparr>p_len := rem, p_tot_len := rem\<rparr>) s);
       upd_pbuf q (\<lambda>b. b\<lparr>p_next := None\<rparr>) s } }"

definition pbuf_realloc :: "nat \<Rightarrow> nat \<Rightarrow> pbufs \<Rightarrow> pbufs option" where
  "pbuf_realloc p new_len s = do {
     b \<leftarrow> pb_heap s p;
     if p_tot_len b \<le> new_len then Some s else realloc_loop p new_len (p_tot_len b - new_len) s }"

text \<open>The header functions answer with whether they failed.\<close>

definition contiguous :: "pbuf_type \<Rightarrow> bool" where
  "contiguous ty \<longleftrightarrow> ty = PBUF_RAM \<or> ty = PBUF_POOL"

definition pbuf_add_header_impl :: "nat option \<Rightarrow> nat \<Rightarrow> bool \<Rightarrow> pbufs \<Rightarrow> (bool \<times> pbufs) option" where
  "pbuf_add_header_impl p n force s = (case p of None \<Rightarrow> Some (True, s) | Some a \<Rightarrow>
     if 0xFFFF < n then Some (True, s)
     else if n = 0 then Some (False, s)
     else do {
       b \<leftarrow> pb_heap s a;
       if u16 (n + p_tot_len b) < n then Some (True, s)
       else if contiguous (p_type b) \<and> p_off b < n \<or> \<not> contiguous (p_type b) \<and> \<not> force then Some (True, s)
       else if p_off b < n then None
       else Some (False, put_pbuf a (b\<lparr>p_off := p_off b - n, p_len := u16 (p_len b + n), p_tot_len := u16 (p_tot_len b + n)\<rparr>) s) })"

definition pbuf_add_header :: "nat option \<Rightarrow> nat \<Rightarrow> pbufs \<Rightarrow> (bool \<times> pbufs) option" where
  "pbuf_add_header p n = pbuf_add_header_impl p n False"

definition pbuf_add_header_force :: "nat option \<Rightarrow> nat \<Rightarrow> pbufs \<Rightarrow> (bool \<times> pbufs) option" where
  "pbuf_add_header_force p n = pbuf_add_header_impl p n True"

definition pbuf_remove_header :: "nat option \<Rightarrow> nat \<Rightarrow> pbufs \<Rightarrow> (bool \<times> pbufs) option" where
  "pbuf_remove_header p n s = (case p of None \<Rightarrow> Some (True, s) | Some a \<Rightarrow>
     if 0xFFFF < n then Some (True, s)
     else if n = 0 then Some (False, s)
     else do {
       b \<leftarrow> pb_heap s a;
       if p_len b < n then Some (True, s)
       else Some (False, put_pbuf a (b\<lparr>p_off := p_off b + n, p_len := p_len b - n,
                                        p_tot_len := u16 (p_tot_len b + 2 ^ 16 - n)\<rparr>) s) })"

definition pbuf_header_impl :: "nat option \<Rightarrow> int \<Rightarrow> bool \<Rightarrow> pbufs \<Rightarrow> (bool \<times> pbufs) option" where
  "pbuf_header_impl p i force s =
     (if i < 0 then pbuf_remove_header p (nat (- i)) s else pbuf_add_header_impl p (nat i) force s)"

definition pbuf_header :: "nat option \<Rightarrow> int \<Rightarrow> pbufs \<Rightarrow> (bool \<times> pbufs) option" where
  "pbuf_header p i = pbuf_header_impl p i False"

definition pbuf_header_force :: "nat option \<Rightarrow> int \<Rightarrow> pbufs \<Rightarrow> (bool \<times> pbufs) option" where
  "pbuf_header_force p i = pbuf_header_impl p i True"

partial_function (option) pbuf_free_header :: "nat option \<Rightarrow> nat \<Rightarrow> pbufs \<Rightarrow> (nat option \<times> pbufs) option" where
  "pbuf_free_header p left s = (case p of None \<Rightarrow> Some (None, s) | Some a \<Rightarrow>
     if left = 0 then Some (Some a, s)
     else do {
       b \<leftarrow> pb_heap s a;
       if p_len b \<le> left
       then do {
         (n, s) \<leftarrow> pbuf_free (Some a) (put_pbuf a (b\<lparr>p_next := None\<rparr>) s);
         pbuf_free_header (p_next b) (left - p_len b) s }
       else do { (f, s) \<leftarrow> pbuf_remove_header (Some a) left s; Some (Some a, s) } })"

section \<open>Chaining\<close>

partial_function (option) cat_loop :: "nat \<Rightarrow> nat \<Rightarrow> pbufs \<Rightarrow> pbufs option" where
  "cat_loop p t s = do {
     b \<leftarrow> pb_heap s p;
     tb \<leftarrow> pb_heap s t;
     let s' = put_pbuf p (b\<lparr>p_tot_len := u16 (p_tot_len b + p_tot_len tb)\<rparr>) s;
     case p_next b of
       Some q \<Rightarrow> cat_loop q t s'
     | None \<Rightarrow> upd_pbuf p (\<lambda>b. b\<lparr>p_next := Some t\<rparr>) s' }"

definition pbuf_cat :: "nat option \<Rightarrow> nat option \<Rightarrow> pbufs \<Rightarrow> pbufs option" where
  "pbuf_cat h t s = (case (h, t) of (Some a, Some c) \<Rightarrow> cat_loop a c s
     | _ \<Rightarrow> Some s)"

definition pbuf_chain :: "nat option \<Rightarrow> nat option \<Rightarrow> pbufs \<Rightarrow> pbufs option" where
  "pbuf_chain h t s = do { s \<leftarrow> pbuf_cat h t s; pbuf_ref t s }"

definition pbuf_dechain :: "nat \<Rightarrow> pbufs \<Rightarrow> (nat option \<times> pbufs) option" where
  "pbuf_dechain p s = do {
     b \<leftarrow> pb_heap s p;
     case p_next b of None \<Rightarrow> Some (None, s)
     | Some q \<Rightarrow> do {
         s \<leftarrow> upd_pbuf q (\<lambda>c. c\<lparr>p_tot_len := u16 (p_tot_len b + 2 ^ 16 - p_len b)\<rparr>) s;
         s \<leftarrow> upd_pbuf p (\<lambda>b. b\<lparr>p_next := None, p_tot_len := p_len b\<rparr>) s;
         (gone, s) \<leftarrow> pbuf_free (Some q) s;
         Some (if 0 < gone then None else Some q, s) } }"

section \<open>Copying\<close>

text \<open>The differences of lengths and offsets are taken in \<open>size_t\<close>, where they wrap.\<close>

definition minus_size :: "nat \<Rightarrow> nat \<Rightarrow> nat" where
  "minus_size a b = wrap (a + 2 ^ 24 - b)"

definition queue_at :: "nat option \<Rightarrow> pbufs \<Rightarrow> bool option" where
  "queue_at p s = (case p of None \<Rightarrow> Some False | Some a \<Rightarrow> do {
     b \<leftarrow> pb_heap s a; Some (p_len b = p_tot_len b \<and> p_next b \<noteq> None) })"

partial_function (option) copy_loop ::
    "nat \<Rightarrow> nat \<Rightarrow> nat \<Rightarrow> nat \<Rightarrow> nat \<Rightarrow> pbufs \<Rightarrow> (err_t \<times> pbufs) option" where
  "copy_loop p_to to_off p_from from_off n s = do {
     b_to \<leftarrow> pb_heap s p_to;
     b_from \<leftarrow> pb_heap s p_from;
     let room_to = minus_size (p_len b_to) to_off;
     let room_from = minus_size (p_len b_from) from_off;
     let len = min n (if room_from \<le> room_to then room_from else room_to);
     d \<leftarrow> payload_read b_from from_off len;
     s \<leftarrow> payload_write p_to to_off d s;
     let to_off = to_off + len;
     let from_off = from_off + len;
     let n = n - len;
     let (from, from_off) = (if p_len b_from \<le> from_off then (p_next b_from, 0) else (Some p_from, from_off));
     let (to, to_off) = (if to_off = p_len b_to then (p_next b_to, 0) else (Some p_to, to_off));
     if from = None \<and> n \<noteq> 0 \<or> to = None \<and> n \<noteq> 0 then Some (ERR_ARG, s)
     else do {
       q1 \<leftarrow> queue_at from s;
       q2 \<leftarrow> queue_at to s;
       if q1 \<or> q2 then Some (ERR_VAL, s)
       else if n = 0 then Some (ERR_OK, s)
       else do { f \<leftarrow> from; t \<leftarrow> to; copy_loop t to_off f from_off n s } } }"

definition pbuf_copy_partial_pbuf :: "nat option \<Rightarrow> nat option \<Rightarrow> nat \<Rightarrow> nat \<Rightarrow> pbufs \<Rightarrow> (err_t \<times> pbufs) option" where
  "pbuf_copy_partial_pbuf p_to p_from copy_len offset s = (case p_from of None \<Rightarrow> Some (ERR_ARG, s) | Some f \<Rightarrow> do {
     bf \<leftarrow> pb_heap s f;
     if p_tot_len bf < copy_len then Some (ERR_ARG, s)
     else case p_to of None \<Rightarrow> Some (ERR_ARG, s) | Some t \<Rightarrow> do {
       bt \<leftarrow> pb_heap s t;
       if p_tot_len bt < offset + copy_len then Some (ERR_ARG, s)
       else copy_loop t offset f 0 copy_len s } })"

definition pbuf_copy :: "nat option \<Rightarrow> nat option \<Rightarrow> pbufs \<Rightarrow> (err_t \<times> pbufs) option" where
  "pbuf_copy p_to p_from s = (case p_from of None \<Rightarrow> Some (ERR_ARG, s) | Some f \<Rightarrow> do {
     bf \<leftarrow> pb_heap s f; pbuf_copy_partial_pbuf p_to p_from (p_tot_len bf) 0 s })"

text \<open>The bytes copied out; their number is what the C function returns.\<close>

partial_function (option) copy_partial_loop :: "nat option \<Rightarrow> nat \<Rightarrow> nat \<Rightarrow> pbufs \<Rightarrow> bytes option" where
  "copy_partial_loop p len off s =
     (if len = 0 then Some []
      else case p of None \<Rightarrow> Some [] | Some a \<Rightarrow> do {
        b \<leftarrow> pb_heap s a;
        if off \<noteq> 0 \<and> p_len b \<le> off then copy_partial_loop (p_next b) len (off - p_len b) s
        else do {
          let n = (if len < u16 (p_len b + 2 ^ 16 - off) then len else u16 (p_len b + 2 ^ 16 - off));
          d \<leftarrow> payload_read b off n;
          rest \<leftarrow> copy_partial_loop (p_next b) (len - n) 0 s;
          Some (d @ rest) } })"

definition pbuf_copy_partial :: "nat option \<Rightarrow> nat \<Rightarrow> nat \<Rightarrow> pbufs \<Rightarrow> bytes option" where
  "pbuf_copy_partial buf len offset s = (if buf = None then Some [] else copy_partial_loop buf len offset s)"

partial_function (option) pbuf_skip_const :: "nat option \<Rightarrow> nat \<Rightarrow> pbufs \<Rightarrow> (nat option \<times> nat) option" where
  "pbuf_skip_const q off s = (case q of None \<Rightarrow> Some (None, off) | Some a \<Rightarrow> do {
     b \<leftarrow> pb_heap s a;
     if p_len b \<le> off then pbuf_skip_const (p_next b) (off - p_len b) s else Some (Some a, off) })"

definition pbuf_skip :: "nat option \<Rightarrow> nat \<Rightarrow> pbufs \<Rightarrow> (nat option \<times> nat) option" where
  "pbuf_skip q off s = pbuf_skip_const q off s"

text \<open>A pointer into a payload, or the bytes copied to the buffer of the caller.\<close>

datatype contiguous_data = In_place nat nat | Copied bytes

definition pbuf_get_contiguous ::
    "nat option \<Rightarrow> nat option \<Rightarrow> nat \<Rightarrow> nat \<Rightarrow> pbufs \<Rightarrow> contiguous_data option option" where
  "pbuf_get_contiguous p bufsize len offset s =
     (if p = None \<or> (case bufsize of None \<Rightarrow> False | Some n \<Rightarrow> n < len) then Some None
      else do {
        (q, off) \<leftarrow> pbuf_skip_const p offset s;
        case q of None \<Rightarrow> Some None | Some a \<Rightarrow> do {
          b \<leftarrow> pb_heap s a;
          if off + len \<le> p_len b then Some (Some (In_place a off))
          else if bufsize = None then Some None
          else do {
            d \<leftarrow> pbuf_copy_partial (Some a) len off s;
            Some (if length d \<noteq> len then None else Some (Copied d)) } } })"

partial_function (option) take_loop :: "nat option \<Rightarrow> bytes \<Rightarrow> pbufs \<Rightarrow> pbufs option" where
  "take_loop p d s =
     (if d = [] then Some s
      else do {
        a \<leftarrow> p;
        b \<leftarrow> pb_heap s a;
        let n = (if p_len b < length d then p_len b else length d);
        s \<leftarrow> payload_write a 0 (take n d) s;
        take_loop (p_next b) (drop n d) s })"

definition pbuf_take :: "nat option \<Rightarrow> bytes \<Rightarrow> pbufs \<Rightarrow> (err_t \<times> pbufs) option" where
  "pbuf_take buf d s = (case buf of None \<Rightarrow> Some (ERR_ARG, s) | Some a \<Rightarrow> do {
     b \<leftarrow> pb_heap s a;
     if p_tot_len b < length d then Some (ERR_MEM, s)
     else do { s \<leftarrow> take_loop buf d s; Some (ERR_OK, s) } })"

definition pbuf_take_at :: "nat option \<Rightarrow> bytes \<Rightarrow> nat \<Rightarrow> pbufs \<Rightarrow> (err_t \<times> pbufs) option" where
  "pbuf_take_at buf d offset s = do {
     (q, off) \<leftarrow> pbuf_skip buf offset s;
     case q of None \<Rightarrow> Some (ERR_MEM, s) | Some a \<Rightarrow> do {
       b \<leftarrow> pb_heap s a;
       if p_tot_len b < off + length d then Some (ERR_MEM, s)
       else do {
         let n = min (p_len b - off) (length d);
         s \<leftarrow> payload_write a off (take n d) s;
         if 0 < length d - n then pbuf_take (p_next b) (drop n d) s else Some (ERR_OK, s) } } }"

definition pbuf_clone :: "pbuf_layer \<Rightarrow> pbuf_type \<Rightarrow> nat \<Rightarrow> pbufs \<Rightarrow> (nat option \<times> pbufs) option" where
  "pbuf_clone layer ty p s = do {
     b \<leftarrow> pb_heap s p;
     (q, s) \<leftarrow> pbuf_alloc layer (p_tot_len b) ty s;
     case q of None \<Rightarrow> Some (None, s)
     | Some a \<Rightarrow> do { (e, s) \<leftarrow> pbuf_copy q (Some p) s; Some (q, s) } }"

definition pbuf_coalesce :: "nat \<Rightarrow> pbuf_layer \<Rightarrow> pbufs \<Rightarrow> (nat \<times> pbufs) option" where
  "pbuf_coalesce p layer s = do {
     b \<leftarrow> pb_heap s p;
     if p_next b = None then Some (p, s)
     else do {
       (q, s) \<leftarrow> pbuf_clone layer PBUF_RAM p s;
       case q of None \<Rightarrow> Some (p, s)
       | Some a \<Rightarrow> do { (n, s) \<leftarrow> pbuf_free (Some p) s; Some (a, s) } } }"

section \<open>Looking into a chain\<close>

text \<open>\<open>Some None\<close> is the result -1.\<close>

definition pbuf_try_get_at :: "nat option \<Rightarrow> nat \<Rightarrow> pbufs \<Rightarrow> byte option option" where
  "pbuf_try_get_at p offset s = do {
     (q, i) \<leftarrow> pbuf_skip_const p offset s;
     case q of None \<Rightarrow> Some None | Some a \<Rightarrow> do {
       b \<leftarrow> pb_heap s a;
       if i < p_len b then do { d \<leftarrow> payload_read b i 1; Some (Some (hd d)) } else Some None } }"

definition pbuf_get_at :: "nat option \<Rightarrow> nat \<Rightarrow> pbufs \<Rightarrow> byte option" where
  "pbuf_get_at p offset s = do { r \<leftarrow> pbuf_try_get_at p offset s; Some (case r of None \<Rightarrow> nul | Some c \<Rightarrow> c) }"

definition pbuf_put_at :: "nat option \<Rightarrow> nat \<Rightarrow> byte \<Rightarrow> pbufs \<Rightarrow> pbufs option" where
  "pbuf_put_at p offset c s = do {
     (q, i) \<leftarrow> pbuf_skip p offset s;
     case q of None \<Rightarrow> Some s | Some a \<Rightarrow> do {
       b \<leftarrow> pb_heap s a;
       if i < p_len b then payload_write a i [c] s else Some s } }"

text \<open>The comparison of the rest of \<open>d\<close> from its \<open>i\<close>-th byte on.\<close>

fun memcmp_loop :: "nat option \<Rightarrow> nat \<Rightarrow> bytes \<Rightarrow> nat \<Rightarrow> pbufs \<Rightarrow> nat option" where
  "memcmp_loop q start [] i s = Some 0"
| "memcmp_loop q start (c # d) i s = do {
     a \<leftarrow> pbuf_get_at q (u16 (start + i)) s;
     if a \<noteq> c then Some (min (i + 1) 0xFFFF) else memcmp_loop q start d (i + 1) s }"

definition pbuf_memcmp :: "nat \<Rightarrow> nat \<Rightarrow> bytes \<Rightarrow> pbufs \<Rightarrow> nat option" where
  "pbuf_memcmp p offset d s = do {
     b \<leftarrow> pb_heap s p;
     if p_tot_len b < offset + length d then Some 0xFFFF
     else do {
       (q, start) \<leftarrow> pbuf_skip_const (Some p) offset s;
       memcmp_loop q start d 0 s } }"

text \<open>The search over \<open>n\<close> more positions from \<open>i\<close> on.\<close>

fun memfind_loop :: "nat \<Rightarrow> bytes \<Rightarrow> nat \<Rightarrow> nat \<Rightarrow> pbufs \<Rightarrow> nat option" where
  "memfind_loop p d i 0 s = Some 0xFFFF"
| "memfind_loop p d i (Suc n) s = do {
     plus \<leftarrow> pbuf_memcmp p i d s;
     if plus = 0 then Some i else memfind_loop p d (i + 1) n s }"

definition pbuf_memfind :: "nat \<Rightarrow> bytes \<Rightarrow> nat \<Rightarrow> pbufs \<Rightarrow> nat option" where
  "pbuf_memfind p d start_offset s = do {
     b \<leftarrow> pb_heap s p;
     if length d + start_offset \<le> p_tot_len b
     then memfind_loop p d start_offset (p_tot_len b - length d + 1 - start_offset) s
     else Some 0xFFFF }"

definition pbuf_strstr :: "nat \<Rightarrow> bytes option \<Rightarrow> pbufs \<Rightarrow> nat option" where
  "pbuf_strstr p substr s = (case substr of None \<Rightarrow> Some 0xFFFF | Some t \<Rightarrow>
     if deref t = nul then Some 0xFFFF
     else do {
       b \<leftarrow> pb_heap s p;
       if p_tot_len b = 0xFFFF \<or> 0xFFFF \<le> strlen t then Some 0xFFFF
       else pbuf_memfind p (cstr t) 0 s })"

end
