(* ===== verification/Usb_Eth.thy ===== *)
theory Usb_Eth
  imports Mem_Buffer Pbuf
begin

text \<open>
  The USB Ethernet driver, \<^verbatim>\<open>src/src/drivers/usb_ethernet.c\<close>: frames received from a CDC-ECM or CDC-NCM
  device are put into a ring buffer of the device, a timer drains the rings into packet buffers
  and hands these to lwIP, and memory pressure throttles the reception.

  Devices (\<open>eth_device_t\<close>) live in a store and are named by numbers; an interface (\<open>struct netif\<close>) is
  named by the device it is part of, and the list of interfaces holds those of this driver (the
  driver passes over all others). The USB library, the interface functions of lwIP and the timer
  are called through a log; the environment answers as a function of what has been called before.
  The driver's throttle hook is called by the buffer manager; it does not call back into it, so
  that running it after the operation that caused it is running it inside.

  The allocator behind the packet buffers is a part of the buffer manager; what it does to the
  buffer manager when a packet is allocated or freed (\<open>en_pools\<close>), and what lwIP does with a packet
  it is given (\<open>en_input\<close>), are answers of the environment. A packet lwIP sends while it handles an
  incoming one is a step of its own.
\<close>

section \<open>Data\<close>

datatype rx_callback = Ecm_receive | Ncm_receive

datatype tx_emit = Ecm_transmit | Ncm_transmit

text \<open>The data pointer of a transfer.\<close>

datatype xfer_data = Dev nat | Packet nat

datatype xfer_callback = On_rx rx_callback | On_interrupt | On_bulk_out

abbreviation ETHERNET_MTU :: nat where "ETHERNET_MTU \<equiv> 1518"
abbreviation INTERRUPT_RX_MAX :: nat where "INTERRUPT_RX_MAX \<equiv> 64"
abbreviation NCM_RX_NTB_MAX_SIZE :: nat where "NCM_RX_NTB_MAX_SIZE \<equiv> 2048"
abbreviation USB_ECM_SUBCLASS :: nat where "USB_ECM_SUBCLASS \<equiv> 0x06"
abbreviation USB_NCM_SUBCLASS :: nat where "USB_NCM_SUBCLASS \<equiv> 0x0D"
abbreviation ETH_USB_MAX_RETRIES :: nat where "ETH_USB_MAX_RETRIES \<equiv> 5"

record eth_device =
  ed_device :: nat
  ed_type :: nat
  ed_hwaddr :: bytes
  rx_transfer_active :: bool
  rx_ring :: "nat option"
  rx_endpoint :: nat
  rx_cb :: "rx_callback option"
  rx_buf :: bytes
  tx_endpoint :: nat
  tx_emit :: "tx_emit option"
  int_endpoint :: nat
  int_buf :: bytes
  ncm_capabilities :: nat
  ncm_sequence :: nat
  ntb_params :: bytes
  if_name :: bytes
  if_num :: nat
  if_mtu :: nat
  if_hwaddr :: bytes
  if_linkoutput :: "tx_emit option"

text \<open>Transfers to the device carry their bytes. \<open>Netif_input\<close> carries the bytes of the packet.\<close>

datatype eth_event =
    Usb_in nat nat xfer_callback nat
  | Usb_out nat bytes xfer_data
  | Usb_control nat bytes bytes
  | Usb_disable nat
  | Usb_reset nat
  | Usb_descriptor nat nat nat nat
  | Usb_config_len nat nat
  | Usb_string nat nat
  | Usb_set_configuration nat bytes
  | Usb_set_interface nat bytes
  | Usb_endpoint nat nat
  | Usb_get_data nat
  | Usb_set_data nat "nat option"
  | Usb_role
  | Usb_flags nat
  | Random
  | Malloc_device
  | Free_device nat
  | Pools
  | Netif_input nat nat bytes
  | Netif_added nat
  | Netif_linklocal nat
  | Netif_hostname nat
  | Netif_up nat
  | Netif_down nat
  | Netif_link_up nat
  | Netif_link_down nat
  | Netif_set_default nat
  | Netif_remove nat
  | Dhcp_start nat
  | Sys_timeout nat

text \<open>The answers. A USB function that answers with an error code answers here with whether it
  failed; one that fills a buffer answers with the bytes it has written.\<close>

record eth_env =
  en_schedule :: "eth_event list \<Rightarrow> bool"
  en_control :: "eth_event list \<Rightarrow> bool \<times> bytes"
  en_descriptor :: "eth_event list \<Rightarrow> bool \<times> bytes"
  en_config_len :: "eth_event list \<Rightarrow> nat"
  en_string :: "eth_event list \<Rightarrow> bool \<times> bytes"
  en_failed :: "eth_event list \<Rightarrow> bool"
  en_flag :: "eth_event list \<Rightarrow> bool"
  en_endpoint :: "eth_event list \<Rightarrow> nat"
  en_data :: "eth_event list \<Rightarrow> nat option"
  en_number :: "eth_event list \<Rightarrow> nat"
  en_malloc :: "eth_event list \<Rightarrow> bool"
  en_stack :: "eth_event list \<Rightarrow> bytes"
  en_pools :: "eth_event list \<Rightarrow> mem_state \<Rightarrow> mem_state"
  en_input :: "eth_event list \<Rightarrow> nat \<Rightarrow> pbufs \<Rightarrow> mem_state \<Rightarrow> err_t \<times> pbufs \<times> mem_state"

text \<open>The globals of the file, the static variables of its functions, and what it works on.\<close>

record eth_state =
  ifnums_used :: u8
  eth_disabled_with_error :: bool
  g_rx_throttle :: mem_pressure_level
  g_hook_registered :: bool
  g_drain_scheduled :: bool
  g_drain_interval :: nat
  int_retries :: nat
  default_netif_set :: bool
  tx_retries :: nat
  ecm_rx_retries :: nat
  ncm_rx_retries :: nat
  eth_devs :: "nat \<Rightarrow> eth_device option"
  eth_next :: nat
  netif_list :: "nat list"
  netif_default :: "nat option"
  eth_mem :: mem_state
  eth_pbufs :: pbufs
  eth_log :: "eth_event list"
  eth_env :: eth_env

definition eth_call :: "eth_event \<Rightarrow> eth_state \<Rightarrow> eth_state" where
  "eth_call e s = s\<lparr>eth_log := eth_log s @ [e]\<rparr>"

definition put_dev :: "nat \<Rightarrow> eth_device \<Rightarrow> eth_state \<Rightarrow> eth_state" where
  "put_dev d v s = s\<lparr>eth_devs := (eth_devs s)(d \<mapsto> v)\<rparr>"

definition upd_dev :: "nat \<Rightarrow> (eth_device \<Rightarrow> eth_device) \<Rightarrow> eth_state \<Rightarrow> eth_state option" where
  "upd_dev d f s = do { v \<leftarrow> eth_devs s d; Some (put_dev d (f v) s) }"

text \<open>\<open>schedule_transfer\<close> of a transfer from the device, with whether it failed.\<close>

definition schedule_in :: "nat \<Rightarrow> nat \<Rightarrow> xfer_callback \<Rightarrow> nat \<Rightarrow> eth_state \<Rightarrow> bool \<times> eth_state" where
  "schedule_in ep n cb d s = (let s = eth_call (Usb_in ep n cb d) s in (en_schedule (eth_env s) (eth_log s), s))"

section \<open>Throttling\<close>

definition eth_should_schedule_rx :: "eth_state \<Rightarrow> bool" where
  "eth_should_schedule_rx s \<longleftrightarrow> g_rx_throttle s = MEM_PRESSURE_NONE \<or> g_rx_throttle s = MEM_PRESSURE_MILD"

definition eth_drain_budget :: "eth_state \<Rightarrow> nat" where
  "eth_drain_budget s = (case g_rx_throttle s of MEM_PRESSURE_NONE \<Rightarrow> 8 | MEM_PRESSURE_MILD \<Rightarrow> 4
     | MEM_PRESSURE_HIGH \<Rightarrow> 2 | MEM_PRESSURE_CRITICAL \<Rightarrow> 1)"

definition is_en :: "eth_device \<Rightarrow> bool" where
  "is_en v \<longleftrightarrow> if_name v = ''en''"

definition rx_len :: "eth_device \<Rightarrow> nat" where
  "rx_len v = (if ed_type v = USB_NCM_SUBCLASS then NCM_RX_NTB_MAX_SIZE else ETHERNET_MTU)"

definition restart_rx :: "nat \<Rightarrow> eth_state \<Rightarrow> eth_state" where
  "restart_rx d s = (case eth_devs s d of
      None \<Rightarrow> s
    | Some v \<Rightarrow>
        if \<not> is_en v then s
        else case rx_cb v of
            None \<Rightarrow> s
          | Some cb \<Rightarrow>
              if rx_transfer_active v then s
              else let (failed, s) = schedule_in (rx_endpoint v) (rx_len v) (On_rx cb) d s
                   in if failed then s else put_dev d (v\<lparr>rx_transfer_active := True\<rparr>) s)"

definition eth_set_rx_throttle :: "mem_pressure_level \<Rightarrow> eth_state \<Rightarrow> eth_state" where
  "eth_set_rx_throttle level s =
     (let previous = g_rx_throttle s; s = s\<lparr>g_rx_throttle := level\<rparr>
      in if eth_should_schedule_rx s \<or> previous = MEM_PRESSURE_CRITICAL then fold restart_rx (netif_list s) s else s)"

definition eth_set_rx_drain_interval_ms :: "nat \<Rightarrow> eth_state \<Rightarrow> eth_state" where
  "eth_set_rx_drain_interval_ms n s = s\<lparr>g_drain_interval := (if n = 0 then 5 else n)\<rparr>"

text \<open>An operation of the buffer manager, and the calls of the throttle hook it makes.\<close>

fun run_hook :: "mem_event \<Rightarrow> eth_state \<Rightarrow> eth_state" where
  "run_hook (Ev_eth_throttle level) s = eth_set_rx_throttle level s"
| "run_hook _ s = s"

definition set_mem :: "mem_state \<Rightarrow> eth_state \<Rightarrow> eth_state" where
  "set_mem \<sigma> s = fold run_hook (drop (length (g_log (eth_mem s))) (g_log \<sigma>)) (s\<lparr>eth_mem := \<sigma>\<rparr>)"

definition with_mem :: "(mem_state \<Rightarrow> ('a \<times> mem_state) option) \<Rightarrow> eth_state \<Rightarrow> ('a \<times> eth_state) option" where
  "with_mem f s = do { (r, \<sigma>) \<leftarrow> f (eth_mem s); Some (r, set_mem \<sigma> s) }"

text \<open>An operation on packet buffers that allocates or frees.\<close>

definition with_pbufs :: "(pbufs \<Rightarrow> ('a \<times> pbufs) option) \<Rightarrow> eth_state \<Rightarrow> ('a \<times> eth_state) option" where
  "with_pbufs f s = do {
     (r, pb) \<leftarrow> f (eth_pbufs s);
     let s = eth_call Pools (s\<lparr>eth_pbufs := pb\<rparr>);
     Some (r, set_mem (en_pools (eth_env s) (eth_log s) (eth_mem s)) s) }"

definition eth_register_pressure_hook :: "eth_state \<Rightarrow> eth_state" where
  "eth_register_pressure_hook s =
     (if g_hook_registered s then s
      else (set_mem (mem_register_pressure_hook_eth_rx True (eth_mem s)) s)\<lparr>g_hook_registered := True\<rparr>)"

section \<open>The receive ring\<close>

text \<open>A frame is put into the ring behind its length, high byte first. \<open>data\<close> are the \<open>len\<close> bytes at
  the pointer handed over.\<close>

definition frame_header :: "nat \<Rightarrow> bytes" where
  "frame_header len = [char_of (len div 256), char_of (len mod 256)]"

definition eth_ring_push_frame :: "nat \<Rightarrow> bytes \<Rightarrow> eth_state \<Rightarrow> (bool \<times> eth_state) option" where
  "eth_ring_push_frame d data s = do {
     v \<leftarrow> eth_devs s d;
     if rx_ring v = None \<or> data = [] then Some (False, s)
     else do {
       (ok, s) \<leftarrow> with_mem (mem_buffer_reserve (rx_ring v) (length data + 2)) s;
       if \<not> ok then Some (False, s)
       else do {
         (ok, s) \<leftarrow> with_mem (mem_buffer_push (rx_ring v) (frame_header (length data))) s;
         if \<not> ok then Some (False, s)
         else with_mem (mem_buffer_push (rx_ring v) data) s } } }"

text \<open>Filling a chain of packet buffers from the ring; the result is what is left to copy.\<close>

partial_function (option) fill_loop :: "nat \<Rightarrow> nat option \<Rightarrow> nat \<Rightarrow> eth_state \<Rightarrow> (nat \<times> eth_state) option" where
  "fill_loop b q remaining s = (case q of None \<Rightarrow> Some (remaining, s) | Some a \<Rightarrow>
     if remaining = 0 then Some (remaining, s)
     else do {
       bq \<leftarrow> pb_heap (eth_pbufs s) a;
       let chunk = (if remaining < p_len bq then remaining else p_len bq);
       (out, s) \<leftarrow> with_mem (mem_buffer_pop (Some b) chunk) s;
       pb \<leftarrow> payload_write a 0 out (eth_pbufs s);
       fill_loop b (p_next bq) (remaining - chunk) (s\<lparr>eth_pbufs := pb\<rparr>) })"

text \<open>\<open>netif->input\<close>. The call is logged with the bytes of the packet.\<close>

definition netif_input :: "nat \<Rightarrow> nat \<Rightarrow> eth_state \<Rightarrow> (err_t \<times> eth_state) option" where
  "netif_input d p s = do {
     b \<leftarrow> pb_heap (eth_pbufs s) p;
     data \<leftarrow> pbuf_copy_partial (Some p) (p_tot_len b) 0 (eth_pbufs s);
     let s = eth_call (Netif_input d p data) s;
     let (err, pb, \<sigma>) = en_input (eth_env s) (eth_log s) p (eth_pbufs s) (eth_mem s);
     Some (err, set_mem \<sigma> (s\<lparr>eth_pbufs := pb\<rparr>)) }"

text \<open>The loop of \<open>eth_rx_ring_drain\<close>, with the budget left and the frames drained so far.\<close>

fun drain_loop :: "nat \<Rightarrow> nat \<Rightarrow> nat \<Rightarrow> nat \<Rightarrow> eth_state \<Rightarrow> (nat \<times> eth_state) option" where
  "drain_loop b d 0 drained s = Some (drained, s)"
| "drain_loop b d (Suc budget) drained s =
     (if mem_buffer_len (Some b) (eth_mem s) < 2 then Some (drained, s)
      else do {
        hdr \<leftarrow> mem_buffer_peek (Some b) 0 2 (eth_mem s);
        case hdr of None \<Rightarrow> Some (drained, s) | Some h \<Rightarrow>
          let len = code (h ! 0) * 256 + code (h ! 1)
          in if mem_buffer_len (Some b) (eth_mem s) < len + 2 then Some (drained, s)
             else do {
               (p, s) \<leftarrow> with_pbufs (pbuf_alloc PBUF_RAW len PBUF_POOL) s;
               case p of None \<Rightarrow> Some (drained, s) | Some p \<Rightarrow> do {
                 (h, s) \<leftarrow> with_mem (mem_buffer_pop (Some b) 2) s;
                 (remaining, s) \<leftarrow> fill_loop b (Some p) len s;
                 if remaining \<noteq> 0
                 then do { (n, s) \<leftarrow> with_pbufs (pbuf_free (Some p)) s; Some (drained, s) }
                 else do {
                   (err, s) \<leftarrow> netif_input d p s;
                   if err \<noteq> ERR_OK
                   then do { (n, s) \<leftarrow> with_pbufs (pbuf_free (Some p)) s; drain_loop b d budget (drained + 1) s }
                   else drain_loop b d budget (drained + 1) s } } } })"

definition eth_rx_ring_drain :: "nat option \<Rightarrow> nat option \<Rightarrow> nat \<Rightarrow> eth_state \<Rightarrow> (nat \<times> eth_state) option" where
  "eth_rx_ring_drain rb netif budget s = (case (rb, netif) of
      (Some b, Some d) \<Rightarrow> drain_loop b d budget 0 s
    | _ \<Rightarrow> Some (0, s))"

text \<open>The timer goes through the interfaces with one budget. The drain function of a ring is
  \<open>eth_rx_ring_drain\<close>, called with the interface the ring belongs to. \<open>netif_list\<close> holds the
  interfaces of this driver: the only other interface of this configuration is lwIP's loopback,
  which is named "lo" and skipped by the test for "en".\<close>

fun drain_netifs :: "nat list \<Rightarrow> nat \<Rightarrow> eth_state \<Rightarrow> eth_state option" where
  "drain_netifs [] budget s = Some s"
| "drain_netifs (d # ds) budget s =
     (if budget = 0 then Some s
      else case eth_devs s d of
          None \<Rightarrow> drain_netifs ds budget s
        | Some v \<Rightarrow> (case rx_ring v of
            None \<Rightarrow> drain_netifs ds budget s
          | Some b \<Rightarrow>
              if \<not> is_en v \<or> \<not> mb_drain (g_bufs (eth_mem s) b) then drain_netifs ds budget s
              else do {
                (drained, s) \<leftarrow> eth_rx_ring_drain (Some b) (Some d) budget s;
                drain_netifs ds (budget - min drained budget) s }))"

definition eth_rx_drain_timer :: "eth_state \<Rightarrow> eth_state option" where
  "eth_rx_drain_timer s = do {
     s \<leftarrow> drain_netifs (netif_list s) (eth_drain_budget s) s;
     Some (eth_call (Sys_timeout (g_drain_interval s)) s) }"

section \<open>Call-backs of transfers\<close>

datatype usb_error = USB_SUCCESS | USB_ERROR_FAILED | USB_ERROR_NO_DEVICE

definition eth_xmit_fatal_error :: "nat option \<Rightarrow> nat \<Rightarrow> eth_state \<Rightarrow> (bool \<times> eth_state) option" where
  "eth_xmit_fatal_error d retries s =
     (if retries = ETH_USB_MAX_RETRIES
      then do { d \<leftarrow> d; v \<leftarrow> eth_devs s d; Some (True, (eth_call (Usb_disable (ed_device v)) s)\<lparr>eth_disabled_with_error := True\<rparr>) }
      else Some (False, s))"

text \<open>Scheduling the next receive transfer without a look at the answer.\<close>

definition next_rx :: "nat \<Rightarrow> nat \<Rightarrow> eth_state \<Rightarrow> eth_state option" where
  "next_rx d n s = do {
     v \<leftarrow> eth_devs s d;
     cb \<leftarrow> rx_cb v;
     upd_dev d (\<lambda>v. v\<lparr>rx_transfer_active := True\<rparr>) (snd (schedule_in (rx_endpoint v) n (On_rx cb) d s)) }"

text \<open>Notifications are control requests of eight bytes, each followed by its data.\<close>

definition setup_word :: "nat \<Rightarrow> bytes \<Rightarrow> nat option" where
  "setup_word i buf = do { w \<leftarrow> read_bytes i 2 buf; Some (of_le16 (w ! 0) (w ! 1)) }"

definition network_connection :: "nat \<Rightarrow> bool \<Rightarrow> eth_state \<Rightarrow> eth_state" where
  "network_connection d up s =
     (if up
      then let s = eth_call (Dhcp_start d) (eth_call (Netif_link_up d) s)
           in if default_netif_set s then s
              else (eth_call (Netif_set_default d) s)\<lparr>netif_default := Some d, default_netif_set := True\<rparr>
      else let s = eth_call (Netif_link_down d) s
           in if netif_default s = Some d then s\<lparr>netif_default := None, default_netif_set := False\<rparr> else s)"

function notify_loop :: "nat \<Rightarrow> bytes \<Rightarrow> nat \<Rightarrow> nat \<Rightarrow> eth_state \<Rightarrow> eth_state option" where
  "notify_loop d ibuf transferred parsed s = do {
     hdr \<leftarrow> read_bytes parsed 8 ibuf;
     wValue \<leftarrow> setup_word (parsed + 2) ibuf;
     wLength \<leftarrow> setup_word (parsed + 6) ibuf;
     let s = (if code (hdr ! 0) = 0xA1 \<and> code (hdr ! 1) = 0 then network_connection d (wValue \<noteq> 0) s else s);
     let parsed' = parsed + 8 + wLength;
     if parsed' < transferred then notify_loop d ibuf transferred parsed' s else Some s }"
  by pat_completeness auto

termination
  by (relation "measure (\<lambda>(d, ibuf, transferred, parsed, s). transferred - parsed)") auto

declare notify_loop.simps [simp del]

text \<open>\<open>status\<close> tells whether the transfer failed.\<close>

definition interrupt_receive_callback :: "bool \<Rightarrow> nat \<Rightarrow> nat \<Rightarrow> eth_state \<Rightarrow> (usb_error \<times> eth_state) option" where
  "interrupt_receive_callback status transferred d s =
     (let again = (\<lambda>s. do {
        v \<leftarrow> eth_devs s d;
        Some (USB_SUCCESS, snd (schedule_in (int_endpoint v) INTERRUPT_RX_MAX On_interrupt d s)) })
      in if status
         then do {
           (fatal, s) \<leftarrow> eth_xmit_fatal_error (Some d) (int_retries s) s;
           if fatal then Some (USB_ERROR_FAILED, s) else again (s\<lparr>int_retries := (int_retries s + 1) mod 256\<rparr>) }
         else if 0 < transferred
         then do {
           v \<leftarrow> eth_devs s d;
           s \<leftarrow> notify_loop d (int_buf v) transferred 0 s;
           again (s\<lparr>int_retries := 0\<rparr>) }
         else again s)"

text \<open>A transfer of the payload of a packet buffer to the device.\<close>

definition schedule_out :: "nat \<Rightarrow> nat \<Rightarrow> nat \<Rightarrow> eth_state \<Rightarrow> eth_state option" where
  "schedule_out ep p n s = do {
     b \<leftarrow> pb_heap (eth_pbufs s) p;
     data \<leftarrow> payload_read b 0 n;
     Some (eth_call (Usb_out ep data (Packet p)) s) }"

text \<open>The data of a transmission is its packet buffer, which the error path takes for the device:
  the endpoint and the USB device are read through a pointer that is none to a device.\<close>

definition device_at :: "xfer_data \<Rightarrow> nat option" where
  "device_at x = (case x of Dev d \<Rightarrow> Some d | Packet p \<Rightarrow> None)"

definition packet_at :: "xfer_data \<Rightarrow> nat option" where
  "packet_at x = (case x of Packet p \<Rightarrow> Some p | Dev d \<Rightarrow> None)"

definition bulk_transmit_callback :: "bool \<Rightarrow> xfer_data option \<Rightarrow> eth_state \<Rightarrow> (usb_error \<times> eth_state) option" where
  "bulk_transmit_callback status data s =
     (if status
      then do {
        x \<leftarrow> data;
        (fatal, s) \<leftarrow> eth_xmit_fatal_error (device_at x) (tx_retries s) s;
        if fatal
        then do {
          p \<leftarrow> packet_at x;
          (n, s) \<leftarrow> with_pbufs (pbuf_free (Some p)) s;
          Some (USB_ERROR_FAILED, s\<lparr>tx_retries := 0\<rparr>) }
        else do {
          d \<leftarrow> device_at x;
          v \<leftarrow> eth_devs s d;
          p \<leftarrow> packet_at x;
          b \<leftarrow> pb_heap (eth_pbufs s) p;
          s \<leftarrow> schedule_out (tx_endpoint v) p (p_tot_len b) (s\<lparr>tx_retries := (tx_retries s + 1) mod 256\<rparr>);
          Some (USB_SUCCESS, s) } }
      else let s = s\<lparr>tx_retries := 0\<rparr>
           in case data of None \<Rightarrow> Some (USB_SUCCESS, s)
              | Some x \<Rightarrow> do { p \<leftarrow> packet_at x; (n, s) \<leftarrow> with_pbufs (pbuf_free (Some p)) s; Some (USB_SUCCESS, s) })"

definition ecm_receive_callback :: "bool \<Rightarrow> nat \<Rightarrow> nat \<Rightarrow> eth_state \<Rightarrow> (usb_error \<times> eth_state) option" where
  "ecm_receive_callback status transferred d s = do {
     s \<leftarrow> upd_dev d (\<lambda>v. v\<lparr>rx_transfer_active := False\<rparr>) s;
     if status
     then do {
       (fatal, s) \<leftarrow> eth_xmit_fatal_error (Some d) (ecm_rx_retries s) s;
       if fatal then Some (USB_ERROR_FAILED, s)
       else do {
         let s = s\<lparr>ecm_rx_retries := (ecm_rx_retries s + 1) mod 256\<rparr>;
         s \<leftarrow> (if eth_should_schedule_rx s then next_rx d ETHERNET_MTU s else Some s);
         Some (USB_SUCCESS, s) } }
     else if 0 < transferred
     then do {
       v \<leftarrow> eth_devs s d;
       data \<leftarrow> read_bytes 0 (u16 transferred) (rx_buf v);
       (pushed, s) \<leftarrow> eth_ring_push_frame d data (s\<lparr>ecm_rx_retries := 0\<rparr>);
       s \<leftarrow> (if pushed \<and> eth_should_schedule_rx s then next_rx d ETHERNET_MTU s else Some s);
       Some (USB_SUCCESS, s) }
     else Some (USB_SUCCESS, s) }"

text \<open>A packet that cannot be allocated is not noticed here: \<open>pbuf_copy\<close> refuses to copy into it.\<close>

definition ecm_bulk_transmit :: "nat \<Rightarrow> nat \<Rightarrow> eth_state \<Rightarrow> (err_t \<times> eth_state) option" where
  "ecm_bulk_transmit d p s = do {
     v \<leftarrow> eth_devs s d;
     b \<leftarrow> pb_heap (eth_pbufs s) p;
     if ETHERNET_MTU < p_tot_len b then Some (ERR_MEM, s)
     else do {
       (tbuf, s) \<leftarrow> with_pbufs (pbuf_alloc PBUF_RAW (p_tot_len b) PBUF_RAM) s;
       (err, pb) \<leftarrow> pbuf_copy tbuf (Some p) (eth_pbufs s);
       let s = s\<lparr>eth_pbufs := pb\<rparr>;
       if err \<noteq> ERR_OK then Some (ERR_MEM, s)
       else do {
         t \<leftarrow> tbuf;
         tb \<leftarrow> pb_heap pb t;
         s \<leftarrow> schedule_out (tx_endpoint v) t (p_tot_len tb) s;
         Some (ERR_OK, s) } } }"

section \<open>The network control model\<close>

abbreviation NCM_NTH_SIG :: bytes where "NCM_NTH_SIG \<equiv> ''NCMH''"
abbreviation NCM_NDP_SIG0 :: bytes where "NCM_NDP_SIG0 \<equiv> ''NCM0''"
abbreviation NCM_NTH_LEN :: nat where "NCM_NTH_LEN \<equiv> 12"
abbreviation NCM_NDP_LEN :: nat where "NCM_NDP_LEN \<equiv> 12"
abbreviation NCM_HBUF_SIZE :: nat where "NCM_HBUF_SIZE \<equiv> 64"

definition ncm_device_supports :: "eth_device \<Rightarrow> nat \<Rightarrow> bool" where
  "ncm_device_supports v bm \<longleftrightarrow> ncm_capabilities v div 2 ^ bm mod 2 = 1"

definition control_transfer :: "nat \<Rightarrow> bytes \<Rightarrow> bytes \<Rightarrow> eth_state \<Rightarrow> (bool \<times> bytes) \<times> eth_state" where
  "control_transfer dev setup data s =
     (let s = eth_call (Usb_control dev setup data) s in (en_control (eth_env s) (eth_log s), s))"

definition setup_packet :: "nat \<Rightarrow> nat \<Rightarrow> nat \<Rightarrow> nat \<Rightarrow> nat \<Rightarrow> bytes" where
  "setup_packet bmRequestType bRequest wValue wIndex wLength =
     [char_of bmRequestType, char_of bRequest] @ le16 wValue @ le16 wIndex @ le16 wLength"

text \<open>The bytes a control transfer has written lie over the old contents of its buffer.\<close>

definition overlay :: "bytes \<Rightarrow> bytes \<Rightarrow> bytes" where
  "overlay new old = take (length old) (new @ drop (length new) old)"

definition ncm_control_setup :: "eth_device \<Rightarrow> eth_state \<Rightarrow> bool \<times> eth_device \<times> eth_state" where
  "ncm_control_setup v s =
     (if ed_type v \<noteq> USB_NCM_SUBCLASS then (False, v, s)
      else let ((e1, params), s) = control_transfer (ed_device v) (setup_packet 0xA1 0x80 0 0 0x1C) [] s;
               v = v\<lparr>ntb_params := overlay params (ntb_params v)\<rparr>;
               ((e2, _), s) = control_transfer (ed_device v) (setup_packet 0x21 0x86 0 0 (if ncm_device_supports v 4 then 8 else 4))
                                (le16 NCM_RX_NTB_MAX_SIZE @ le16 0 @ le16 4 @ le16 0) s;
               ((e3, _), s) = (if ncm_device_supports v 0
                               then control_transfer (ed_device v) (setup_packet 0x21 0x43 1 0 0) [] s
                               else ((False, []), s))
           in (e1 \<or> e2 \<or> e3, v, s))"

text \<open>One datagram pointer table: entry \<open>n\<close> of the table at \<open>idx\<close>. The result tells whether every frame
  was taken by the ring.\<close>

partial_function (option) datagram_loop :: "nat \<Rightarrow> bytes \<Rightarrow> nat \<Rightarrow> nat \<Rightarrow> eth_state \<Rightarrow> (bool \<times> eth_state) option" where
  "datagram_loop d ntb idx n s = do {
     i \<leftarrow> setup_word (idx + 4 * n) ntb;
     len \<leftarrow> setup_word (idx + 4 * n + 2) ntb;
     data \<leftarrow> (if len = 0 then Some [] else read_bytes i len ntb);
     (ok, s) \<leftarrow> eth_ring_push_frame d data s;
     if \<not> ok then Some (False, s)
     else do {
       let n = u16 (n + 1);
       i' \<leftarrow> setup_word (idx + 4 * n) ntb;
       if i' = 0 then Some (True, s)
       else do {
         len' \<leftarrow> setup_word (idx + 4 * n + 2) ntb;
         if len' = 0 then Some (True, s) else datagram_loop d ntb idx n s } } }"

text \<open>The chain of tables from the one at \<open>ndp\<close> on. The result tells whether all of them had the right
  signature.\<close>

partial_function (option) ndp_loop :: "nat \<Rightarrow> bytes \<Rightarrow> nat \<Rightarrow> eth_state \<Rightarrow> (bool \<times> eth_state) option" where
  "ndp_loop d ntb ndp s = do {
     sig \<leftarrow> read_bytes ndp 4 ntb;
     if sig \<noteq> NCM_NDP_SIG0 then Some (False, s)
     else do {
       (parse_ntb, s) \<leftarrow> datagram_loop d ntb (ndp + 8) 0 s;
       nx \<leftarrow> setup_word (ndp + 6) ntb;
       if nx = 0 \<or> \<not> parse_ntb then Some (True, s) else ndp_loop d ntb nx s } }"

text \<open>In the error path the device is freed as if it were a packet buffer.\<close>

definition ncm_receive_callback :: "bool \<Rightarrow> nat \<Rightarrow> nat \<Rightarrow> eth_state \<Rightarrow> (usb_error \<times> eth_state) option" where
  "ncm_receive_callback status transferred d s = do {
     s \<leftarrow> upd_dev d (\<lambda>v. v\<lparr>rx_transfer_active := False\<rparr>) s;
     if status
     then do {
       (fatal, s) \<leftarrow> eth_xmit_fatal_error (Some d) (ncm_rx_retries s) s;
       if fatal
       then do { p \<leftarrow> packet_at (Dev d); (n, s) \<leftarrow> with_pbufs (pbuf_free (Some p)) s; Some (USB_ERROR_FAILED, s) }
       else do {
         let s = s\<lparr>ncm_rx_retries := (ncm_rx_retries s + 1) mod 256\<rparr>;
         s \<leftarrow> (if eth_should_schedule_rx s then next_rx d NCM_RX_NTB_MAX_SIZE s else Some s);
         Some (USB_SUCCESS, s) } }
     else if 0 < transferred
     then do {
       v \<leftarrow> eth_devs s d;
       let s = s\<lparr>ncm_rx_retries := 0\<rparr>;
       sig \<leftarrow> read_bytes 0 4 (rx_buf v);
       if sig \<noteq> NCM_NTH_SIG then Some (USB_SUCCESS, s)
       else do {
         ndp \<leftarrow> setup_word 10 (rx_buf v);
         (ok, s) \<leftarrow> ndp_loop d (rx_buf v) ndp s;
         if \<not> ok then Some (USB_SUCCESS, s)
         else do {
           s \<leftarrow> (if eth_should_schedule_rx s then next_rx d NCM_RX_NTB_MAX_SIZE s else Some s);
           Some (USB_SUCCESS, s) } } }
     else Some (USB_SUCCESS, s) }"

text \<open>The transfer header and the table at \<open>offset_ndp\<close>, both in the buffer of 64 bytes.\<close>

definition ncm_headers :: "nat \<Rightarrow> nat \<Rightarrow> nat \<Rightarrow> bytes option" where
  "ncm_headers offset_ndp sequence tot_len = do {
     h \<leftarrow> store_bytes 0 (NCM_NTH_SIG @ le16 NCM_NTH_LEN @ le16 sequence @ le16 (NCM_HBUF_SIZE + tot_len) @ le16 offset_ndp)
            (replicate NCM_HBUF_SIZE nul);
     store_bytes offset_ndp
       (NCM_NDP_SIG0 @ le16 (NCM_NDP_LEN + 4) @ le16 0 @ le16 NCM_HBUF_SIZE @ le16 tot_len @ le16 0 @ le16 0) h }"

definition ncm_bulk_transmit :: "nat \<Rightarrow> nat \<Rightarrow> eth_state \<Rightarrow> (err_t \<times> eth_state) option" where
  "ncm_bulk_transmit d p s = do {
     v \<leftarrow> eth_devs s d;
     align \<leftarrow> setup_word 12 (ntb_params v);
     if align = 0 then None
     else do {
       let offset_ndp = u16 (NCM_NTH_LEN + align - NCM_NTH_LEN mod align);
       b \<leftarrow> pb_heap (eth_pbufs s) p;
       let n = p_tot_len b;
       if ETHERNET_MTU < n then Some (ERR_MEM, s)
       else do {
         (obuf, s) \<leftarrow> with_pbufs (pbuf_alloc PBUF_RAW (NCM_HBUF_SIZE + n) PBUF_RAM) s;
         case obuf of None \<Rightarrow> Some (ERR_MEM, s) | Some o' \<Rightarrow> do {
           pb \<leftarrow> payload_write o' 0 (replicate (NCM_HBUF_SIZE + n) nul) (eth_pbufs s);
           hdr_buf \<leftarrow> ncm_headers offset_ndp (ncm_sequence v) n;
           s \<leftarrow> upd_dev d (\<lambda>v. v\<lparr>ncm_sequence := u16 (ncm_sequence v + 1)\<rparr>) s;
           (err, pb) \<leftarrow> pbuf_take (Some o') hdr_buf pb;
           data \<leftarrow> pbuf_copy_partial (Some p) n 0 pb;
           pb \<leftarrow> payload_write o' NCM_HBUF_SIZE data pb;
           s \<leftarrow> schedule_out (tx_endpoint v) o' (NCM_HBUF_SIZE + n) (s\<lparr>eth_pbufs := pb\<rparr>);
           Some (ERR_OK, s) } } } }"

section \<open>Finding a device\<close>

definition eth_netif_init :: "eth_device \<Rightarrow> eth_device" where
  "eth_netif_init v = v\<lparr>if_linkoutput := tx_emit v, if_mtu := ETHERNET_MTU, if_hwaddr := ed_hwaddr v\<rparr>"

text \<open>UTF-16 to hexadecimal digit.\<close>

definition nibble :: "16 word \<Rightarrow> u8" where
  "nibble c =
     (let c = c - 48 in if c < 10 then ucast c
      else let c = c - 17 in if c < 6 then ucast c + 10
      else let c = c - 32 in if c < 6 then ucast c + 10 else 0xFF)"

definition byte_at :: "nat \<Rightarrow> bytes \<Rightarrow> nat option" where
  "byte_at i buf = (if i < length buf then Some (code (buf ! i)) else None)"

definition string_mac :: "bytes \<Rightarrow> nat \<Rightarrow> byte" where
  "string_mac str i =
     (let unit = (\<lambda>k. word_of_nat (of_le16 (str ! (2 + 2 * k)) (str ! (3 + 2 * k))) :: 16 word)
      in char_of (unat (or (push_bit 4 (nibble (unit (2 * i)))) (nibble (unit (2 * i + 1))))))"

definition le24 :: "nat \<Rightarrow> bytes" where
  "le24 n = [char_of (n mod 256), char_of (n div 256 mod 256), char_of (n div 65536 mod 256)]"

definition next_random :: "eth_state \<Rightarrow> nat \<times> eth_state" where
  "next_random s = (let s = eth_call Random s in (en_number (eth_env s) (eth_log s) mod 2 ^ 24, s))"

text \<open>The hardware address: from the string descriptor, from the device, or a random local one, which
  the device is told. The result tells whether there is one.\<close>

definition mac_address :: "nat \<Rightarrow> nat \<Rightarrow> bytes \<Rightarrow> eth_state \<Rightarrow> bool \<times> bytes \<times> eth_state" where
  "mac_address dev iMac hw s =
     (let stack = en_stack (eth_env s) (eth_log s);
          s1 = eth_call (Usb_string dev iMac) s;
          (failed, str) = en_string (eth_env s1) (eth_log s1)
      in if iMac \<noteq> 0 \<and> \<not> failed then (True, map (string_mac (overlay str stack)) [0 ..< 6], s1)
         else let s = (if iMac \<noteq> 0 then s1 else s);
                  ((failed, addr), s) = control_transfer dev (setup_packet 0xA1 0x81 0 0 6) [] s;
                  hw = overlay addr hw
              in if \<not> failed then (True, hw, s)
                 else let (r0, s) = next_random s;
                          (r1, s) = next_random s;
                          first = or (and (word_of_nat r0 :: u8) 0xFE) 0x02;
                          hw = char_of (unat first) # tl (le24 r0 @ le24 r1);
                          ((failed, _), s) = control_transfer dev (setup_packet 0x21 0x82 0 0 6) hw s
                      in (\<not> failed, hw, s))"

text \<open>The flags of \<open>parse_state\<close>, what the parser has found, and the device under construction.\<close>

record parse_state =
  has_control_if :: bool
  has_mac_addr :: bool
  has_bulk_if_num :: bool
  has_bulk_if :: bool
  has_endpoint_int :: bool
  has_endpoint_in :: bool
  has_endpoint_out :: bool
  pa_ifnum :: nat
  addr_in :: nat
  addr_out :: nat
  addr_int :: nat
  if_bulk :: nat
  pa_tmp :: eth_device

datatype parse_result = Parsing | Init_success | Return_false

definition parse_reset :: "parse_state \<Rightarrow> parse_state" where
  "parse_reset ps = ps\<lparr>has_control_if := False, has_mac_addr := False, has_bulk_if_num := False, has_bulk_if := False,
     has_endpoint_int := False, has_endpoint_in := False, has_endpoint_out := False\<rparr>"

definition parse_endpoint :: "bytes \<Rightarrow> nat \<Rightarrow> parse_state \<Rightarrow> (parse_result \<times> parse_state) option" where
  "parse_endpoint buf at ps = do {
     addr \<leftarrow> byte_at (at + 2) buf;
     if has_bulk_if ps
     then let ps = (if 0x80 \<le> addr then ps\<lparr>addr_in := addr, has_endpoint_in := True\<rparr>
                    else ps\<lparr>addr_out := addr, has_endpoint_out := True\<rparr>)
          in Some (if has_endpoint_in ps \<and> has_endpoint_out ps \<and> has_endpoint_int ps \<and> has_mac_addr ps
                   then Init_success else Parsing, ps)
     else if has_control_if ps then Some (Parsing, ps\<lparr>addr_int := addr, has_endpoint_int := True\<rparr>)
     else Some (Parsing, ps) }"

definition parse_interface ::
    "bytes \<Rightarrow> nat \<Rightarrow> nat \<Rightarrow> nat \<Rightarrow> parse_state \<Rightarrow> eth_state \<Rightarrow> (parse_result \<times> parse_state \<times> eth_state) option" where
  "parse_interface buf desc_len dev at ps s =
     (let is = (\<lambda>i n. do { x \<leftarrow> byte_at (at + i) buf; Some (x = n) });
          both = (\<lambda>p q. do { x \<leftarrow> p; if x then q else Some False });
          either = (\<lambda>p q. do { x \<leftarrow> p; if x then Some True else q })
      in if has_bulk_if_num ps
         then do {
           found \<leftarrow> both (is 2 (pa_ifnum ps)) (both (is 4 2) (is 5 0x0A));
           Some (Parsing, if found then ps\<lparr>if_bulk := at, has_bulk_if := True\<rparr> else ps, s) }
         else do {
           let ps = parse_reset ps;
           control \<leftarrow> both (is 5 0x02) (either (is 6 USB_ECM_SUBCLASS) (is 6 USB_NCM_SUBCLASS));
           if \<not> control then Some (Parsing, ps, s)
           else do {
             subclass \<leftarrow> byte_at (at + 6) buf;
             let ps = ps\<lparr>pa_tmp := (pa_tmp ps)\<lparr>ed_type := subclass\<rparr>\<rparr>;
             let s = eth_call (Usb_set_configuration dev (take desc_len buf)) s;
             if en_failed (eth_env s) (eth_log s) then Some (Return_false, ps, s)
             else Some (Parsing, ps\<lparr>has_control_if := True\<rparr>, s) } })"

definition parse_class_specific :: "bytes \<Rightarrow> nat \<Rightarrow> nat \<Rightarrow> parse_state \<Rightarrow> eth_state \<Rightarrow> (parse_state \<times> eth_state) option" where
  "parse_class_specific buf dev at ps s = do {
     sub \<leftarrow> byte_at (at + 2) buf;
     if sub = 0x0F
     then do {
       iMac \<leftarrow> byte_at (at + 3) buf;
       let (ok, hw, s) = mac_address dev iMac (ed_hwaddr (pa_tmp ps)) s;
       Some (ps\<lparr>pa_tmp := (pa_tmp ps)\<lparr>ed_hwaddr := hw\<rparr>, has_mac_addr := has_mac_addr ps \<or> ok\<rparr>, s) }
     else if sub = 0x06
     then do { n \<leftarrow> byte_at (at + 4) buf; Some (ps\<lparr>pa_ifnum := n, has_bulk_if_num := True\<rparr>, s) }
     else if sub = 0x1A
     then do { c \<leftarrow> byte_at (at + 5) buf; Some (ps\<lparr>pa_tmp := (pa_tmp ps)\<lparr>ncm_capabilities := c\<rparr>\<rparr>, s) }
     else Some (ps, s) }"

partial_function (option) parse_loop ::
    "bytes \<Rightarrow> nat \<Rightarrow> nat \<Rightarrow> nat \<Rightarrow> parse_state \<Rightarrow> eth_state \<Rightarrow> (parse_result \<times> parse_state \<times> eth_state) option" where
  "parse_loop buf desc_len dev at ps s =
     (if at < desc_len
      then do {
        ty \<leftarrow> byte_at (at + 1) buf;
        (r, ps, s) \<leftarrow>
          (if ty = 0x05 then do { (r, ps) \<leftarrow> parse_endpoint buf at ps; Some (r, ps, s) }
           else if ty = 0x04 then parse_interface buf desc_len dev at ps s
           else if ty = 0x24 then do { (ps, s) \<leftarrow> parse_class_specific buf dev at ps s; Some (Parsing, ps, s) }
           else Some (Parsing, ps, s));
        if r \<noteq> Parsing then Some (r, ps, s)
        else do { len \<leftarrow> byte_at at buf; parse_loop buf desc_len dev (at + len) ps s } }
      else Some (Parsing, ps, s))"

abbreviation DESCRIPTOR_MAX_LEN :: nat where "DESCRIPTOR_MAX_LEN \<equiv> 256"

text \<open>The configurations in turn, over one descriptor buffer.\<close>

fun parse_configs ::
    "nat list \<Rightarrow> nat \<Rightarrow> bytes \<Rightarrow> parse_state \<Rightarrow> eth_state \<Rightarrow> (parse_result \<times> bytes \<times> nat \<times> parse_state \<times> eth_state) option" where
  "parse_configs [] dev buf ps s = Some (Return_false, buf, 0, ps, s)"
| "parse_configs (c # cs) dev buf ps s =
     (let s = eth_call (Usb_config_len dev c) s;
          desc_len = en_config_len (eth_env s) (eth_log s);
          ps = parse_reset ps\<lparr>pa_ifnum := 0\<rparr>
      in if DESCRIPTOR_MAX_LEN < desc_len then parse_configs cs dev buf ps s
         else let s = eth_call (Usb_descriptor dev 2 c desc_len) s;
                  (failed, bs) = en_descriptor (eth_env s) (eth_log s);
                  buf = overlay bs buf
         in if failed \<or> length bs \<noteq> desc_len then parse_configs cs dev buf ps s
            else do {
              (r, ps, s) \<leftarrow> parse_loop buf desc_len dev 0 ps s;
              if r = Parsing then parse_configs cs dev buf ps s else Some (r, buf, desc_len, ps, s) })"

definition no_device :: "nat \<Rightarrow> eth_device" where
  "no_device dev = \<lparr>ed_device = dev, ed_type = 0, ed_hwaddr = replicate 6 nul, rx_transfer_active = False, rx_ring = None,
     rx_endpoint = 0, rx_cb = None, rx_buf = replicate NCM_RX_NTB_MAX_SIZE nul, tx_endpoint = 0, tx_emit = None,
     int_endpoint = 0, int_buf = replicate INTERRUPT_RX_MAX nul, ncm_capabilities = 0, ncm_sequence = 0,
     ntb_params = replicate 28 nul, if_name = replicate 2 nul, if_num = 0, if_mtu = 0, if_hwaddr = replicate 6 nul,
     if_linkoutput = None\<rparr>"

definition parse_start :: "nat \<Rightarrow> parse_state" where
  "parse_start dev = \<lparr>has_control_if = False, has_mac_addr = False, has_bulk_if_num = False, has_bulk_if = False,
     has_endpoint_int = False, has_endpoint_in = False, has_endpoint_out = False, pa_ifnum = 0, addr_in = 0, addr_out = 0,
     addr_int = 0, if_bulk = 0, pa_tmp = no_device dev\<rparr>"

definition ifnum_assigned :: "u8 \<Rightarrow> nat" where
  "ifnum_assigned used = (case find (\<lambda>i. \<not> bit used i) [0 ..< 8] of None \<Rightarrow> 8 | Some i \<Rightarrow> i)"

definition device_endpoint :: "nat \<Rightarrow> nat \<Rightarrow> eth_state \<Rightarrow> nat \<times> eth_state" where
  "device_endpoint dev addr s = (let s = eth_call (Usb_endpoint dev addr) s in (en_endpoint (eth_env s) (eth_log s), s))"

definition get_device_data :: "nat \<Rightarrow> eth_state \<Rightarrow> nat option \<times> eth_state" where
  "get_device_data dev s = (let s = eth_call (Usb_get_data dev) s in (en_data (eth_env s) (eth_log s), s))"

text \<open>The device taken into use: its record, old or new, and its interface. \<open>netif_add_noaddr\<close> fails
  only without an interface, without an initialisation function or when that function fails; here
  the first two are given and \<open>eth_netif_init\<close> always returns \<open>ERR_OK\<close>, so the branch that frees the
  record again is never taken and has no counterpart below.\<close>

definition attach_device :: "nat \<Rightarrow> eth_device \<Rightarrow> eth_state \<Rightarrow> (nat option \<times> eth_state) option" where
  "attach_device dev tmp s =
     (let (data, s) = get_device_data dev s
      in case data of
           Some d \<Rightarrow> do {
             v \<leftarrow> eth_devs s d;
             let new = tmp\<lparr>rx_ring := rx_ring v, if_name := if_name v, if_num := if_num v, if_mtu := if_mtu v,
                           if_hwaddr := if_hwaddr v, if_linkoutput := if_linkoutput v\<rparr>;
             Some (Some d, put_dev d (eth_netif_init new) (eth_call (Usb_get_data dev) s)) }
         | None \<Rightarrow>
             let s = eth_call Malloc_device s
             in if \<not> en_malloc (eth_env s) (eth_log s) then Some (None, s)
                else let d = eth_next s; n = ifnum_assigned (ifnums_used s);
                         new = (eth_netif_init tmp)\<lparr>if_name := ''en'', if_num := n\<rparr>;
                         s = (put_dev d new s)\<lparr>eth_next := d + 1, netif_list := d # netif_list s\<rparr>;
                         s = eth_call (Netif_linklocal d) (eth_call (Usb_set_data dev (Some d)) (eth_call (Netif_added d) s));
                         s = s\<lparr>ifnums_used := or (ifnums_used s) (push_bit n 1)\<rparr>
                in Some (Some d, eth_call (Netif_hostname d) s))"

text \<open>The receive ring of a device that has none.\<close>

definition create_rx_ring :: "nat \<Rightarrow> eth_state \<Rightarrow> (bool \<times> eth_state) option" where
  "create_rx_ring d s = do {
     v \<leftarrow> eth_devs s d;
     if rx_ring v \<noteq> None then Some (True, s)
     else let (r, \<sigma>) = mem_buffer_create 512 2048 0 \<lparr>secure_mode = False, lock_size_flag = False, malloc_type = False\<rparr> False
                         (eth_mem s);
              \<sigma>' = mem_buffer_set_shrink r 30 512 (mem_buffer_set_grow r 85 512 (mem_buffer_set_drain r True
                     (mem_buffer_set_owner r MEM_BUF_OWNER_ETH_RX \<sigma>)))
          in if r = None then Some (False, set_mem \<sigma> s)
             else do { s \<leftarrow> upd_dev d (\<lambda>v. v\<lparr>rx_ring := r\<rparr>) (set_mem \<sigma>' s); Some (True, s) } }"

definition start_device :: "nat \<Rightarrow> eth_device \<Rightarrow> eth_state \<Rightarrow> eth_state option" where
  "start_device d tmp s = do {
     let s = (if g_drain_scheduled s then s
              else (eth_call (Sys_timeout (g_drain_interval s)) s)\<lparr>g_drain_scheduled := True\<rparr>);
     let s = eth_call (Netif_up d) (eth_register_pressure_hook s);
     v \<leftarrow> eth_devs s d;
     let s = snd (schedule_in (int_endpoint v) INTERRUPT_RX_MAX On_interrupt d s);
     if eth_should_schedule_rx s then next_rx d (rx_len tmp) s else Some s }"

text \<open>From the label \<open>init_success\<close> on.\<close>

definition init_success :: "nat \<Rightarrow> bytes \<Rightarrow> nat \<Rightarrow> parse_state \<Rightarrow> eth_state \<Rightarrow> (bool \<times> eth_state) option" where
  "init_success dev buf desc_len ps s =
     (let (failed, tmp, s) = ncm_control_setup (pa_tmp ps) s
      in if failed then Some (False, s)
         else let ncm = (ed_type tmp = USB_NCM_SUBCLASS); ecm = (ed_type tmp = USB_ECM_SUBCLASS);
                  tmp = tmp\<lparr>rx_cb := (if ncm then Some Ncm_receive else if ecm then Some Ecm_receive else None),
                            tx_emit := (if ncm then Some Ncm_transmit else if ecm then Some Ecm_transmit else None)\<rparr>
         in if tx_emit tmp = None \<or> rx_cb tmp = None then Some (False, s)
            else let s = eth_call (Usb_set_interface dev (take (desc_len - if_bulk ps) (drop (if_bulk ps) buf))) s
            in if en_failed (eth_env s) (eth_log s) then Some (False, s)
               else let (ein, s) = device_endpoint dev (addr_in ps) s;
                        (eout, s) = device_endpoint dev (addr_out ps) s;
                        (eint, s) = device_endpoint dev (addr_int ps) s;
                        tmp = tmp\<lparr>rx_endpoint := ein, tx_endpoint := eout, int_endpoint := eint\<rparr>
               in do {
                 (r, s) \<leftarrow> attach_device dev tmp s;
                 case r of None \<Rightarrow> Some (False, s) | Some d \<Rightarrow> do {
                   (ok, s) \<leftarrow> create_rx_ring d s;
                   if \<not> ok then Some (False, s) else do { s \<leftarrow> start_device d tmp s; Some (True, s) } } })"

definition init_ethernet_usb_device :: "nat \<Rightarrow> eth_state \<Rightarrow> (bool \<times> eth_state) option" where
  "init_ethernet_usb_device dev s =
     (if ifnums_used s = 0xFF then Some (False, s)
      else let buf = en_stack (eth_env s) (eth_log s);
               s = eth_call (Usb_descriptor dev 1 0 18) s;
               (failed, bs) = en_descriptor (eth_env s) (eth_log s);
               buf = overlay bs buf
      in if failed \<or> length bs \<noteq> 18 then Some (False, s)
         else if code (buf ! 4) \<noteq> 0 then Some (False, s)
         else do {
           (r, buf, desc_len, ps, s) \<leftarrow> parse_configs [0 ..< code (buf ! 17)] dev buf (parse_start dev) s;
           if r = Init_success then init_success dev buf desc_len ps s else Some (False, s) })"

section \<open>Events\<close>

datatype usb_event = USB_DEVICE_CONNECTED | USB_DEVICE_ENABLED | USB_DEVICE_DISCONNECTED | USB_DEVICE_DISABLED
  | USB_HOST_PORT_CONNECT_STATUS_CHANGE | USB_OTHER_EVENT

text \<open>A hub is configured with its first configuration.\<close>

definition enable_hub :: "nat \<Rightarrow> eth_state \<Rightarrow> eth_state option" where
  "enable_hub dev s =
     (let buf = en_stack (eth_env s) (eth_log s);
          s = eth_call (Usb_config_len dev 0) s;
          desc_len = en_config_len (eth_env s) (eth_log s);
          s = eth_call (Usb_descriptor dev 2 0 desc_len) s;
          (failed, bs) = en_descriptor (eth_env s) (eth_log s)
      in if DESCRIPTOR_MAX_LEN < length bs then None
         else if length bs \<noteq> desc_len then Some s
         else Some (eth_call (Usb_set_configuration dev bs) s))"

text \<open>The interface of a device that is gone is removed with the device, unless the driver itself has
  disabled it. The interface of a device without data is part of no object.\<close>

definition disconnect :: "nat \<Rightarrow> eth_state \<Rightarrow> eth_state option" where
  "disconnect dev s =
     (let (data, s) = get_device_data dev s
      in do {
        d \<leftarrow> data;
        v \<leftarrow> eth_devs s d;
        let s = eth_call (Netif_down d) (eth_call (Netif_link_down d) s);
        if eth_disabled_with_error s
        then Some ((eth_call (Usb_reset dev) s)\<lparr>eth_disabled_with_error := False\<rparr>)
        else let s = s\<lparr>ifnums_used := and (ifnums_used s) (not (push_bit (if_num v) 1))\<rparr>;
                 s = (eth_call (Netif_remove d) s)\<lparr>netif_list := removeAll d (netif_list s),
                       netif_default := (if netif_default s = Some d then None else netif_default s)\<rparr>;
                 s = (case rx_ring v of None \<Rightarrow> s | Some b \<Rightarrow> set_mem (mem_buffer_destroy (Some b) (eth_mem s)) s);
                 s = (eth_call (Free_device d) s)\<lparr>eth_devs := (eth_devs s)(d := None)\<rparr>
             in Some (eth_call (Usb_set_data dev None) s) })"

definition eth_usb_event_callback :: "usb_event \<Rightarrow> nat \<Rightarrow> eth_state \<Rightarrow> (usb_error \<times> eth_state) option" where
  "eth_usb_event_callback event dev s = (case event of
      USB_DEVICE_CONNECTED \<Rightarrow>
        let s = eth_call Usb_role s
        in Some (USB_SUCCESS, if en_flag (eth_env s) (eth_log s) then s else eth_call (Usb_reset dev) s)
    | USB_DEVICE_ENABLED \<Rightarrow>
        let s = eth_call (Usb_flags dev) s
        in if en_flag (eth_env s) (eth_log s) then do { s \<leftarrow> enable_hub dev s; Some (USB_SUCCESS, s) }
           else do { (ok, s) \<leftarrow> init_ethernet_usb_device dev s; Some (USB_SUCCESS, s) }
    | USB_DEVICE_DISCONNECTED \<Rightarrow> do { s \<leftarrow> disconnect dev s; Some (USB_SUCCESS, s) }
    | USB_DEVICE_DISABLED \<Rightarrow> do { s \<leftarrow> disconnect dev s; Some (USB_SUCCESS, s) }
    | USB_HOST_PORT_CONNECT_STATUS_CHANGE \<Rightarrow> Some (USB_ERROR_NO_DEVICE, s)
    | USB_OTHER_EVENT \<Rightarrow> Some (USB_SUCCESS, s))"

definition eth_get_interfaces :: "eth_state \<Rightarrow> u8" where
  "eth_get_interfaces s = ifnums_used s"

end
