(* ===== verification/Pbuf_Chain.thy ===== *)
theory Pbuf_Chain
  imports Pbuf
begin

text \<open>
  Chains of packet buffers as byte strings: what a chain holds, the invariant of its length fields,
  and what every operation of \<^verbatim>\<open>src/src/core/pbuf.c\<close> does to the string.
\<close>

section \<open>Packets\<close>

definition payload :: "pbuf \<Rightarrow> bytes" where
  "payload b = take (p_len b) (drop (p_off b) (p_mem b))"

definition in_block :: "pbuf \<Rightarrow> bool" where
  "in_block b \<longleftrightarrow> p_off b + p_len b \<le> length (p_mem b)"

lemma payload_simps [simp]:
  "payload (b\<lparr>p_next := q\<rparr>) = payload b" "in_block (b\<lparr>p_next := q\<rparr>) = in_block b"
  "payload (b\<lparr>p_tot_len := n\<rparr>) = payload b" "in_block (b\<lparr>p_tot_len := n\<rparr>) = in_block b"
  "payload (b\<lparr>p_ref := n\<rparr>) = payload b" "in_block (b\<lparr>p_ref := n\<rparr>) = in_block b"
  by (simp_all add: payload_def in_block_def)

text \<open>The pointer \<open>p\<close> leads through the pbufs \<open>as\<close>, all of them different and live; their payloads lie
  in their blocks and together are \<open>d\<close>; and each total length is the number of bytes from there on.\<close>

fun packet :: "(nat \<Rightarrow> pbuf option) \<Rightarrow> nat option \<Rightarrow> nat list \<Rightarrow> bytes \<Rightarrow> bool" where
  "packet h p [] d \<longleftrightarrow> p = None \<and> d = []"
| "packet h p (a # as) d \<longleftrightarrow> p = Some a \<and> a \<notin> set as \<and>
     (case h a of None \<Rightarrow> False | Some b \<Rightarrow> in_block b \<and> p_tot_len b = length d \<and> p_len b \<le> length d \<and>
        payload b = take (p_len b) d \<and> packet h (p_next b) as (drop (p_len b) d))"

lemma packet_ConsE:
  assumes "packet h p (a # as) d"
  obtains b where "p = Some a" "a \<notin> set as" "h a = Some b" "in_block b" "p_tot_len b = length d" "p_len b \<le> length d"
    "payload b = take (p_len b) d" "packet h (p_next b) as (drop (p_len b) d)"
  using assms by (auto split: option.splits)

lemma packet_ConsI:
  assumes "p = Some a" "a \<notin> set as" "h a = Some b" "in_block b" "p_tot_len b = length d" "p_len b \<le> length d"
    "payload b = take (p_len b) d" "packet h (p_next b) as (drop (p_len b) d)"
  shows "packet h p (a # as) d"
  using assms by simp

lemma packet_cong:
  assumes "\<And>a. a \<in> set as \<Longrightarrow> h' a = h a"
  shows "packet h' p as d = packet h p as d"
  using assms
proof (induction as arbitrary: p d)
  case (Cons a as)
  then show ?case by (cases "h a") auto
qed simp

lemma packet_upd [simp]: "a \<notin> set as \<Longrightarrow> packet (h(a := x)) p as d = packet h p as d"
  by (rule packet_cong) auto

lemma packet_distinct: "packet h p as d \<Longrightarrow> distinct as"
  by (induction as arbitrary: p d) (auto split: option.splits)

lemma packet_live: "packet h p as d \<Longrightarrow> a \<in> set as \<Longrightarrow> h a \<noteq> None"
  by (induction as arbitrary: p d) (auto split: option.splits)

lemma packet_pointer: "packet h p as d \<Longrightarrow> p = (case as of [] \<Rightarrow> None | a # _ \<Rightarrow> Some a)"
  by (cases as) auto

section \<open>Reading\<close>

lemma payload_read_eq:
  assumes "in_block b" and "i + n \<le> p_len b"
  shows "payload_read b i n = Some (take n (drop i (payload b)))"
  using assms by (simp add: payload_read_def read_bytes_def in_block_def payload_def drop_take min_def add.commute)

lemma take_drop_split:
  assumes "i \<le> n" and "n \<le> length d"
  shows "drop i d = drop i (take n d) @ drop n d"
  using assms by (metis append_take_drop_id drop_append diff_is_0_eq drop_0 length_take min.absorb2)

lemma copy_partial_loop_packet:
  assumes "packet (pb_heap s) p as d" and "length d < 2 ^ 16"
  shows "copy_partial_loop p n off s = Some (take n (drop off d))"
  using assms
proof (induction as arbitrary: p d n off)
  case Nil
  then show ?case by (simp add: copy_partial_loop.simps)
next
  case (Cons a as)
  from Cons.prems(1) obtain b where b: "p = Some a" "pb_heap s a = Some b" "in_block b" "p_len b \<le> length d"
    "payload b = take (p_len b) d" "packet (pb_heap s) (p_next b) as (drop (p_len b) d)"
    by (rule packet_ConsE)
  have short: "length (drop (p_len b) d) < 2 ^ 16" using Cons.prems(2) by simp
  note IH = Cons.IH [OF b(6) short]
  show ?case
  proof (cases "n = 0")
    case True
    then show ?thesis by (simp add: copy_partial_loop.simps)
  next
    case n: False
    show ?thesis
    proof (cases "off \<noteq> 0 \<and> p_len b \<le> off")
      case True
      with n b IH [of n "off - p_len b"] show ?thesis by (subst copy_partial_loop.simps) simp
    next
      case False
      then have off: "off \<le> p_len b" by auto
      define k where "k = p_len b - off"
      have u: "u16 (p_len b + 2 ^ 16 - off) = k"
        using off b(4) Cons.prems(2) by (simp add: u16_def k_def mod_if)
      define m where "m = (if n < k then n else k)"
      have m: "off + m \<le> p_len b" using off by (auto simp: m_def k_def)
      have "take m (drop off (payload b)) @ take (n - m) (drop (p_len b) d) = take n (drop off d)"
        unfolding b(5) take_drop_split [OF off b(4)] using off b(4) by (auto simp: m_def k_def)
      moreover have "copy_partial_loop p n off s =
          do { x \<leftarrow> payload_read b off m; rest \<leftarrow> copy_partial_loop (p_next b) (n - m) 0 s; Some (x @ rest) }"
        by (subst copy_partial_loop.simps)
          (simp only: b(1,2) u m_def Let_def if_not_P [OF n] if_not_P [OF False] option.case Option.bind.bind_lunit)
      ultimately show ?thesis using IH [of "n - m" 0] payload_read_eq [OF b(3) m] by simp
    qed
  qed
qed

text \<open>Bytes are copied out of a chain wherever they lie.\<close>

lemma pbuf_copy_partial_packet:
  assumes "packet (pb_heap s) p as d" and "length d < 2 ^ 16"
  shows "pbuf_copy_partial p n off s = Some (take n (drop off d))"
  using copy_partial_loop_packet [OF assms] packet_pointer [OF assms(1)] assms(1)
  by (cases as) (auto simp: pbuf_copy_partial_def)

text \<open>Skipping leads to the pbuf that holds the byte at the offset.\<close>

lemma pbuf_skip_const_packet:
  assumes "packet (pb_heap s) p as d"
  shows "(length d \<le> off \<longrightarrow> (\<exists>i. pbuf_skip_const p off s = Some (None, i))) \<and>
    (off < length d \<longrightarrow> (\<exists>pre a post b i. as = pre @ a # post \<and> pbuf_skip_const p off s = Some (Some a, i) \<and>
        pb_heap s a = Some b \<and> i < p_len b \<and> i \<le> off \<and>
        packet (pb_heap s) (Some a) (a # post) (drop (off - i) d)))"
  using assms
proof (induction as arbitrary: p d off)
  case Nil
  then show ?case by (simp add: pbuf_skip_const.simps)
next
  case (Cons a as)
  from Cons.prems obtain b where b: "p = Some a" "pb_heap s a = Some b" "p_len b \<le> length d"
    "packet (pb_heap s) (p_next b) as (drop (p_len b) d)" by (rule packet_ConsE)
  show ?case
  proof (cases "p_len b \<le> off")
    case True
    then have step: "pbuf_skip_const p off s = pbuf_skip_const (p_next b) (off - p_len b) s"
      using b by (subst pbuf_skip_const.simps) simp
    have le: "length d \<le> off \<longleftrightarrow> length (drop (p_len b) d) \<le> off - p_len b" using True b(3) by auto
    show ?thesis
    proof (cases "length d \<le> off")
      case True
      with Cons.IH [OF b(4), of "off - p_len b"] le step show ?thesis by auto
    next
      case False
      with le Cons.IH [OF b(4), of "off - p_len b"] obtain pre a' post b' i
        where *: "as = pre @ a' # post" "pbuf_skip_const p off s = Some (Some a', i)" "pb_heap s a' = Some b'"
          "i < p_len b'" "i \<le> off - p_len b"
          "packet (pb_heap s) (Some a') (a' # post) (drop (off - p_len b - i) (drop (p_len b) d))"
        unfolding step by auto
      have "drop (off - p_len b - i) (drop (p_len b) d) = drop (off - i) d"
        using *(5) True by (simp add: drop_drop)
      with * False show ?thesis by (metis append_Cons le_diff_conv order.trans le_add1 diff_le_self)
    qed
  next
    case False
    then have "pbuf_skip_const p off s = Some (Some a, off)" using b by (subst pbuf_skip_const.simps) simp
    moreover have "\<not> length d \<le> off" using False b(3) by simp
    ultimately show ?thesis using False b Cons.prems
      by (intro conjI impI exI [of _ "[]"] exI [of _ a] exI [of _ as] exI [of _ b] exI [of _ off]) auto
  qed
qed

lemma pbuf_try_get_at_packet:
  assumes "packet (pb_heap s) p as d"
  shows "pbuf_try_get_at p off s = Some (if off < length d then Some (d ! off) else None)"
proof (cases "off < length d")
  case False
  with pbuf_skip_const_packet [OF assms, of off] show ?thesis by (auto simp: pbuf_try_get_at_def)
next
  case True
  with pbuf_skip_const_packet [OF assms, of off] obtain a post b i where
    *: "pbuf_skip_const p off s = Some (Some a, i)" "pb_heap s a = Some b" "i < p_len b" "i \<le> off"
      "packet (pb_heap s) (Some a) (a # post) (drop (off - i) d)" by auto
  from *(5) have pk: "in_block b" "payload b = take (p_len b) (drop (off - i) d)" using *(2) by simp_all
  have "payload_read b i 1 = Some [drop (off - i) d ! i]"
    using payload_read_eq [OF pk(1), of i 1] pk(2) * True
    by (simp add: take_Suc_conv_app_nth [of i, simplified] take_Suc hd_drop_conv_nth)
  moreover have "drop (off - i) d ! i = d ! off" using *(4) True by simp
  ultimately show ?thesis using * True by (simp add: pbuf_try_get_at_def)
qed

lemma pbuf_get_at_packet:
  "packet (pb_heap s) p as d \<Longrightarrow> off < length d \<Longrightarrow> pbuf_get_at p off s = Some (d ! off)"
  by (simp add: pbuf_get_at_def pbuf_try_get_at_packet)

section \<open>Searching\<close>

lemma memcmp_loop_eq:
  assumes "\<And>j. j < length x \<Longrightarrow> pbuf_get_at q (u16 (start + (i + j))) s = Some (y ! j)" and "length y = length x"
  shows "\<exists>r. memcmp_loop q start x i s = Some r \<and> (r = 0 \<longleftrightarrow> x = y)"
  using assms
proof (induction x arbitrary: i y)
  case (Cons c x)
  then obtain c' y' where y: "y = c' # y'" by (cases y) auto
  have hd: "pbuf_get_at q (u16 (start + i)) s = Some c'" using Cons.prems(1) [of 0] y by simp
  have tl: "pbuf_get_at q (u16 (start + (i + 1 + j))) s = Some (y' ! j)" if "j < length x" for j
    using Cons.prems(1) [of "Suc j"] that y by (simp add: add.assoc)
  have "length y' = length x" using Cons.prems(2) y by simp
  from Cons.IH [OF tl this] hd y show ?case by auto
qed simp

lemma pbuf_memcmp_packet:
  assumes pk: "packet (pb_heap s) (Some p) as d" and d: "length d < 2 ^ 16" and n: "off + length x \<le> length d"
  shows "\<exists>r. pbuf_memcmp p off x s = Some r \<and> (r = 0 \<longleftrightarrow> take (length x) (drop off d) = x)"
proof -
  obtain b where b: "pb_heap s p = Some b" "p_tot_len b = length d"
    using pk by (cases as) (auto split: option.splits)
  show ?thesis
  proof (cases "x = []")
    case True
    obtain q i where "pbuf_skip_const (Some p) off s = Some (q, i)"
      using pbuf_skip_const_packet [OF pk, of off] by (cases "off < length d") auto
    with b n True show ?thesis by (simp add: pbuf_memcmp_def)
  next
    case False
    then have "off < length d" using n by (cases x) auto
    then obtain q post b' i where *: "pbuf_skip_const (Some p) off s = Some (Some q, i)" "i \<le> off"
      "packet (pb_heap s) (Some q) (q # post) (drop (off - i) d)"
      using pbuf_skip_const_packet [OF pk, of off] by auto
    have "pbuf_get_at (Some q) (u16 (i + (0 + j))) s = Some (take (length x) (drop off d) ! j)" if "j < length x" for j
    proof -
      have "i + j < length (drop (off - i) d)" using that n *(2) by simp
      moreover from this have "u16 (i + (0 + j)) = i + j" using d by (simp add: u16_def)
      ultimately show ?thesis using pbuf_get_at_packet [OF *(3)] that n *(2) by simp
    qed
    from memcmp_loop_eq [of x "Some q" i 0 s "take (length x) (drop off d)", OF this] n * b
    show ?thesis by (auto simp: pbuf_memcmp_def)
  qed
qed

text \<open>The search as it would be done on the bytes of the whole packet.\<close>

definition first_match :: "bytes \<Rightarrow> bytes \<Rightarrow> nat \<Rightarrow> nat" where
  "first_match x d start =
     (case List.find (\<lambda>i. take (length x) (drop i d) = x) [start ..< length d + 1 - length x] of None \<Rightarrow> 0xFFFF | Some i \<Rightarrow> i)"

lemma memfind_loop_packet:
  assumes pk: "packet (pb_heap s) (Some p) as d" and d: "length d < 2 ^ 16" and n: "i + n + length x \<le> length d + 1"
  shows "memfind_loop p x i n s =
    Some (case List.find (\<lambda>i. take (length x) (drop i d) = x) [i ..< i + n] of None \<Rightarrow> 0xFFFF | Some i \<Rightarrow> i)"
  using n
proof (induction n arbitrary: i)
  case (Suc n)
  have "i + length x \<le> length d" using Suc.prems by simp
  from pbuf_memcmp_packet [OF pk d this] obtain r
    where r: "pbuf_memcmp p i x s = Some r" "r = 0 \<longleftrightarrow> take (length x) (drop i d) = x" by blast
  have "[i ..< i + Suc n] = i # [i + 1 ..< (i + 1) + n]" by (simp add: upt_conv_Cons)
  with r Suc.IH [of "i + 1"] Suc.prems show ?case by simp
qed simp

lemma pbuf_memfind_packet:
  assumes pk: "packet (pb_heap s) (Some p) as d" and d: "length d < 2 ^ 16"
  shows "pbuf_memfind p x start s = Some (first_match x d start)"
proof -
  obtain b where b: "pb_heap s p = Some b" "p_tot_len b = length d"
    using pk by (cases as) (auto split: option.splits)
  show ?thesis
  proof (cases "length x + start \<le> length d")
    case True
    then have "start + (length d - length x + 1 - start) = length d + 1 - length x" by simp
    with b True memfind_loop_packet [OF pk d, of start "length d - length x + 1 - start" x] show ?thesis
      by (simp add: pbuf_memfind_def first_match_def)
  next
    case False
    then show ?thesis using b by (simp add: pbuf_memfind_def first_match_def)
  qed
qed

section \<open>Writing\<close>

text \<open>Only the memory behind the payloads has changed.\<close>

definition mem_only :: "pbufs \<Rightarrow> pbufs \<Rightarrow> bool" where
  "mem_only s s' \<longleftrightarrow> pb_fresh s' = pb_fresh s \<and> pb_calls s' = pb_calls s \<and> pb_env s' = pb_env s \<and>
     pb_freed s' = pb_freed s \<and> pb_ooseq s' = pb_ooseq s \<and>
     (\<forall>a. map_option (\<lambda>b. b\<lparr>p_mem := []\<rparr>) (pb_heap s' a) = map_option (\<lambda>b. b\<lparr>p_mem := []\<rparr>) (pb_heap s a))"

lemma mem_only_refl [simp]: "mem_only s s"
  by (simp add: mem_only_def)

lemma mem_only_trans: "mem_only s s' \<Longrightarrow> mem_only s' s'' \<Longrightarrow> mem_only s s''"
  by (simp add: mem_only_def)

lemma payload_write_eq:
  assumes b: "pb_heap s a = Some b" "in_block b" and i: "i + length x \<le> p_len b"
  obtains m where "payload_write a i x s = Some (put_pbuf a (b\<lparr>p_mem := m\<rparr>) s)" and "in_block (b\<lparr>p_mem := m\<rparr>)"
    and "payload (b\<lparr>p_mem := m\<rparr>) = take i (payload b) @ x @ drop (i + length x) (payload b)"
    and "mem_only s (put_pbuf a (b\<lparr>p_mem := m\<rparr>) s)"
proof -
  have "p_off b + i + length x \<le> length (p_mem b)" using b(2) i by (simp add: in_block_def)
  then obtain m where m: "store_bytes (p_off b + i) x (p_mem b) = Some m" by (simp add: store_bytes_def)
  have "payload (b\<lparr>p_mem := m\<rparr>) = take i (payload b) @ x @ drop (i + length x) (payload b)"
  proof (rule nth_equalityI)
    have l: "length m = length (p_mem b)" using m by (rule store_bytes_length)
    then show "length (payload (b\<lparr>p_mem := m\<rparr>)) = length (take i (payload b) @ x @ drop (i + length x) (payload b))"
      using i b(2) by (simp add: payload_def in_block_def)
    fix k assume "k < length (payload (b\<lparr>p_mem := m\<rparr>))"
    then have k: "k < p_len b" "p_off b + k < length (p_mem b)" using b(2) l by (auto simp: payload_def in_block_def)
    have "m ! (p_off b + k) = (if i \<le> k \<and> k < i + length x then x ! (k - i) else p_mem b ! (p_off b + k))"
      using store_bytes_nth [OF m k(2)] by simp
    moreover have "payload (b\<lparr>p_mem := m\<rparr>) ! k = m ! (p_off b + k)" "payload b ! k = p_mem b ! (p_off b + k)"
      "length (payload b) = p_len b" using k l b(2) by (simp_all add: payload_def in_block_def)
    ultimately show "payload (b\<lparr>p_mem := m\<rparr>) ! k = (take i (payload b) @ x @ drop (i + length x) (payload b)) ! k"
      using nth_store [of i x "payload b" k] i k by simp
  qed
  with that m b show ?thesis
    by (simp add: payload_write_def in_block_def store_bytes_length mem_only_def put_pbuf_def)
qed

lemma in_block_length [simp]: "in_block b \<Longrightarrow> length (payload b) = p_len b"
  by (simp add: in_block_def payload_def)

text \<open>Filling a chain from the front.\<close>

lemma take_loop_packet:
  assumes "packet (pb_heap s) p as d" and "length x \<le> length d"
  shows "\<exists>s'. take_loop p x s = Some s' \<and> packet (pb_heap s') p as (x @ drop (length x) d) \<and> mem_only s s' \<and>
    (\<forall>a. a \<notin> set as \<longrightarrow> pb_heap s' a = pb_heap s a)"
  using assms
proof (induction as arbitrary: p d x s)
  case Nil
  then show ?case by (simp add: take_loop.simps)
next
  case (Cons a as)
  from Cons.prems(1) obtain b where b: "p = Some a" "a \<notin> set as" "pb_heap s a = Some b" "in_block b"
    "p_tot_len b = length d" "p_len b \<le> length d" "payload b = take (p_len b) d"
    "packet (pb_heap s) (p_next b) as (drop (p_len b) d)" by (rule packet_ConsE)
  show ?case
  proof (cases "x = []")
    case True
    with Cons.prems show ?thesis by (simp add: take_loop.simps)
  next
    case False
    define n where "n = (if p_len b < length x then p_len b else length x)"
    have n: "n \<le> p_len b" "n \<le> length x" "0 + length (take n x) \<le> p_len b" by (auto simp: n_def)
    have "0 + length (take n x) = n" using n(2) by simp
    then obtain m where m: "payload_write a 0 (take n x) s = Some (put_pbuf a (b\<lparr>p_mem := m\<rparr>) s)" "in_block (b\<lparr>p_mem := m\<rparr>)"
      "payload (b\<lparr>p_mem := m\<rparr>) = take n x @ drop n (payload b)" "mem_only s (put_pbuf a (b\<lparr>p_mem := m\<rparr>) s)"
      using payload_write_eq [OF b(3,4) n(3)] by (metis append_Nil take_0)
    let ?s1 = "put_pbuf a (b\<lparr>p_mem := m\<rparr>) s"
    have pk: "packet (pb_heap ?s1) (p_next b) as (drop (p_len b) d)" using b(2,8) by (simp add: put_pbuf_def)
    have "length (drop n x) \<le> length (drop (p_len b) d)" using Cons.prems(2) b(6) by (auto simp: n_def)
    from Cons.IH [OF pk this] obtain s' where s': "take_loop (p_next b) (drop n x) ?s1 = Some s'"
      "packet (pb_heap s') (p_next b) as (drop n x @ drop (length (drop n x)) (drop (p_len b) d))"
      "mem_only ?s1 s'" "\<And>a'. a' \<notin> set as \<Longrightarrow> pb_heap s' a' = pb_heap ?s1 a'" by blast
    have "pb_heap s' a = Some (b\<lparr>p_mem := m\<rparr>)" using s'(4) [OF b(2)] by (simp add: put_pbuf_def)
    moreover have "take n x @ drop n (payload b) = take (p_len b) (x @ drop (length x) d)"
      using b(6,7) Cons.prems(2) by (auto simp: n_def drop_take)
    moreover have "drop n x @ drop (length (drop n x)) (drop (p_len b) d) = drop (p_len b) (x @ drop (length x) d)"
      using b(6) Cons.prems(2) by (auto simp: n_def add.commute)
    ultimately have "packet (pb_heap s') p (a # as) (x @ drop (length x) d)"
      using s'(2) b m(2,3) Cons.prems(2) by (intro packet_ConsI [where b = "b\<lparr>p_mem := m\<rparr>"]) auto
    moreover have "take_loop p x s = Some s'"
      using False b(1,3) m(1) s'(1) by (subst take_loop.simps) (simp add: Let_def flip: n_def)
    ultimately show ?thesis using mem_only_trans [OF m(4) s'(3)] s'(4) by (auto simp: put_pbuf_def)
  qed
qed

lemma pbuf_take_packet:
  assumes pk: "packet (pb_heap s) (Some p) as d"
  shows "length d < length x \<Longrightarrow> pbuf_take (Some p) x s = Some (ERR_MEM, s)"
    and "length x \<le> length d \<Longrightarrow> \<exists>s'. pbuf_take (Some p) x s = Some (ERR_OK, s') \<and>
      packet (pb_heap s') (Some p) as (x @ drop (length x) d) \<and> mem_only s s' \<and>
      (\<forall>a. a \<notin> set as \<longrightarrow> pb_heap s' a = pb_heap s a)"
proof -
  obtain b where b: "pb_heap s p = Some b" "p_tot_len b = length d"
    using pk by (cases as) (auto split: option.splits)
  show "length d < length x \<Longrightarrow> pbuf_take (Some p) x s = Some (ERR_MEM, s)"
    using b by (simp add: pbuf_take_def)
  assume "length x \<le> length d"
  with take_loop_packet [OF pk this] b show "\<exists>s'. pbuf_take (Some p) x s = Some (ERR_OK, s') \<and>
      packet (pb_heap s') (Some p) as (x @ drop (length x) d) \<and> mem_only s s' \<and>
      (\<forall>a. a \<notin> set as \<longrightarrow> pb_heap s' a = pb_heap s a)"
    by (auto simp: pbuf_take_def)
qed

section \<open>Freeing\<close>

text \<open>A pointer that leads through live pbufs, all of them different.\<close>

fun chain :: "(nat \<Rightarrow> pbuf option) \<Rightarrow> nat option \<Rightarrow> nat list \<Rightarrow> bool" where
  "chain h p [] \<longleftrightarrow> p = None"
| "chain h p (a # as) \<longleftrightarrow> p = Some a \<and> a \<notin> set as \<and> (case h a of None \<Rightarrow> False | Some b \<Rightarrow> chain h (p_next b) as)"

lemma packet_chain: "packet h p as d \<Longrightarrow> chain h p as"
  by (induction as arbitrary: p d) (auto split: option.splits)

lemma chain_distinct: "chain h p as \<Longrightarrow> distinct as"
  by (induction as arbitrary: p) (auto split: option.splits)

lemma chain_live: "chain h p as \<Longrightarrow> a \<in> set as \<Longrightarrow> h a \<noteq> None"
  by (induction as arbitrary: p) (auto split: option.splits)

lemma chain_cong: "(\<And>a. a \<in> set as \<Longrightarrow> h' a = h a) \<Longrightarrow> chain h' p as = chain h p as"
proof (induction as arbitrary: p)
  case (Cons a as)
  then show ?case by (cases "h a") auto
qed simp

definition ref_at :: "(nat \<Rightarrow> pbuf option) \<Rightarrow> nat \<Rightarrow> nat" where
  "ref_at h a = (case h a of None \<Rightarrow> 0 | Some b \<Rightarrow> p_ref b)"

text \<open>The store after freeing a chain: the pbufs at its front that nothing else refers to are gone, and
  the first one that is still referred to has lost a reference.\<close>

fun freed_heap :: "(nat \<Rightarrow> pbuf option) \<Rightarrow> nat list \<Rightarrow> nat \<Rightarrow> pbuf option" where
  "freed_heap h [] = h"
| "freed_heap h (a # as) = (if ref_at h a = 1 then freed_heap (h(a := None)) as
     else h(a := map_option (\<lambda>b. b\<lparr>p_ref := p_ref b - 1\<rparr>) (h a)))"

fun free_count :: "(nat \<Rightarrow> pbuf option) \<Rightarrow> nat list \<Rightarrow> nat" where
  "free_count h [] = 0"
| "free_count h (a # as) = (if ref_at h a = 1 then Suc (free_count h as) else 0)"

lemma ref_at_upd: "a \<noteq> a' \<Longrightarrow> ref_at (h(a := x)) a' = ref_at h a'"
  by (simp add: ref_at_def)

lemma free_count_upd: "a \<notin> set as \<Longrightarrow> free_count (h(a := x)) as = free_count h as"
  by (induction as) (auto simp: ref_at_upd)

lemma free_loop_chain:
  assumes "chain (pb_heap s) p as" and "\<forall>a \<in> set as. 1 \<le> ref_at (pb_heap s) a \<and> ref_at (pb_heap s) a < 256" and "n < 256"
  shows "\<exists>s'. free_loop p n s = Some ((n + free_count (pb_heap s) as) mod 256, s') \<and>
      pb_heap s' = freed_heap (pb_heap s) as \<and> pb_fresh s' = pb_fresh s \<and>
      pb_calls s' = pb_calls s \<and> pb_env s' = pb_env s \<and> pb_ooseq s' = pb_ooseq s \<and>
      map fst (pb_freed s') = map fst (pb_freed s) @ take (free_count (pb_heap s) as) as"
  using assms
proof (induction as arbitrary: p n s)
  case Nil
  then show ?case by (simp add: free_loop.simps)
next
  case (Cons a as)
  then obtain b where b: "p = Some a" "a \<notin> set as" "pb_heap s a = Some b" "chain (pb_heap s) (p_next b) as"
    by (auto split: option.splits)
  have r: "1 \<le> p_ref b" "p_ref b < 256" using Cons.prems(2) b(3) by (simp_all add: ref_at_def)
  then have dec: "(p_ref b + 255) mod 256 = p_ref b - 1" by (simp add: mod_if)
  show ?case
  proof (cases "p_ref b = 1")
    case True
    let ?s1 = "dealloc a b s"
    have h1: "pb_heap ?s1 = (pb_heap s)(a := None)" by (simp add: dealloc_def)
    have "chain (pb_heap ?s1) (p_next b) as"
      unfolding h1 using b(2,4) by (subst chain_cong [where h = "pb_heap s"]) auto
    moreover have "\<forall>a \<in> set as. 1 \<le> ref_at (pb_heap ?s1) a \<and> ref_at (pb_heap ?s1) a < 256"
      using Cons.prems(2) b(2) by (auto simp: h1 ref_at_def)
    ultimately obtain s' where s': "free_loop (p_next b) ((n + 1) mod 256) ?s1 =
        Some (((n + 1) mod 256 + free_count (pb_heap ?s1) as) mod 256, s')"
      "pb_heap s' = freed_heap (pb_heap ?s1) as" "pb_fresh s' = pb_fresh ?s1" "pb_calls s' = pb_calls ?s1"
      "pb_env s' = pb_env ?s1" "pb_ooseq s' = pb_ooseq ?s1"
      "map fst (pb_freed s') = map fst (pb_freed ?s1) @ take (free_count (pb_heap ?s1) as) as"
      using Cons.IH [of ?s1 "p_next b" "(n + 1) mod 256"] by auto
    have "free_loop p n s = free_loop (p_next b) ((n + 1) mod 256) ?s1"
      using b True by (subst free_loop.simps) simp
    with s' b True show ?thesis
      by (auto simp: h1 free_count_upd ref_at_def mod_simps dealloc_def)
  next
    case False
    then have "free_loop p n s = Some (n, put_pbuf a (b\<lparr>p_ref := p_ref b - 1\<rparr>) s)"
      using b dec r by (subst free_loop.simps) (simp add: Let_def)
    with False b Cons.prems(3) show ?thesis by (auto simp: ref_at_def put_pbuf_def)
  qed
qed

lemma pbuf_free_chain:
  assumes "chain (pb_heap s) p as" and "\<forall>a \<in> set as. 1 \<le> ref_at (pb_heap s) a \<and> ref_at (pb_heap s) a < 256"
  obtains s' where "pbuf_free p s = Some (free_count (pb_heap s) as mod 256, s')"
    and "pb_heap s' = freed_heap (pb_heap s) as" and "pb_fresh s' = pb_fresh s" and "pb_calls s' = pb_calls s"
    and "pb_env s' = pb_env s" and "pb_ooseq s' = pb_ooseq s"
    and "map fst (pb_freed s') = map fst (pb_freed s) @ take (free_count (pb_heap s) as) as"
proof (cases "p = None")
  case True
  then have "as = []" using assms(1) by (cases as) auto
  with True show ?thesis using that [of s] by (simp add: pbuf_free_def)
next
  case False
  then show ?thesis using free_loop_chain [OF assms, of 0] that by (auto simp: pbuf_free_def)
qed

text \<open>A chain nobody else refers to disappears completely.\<close>

lemma freed_heap_all:
  assumes "\<forall>a \<in> set as. ref_at h a = 1" and "distinct as"
  shows "freed_heap h as = (\<lambda>a. if a \<in> set as then None else h a)" and "free_count h as = length as"
proof -
  show "freed_heap h as = (\<lambda>a. if a \<in> set as then None else h a)"
    using assms
  proof (induction as arbitrary: h)
    case (Cons a as)
    have "\<forall>c \<in> set as. ref_at (h(a := None)) c = 1" using Cons.prems by (auto simp: ref_at_def)
    with Cons.IH have "freed_heap (h(a := None)) as = (\<lambda>c. if c \<in> set as then None else (h(a := None)) c)"
      using Cons.prems by simp
    with Cons.prems show ?case by auto
  qed simp
  show "free_count h as = length as" using assms by (induction as) auto
qed

end
