(* ===== verification/Pbuf_Alloc.thy ===== *)
theory Pbuf_Alloc
  imports Pbuf_Chain
begin

text \<open>
  Allocating, joining and shortening chains of packet buffers: a chain from the pool has the
  length asked for or the store is left as it was, two packets are joined to one, and a shortened
  packet holds the front of its bytes.
\<close>

section \<open>Allocating\<close>

text \<open>What is expected of the allocator: a block has the size asked for. Addresses from \<open>pb_fresh\<close> on
  have not been given out yet.\<close>

definition pbuf_env_ok :: "pbufs \<Rightarrow> bool" where
  "pbuf_env_ok s \<longleftrightarrow> (\<forall>k n c. pb_env s k n = Some c \<longrightarrow> length c = n)"

definition fresh_ok :: "pbufs \<Rightarrow> bool" where
  "fresh_ok s \<longleftrightarrow> (\<forall>a \<ge> pb_fresh s. pb_heap s a = None)"

lemma request_cases:
  obtains (none) s1 where "request n s = (None, s1)" "pb_heap s1 = pb_heap s" "pb_fresh s1 = pb_fresh s" "pb_env s1 = pb_env s"
  | (some) c s1 where "request n s = (Some (pb_fresh s, c), s1)" "pb_heap s1 = pb_heap s" "pb_fresh s1 = pb_fresh s + 1"
      "pb_env s1 = pb_env s" "pbuf_env_ok s \<longrightarrow> length c = n"
  by (cases "pb_env s (pb_calls s) n") (auto simp: request_def pbuf_env_ok_def)

text \<open>A chain with a pbuf hung on at its end.\<close>

definition linked :: "(nat \<Rightarrow> pbuf option) \<Rightarrow> nat list \<Rightarrow> nat \<Rightarrow> nat \<Rightarrow> pbuf option" where
  "linked h as q = (\<lambda>a. if as \<noteq> [] \<and> a = last as then map_option (\<lambda>b. b\<lparr>p_next := Some q\<rparr>) (h a) else h a)"

lemma chain_linked:
  assumes "chain h p as" and "q \<notin> set as" and "chain h (Some q) bs" and "set as \<inter> set bs = {}"
  shows "chain (linked h as q) (if as = [] then Some q else p) (as @ bs)"
  using assms
proof (induction as arbitrary: p)
  case Nil
  then show ?case by (simp add: linked_def)
next
  case (Cons a as)
  then obtain b where b: "p = Some a" "a \<notin> set as" "h a = Some b" "chain h (p_next b) as" by (auto split: option.splits)
  show ?case
  proof (cases "as = []")
    case True
    have "chain (linked h [a] q) (Some q) bs"
      using Cons.prems by (subst chain_cong [where h = h]) (auto simp: linked_def)
    with True b Cons.prems show ?thesis by (simp add: linked_def)
  next
    case False
    then have "linked h (a # as) q = linked h as q" by (simp add: linked_def)
    moreover have "linked h as q a = Some b" using b False by (auto simp: linked_def)
    ultimately show ?thesis using Cons.IH [OF b(4)] Cons.prems b False by simp
  qed
qed

lemma linked_Nil [simp]: "linked h [] q = h"
  by (simp add: linked_def)

lemma ref_at_linked [simp]: "ref_at (linked h as q) a = ref_at h a"
  by (simp add: ref_at_def linked_def split: option.split)

lemma upd_last_linked:
  assumes "chain (pb_heap s) p as"
  shows "(case (if as = [] then None else Some (last as)) of None \<Rightarrow> Some s
      | Some l \<Rightarrow> upd_pbuf l (\<lambda>b. b\<lparr>p_next := Some q\<rparr>) s) = Some (s\<lparr>pb_heap := linked (pb_heap s) as q\<rparr>)"
proof (cases "as = []")
  case True
  then show ?thesis by (simp add: linked_def)
next
  case False
  have "\<And>a. a \<in> set as \<Longrightarrow> pb_heap s a \<noteq> None"
    using assms by (induction as arbitrary: p) (auto split: option.splits)
  then obtain b where "pb_heap s (last as) = Some b" using False by fastforce
  with False show ?thesis by (auto simp: upd_pbuf_def put_pbuf_def linked_def fun_eq_iff)
qed

text \<open>The loop over the pool either hangs a new packet of \<open>rem\<close> bytes on what is there, or gives back
  everything allocated so far.\<close>

lemma pool_loop_spec:
  assumes "fresh_ok s" and "pbuf_env_ok s" and "chain (pb_heap s) p as" and "\<forall>a \<in> set as. ref_at (pb_heap s) a = 1"
    and "off < PBUF_POOL_BUFSIZE"
  defines "lst \<equiv> (if as = [] then None else Some (last as))"
  shows "\<exists>r s'. pool_loop off rem p lst s = Some (r, s') \<and> fresh_ok s' \<and> pbuf_env_ok s' \<and>
    (case r of None \<Rightarrow> pb_heap s' = (\<lambda>a. if a \<in> set as then None else pb_heap s a)
     | Some x \<Rightarrow> \<exists>bs e. bs \<noteq> [] \<and> length e = rem \<and> packet (pb_heap s') (Some (hd bs)) bs e \<and>
         x = (case p of None \<Rightarrow> hd bs | Some h \<Rightarrow> h) \<and> (\<forall>a \<in> set bs. pb_heap s a = None \<and> ref_at (pb_heap s') a = 1) \<and>
         (\<forall>a. a \<notin> set bs \<longrightarrow> pb_heap s' a = linked (pb_heap s) as (hd bs) a))"
  using assms(1-5) unfolding lst_def
proof (induction rem arbitrary: off p as s rule: less_induct)
  case (less rem)
  let ?lst = "if as = [] then None else Some (last as)"
  consider (none) s1 where "request PBUF_POOL_BUFSIZE s = (None, s1)" "pb_heap s1 = pb_heap s" "pb_fresh s1 = pb_fresh s"
      "pb_env s1 = pb_env s"
    | (some) c s1 where "request PBUF_POOL_BUFSIZE s = (Some (pb_fresh s, c), s1)" "pb_heap s1 = pb_heap s"
      "pb_fresh s1 = pb_fresh s + 1" "pb_env s1 = pb_env s" "pbuf_env_ok s \<longrightarrow> length c = PBUF_POOL_BUFSIZE"
    by (rule request_cases)
  then show ?case
  proof cases
    case none
    let ?s2 = "s1\<lparr>pb_ooseq := True\<rparr>"
    have ch: "chain (pb_heap ?s2) p as" and rf: "\<forall>a \<in> set as. ref_at (pb_heap ?s2) a = 1"
      using less.prems none by simp_all
    then have "\<forall>a \<in> set as. 1 \<le> ref_at (pb_heap ?s2) a \<and> ref_at (pb_heap ?s2) a < 256" by simp
    from pbuf_free_chain [OF ch this] obtain s' n where s': "pbuf_free p ?s2 = Some (n, s')"
      "pb_heap s' = freed_heap (pb_heap ?s2) as" "pb_fresh s' = pb_fresh ?s2" "pb_env s' = pb_env ?s2" by metis
    moreover have "distinct as" using ch by (rule chain_distinct)
    ultimately have "pb_heap s' = (\<lambda>a. if a \<in> set as then None else pb_heap s a)"
      using freed_heap_all(1) [OF rf] none(2) by (simp add: fun_eq_iff)
    moreover have "pool_loop off rem p ?lst s = Some (None, s')"
      using none(1) s'(1) by (subst pool_loop.simps) simp
    ultimately show ?thesis using s' none less.prems by (auto simp: fresh_ok_def pbuf_env_ok_def)
  next
    case some
    define q qlen where "q = pb_fresh s" and "qlen = min rem (PBUF_POOL_BUFSIZE - off)"
    define b where "b = pbuf_init_alloced_pbuf c off rem qlen PBUF_POOL False"
    define s2 where "s2 = put_pbuf q b s1"
    define s3 where "s3 = s2\<lparr>pb_heap := linked (pb_heap s2) as q\<rparr>"
    have qn: "pb_heap s q = None" using less.prems(1) by (simp add: fresh_ok_def q_def)
    have live: "a \<in> set as \<Longrightarrow> pb_heap s a \<noteq> None" for a using less.prems(3) chain_live by blast
    then have qas: "q \<notin> set as" using qn by blast
    have h2: "pb_heap s2 = (pb_heap s)(q \<mapsto> b)" using some by (simp add: s2_def put_pbuf_def)
    have ch2: "chain (pb_heap s2) p as"
      unfolding h2 using less.prems(3) qas by (subst chain_cong [where h = "pb_heap s"]) auto
    have len: "length c = PBUF_POOL_BUFSIZE" using some(5) less.prems(2) by simp
    have blk: "in_block b" using len less.prems(5) by (auto simp: b_def pbuf_init_alloced_pbuf_def in_block_def qlen_def)
    have b_simps: "p_len b = qlen" "p_tot_len b = rem" "p_next b = None" "p_ref b = 1"
      by (simp_all add: b_def pbuf_init_alloced_pbuf_def)
    have lp: "length (payload b) = qlen" using blk b_simps by simp
    define p' where "p' = (if as = [] then Some q else p)"
    have p': "(case p of None \<Rightarrow> Some q | Some h \<Rightarrow> Some h) = p'"
      using less.prems(3) by (cases as) (auto simp: p'_def)
    have h3: "pb_heap s3 q = Some b" "a \<noteq> q \<Longrightarrow> pb_heap s3 a = linked (pb_heap s) as q a" for a
      using qas by (auto simp: s3_def h2 linked_def)
    have h3': "a \<notin> set as \<Longrightarrow> a \<noteq> q \<Longrightarrow> pb_heap s3 a = pb_heap s a" for a
      using h3(2) [of a] by (auto simp: linked_def)
    have ch3: "chain (pb_heap s3) p' (as @ [q])"
      using chain_linked [OF ch2 qas, of "[q]"] qas b_simps by (simp add: s3_def p'_def h2)
    have rf3: "\<forall>a \<in> set (as @ [q]). ref_at (pb_heap s3) a = 1"
    proof -
      have "ref_at (pb_heap s3) a = ref_at ((pb_heap s)(q \<mapsto> b)) a" for a by (simp add: s3_def h2)
      then show ?thesis using less.prems(4) qas b_simps(4) by (auto simp: ref_at_def)
    qed
    have fr3: "fresh_ok s3" and env3: "pbuf_env_ok s3"
      using less.prems(1,2) some(3,4) live
      by (auto simp: fresh_ok_def pbuf_env_ok_def s3_def s2_def put_pbuf_def linked_def h2 q_def some(2))
    have step: "pool_loop off rem p ?lst s = (if 0 < rem - qlen then pool_loop 0 (rem - qlen) p' (Some q) s3 else Some (p', s3))"
      using some(1) upd_last_linked [OF ch2, of q, folded s3_def] p'
      by (subst pool_loop.simps, cases "as = []")
         (simp_all add: Let_def flip: q_def qlen_def b_def s2_def)
    show ?thesis
    proof (cases "0 < rem - qlen")
      case False
      then have "qlen = rem" by (simp add: qlen_def)
      then have "packet (pb_heap s3) (Some q) [q] (payload b)" using h3(1) blk b_simps by simp
      moreover have "ref_at (pb_heap s3) q = 1" using rf3 by simp
      moreover have "pool_loop off rem p ?lst s = Some (p', s3)" using step False by simp
      moreover have "length (payload b) = rem" using blk b_simps \<open>qlen = rem\<close> by simp
      moreover obtain x where x: "p' = Some x" "x = (case p of None \<Rightarrow> hd [q] | Some h \<Rightarrow> h)" using p' by (auto split: option.splits)
      ultimately show ?thesis using fr3 env3 qn h3(2)
        by (intro exI [of _ p'] exI [of _ s3]) (auto intro!: exI [of _ "[q]"] exI [of _ "payload b"])
    next
      case True
      then have small: "rem - qlen < rem" using less.prems(5) by (auto simp: qlen_def)
      have "(if as @ [q] = [] then None else Some (last (as @ [q]))) = Some q" by simp
      with less.IH [OF small fr3 env3 ch3 rf3, of 0] obtain r s'
        where r: "pool_loop 0 (rem - qlen) p' (Some q) s3 = Some (r, s')" "fresh_ok s'" "pbuf_env_ok s'"
          "case r of None \<Rightarrow> pb_heap s' = (\<lambda>a. if a \<in> set (as @ [q]) then None else pb_heap s3 a)
           | Some x \<Rightarrow> \<exists>bs e. bs \<noteq> [] \<and> length e = rem - qlen \<and> packet (pb_heap s') (Some (hd bs)) bs e \<and>
               x = (case p' of None \<Rightarrow> hd bs | Some h \<Rightarrow> h) \<and> (\<forall>a \<in> set bs. pb_heap s3 a = None \<and> ref_at (pb_heap s') a = 1) \<and>
               (\<forall>a. a \<notin> set bs \<longrightarrow> pb_heap s' a = linked (pb_heap s3) (as @ [q]) (hd bs) a)"
        by auto
      have st: "pool_loop off rem p ?lst s = Some (r, s')" using step True r(1) by simp
      show ?thesis
      proof (cases r)
        case None
        then have "pb_heap s' = (\<lambda>a. if a \<in> set as then None else pb_heap s a)"
          using r(4) h3' qn by (auto simp: fun_eq_iff)
        with None st r show ?thesis by auto
      next
        case (Some x)
        with r(4) obtain bs e where bs: "bs \<noteq> []" "length e = rem - qlen" "packet (pb_heap s') (Some (hd bs)) bs e"
          "x = (case p' of None \<Rightarrow> hd bs | Some h \<Rightarrow> h)" "\<And>a. a \<in> set bs \<Longrightarrow> pb_heap s3 a = None \<and> ref_at (pb_heap s') a = 1"
          "\<And>a. a \<notin> set bs \<Longrightarrow> pb_heap s' a = linked (pb_heap s3) (as @ [q]) (hd bs) a" by auto
        have qbs: "q \<notin> set bs" using bs(5) h3(1) by fastforce
        have q': "pb_heap s' q = Some (b\<lparr>p_next := Some (hd bs)\<rparr>)" using bs(6) [OF qbs] h3(1) by (simp add: linked_def)
        have "packet (pb_heap s') (Some q) (q # bs) (payload b @ e)"
          using q' qbs bs(2,3) blk b_simps lp True
          by (intro packet_ConsI [where b = "b\<lparr>p_next := Some (hd bs)\<rparr>"]) simp_all
        moreover have "length (payload b @ e) = rem" using blk b_simps bs(2) by (simp add: qlen_def)
        moreover have "x = (case p of None \<Rightarrow> hd (q # bs) | Some h \<Rightarrow> h)" using bs(4) p' by (auto split: option.splits)
        moreover have "pb_heap s a = None \<and> ref_at (pb_heap s') a = 1" if "a \<in> set (q # bs)" for a
          using that q' qn b_simps(4) bs(5) [of a] h3(2) [of a] qbs
          by (cases "a = q") (auto simp: ref_at_def linked_def split: if_splits)
        moreover have "pb_heap s' a = linked (pb_heap s) as q a" if "a \<notin> set (q # bs)" for a
          using that bs(6) [of a] h3(2) [of a] by (auto simp: linked_def)
        ultimately show ?thesis using st r(2,3) Some
          by (intro exI [of _ r] exI [of _ s']) (auto intro!: exI [of _ "q # bs"] exI [of _ "payload b @ e"])
      qed
    qed
  qed
qed

text \<open>An allocation: nothing has changed and the result is NULL, or the result is a packet of the length
  asked for, made of new pbufs with one reference each.\<close>

definition allocated :: "nat \<Rightarrow> pbufs \<Rightarrow> nat option \<Rightarrow> pbufs \<Rightarrow> bool" where
  "allocated len s r s' \<longleftrightarrow> fresh_ok s' \<and> pbuf_env_ok s' \<and>
     (case r of None \<Rightarrow> pb_heap s' = pb_heap s
      | Some x \<Rightarrow> \<exists>as d. length d = len \<and> packet (pb_heap s') (Some x) as d \<and>
          (\<forall>a \<in> set as. pb_heap s a = None \<and> ref_at (pb_heap s') a = 1) \<and>
          (\<forall>a. a \<notin> set as \<longrightarrow> pb_heap s' a = pb_heap s a))"

lemma pbuf_alloc_packet:
  assumes "fresh_ok s" and "pbuf_env_ok s" and "ty = PBUF_POOL \<or> ty = PBUF_RAM" and "len < 2 ^ 16"
  shows "\<exists>r s'. pbuf_alloc layer len ty s = Some (r, s') \<and> allocated len s r s'"
  using assms(3)
proof
  assume ty: "ty = PBUF_POOL"
  have room: "layer_room layer < PBUF_POOL_BUFSIZE" by (cases layer) auto
  have empty: "chain (pb_heap s) None []" "\<forall>a \<in> set []. ref_at (pb_heap s) a = 1" by simp_all
  from pool_loop_spec [OF assms(1,2) empty room, of len] obtain r s'
    where r: "pool_loop (layer_room layer) len None None s = Some (r, s')" "fresh_ok s'" "pbuf_env_ok s'"
      "case r of None \<Rightarrow> pb_heap s' = (\<lambda>a. if a \<in> set [] then None else pb_heap s a)
       | Some x \<Rightarrow> \<exists>bs e. bs \<noteq> [] \<and> length e = len \<and> packet (pb_heap s') (Some (hd bs)) bs e \<and>
           x = (case None of None \<Rightarrow> hd bs | Some h \<Rightarrow> h) \<and>
           (\<forall>a \<in> set bs. pb_heap s a = None \<and> ref_at (pb_heap s') a = 1) \<and>
           (\<forall>a. a \<notin> set bs \<longrightarrow> pb_heap s' a = linked (pb_heap s) [] (hd bs) a)" by auto
  have "allocated len s r s'"
  proof (cases r)
    case None
    with r show ?thesis by (simp add: allocated_def)
  next
    case (Some x)
    with r(4) obtain bs e where "length e = len" "packet (pb_heap s') (Some x) bs e"
      "\<forall>a \<in> set bs. pb_heap s a = None \<and> ref_at (pb_heap s') a = 1" "\<forall>a. a \<notin> set bs \<longrightarrow> pb_heap s' a = pb_heap s a" by auto
    with r(2,3) Some show ?thesis unfolding allocated_def by auto
  qed
  with r(1) ty show ?thesis by (simp add: pbuf_alloc_def)
next
  assume ty: "ty = PBUF_RAM"
  let ?n = "layer_room layer + len"
  have n: "wrap ?n = ?n" using assms(4) by (cases layer) (auto intro!: wrap_id)
  consider (none) s1 where "request ?n s = (None, s1)" "pb_heap s1 = pb_heap s" "pb_fresh s1 = pb_fresh s" "pb_env s1 = pb_env s"
    | (some) c s1 where "request ?n s = (Some (pb_fresh s, c), s1)" "pb_heap s1 = pb_heap s" "pb_fresh s1 = pb_fresh s + 1"
      "pb_env s1 = pb_env s" "pbuf_env_ok s \<longrightarrow> length c = ?n"
    by (rule request_cases)
  then show ?thesis
  proof cases
    case none
    then show ?thesis using ty n assms by (simp add: pbuf_alloc_def allocated_def fresh_ok_def pbuf_env_ok_def)
  next
    case some
    define b where "b = pbuf_init_alloced_pbuf c (layer_room layer) len len PBUF_RAM False"
    have blk: "in_block b" "p_len b = len" "p_tot_len b = len" "p_next b = None" "p_ref b = 1"
      using some(5) assms(2) by (simp_all add: b_def pbuf_init_alloced_pbuf_def in_block_def)
    have "pbuf_alloc layer len ty s = Some (Some (pb_fresh s), put_pbuf (pb_fresh s) b s1)"
      using ty n some(1) by (simp add: pbuf_alloc_def b_def)
    moreover have "packet ((pb_heap s)(pb_fresh s \<mapsto> b)) (Some (pb_fresh s)) [pb_fresh s] (payload b)"
      using blk by simp
    moreover have "pb_heap s (pb_fresh s) = None" using assms(1) by (simp add: fresh_ok_def)
    ultimately show ?thesis using assms(1,2) some(2-4) blk
      by (auto simp: allocated_def put_pbuf_def fresh_ok_def pbuf_env_ok_def ref_at_def intro!: exI [of _ "[pb_fresh s]"] exI [of _ "payload b"])
  qed
qed

text \<open>An allocator that never refuses.\<close>

definition grants :: "pbufs \<Rightarrow> bool" where
  "grants s \<longleftrightarrow> (\<forall>k n. pb_env s k n \<noteq> None)"

lemma free_loop_env:
  assumes "free_loop p n s = Some r"
  shows "pb_env (snd r) = pb_env s"
proof (rule free_loop.raw_induct [where P = "\<lambda>p n s r. pb_env (snd r) = pb_env s", OF _ assms], goal_cases)
  case (1 f p n s r)
  from 1(2) show ?case
    by (auto simp: dealloc_def put_pbuf_def Let_def bind_eq_Some_conv split: option.splits if_splits dest!: 1(1))
qed

lemma pbuf_free_env: "pbuf_free p s = Some (n, s') \<Longrightarrow> pb_env s' = pb_env s"
  using free_loop_env by (fastforce simp: pbuf_free_def split: if_splits)

lemma pool_loop_env:
  assumes "pool_loop off rem p lst s = Some r"
  shows "pb_env (snd r) = pb_env s \<and> (grants s \<longrightarrow> fst r \<noteq> None)"
proof (rule pool_loop.raw_induct [where P = "\<lambda>off rem p lst s r. pb_env (snd r) = pb_env s \<and> (grants s \<longrightarrow> fst r \<noteq> None)",
      OF _ assms], goal_cases)
  case (1 f off rem p lst s r)
  show ?case
  proof (cases "pb_env s (pb_calls s) PBUF_POOL_BUFSIZE")
    case None
    with 1(2) obtain n s' where "pbuf_free p (s\<lparr>pb_calls := pb_calls s + 1, pb_ooseq := True\<rparr>) = Some (n, s')" "r = (None, s')"
      by (auto simp: request_def bind_eq_Some_conv)
    with pbuf_free_env [OF this(1)] None show ?thesis by (auto simp: grants_def)
  next
    case (Some c)
    define s1 where "s1 = put_pbuf (pb_fresh s) (pbuf_init_alloced_pbuf c off rem (min rem (PBUF_POOL_BUFSIZE - off)) PBUF_POOL False)
      (s\<lparr>pb_calls := pb_calls s + 1, pb_fresh := pb_fresh s + 1\<rparr>)"
    obtain h where h: "(case p of None \<Rightarrow> Some (pb_fresh s) | Some h \<Rightarrow> Some h) = Some h" by (cases p) auto
    have "((case lst of None \<Rightarrow> Some s1 | Some l \<Rightarrow> upd_pbuf l (\<lambda>b. b\<lparr>p_next := Some (pb_fresh s)\<rparr>) s1) \<bind>
        (\<lambda>s'. if 0 < rem - min rem (PBUF_POOL_BUFSIZE - off)
              then f 0 (rem - min rem (PBUF_POOL_BUFSIZE - off)) (Some h) (Some (pb_fresh s)) s' else Some (Some h, s'))) = Some r"
      using 1(2) unfolding request_def Some option.case prod.case Let_def h s1_def .
    then obtain s2 where
      s2: "(case lst of None \<Rightarrow> Some s1 | Some l \<Rightarrow> upd_pbuf l (\<lambda>b. b\<lparr>p_next := Some (pb_fresh s)\<rparr>) s1) = Some s2"
        "f 0 (rem - min rem (PBUF_POOL_BUFSIZE - off)) (Some h) (Some (pb_fresh s)) s2 = Some r \<or> r = (Some h, s2)"
      unfolding bind_eq_Some_conv by (metis option.inject)
    have "pb_env s2 = pb_env s"
      using s2(1) by (auto simp: s1_def put_pbuf_def upd_pbuf_def bind_eq_Some_conv split: option.splits)
    with s2(2) show ?thesis using 1(1) [of 0 _ "Some h" "Some (pb_fresh s)" s2 r] by (auto simp: grants_def)
  qed
qed

lemma pbuf_alloc_pool_env:
  assumes "pbuf_alloc layer len PBUF_POOL s = Some (r, s')"
  shows "pb_env s' = pb_env s" and "grants s \<Longrightarrow> r \<noteq> None"
  using pool_loop_env [of "layer_room layer" len None None s "(r, s')"] assms by (simp_all add: pbuf_alloc_def)

section \<open>Joining\<close>

lemma cat_loop_packet:
  assumes "packet (pb_heap s) (Some p) as d" and "packet (pb_heap s) (Some t) bs e" and "set as \<inter> set bs = {}"
    and "length d + length e < 2 ^ 16"
  shows "\<exists>s'. cat_loop p t s = Some s' \<and> packet (pb_heap s') (Some p) (as @ bs) (d @ e) \<and>
    (\<forall>a. a \<notin> set as \<longrightarrow> pb_heap s' a = pb_heap s a) \<and> (\<forall>a. ref_at (pb_heap s') a = ref_at (pb_heap s) a)"
  using assms
proof (induction as arbitrary: p d s)
  case (Cons a as)
  from Cons.prems(1) obtain b where b: "p = a" "a \<notin> set as" "pb_heap s a = Some b" "in_block b" "p_tot_len b = length d"
    "p_len b \<le> length d" "payload b = take (p_len b) d" "packet (pb_heap s) (p_next b) as (drop (p_len b) d)"
    by (auto split: option.splits)
  let ?b = "b\<lparr>p_tot_len := length d + length e\<rparr>"
  let ?s1 = "put_pbuf a ?b s"
  have u: "u16 (p_tot_len b + length e) = length d + length e" using b(5) Cons.prems(4) by (simp add: u16_def)
  obtain tb where tb: "pb_heap s t = Some tb" "p_tot_len tb = length e"
    using Cons.prems(2) by (cases bs) (auto split: option.splits)
  have tot: "packet (pb_heap ?s1) (Some t) bs e" using Cons.prems(2,3) by (simp add: put_pbuf_def)
  show ?case
  proof (cases as)
    case Nil
    let ?s' = "put_pbuf a (?b\<lparr>p_next := Some t\<rparr>) s"
    have nx: "p_next b = None" "p_len b = length d" using b(6,8) Nil by auto
    have "cat_loop p t s = Some ?s'"
      using b(1,3) nx u tb by (subst cat_loop.simps) (simp add: Let_def upd_pbuf_def put_pbuf_def)
    moreover have "packet (pb_heap ?s') (Some p) ([a] @ bs) (d @ e)"
      using b nx tot Cons.prems(3) Nil by (simp add: put_pbuf_def)
    ultimately show ?thesis using Nil b(3) by (auto simp: put_pbuf_def ref_at_def)
  next
    case (Cons c cs)
    then have nx: "p_next b = Some c" using b(8) by simp
    have pk: "packet (pb_heap ?s1) (Some c) as (drop (p_len b) d)" using b(2,8) nx by (simp add: put_pbuf_def)
    have "length (drop (p_len b) d) + length e < 2 ^ 16" using Cons.prems(4) by simp
    from Cons.IH [OF pk tot _ this] Cons.prems(3) obtain s'
      where s': "cat_loop c t ?s1 = Some s'" "packet (pb_heap s') (Some c) (as @ bs) (drop (p_len b) d @ e)"
        "\<And>a'. a' \<notin> set as \<Longrightarrow> pb_heap s' a' = pb_heap ?s1 a'" "\<And>a'. ref_at (pb_heap s') a' = ref_at (pb_heap ?s1) a'" by auto
    have "cat_loop p t s = Some s'"
      using b(1,3) nx u s'(1) tb by (subst cat_loop.simps) (simp add: Let_def)
    moreover have "pb_heap s' a = Some ?b" using s'(3) [OF b(2)] by (simp add: put_pbuf_def)
    then have "packet (pb_heap s') (Some p) ((a # as) @ bs) (d @ e)"
      using b s'(2) nx Cons.prems(3) by simp
    moreover have "ref_at (pb_heap ?s1) a' = ref_at (pb_heap s) a'" for a' using b(3) by (simp add: put_pbuf_def ref_at_def)
    ultimately show ?thesis using s'(3,4) by (auto simp: put_pbuf_def)
  qed
qed simp

lemma pbuf_cat_packet:
  assumes "packet (pb_heap s) (Some p) as d" and "packet (pb_heap s) (Some t) bs e" and "set as \<inter> set bs = {}"
    and "length d + length e < 2 ^ 16"
  shows "\<exists>s'. pbuf_cat (Some p) (Some t) s = Some s' \<and> packet (pb_heap s') (Some p) (as @ bs) (d @ e) \<and>
    (\<forall>a. a \<notin> set as \<longrightarrow> pb_heap s' a = pb_heap s a) \<and> (\<forall>a. ref_at (pb_heap s') a = ref_at (pb_heap s) a)"
  using cat_loop_packet [OF assms] by (simp add: pbuf_cat_def)

section \<open>Shortening\<close>

lemma realloc_loop_packet:
  assumes "packet (pb_heap s) (Some q) as d" and "n < length d" and "length d < 2 ^ 16"
    and "\<forall>a \<in> set as. ref_at (pb_heap s) a = 1"
  shows "\<exists>s' pre post. realloc_loop q n (length d - n) s = Some s' \<and> as = pre @ post \<and>
    packet (pb_heap s') (Some q) pre (take n d) \<and> (\<forall>a \<in> set post. pb_heap s' a = None) \<and>
    (\<forall>a. a \<notin> set as \<longrightarrow> pb_heap s' a = pb_heap s a)"
  using assms
proof (induction as arbitrary: q d n s)
  case (Cons a as)
  from Cons.prems(1) obtain b where b: "q = a" "a \<notin> set as" "pb_heap s a = Some b" "in_block b" "p_tot_len b = length d"
    "p_len b \<le> length d" "payload b = take (p_len b) d" "packet (pb_heap s) (p_next b) as (drop (p_len b) d)"
    by (auto split: option.splits)
  show ?case
  proof (cases "p_len b < n")
    case True
    let ?b = "b\<lparr>p_tot_len := n\<rparr>"
    let ?s1 = "put_pbuf a ?b s"
    have u: "u16 (p_tot_len b + 2 ^ 16 - (length d - n)) = n"
      using b(5) Cons.prems(2,3) by (simp add: u16_def mod_if)
    obtain c cs where c: "as = c # cs" "p_next b = Some c" using b(8) True Cons.prems(2) by (cases as) auto
    have pk: "packet (pb_heap ?s1) (Some c) as (drop (p_len b) d)" using b(2,8) c(2) by (simp add: put_pbuf_def)
    have sh: "length (drop (p_len b) d) - (n - p_len b) = length d - n" using True Cons.prems(2) by simp
    have rf: "\<forall>a \<in> set as. ref_at (pb_heap ?s1) a = 1" using Cons.prems(4) b(2) by (auto simp: put_pbuf_def ref_at_def)
    have "n - p_len b < length (drop (p_len b) d)" "length (drop (p_len b) d) < 2 ^ 16" using True Cons.prems(2,3) by auto
    from Cons.IH [OF pk this rf, unfolded sh] obtain s' pre post
      where s': "realloc_loop c (n - p_len b) (length d - n) ?s1 = Some s'" "as = pre @ post"
        "packet (pb_heap s') (Some c) pre (take (n - p_len b) (drop (p_len b) d))" "\<forall>a \<in> set post. pb_heap s' a = None"
        "\<And>a'. a' \<notin> set as \<Longrightarrow> pb_heap s' a' = pb_heap ?s1 a'" by blast
    have "realloc_loop q n (length d - n) s = Some s'"
      using b(1,3) True c(2) u s'(1) by (subst realloc_loop.simps) simp
    moreover have "pb_heap s' a = Some ?b" using s'(5) [OF b(2)] by (simp add: put_pbuf_def)
    then have "packet (pb_heap s') (Some q) (a # pre) (take n d)"
      using b s'(2,3) c(2) True Cons.prems(2) by (auto simp: drop_take)
    moreover have "a # as = (a # pre) @ post" using s'(2) by simp
    ultimately show ?thesis using s'(4,5) b(1)
      by (intro exI [of _ s'] exI [of _ "a # pre"] exI [of _ post]) (auto simp: put_pbuf_def)
  next
    case False
    let ?b = "b\<lparr>p_len := n, p_tot_len := n\<rparr>"
    let ?s1 = "put_pbuf a ?b s"
    have ch: "chain (pb_heap ?s1) (p_next b) as"
      using packet_chain [OF b(8)] b(2) by (subst chain_cong [where h = "pb_heap s"]) (auto simp: put_pbuf_def)
    have rf: "\<forall>c \<in> set as. ref_at (pb_heap ?s1) c = 1" using Cons.prems(4) b(2) by (auto simp: put_pbuf_def ref_at_def)
    then have "\<forall>c \<in> set as. 1 \<le> ref_at (pb_heap ?s1) c \<and> ref_at (pb_heap ?s1) c < 256" by simp
    from pbuf_free_chain [OF ch this] obtain k s2 where s2: "pbuf_free (p_next b) ?s1 = Some (k, s2)"
      "pb_heap s2 = freed_heap (pb_heap ?s1) as" by metis
    then have h2: "pb_heap s2 = (\<lambda>c. if c \<in> set as then None else pb_heap ?s1 c)"
      using freed_heap_all(1) [OF rf chain_distinct [OF ch]] by simp
    let ?s' = "put_pbuf a (?b\<lparr>p_next := None\<rparr>) s2"
    have "realloc_loop q n (length d - n) s = Some ?s'"
      using b(1-3) False s2(1) h2 by (subst realloc_loop.simps) (simp add: upd_pbuf_def put_pbuf_def)
    moreover have "packet (pb_heap ?s') (Some q) [a] (take n d)"
    proof -
      have "payload (?b\<lparr>p_next := None\<rparr>) = take n (payload b)" using False by (simp add: payload_def min_def)
      also have "\<dots> = take n d" using b(7) False by (simp add: min_def)
      finally have "payload (?b\<lparr>p_next := None\<rparr>) = take n d" .
      moreover have "in_block (?b\<lparr>p_next := None\<rparr>)" using b(4) False by (simp add: in_block_def)
      ultimately show ?thesis using b(1) Cons.prems(2) by (simp add: put_pbuf_def)
    qed
    ultimately show ?thesis using h2 b(1-3)
      by (intro exI [of _ ?s'] exI [of _ "[a]"] exI [of _ as]) (auto simp: put_pbuf_def)
  qed
qed simp

section \<open>Copying a packet into one buffer\<close>

text \<open>No pbuf of the chain is empty.\<close>

definition proper :: "(nat \<Rightarrow> pbuf option) \<Rightarrow> nat list \<Rightarrow> bool" where
  "proper h as \<longleftrightarrow> (\<forall>a \<in> set as. \<forall>b. h a = Some b \<longrightarrow> 0 < p_len b)"

lemma queue_at_proper:
  assumes "packet (pb_heap s) p as d" and "proper (pb_heap s) as"
  shows "queue_at p s = Some False"
proof (cases as)
  case (Cons a bs)
  with assms(1) obtain b where b: "p = Some a" "pb_heap s a = Some b" "p_tot_len b = length d" "p_len b \<le> length d"
    "packet (pb_heap s) (p_next b) bs (drop (p_len b) d)" by (auto split: option.splits)
  have "p_next b = None" if "p_len b = p_tot_len b"
  proof (cases bs)
    case (Cons c cs)
    with b(5) obtain x where "pb_heap s c = Some x" "p_len x \<le> length (drop (p_len b) d)" by (auto split: option.splits)
    with assms(2) \<open>as = a # bs\<close> Cons b(3) that show ?thesis by (auto simp: proper_def)
  qed (use b(5) in simp)
  with b show ?thesis by (auto simp: queue_at_def)
qed (use assms(1) in \<open>simp add: queue_at_def\<close>)

lemma copy_loop_single:
  assumes "packet (pb_heap s) (Some f) as d" and "proper (pb_heap s) as" and "t \<notin> set as"
    and "packet (pb_heap s) (Some t) [t] e" and "off + length d \<le> length e" and "length e < 2 ^ 16"
  shows "\<exists>s'. copy_loop t off f 0 (length d) s = Some (ERR_OK, s') \<and>
    packet (pb_heap s') (Some t) [t] (take off e @ d @ drop (off + length d) e) \<and> mem_only s s' \<and>
    (\<forall>a. a \<noteq> t \<longrightarrow> pb_heap s' a = pb_heap s a)"
  using assms
proof (induction as arbitrary: f d off e s)
  case (Cons a as)
  from Cons.prems(1) obtain b where b: "f = a" "a \<notin> set as" "pb_heap s a = Some b" "in_block b" "p_tot_len b = length d"
    "p_len b \<le> length d" "payload b = take (p_len b) d" "packet (pb_heap s) (p_next b) as (drop (p_len b) d)"
    by (auto split: option.splits)
  from Cons.prems(4) obtain bt where t: "pb_heap s t = Some bt" "in_block bt" "p_len bt = length e" "p_tot_len bt = length e"
    "payload bt = e" "p_next bt = None" by (auto split: option.splits)
  have pos: "0 < p_len b" using Cons.prems(2) b(3) by (simp add: proper_def)
  define x where "x = take (p_len b) d"
  have lx: "length x = p_len b" using b(6) by (simp add: x_def)
  have rooms: "minus_size (p_len bt) off = length e - off" "minus_size (p_len b) 0 = p_len b"
    using Cons.prems(5,6) b(6) t(3) by (auto simp: minus_size_def wrap_def mod_if)
  have fit: "off + length x \<le> p_len bt" using Cons.prems(5) b(6) lx t(3) by simp
  obtain m where m: "payload_write t off x s = Some (put_pbuf t (bt\<lparr>p_mem := m\<rparr>) s)" "in_block (bt\<lparr>p_mem := m\<rparr>)"
    "payload (bt\<lparr>p_mem := m\<rparr>) = take off e @ x @ drop (off + length x) e" "mem_only s (put_pbuf t (bt\<lparr>p_mem := m\<rparr>) s)"
    using payload_write_eq [OF t(1,2) fit] t(5) by metis
  let ?s1 = "put_pbuf t (bt\<lparr>p_mem := m\<rparr>) s"
  define e1 where "e1 = take off e @ x @ drop (off + length x) e"
  have le: "length e1 = length e" using fit t(3) by (simp add: e1_def)
  have pk1: "packet (pb_heap ?s1) (p_next b) as (drop (p_len b) d)"
    using b(8) Cons.prems(3) by (simp add: put_pbuf_def)
  have pkt: "packet (pb_heap ?s1) (Some t) [t] e1"
    using t(3,4,6) m(2,3) le by (simp add: put_pbuf_def flip: e1_def)
  have pr1: "proper (pb_heap ?s1) as" using Cons.prems(2,3) by (auto simp: proper_def put_pbuf_def)
  have qt: "queue_at (if off + p_len b = p_len bt then p_next bt else Some t) ?s1 = Some False"
    using t(6) by (simp add: queue_at_def put_pbuf_def)
  have qf: "queue_at (p_next b) ?s1 = Some False" using queue_at_proper [OF pk1 pr1] .
  let ?n = "length d - p_len b"
  have read: "payload_read b 0 (p_len b) = Some x" using payload_read_eq [OF b(4), of 0 "p_len b"] b(7) by (simp add: x_def)
  have len: "min (length d) (if p_len b \<le> length e - off then p_len b else length e - off) = p_len b"
    using Cons.prems(5) b(6) by auto
  have step: "copy_loop t off f 0 (length d) s =
      (if p_next b = None \<and> ?n \<noteq> 0 \<or> off + p_len b = p_len bt \<and> ?n \<noteq> 0 then Some (ERR_ARG, ?s1)
       else if ?n = 0 then Some (ERR_OK, ?s1)
       else do { f' \<leftarrow> p_next b; t' \<leftarrow> (if off + p_len b = p_len bt then p_next bt else Some t); 
                 copy_loop t' (if off + p_len b = p_len bt then 0 else off + p_len b) f' 0 ?n ?s1 })"
    unfolding copy_loop.simps [of t off f 0 "length d" s]
    unfolding b(1,3) t(1) Option.bind.bind_lunit Let_def rooms len read m(1)
    using qt qf t(6) by (cases "off + p_len b = p_len bt") simp_all
  show ?case
  proof (cases as)
    case Nil
    then have "length d = p_len b" "p_next b = None" using b(6,8) by auto
    then have "copy_loop t off f 0 (length d) s = Some (ERR_OK, ?s1)" "e1 = take off e @ d @ drop (off + length d) e"
      using step by (simp_all add: x_def e1_def)
    with pkt m(4) show ?thesis by (auto simp: put_pbuf_def)
  next
    case (Cons c cs)
    then have c: "p_next b = Some c" using b(8) by simp
    have "drop (p_len b) d \<noteq> []"
      using b(8) Cons \<open>proper (pb_heap s) (a # as)\<close> by (auto simp: proper_def split: option.splits)
    then have n: "0 < ?n" by simp
    have sm: "off + p_len b + length (drop (p_len b) d) \<le> length e1" "length e1 < 2 ^ 16"
      using Cons.prems(5,6) b(6) le by simp_all
    have tn: "t \<notin> set as" using Cons.prems(3) by simp
    from Cons.IH [OF pk1 [unfolded c] pr1 tn pkt sm] obtain s'
      where s': "copy_loop t (off + p_len b) c 0 ?n ?s1 = Some (ERR_OK, s')"
        "packet (pb_heap s') (Some t) [t] (take (off + p_len b) e1 @ drop (p_len b) d @ drop (off + p_len b + length (drop (p_len b) d)) e1)"
        "mem_only ?s1 s'" "\<And>a'. a' \<noteq> t \<Longrightarrow> pb_heap s' a' = pb_heap ?s1 a'" by auto
    have "take (off + p_len b) e1 @ drop (p_len b) d @ drop (off + p_len b + length (drop (p_len b) d)) e1
        = take off e @ d @ drop (off + length d) e"
    proof -
      have "take (off + p_len b) e1 = take off e @ x" using lx fit t(3) by (simp add: e1_def)
      moreover have "drop (off + p_len b + length (drop (p_len b) d)) e1 = drop (off + length d) e"
        using lx fit t(3) b(6) by (simp add: e1_def add.commute)
      ultimately show ?thesis using append_take_drop_id [of "p_len b" d] by (simp add: x_def del: append_take_drop_id)
    qed
    moreover have "copy_loop t off f 0 (length d) s = Some (ERR_OK, s')"
      using step c n s'(1) Cons.prems(5) b(6) t(3) by (auto split: if_splits)
    ultimately show ?thesis using s'(2,4) mem_only_trans [OF m(4) s'(3)] by (auto simp: put_pbuf_def)
  qed
qed simp

lemma pbuf_copy_packet:
  assumes "packet (pb_heap s) (Some f) as d" and "proper (pb_heap s) as" and "t \<notin> set as"
    and "packet (pb_heap s) (Some t) [t] e" and "length d \<le> length e" and "length e < 2 ^ 16"
  shows "\<exists>s'. pbuf_copy (Some t) (Some f) s = Some (ERR_OK, s') \<and>
    packet (pb_heap s') (Some t) [t] (d @ drop (length d) e) \<and> mem_only s s' \<and>
    (\<forall>a. a \<noteq> t \<longrightarrow> pb_heap s' a = pb_heap s a)"
proof -
  obtain bf where "pb_heap s f = Some bf" "p_tot_len bf = length d"
    using assms(1) by (cases as) (auto split: option.splits)
  moreover obtain bt where "pb_heap s t = Some bt" "p_tot_len bt = length e"
    using assms(4) by (auto split: option.splits)
  ultimately have "pbuf_copy (Some t) (Some f) s = copy_loop t 0 f 0 (length d) s"
    using assms(5) by (simp add: pbuf_copy_def pbuf_copy_partial_pbuf_def)
  with copy_loop_single [OF assms(1-4), of 0] assms(5,6) show ?thesis by simp
qed

section \<open>Properties\<close>

text \<open>An example: no pbufs yet, and an allocator that always answers.\<close>

definition no_pbufs :: pbufs where
  "no_pbufs = \<lparr>pb_heap = (\<lambda>_. None), pb_fresh = 0, pb_calls = 0, pb_env = (\<lambda>k n. Some (replicate n nul)), pb_freed = [],
     pb_ooseq = False\<rparr>"

definition two_pbufs :: pbufs where
  "two_pbufs = no_pbufs\<lparr>pb_heap := [0 \<mapsto> \<lparr>p_next = Some 1, p_mem = ''..abc'', p_off = 2, p_tot_len = 7, p_len = 3, p_type = PBUF_RAM,
       p_custom = False, p_ref = 1\<rparr>, 1 \<mapsto> \<lparr>p_next = None, p_mem = ''defg'', p_off = 0, p_tot_len = 4, p_len = 4,
       p_type = PBUF_POOL, p_custom = False, p_ref = 2\<rparr>], pb_fresh := 2\<rparr>"

lemma no_pbufs_ok: "fresh_ok no_pbufs" "pbuf_env_ok no_pbufs"
  by (simp_all add: no_pbufs_def fresh_ok_def pbuf_env_ok_def)

lemma two_pbufs_packet: "packet (pb_heap two_pbufs) (Some 0) [0, 1] ''abcdefg''"
  by (simp add: two_pbufs_def in_block_def payload_def)

text \<open>C15. Allocating a packet from the pool or from the heap is all or nothing: the result is a chain
  of new pbufs, each with one reference, whose payloads have together the length asked for and
  whose length fields are right; or it is NULL and no pbuf allocated on the way is left behind.\<close>

theorem pbuf_alloc_all_or_nothing:
  assumes "fresh_ok s" and "pbuf_env_ok s" and "ty = PBUF_POOL \<or> ty = PBUF_RAM" and "len < 2 ^ 16"
  shows "\<exists>r s'. pbuf_alloc layer len ty s = Some (r, s') \<and> allocated len s r s'"
  by (rule pbuf_alloc_packet [OF assms])

theorem pbuf_alloc_all_or_nothing_witness:
  "fresh_ok no_pbufs \<and> pbuf_env_ok no_pbufs \<and>
   (\<exists>r s'. pbuf_alloc PBUF_RAW 600 PBUF_POOL no_pbufs = Some (r, s') \<and> allocated 600 no_pbufs r s')"
  using pbuf_alloc_all_or_nothing [OF no_pbufs_ok, of PBUF_POOL 600 PBUF_RAW] no_pbufs_ok by simp

text \<open>C16. What \<open>pbuf_take\<close> puts into a packet is what \<open>pbuf_copy_partial\<close> reads from it, at every
  offset and for every length, however the packet is cut into pbufs; what lies behind the bytes
  taken is unchanged, and so is every other pbuf.\<close>

theorem pbuf_take_then_copy:
  assumes "packet (pb_heap s) (Some p) as d" and "length x \<le> length d" and "length d < 2 ^ 16"
  shows "\<exists>s'. pbuf_take (Some p) x s = Some (ERR_OK, s') \<and>
    (\<forall>n off. pbuf_copy_partial (Some p) n off s' = Some (take n (drop off (x @ drop (length x) d)))) \<and>
    (\<forall>a. a \<notin> set as \<longrightarrow> pb_heap s' a = pb_heap s a)"
proof -
  from pbuf_take_packet(2) [OF assms(1,2)] obtain s' where s': "pbuf_take (Some p) x s = Some (ERR_OK, s')"
    "packet (pb_heap s') (Some p) as (x @ drop (length x) d)" "\<forall>a. a \<notin> set as \<longrightarrow> pb_heap s' a = pb_heap s a" by blast
  then show ?thesis using pbuf_copy_partial_packet [OF s'(2)] assms(2,3) by simp
qed

theorem pbuf_take_then_copy_witness:
  "packet (pb_heap two_pbufs) (Some 0) [0, 1] ''abcdefg'' \<and>
   (\<exists>s'. pbuf_take (Some 0) ''12345'' two_pbufs = Some (ERR_OK, s') \<and>
    (\<forall>n off. pbuf_copy_partial (Some 0) n off s' = Some (take n (drop off (''12345'' @ drop (length ''12345'') ''abcdefg'')))) \<and>
    (\<forall>a. a \<notin> set [0, 1] \<longrightarrow> pb_heap s' a = pb_heap two_pbufs a))"
  using pbuf_take_then_copy [OF two_pbufs_packet, of "''12345''"] two_pbufs_packet by simp

text \<open>C36. \<open>pbuf_memfind\<close> on a chain is the search for the first occurrence in the bytes of the packet,
  wherever the boundaries between its pbufs are.\<close>

theorem pbuf_memfind_first:
  assumes "packet (pb_heap s) (Some p) as d" and "length d < 2 ^ 16"
  shows "pbuf_memfind p x start s = Some (first_match x d start)"
  by (rule pbuf_memfind_packet [OF assms])

theorem pbuf_memfind_first_witness:
  "packet (pb_heap two_pbufs) (Some 0) [0, 1] ''abcdefg'' \<and> pbuf_memfind 0 ''cde'' 0 two_pbufs = Some 2"
  using pbuf_memfind_first [OF two_pbufs_packet, of "''cde''" 0] two_pbufs_packet
  by (simp add: first_match_def upt_rec)

text \<open>C37. \<open>pbuf_free\<close> takes one reference from the head of a chain, deallocates every pbuf at its front
  that has no reference left, and takes one reference from the first pbuf that is kept; it reports
  how many it has deallocated.\<close>

theorem pbuf_free_chain_refs:
  assumes "chain (pb_heap s) p as" and "\<forall>a \<in> set as. 1 \<le> ref_at (pb_heap s) a \<and> ref_at (pb_heap s) a < 256"
  shows "\<exists>s'. pbuf_free p s = Some (free_count (pb_heap s) as mod 256, s') \<and> pb_heap s' = freed_heap (pb_heap s) as \<and>
    map fst (pb_freed s') = map fst (pb_freed s) @ take (free_count (pb_heap s) as) as"
  using pbuf_free_chain [OF assms] by metis

theorem pbuf_free_chain_refs_witness:
  "chain (pb_heap two_pbufs) (Some 0) [0, 1] \<and>
   (\<exists>s'. pbuf_free (Some 0) two_pbufs = Some (1, s') \<and> pb_heap s' 0 = None \<and> ref_at (pb_heap s') 1 = 1)"
proof -
  have c: "chain (pb_heap two_pbufs) (Some 0) [0, 1]" using packet_chain [OF two_pbufs_packet] .
  have r: "\<forall>a \<in> set [0, 1]. 1 \<le> ref_at (pb_heap two_pbufs) a \<and> ref_at (pb_heap two_pbufs) a < 256"
    by (simp add: two_pbufs_def ref_at_def)
  from pbuf_free_chain_refs [OF c r] c show ?thesis
    by (auto simp: two_pbufs_def ref_at_def)
qed

end
