(* ===== verification/Usb_Eth_Rx.thy ===== *)
theory Usb_Eth_Rx
  imports Usb_Eth Mem_Ring Pbuf_Alloc
begin

text \<open>
  Reception: frames pass through the receive ring and the drain in order and unchanged, and the
  receive transfers are started again when pressure falls.
\<close>

section \<open>What the throttle hook touches\<close>

text \<open>The hook changes the throttle level, which receive transfers are active, and the log.\<close>

definition same_devs :: "(nat \<Rightarrow> eth_device option) \<Rightarrow> (nat \<Rightarrow> eth_device option) \<Rightarrow> bool" where
  "same_devs D D' \<longleftrightarrow> (\<forall>d. map_option (\<lambda>v. v\<lparr>rx_transfer_active := False\<rparr>) (D' d) =
     map_option (\<lambda>v. v\<lparr>rx_transfer_active := False\<rparr>) (D d))"

definition in_transfers :: "eth_event list \<Rightarrow> bool" where
  "in_transfers l \<longleftrightarrow> (\<forall>e \<in> set l. \<exists>ep n cb d. e = Usb_in ep n cb d)"

definition rx_only :: "eth_state \<Rightarrow> eth_state \<Rightarrow> bool" where
  "rx_only s s' \<longleftrightarrow> (\<exists>t D l. s' = s\<lparr>g_rx_throttle := t, eth_devs := D, eth_log := eth_log s @ l\<rparr> \<and>
     same_devs (eth_devs s) D \<and> in_transfers l)"

lemma rx_only_refl [simp]: "rx_only s s"
  unfolding rx_only_def by (intro exI [of _ "g_rx_throttle s"] exI [of _ "eth_devs s"] exI [of _ "[]"])
    (simp add: same_devs_def in_transfers_def)

lemma rx_only_trans:
  assumes "rx_only s s'" and "rx_only s' s''"
  shows "rx_only s s''"
proof -
  from assms obtain t D l t' D' l' where
    "s' = s\<lparr>g_rx_throttle := t, eth_devs := D, eth_log := eth_log s @ l\<rparr>" "same_devs (eth_devs s) D" "in_transfers l"
    "s'' = s'\<lparr>g_rx_throttle := t', eth_devs := D', eth_log := eth_log s' @ l'\<rparr>" "same_devs (eth_devs s') D'" "in_transfers l'"
    unfolding rx_only_def by blast
  then show ?thesis unfolding rx_only_def
    by (intro exI [of _ t'] exI [of _ D'] exI [of _ "l @ l'"]) (auto simp: same_devs_def in_transfers_def)
qed

lemma restart_rx_only: "rx_only s (restart_rx d s)"
proof -
  have "rx_only s (put_dev d (v\<lparr>rx_transfer_active := True\<rparr>) (eth_call (Usb_in ep n cb d) s))"
    if "eth_devs s d = Some v" for v ep n cb
    unfolding rx_only_def
    by (intro exI [of _ "g_rx_throttle s"] exI [of _ "(eth_devs s)(d \<mapsto> v\<lparr>rx_transfer_active := True\<rparr>)"]
        exI [of _ "[Usb_in ep n cb d]"]) (use that in \<open>simp add: put_dev_def eth_call_def same_devs_def in_transfers_def\<close>)
  moreover have "rx_only s (eth_call (Usb_in ep n cb d) s)" for ep n cb
    unfolding rx_only_def
    by (intro exI [of _ "g_rx_throttle s"] exI [of _ "eth_devs s"] exI [of _ "[Usb_in ep n cb d]"])
      (simp add: eth_call_def same_devs_def in_transfers_def)
  ultimately show ?thesis by (auto simp: restart_rx_def schedule_in_def Let_def split: option.split)
qed

lemma fold_rx_only:
  assumes "\<And>x s. rx_only s (f x s)"
  shows "rx_only s (fold f xs s)"
  by (induction xs arbitrary: s) (auto intro: rx_only_trans assms)

lemma throttle_rx_only: "rx_only s (eth_set_rx_throttle level s)"
proof -
  have "rx_only s (s\<lparr>g_rx_throttle := level\<rparr>)" unfolding rx_only_def
    by (intro exI [of _ level] exI [of _ "eth_devs s"] exI [of _ "[]"]) (simp add: same_devs_def in_transfers_def)
  from rx_only_trans [OF this fold_rx_only [of restart_rx, OF restart_rx_only]] this show ?thesis
    by (simp add: eth_set_rx_throttle_def Let_def)
qed

lemma run_hook_rx_only: "rx_only s (run_hook e s)"
  by (cases e) (auto intro: throttle_rx_only)

lemma set_mem_rx_only: "rx_only (s\<lparr>eth_mem := \<sigma>\<rparr>) (set_mem \<sigma> s)"
  unfolding set_mem_def by (rule fold_rx_only) (rule run_hook_rx_only)

lemma rx_onlyD:
  assumes "rx_only s s'"
  shows "eth_mem s' = eth_mem s" "eth_pbufs s' = eth_pbufs s" "eth_env s' = eth_env s" "netif_list s' = netif_list s"
  using assms by (auto simp: rx_only_def)

lemma rx_only_ring:
  assumes "rx_only s s'"
  shows "map_option rx_ring (eth_devs s' d) = map_option rx_ring (eth_devs s d)"
proof -
  have "map_option (\<lambda>v. v\<lparr>rx_transfer_active := False\<rparr>) (eth_devs s' d) =
     map_option (\<lambda>v. v\<lparr>rx_transfer_active := False\<rparr>) (eth_devs s d)"
    using assms by (auto simp: rx_only_def same_devs_def)
  then have "map_option (rx_ring \<circ> (\<lambda>v. v\<lparr>rx_transfer_active := False\<rparr>)) (eth_devs s' d) =
     map_option (rx_ring \<circ> (\<lambda>v. v\<lparr>rx_transfer_active := False\<rparr>)) (eth_devs s d)"
    by (metis option.map_comp)
  then show ?thesis by (simp add: comp_def)
qed

text \<open>The packets handed to lwIP so far.\<close>

fun input_of :: "eth_event \<Rightarrow> bytes list" where
  "input_of (Netif_input d p x) = [x]"
| "input_of _ = []"

definition inputs :: "eth_event list \<Rightarrow> bytes list" where
  "inputs l = concat (map input_of l)"

lemma inputs_simps [simp]: "inputs [] = []" "inputs (l @ l') = inputs l @ inputs l'" "inputs (e # l) = input_of e @ inputs l"
  by (simp_all add: inputs_def)

lemma rx_only_inputs: "rx_only s s' \<Longrightarrow> inputs (eth_log s') = inputs (eth_log s)"
  unfolding rx_only_def in_transfers_def inputs_def by (fastforce simp: concat_eq_Nil_conv)

lemma set_mem_simps [simp]:
  "eth_mem (set_mem \<sigma> s) = \<sigma>" "eth_pbufs (set_mem \<sigma> s) = eth_pbufs s" "eth_env (set_mem \<sigma> s) = eth_env s"
  "netif_list (set_mem \<sigma> s) = netif_list s" "inputs (eth_log (set_mem \<sigma> s)) = inputs (eth_log s)"
  "map_option rx_ring (eth_devs (set_mem \<sigma> s) d) = map_option rx_ring (eth_devs s d)"
  using rx_onlyD [OF set_mem_rx_only [of \<sigma> s]] rx_only_inputs [OF set_mem_rx_only [of \<sigma> s]]
    rx_only_ring [OF set_mem_rx_only [of \<sigma> s], of d] by simp_all

lemma eth_call_simps [simp]:
  "eth_mem (eth_call e s) = eth_mem s" "eth_pbufs (eth_call e s) = eth_pbufs s" "eth_env (eth_call e s) = eth_env s"
  "netif_list (eth_call e s) = netif_list s" "eth_devs (eth_call e s) = eth_devs s" "eth_log (eth_call e s) = eth_log s @ [e]"
  by (simp_all add: eth_call_def)

lemma same_devs_trans: "same_devs D D' \<Longrightarrow> same_devs D' D'' \<Longrightarrow> same_devs D D''"
  by (simp add: same_devs_def)

lemma set_mem_devs: "same_devs (eth_devs s) (eth_devs (set_mem \<sigma> s))"
  using set_mem_rx_only [of \<sigma> s] by (auto simp: rx_only_def)

lemma with_mem_devs: "with_mem f s = Some (r, s') \<Longrightarrow> same_devs (eth_devs s) (eth_devs s')"
  by (auto simp: with_mem_def bind_eq_Some_conv set_mem_devs)

lemma same_devs_cb:
  assumes "same_devs D D'" and "D d = Some v"
  obtains v' where "D' d = Some v'" and "rx_cb v' = rx_cb v" and "rx_endpoint v' = rx_endpoint v"
proof -
  have "map_option (\<lambda>v. v\<lparr>rx_transfer_active := False\<rparr>) (D' d) = Some (v\<lparr>rx_transfer_active := False\<rparr>)"
    using assms by (simp add: same_devs_def)
  then obtain v' where v': "D' d = Some v'" "v'\<lparr>rx_transfer_active := False\<rparr> = v\<lparr>rx_transfer_active := False\<rparr>" by auto
  have "rx_cb v' = rx_cb v" "rx_endpoint v' = rx_endpoint v"
    using arg_cong [OF v'(2), of rx_cb] arg_cong [OF v'(2), of rx_endpoint] by simp_all
  with v'(1) that show thesis by blast
qed

lemma next_rx_ring:
  assumes "eth_devs s d = Some v" and "rx_cb v \<noteq> None"
  obtains s' where "next_rx d n s = Some s'" and "eth_mem s' = eth_mem s"
  using assms that by (auto simp: next_rx_def upd_dev_def put_dev_def schedule_in_def eth_call_def Let_def)

section \<open>The ring of a device\<close>

definition ring_good :: "nat \<Rightarrow> eth_state \<Rightarrow> bool" where
  "ring_good b s \<longleftrightarrow> ring_inv b (eth_mem s)"

definition ring_bytes :: "nat \<Rightarrow> eth_state \<Rightarrow> bytes" where
  "ring_bytes b s = ring_of (g_bufs (eth_mem s) b)"

text \<open>What every operation of the driver on the ring leaves as it was.\<close>

definition ring_step :: "eth_state \<Rightarrow> eth_state \<Rightarrow> bool" where
  "ring_step s s' \<longleftrightarrow> eth_pbufs s' = eth_pbufs s \<and> eth_env s' = eth_env s \<and> netif_list s' = netif_list s \<and>
     inputs (eth_log s') = inputs (eth_log s) \<and>
     (\<forall>d. map_option rx_ring (eth_devs s' d) = map_option rx_ring (eth_devs s d))"

lemma ring_step_trans: "ring_step s s' \<Longrightarrow> ring_step s' s'' \<Longrightarrow> ring_step s s''"
  by (simp add: ring_step_def)

lemma with_mem_step: "with_mem f s = Some (r, s') \<Longrightarrow> ring_step s s'"
  by (auto simp: with_mem_def ring_step_def bind_eq_Some_conv)

interpretation dq: byte_queue "ring_good b" "ring_bytes b" "\<lambda>d. with_mem (mem_buffer_push (Some b) d)"
    "\<lambda>n. with_mem (mem_buffer_pop (Some b) n)" "\<lambda>i n s. mem_buffer_peek (Some b) i n (eth_mem s)"
    "\<lambda>n. with_mem (mem_buffer_reserve (Some b) n)" for b
proof (unfold_locales, goal_cases)
  case (1 s d)
  then obtain ok \<sigma> where "mem_buffer_push (Some b) d (eth_mem s) = Some (ok, \<sigma>)" "ring_inv b \<sigma>"
    "ring_of (g_bufs \<sigma> b) = (if ok then ring_of (g_bufs (eth_mem s) b) @ d else ring_of (g_bufs (eth_mem s) b))"
    using rq.push [of b "eth_mem s" d] by (auto simp: ring_good_def)
  then show ?case by (simp add: with_mem_def ring_good_def ring_bytes_def)
next
  case (2 s n)
  then obtain \<sigma> where "mem_buffer_pop (Some b) n (eth_mem s) =
      Some (if n \<le> length (ring_bytes b s) then take n (ring_bytes b s) else [], \<sigma>)" "ring_inv b \<sigma>"
    "ring_of (g_bufs \<sigma> b) = (if n \<le> length (ring_bytes b s) then drop n (ring_bytes b s) else ring_bytes b s)"
    using rq.pop [of b "eth_mem s" n] by (auto simp: ring_good_def ring_bytes_def)
  then show ?case by (simp add: with_mem_def ring_good_def ring_bytes_def)
next
  case (3 s i n)
  then show ?case using rq.peek [of b "eth_mem s" i n] by (simp add: ring_good_def ring_bytes_def)
next
  case (4 s n)
  then obtain ok \<sigma> where "mem_buffer_reserve (Some b) n (eth_mem s) = Some (ok, \<sigma>)" "ring_inv b \<sigma>"
    "ring_of (g_bufs \<sigma> b) = ring_of (g_bufs (eth_mem s) b)"
    using rq.reserve [of b "eth_mem s" n] by (auto simp: ring_good_def)
  then show ?case by (simp add: with_mem_def ring_good_def ring_bytes_def)
qed

lemma mem_buffer_len_bytes: "mem_buffer_len (Some b) (eth_mem s) = length (ring_bytes b s)"
  by (simp add: mem_buffer_len_def ring_bytes_def)

section \<open>Frames into the ring\<close>

definition frame :: "bytes \<Rightarrow> bytes" where
  "frame x = frame_header (length x) @ x"

lemma frame_header_length [simp]: "length (frame_header n) = 2"
  by (simp add: frame_header_def)

lemma frame_header_value:
  assumes "n < 2 ^ 16"
  shows "code (frame_header n ! 0) * 256 + code (frame_header n ! 1) = n"
proof -
  have "n div 256 < 256" using assms by (simp add: less_mult_imp_div_less)
  then show ?thesis by (simp add: frame_header_def)
qed

text \<open>A frame that is accepted is in the ring behind its length. A frame that is refused leaves
  nothing in the ring, or its length alone.\<close>

lemma push_frame_ring:
  assumes v: "eth_devs s d = Some v" "rx_ring v = Some b" and good: "ring_good b s" and x: "0 < length x" "length x < 2 ^ 16"
  shows "\<exists>ok s'. eth_ring_push_frame d x s = Some (ok, s') \<and> ring_good b s' \<and> ring_step s s' \<and>
    (if ok then ring_bytes b s' = ring_bytes b s @ frame x
     else ring_bytes b s' = ring_bytes b s \<or> ring_bytes b s' = ring_bytes b s @ frame_header (length x))"
proof -
  have n: "length x + 2 < 2 ^ 23" "length (frame_header (length x)) < 2 ^ 23" "length x < 2 ^ 23" using x by simp_all
  obtain o1 s1 where s1: "with_mem (mem_buffer_reserve (Some b) (length x + 2)) s = Some (o1, s1)" "ring_good b s1"
    "ring_bytes b s1 = ring_bytes b s" using dq.reserve [OF good n(1)] by blast
  obtain o2 s2 where s2: "with_mem (mem_buffer_push (Some b) (frame_header (length x))) s1 = Some (o2, s2)" "ring_good b s2"
    "ring_bytes b s2 = (if o2 then ring_bytes b s1 @ frame_header (length x) else ring_bytes b s1)"
    using dq.push [OF s1(2) n(2)] by blast
  obtain o3 s3 where s3: "with_mem (mem_buffer_push (Some b) x) s2 = Some (o3, s3)" "ring_good b s3"
    "ring_bytes b s3 = (if o3 then ring_bytes b s2 @ x else ring_bytes b s2)"
    using dq.push [OF s2(2) n(3)] by blast
  have steps: "ring_step s s1" "ring_step s s2" "ring_step s s3"
    using with_mem_step [OF s1(1)] with_mem_step [OF s2(1)] with_mem_step [OF s3(1)] ring_step_trans by blast+
  have "eth_ring_push_frame d x s =
      (if \<not> o1 then Some (False, s1) else if \<not> o2 then Some (False, s2) else Some (o3, s3))"
    using v x(1) s1(1) s2(1) s3(1) by (simp add: eth_ring_push_frame_def)
  then show ?thesis using s1(2,3) s2(2,3) s3(2,3) steps by (cases o1; cases o2; cases o3) (auto simp: frame_def)
qed

section \<open>Frames out of the ring\<close>

text \<open>What the driver relies on: the pools and lwIP leave the ring alone; lwIP takes the addresses of
  packet buffers as they come, and leaves a packet it does not accept to the driver.\<close>

definition stack_ok :: "nat \<Rightarrow> eth_env \<Rightarrow> bool" where
  "stack_ok b E \<longleftrightarrow>
     (\<forall>l \<sigma>. ring_inv b \<sigma> \<longrightarrow>
        ring_inv b (en_pools E l \<sigma>) \<and> ring_of (g_bufs (en_pools E l \<sigma>) b) = ring_of (g_bufs \<sigma> b)) \<and>
     (\<forall>l p pb \<sigma> err pb' \<sigma>'. en_input E l p pb \<sigma> = (err, pb', \<sigma>') \<longrightarrow>
        (ring_inv b \<sigma> \<longrightarrow> ring_inv b \<sigma>' \<and> ring_of (g_bufs \<sigma>' b) = ring_of (g_bufs \<sigma> b)) \<and>
        (fresh_ok pb \<longrightarrow> fresh_ok pb') \<and> pb_env pb' = pb_env pb \<and> (err \<noteq> ERR_OK \<longrightarrow> pb_heap pb' = pb_heap pb))"

definition same_rings :: "eth_state \<Rightarrow> eth_state \<Rightarrow> bool" where
  "same_rings s s' \<longleftrightarrow> (\<forall>d. map_option rx_ring (eth_devs s' d) = map_option rx_ring (eth_devs s d))"

lemma with_pbufs_ring:
  assumes "f (eth_pbufs s) = Some (r, pb)" and "stack_ok b (eth_env s)" and "ring_good b s"
  shows "\<exists>s'. with_pbufs f s = Some (r, s') \<and> eth_pbufs s' = pb \<and> ring_good b s' \<and> ring_bytes b s' = ring_bytes b s \<and>
    eth_env s' = eth_env s \<and> inputs (eth_log s') = inputs (eth_log s) \<and> same_rings s s'"
  using assms by (simp add: same_rings_def with_pbufs_def Let_def ring_good_def ring_bytes_def stack_ok_def)

lemma fill_loop_packet:
  assumes "packet (pb_heap (eth_pbufs s)) q as d" and "ring_good b s" and "ring_bytes b s = x @ y" and "length x = length d"
  shows "\<exists>s'. fill_loop b q (length d) s = Some (0, s') \<and> packet (pb_heap (eth_pbufs s')) q as x \<and>
    mem_only (eth_pbufs s) (eth_pbufs s') \<and> ring_good b s' \<and> ring_bytes b s' = y \<and>
    eth_env s' = eth_env s \<and> inputs (eth_log s') = inputs (eth_log s) \<and> same_rings s s' \<and>
    (\<forall>a. a \<notin> set as \<longrightarrow> pb_heap (eth_pbufs s') a = pb_heap (eth_pbufs s) a)"
  using assms
proof (induction as arbitrary: q d x s)
  case Nil
  then show ?case by (simp add: fill_loop.simps same_rings_def)
next
  case (Cons a as)
  from Cons.prems(1) obtain bq where bq: "q = Some a" "a \<notin> set as" "pb_heap (eth_pbufs s) a = Some bq" "in_block bq"
    "p_tot_len bq = length d" "p_len bq \<le> length d" "payload bq = take (p_len bq) d"
    "packet (pb_heap (eth_pbufs s)) (p_next bq) as (drop (p_len bq) d)" by (rule packet_ConsE)
  define n where "n = p_len bq"
  show ?case
  proof (cases "d = []")
    case True
    with Cons.prems bq(1) show ?thesis by (simp add: fill_loop.simps same_rings_def)
  next
    case False
    have "ring_bytes b s = take n x @ (drop n x @ y)" "length (take n x) = n"
      using Cons.prems(3,4) bq(6) by (simp_all add: n_def)
    from dq.pop_front [OF Cons.prems(2) this(1)] this(2) obtain s1 where
      s1: "with_mem (mem_buffer_pop (Some b) n) s = Some (take n x, s1)" "ring_good b s1" "ring_bytes b s1 = drop n x @ y" by auto
    have st: "eth_pbufs s1 = eth_pbufs s" "eth_env s1 = eth_env s" "inputs (eth_log s1) = inputs (eth_log s)" "same_rings s s1"
      using with_mem_step [OF s1(1)] by (simp_all add: ring_step_def same_rings_def)
    have "0 + length (take n x) \<le> p_len bq" by (simp add: n_def)
    from payload_write_eq [OF bq(3,4) this] obtain m where
      m: "payload_write a 0 (take n x) (eth_pbufs s) = Some (put_pbuf a (bq\<lparr>p_mem := m\<rparr>) (eth_pbufs s))"
        "in_block (bq\<lparr>p_mem := m\<rparr>)" "payload (bq\<lparr>p_mem := m\<rparr>) = take n x @ drop n (payload bq)"
        "mem_only (eth_pbufs s) (put_pbuf a (bq\<lparr>p_mem := m\<rparr>) (eth_pbufs s))"
      using Cons.prems(4) bq(6) by (auto simp: n_def)
    define s2 where "s2 = s1\<lparr>eth_pbufs := put_pbuf a (bq\<lparr>p_mem := m\<rparr>) (eth_pbufs s)\<rparr>"
    have s2: "packet (pb_heap (eth_pbufs s2)) (p_next bq) as (drop n d)" "ring_good b s2" "ring_bytes b s2 = drop n x @ y"
      "length (drop n x) = length (drop n d)"
      using bq(2,8) s1(2,3) Cons.prems(4) by (simp_all add: s2_def put_pbuf_def ring_good_def ring_bytes_def n_def)
    from Cons.IH [OF s2] obtain s' where s': "fill_loop b (p_next bq) (length (drop n d)) s2 = Some (0, s')"
      "packet (pb_heap (eth_pbufs s')) (p_next bq) as (drop n x)" "mem_only (eth_pbufs s2) (eth_pbufs s')" "ring_good b s'"
      "ring_bytes b s' = y" "eth_env s' = eth_env s2" "inputs (eth_log s') = inputs (eth_log s2)" "same_rings s2 s'"
      "\<And>c. c \<notin> set as \<Longrightarrow> pb_heap (eth_pbufs s') c = pb_heap (eth_pbufs s2) c" by blast
    have "fill_loop b q (length d) s = Some (0, s')"
      using False bq(1,3,6) s1(1) st(1) m(1) s'(1)
      by (subst fill_loop.simps) (simp add: Let_def s2_def n_def)
    moreover have "pb_heap (eth_pbufs s') a = Some (bq\<lparr>p_mem := m\<rparr>)" using s'(9) [OF bq(2)] by (simp add: s2_def put_pbuf_def)
    then have "packet (pb_heap (eth_pbufs s')) q (a # as) x"
      using bq m(2,3) s'(2) Cons.prems(4) by (intro packet_ConsI [where b = "bq\<lparr>p_mem := m\<rparr>"]) (auto simp: n_def)
    moreover have "mem_only (eth_pbufs s) (eth_pbufs s')" using mem_only_trans [OF m(4)] s'(3) by (simp add: s2_def)
    ultimately show ?thesis using s'(4-9) st by (auto simp: s2_def put_pbuf_def same_rings_def)
  qed
qed

definition drain_ok :: "nat \<Rightarrow> nat \<Rightarrow> eth_state \<Rightarrow> bool" where
  "drain_ok d b s \<longleftrightarrow> map_option rx_ring (eth_devs s d) = Some (Some b) \<and> ring_good b s \<and> stack_ok b (eth_env s) \<and> fresh_ok (eth_pbufs s) \<and> pbuf_env_ok (eth_pbufs s)"

text \<open>A packet just allocated is given back completely.\<close>

lemma free_new_packet:
  assumes "packet h (Some p) as x" and "\<forall>a \<in> set as. ref_at h a = 1" and "pb_heap pb = h" and "fresh_ok pb" and "pbuf_env_ok pb"
  obtains n pb' where "pbuf_free (Some p) pb = Some (n, pb')" and "fresh_ok pb'" and "pbuf_env_ok pb'" and "pb_env pb' = pb_env pb"
proof -
  have ch: "chain (pb_heap pb) (Some p) as" using packet_chain [OF assms(1)] assms(3) by simp
  have "\<forall>a \<in> set as. 1 \<le> ref_at (pb_heap pb) a \<and> ref_at (pb_heap pb) a < 256" using assms(2,3) by simp
  from pbuf_free_chain [OF ch this] obtain pb' where
    pb': "pbuf_free (Some p) pb = Some (free_count (pb_heap pb) as mod 256, pb')" "pb_heap pb' = freed_heap (pb_heap pb) as"
      "pb_fresh pb' = pb_fresh pb" "pb_env pb' = pb_env pb" by blast
  have "freed_heap (pb_heap pb) as = (\<lambda>a. if a \<in> set as then None else pb_heap pb a)"
    using freed_heap_all(1) [of as "pb_heap pb"] assms(2,3) packet_distinct [OF assms(1)] by simp
  with pb' assms(4,5) have "fresh_ok pb'" "pbuf_env_ok pb'" by (auto simp: fresh_ok_def pbuf_env_ok_def)
  with that pb' show thesis by blast
qed

lemma mem_only_ref: "mem_only pb pb' \<Longrightarrow> ref_at (pb_heap pb') a = ref_at (pb_heap pb) a"
proof -
  assume "mem_only pb pb'"
  then have "map_option (\<lambda>b. b\<lparr>p_mem := []\<rparr>) (pb_heap pb' a) = map_option (\<lambda>b. b\<lparr>p_mem := []\<rparr>) (pb_heap pb a)"
    by (simp add: mem_only_def)
  then have "map_option (p_ref \<circ> (\<lambda>b. b\<lparr>p_mem := []\<rparr>)) (pb_heap pb' a) = map_option (p_ref \<circ> (\<lambda>b. b\<lparr>p_mem := []\<rparr>)) (pb_heap pb a)"
    by (metis option.map_comp)
  then show ?thesis by (cases "pb_heap pb a"; cases "pb_heap pb' a") (auto simp: ref_at_def)
qed

lemma mem_only_fresh: "mem_only pb pb' \<Longrightarrow> fresh_ok pb \<Longrightarrow> fresh_ok pb'"
proof -
  assume m: "mem_only pb pb'" and f: "fresh_ok pb"
  have "pb_heap pb' a = None \<longleftrightarrow> pb_heap pb a = None" for a
  proof -
    have "map_option (\<lambda>b. b\<lparr>p_mem := []\<rparr>) (pb_heap pb' a) = map_option (\<lambda>b. b\<lparr>p_mem := []\<rparr>) (pb_heap pb a)"
      using m by (simp add: mem_only_def)
    then show ?thesis by (cases "pb_heap pb a"; cases "pb_heap pb' a") auto
  qed
  then show "fresh_ok pb'" using m f by (simp add: fresh_ok_def mem_only_def)
qed

text \<open>Handing over a packet: accepted or not, it is off the driver's hands.\<close>

lemma input_packet:
  assumes ok: "drain_ok d b s" and pk: "packet (pb_heap (eth_pbufs s)) (Some p) as x" "length x < 2 ^ 16"
    and ref: "\<forall>a \<in> set as. ref_at (pb_heap (eth_pbufs s)) a = 1"
  shows "\<exists>err s1 s2. netif_input d p s = Some (err, s1) \<and>
     (if err \<noteq> ERR_OK then \<exists>n. with_pbufs (pbuf_free (Some p)) s1 = Some (n, s2) else s2 = s1) \<and>
     drain_ok d b s2 \<and> ring_bytes b s2 = ring_bytes b s \<and> inputs (eth_log s2) = inputs (eth_log s) @ [x] \<and>
     pb_env (eth_pbufs s2) = pb_env (eth_pbufs s) \<and> eth_env s2 = eth_env s"
proof -
  obtain c where c: "pb_heap (eth_pbufs s) p = Some c" "p_tot_len c = length x"
    using pk(1) by (cases as) (auto split: option.splits)
  have data: "pbuf_copy_partial (Some p) (length x) 0 (eth_pbufs s) = Some x"
    using pbuf_copy_partial_packet [OF pk(1)] pk(2) by simp
  define l where "l = eth_log s @ [Netif_input d p x]"
  obtain err pb \<sigma> where r: "en_input (eth_env s) l p (eth_pbufs s) (eth_mem s) = (err, pb, \<sigma>)" by (metis prod_cases3)
  define s1 where "s1 = set_mem \<sigma> ((eth_call (Netif_input d p x) s)\<lparr>eth_pbufs := pb\<rparr>)"
  have in1: "netif_input d p s = Some (err, s1)"
    using c data r by (simp add: netif_input_def s1_def l_def Let_def)
  have st: "ring_inv b \<sigma>" "ring_of (g_bufs \<sigma> b) = ring_bytes b s" "fresh_ok pb" "pb_env pb = pb_env (eth_pbufs s)"
    "err \<noteq> ERR_OK \<longrightarrow> pb_heap pb = pb_heap (eth_pbufs s)"
    using ok r unfolding drain_ok_def stack_ok_def ring_good_def ring_bytes_def by blast+
  then have s1: "drain_ok d b s1" "ring_bytes b s1 = ring_bytes b s" "inputs (eth_log s1) = inputs (eth_log s) @ [x]"
    "pb_env (eth_pbufs s1) = pb_env (eth_pbufs s)" "eth_pbufs s1 = pb" "eth_env s1 = eth_env s"
    using ok by (simp_all add: s1_def drain_ok_def ring_good_def ring_bytes_def pbuf_env_ok_def)
  show ?thesis
  proof (cases "err = ERR_OK")
    case True
    then show ?thesis using in1 s1 by (intro exI [of _ err] exI [of _ s1]) simp
  next
    case False
    then have "pb_heap (eth_pbufs s1) = pb_heap (eth_pbufs s)" using st(5) s1(5) by simp
    from free_new_packet [OF pk(1) ref this] s1(1) obtain n pb' where
      f: "pbuf_free (Some p) (eth_pbufs s1) = Some (n, pb')" "fresh_ok pb'" "pbuf_env_ok pb'" "pb_env pb' = pb_env (eth_pbufs s1)"
      unfolding drain_ok_def by blast
    from with_pbufs_ring [of "pbuf_free (Some p)", OF f(1), of b] s1(1) obtain s2 where
      "with_pbufs (pbuf_free (Some p)) s1 = Some (n, s2)" "eth_pbufs s2 = pb'" "ring_good b s2" "ring_bytes b s2 = ring_bytes b s1"
      "eth_env s2 = eth_env s1" "inputs (eth_log s2) = inputs (eth_log s1)" "same_rings s1 s2" by (auto simp: drain_ok_def)
    then show ?thesis using False in1 s1 f
      by (intro exI [of _ err] exI [of _ s1] exI [of _ s2]) (simp add: drain_ok_def same_rings_def)
  qed
qed

lemma alloc_packet:
  assumes ok: "drain_ok d b s" and n: "n < 2 ^ 16"
  obtains r s' where "with_pbufs (pbuf_alloc PBUF_RAW n PBUF_POOL) s = Some (r, s')" and "drain_ok d b s'"
    and "ring_bytes b s' = ring_bytes b s" and "inputs (eth_log s') = inputs (eth_log s)"
    and "pb_env (eth_pbufs s') = pb_env (eth_pbufs s)" and "eth_env s' = eth_env s" and "grants (eth_pbufs s) \<longrightarrow> r \<noteq> None"
    and "\<forall>p. r = Some p \<longrightarrow> (\<exists>as d. length d = n \<and> packet (pb_heap (eth_pbufs s')) (Some p) as d \<and>
      (\<forall>a \<in> set as. ref_at (pb_heap (eth_pbufs s')) a = 1))"
proof -
  obtain r pb where r: "pbuf_alloc PBUF_RAW n PBUF_POOL (eth_pbufs s) = Some (r, pb)" "allocated n (eth_pbufs s) r pb"
    using pbuf_alloc_packet [of "eth_pbufs s" PBUF_POOL n] ok n unfolding drain_ok_def by blast
  from with_pbufs_ring [of "pbuf_alloc PBUF_RAW n PBUF_POOL", OF r(1), of b] ok obtain s' where
    s': "with_pbufs (pbuf_alloc PBUF_RAW n PBUF_POOL) s = Some (r, s')" "eth_pbufs s' = pb" "ring_good b s'"
      "ring_bytes b s' = ring_bytes b s" "eth_env s' = eth_env s" "inputs (eth_log s') = inputs (eth_log s)" "same_rings s s'"
    by (auto simp: drain_ok_def)
  show thesis
  proof (rule that [OF s'(1)])
    show "drain_ok d b s'" using ok s' r(2) by (simp add: drain_ok_def allocated_def same_rings_def)
    show "pb_env (eth_pbufs s') = pb_env (eth_pbufs s)" using pbuf_alloc_pool_env(1) [OF r(1)] s'(2) by simp
    show "grants (eth_pbufs s) \<longrightarrow> r \<noteq> None" using pbuf_alloc_pool_env(2) [OF r(1)] by blast
    show "\<forall>p. r = Some p \<longrightarrow> (\<exists>as d. length d = n \<and> packet (pb_heap (eth_pbufs s')) (Some p) as d \<and>
      (\<forall>a \<in> set as. ref_at (pb_heap (eth_pbufs s')) a = 1))"
      using r(2) s'(2) unfolding allocated_def by (cases r) (simp, fastforce)
  qed (use s' in simp_all)
qed

text \<open>One turn of the loop with a complete frame at the front of the ring.\<close>

definition drain_rest :: "nat \<Rightarrow> nat \<Rightarrow> nat \<Rightarrow> nat \<Rightarrow> nat \<Rightarrow> nat \<Rightarrow> eth_state \<Rightarrow> (nat \<times> eth_state) option" where
  "drain_rest b d n m len p s = do {
     (remaining, s) \<leftarrow> fill_loop b (Some p) len s;
     if remaining \<noteq> 0
     then do { (k, s) \<leftarrow> with_pbufs (pbuf_free (Some p)) s; Some (m, s) }
     else do {
       (err, s) \<leftarrow> netif_input d p s;
       if err \<noteq> ERR_OK
       then do { (k, s) \<leftarrow> with_pbufs (pbuf_free (Some p)) s; drain_loop b d n (m + 1) s }
       else drain_loop b d n (m + 1) s } }"

lemma drain_turn_start:
  assumes good: "ring_good b s" and ring: "ring_bytes b s = frame x @ y" and x: "length x < 2 ^ 16"
    and alloc: "with_pbufs (pbuf_alloc PBUF_RAW (length x) PBUF_POOL) s = Some (r, s1)"
  shows "drain_loop b d (Suc n) m s = (case r of None \<Rightarrow> Some (m, s1) | Some p \<Rightarrow> do {
     (h, s) \<leftarrow> with_mem (mem_buffer_pop (Some b) 2) s1;
     drain_rest b d n m (length x) p s })"
proof -
  have len: "length (ring_bytes b s) = 2 + length x + length y" using ring by (simp add: frame_def)
  have peek: "mem_buffer_peek (Some b) 0 2 (eth_mem s) = Some (Some (frame_header (length x)))"
    using dq.peek [OF good, of 0 2] len ring by (simp add: frame_def)
  show ?thesis
    unfolding drain_loop.simps(2) mem_buffer_len_bytes peek len Option.bind.bind_lunit option.case Let_def
      frame_header_value [OF x] alloc drain_rest_def by simp
qed

text \<open>The allocator refuses and the loop ends, or the frame goes to lwIP.\<close>

lemma drain_turn:
  assumes ok: "drain_ok d b s" and ring: "ring_bytes b s = frame x @ y" and x: "length x < 2 ^ 16"
  obtains s' where "drain_loop b d (Suc n) m s = Some (m, s')" and "drain_ok d b s'" and "ring_bytes b s' = ring_bytes b s"
      and "inputs (eth_log s') = inputs (eth_log s)" and "\<not> grants (eth_pbufs s)" and "eth_env s' = eth_env s"
  | s' where "drain_loop b d (Suc n) m s = drain_loop b d n (m + 1) s'" and "drain_ok d b s'" and "ring_bytes b s' = y"
      and "inputs (eth_log s') = inputs (eth_log s) @ [x]" and "pb_env (eth_pbufs s') = pb_env (eth_pbufs s)"
      and "eth_env s' = eth_env s"
proof -
  have good: "ring_good b s" using ok by (simp add: drain_ok_def)
  obtain r s1 where s1: "with_pbufs (pbuf_alloc PBUF_RAW (length x) PBUF_POOL) s = Some (r, s1)" "drain_ok d b s1"
    "ring_bytes b s1 = ring_bytes b s" "inputs (eth_log s1) = inputs (eth_log s)"
    "pb_env (eth_pbufs s1) = pb_env (eth_pbufs s)" "eth_env s1 = eth_env s" "grants (eth_pbufs s) \<longrightarrow> r \<noteq> None"
    "\<forall>p. r = Some p \<longrightarrow> (\<exists>as d. length d = length x \<and> packet (pb_heap (eth_pbufs s1)) (Some p) as d \<and>
      (\<forall>a \<in> set as. ref_at (pb_heap (eth_pbufs s1)) a = 1))" by (rule alloc_packet [OF ok x])
  note start = drain_turn_start [OF good ring x s1(1), of d n m]
  show thesis
  proof (cases r)
    case None
    then show ?thesis using that(1) start s1 by auto
  next
    case (Some p)
    with s1(8) obtain as d0 where pk: "length d0 = length x" "packet (pb_heap (eth_pbufs s1)) (Some p) as d0"
      "\<forall>a \<in> set as. ref_at (pb_heap (eth_pbufs s1)) a = 1" by blast
    have "ring_bytes b s1 = frame_header (length x) @ (x @ y)" using s1(3) ring by (simp add: frame_def)
    from dq.pop_front [OF _ this] s1(2) obtain s2 where s2: "with_mem (mem_buffer_pop (Some b) 2) s1 = Some (frame_header (length x), s2)"
      "ring_good b s2" "ring_bytes b s2 = x @ y" by (auto simp: drain_ok_def)
    have st: "eth_pbufs s2 = eth_pbufs s1" "eth_env s2 = eth_env s1" "inputs (eth_log s2) = inputs (eth_log s1)" "same_rings s1 s2"
      using with_mem_step [OF s2(1)] by (simp_all add: ring_step_def same_rings_def)
    from fill_loop_packet [of s2 "Some p" as d0 b x y] pk s2 st obtain s3 where
      s3: "fill_loop b (Some p) (length x) s2 = Some (0, s3)" "packet (pb_heap (eth_pbufs s3)) (Some p) as x"
        "mem_only (eth_pbufs s2) (eth_pbufs s3)" "ring_good b s3" "ring_bytes b s3 = y" "eth_env s3 = eth_env s2"
        "inputs (eth_log s3) = inputs (eth_log s2)" "same_rings s2 s3" by auto
    have ok3: "drain_ok d b s3" using s1(2) s3(3,4,6,8) st mem_only_fresh [OF s3(3)]
      by (simp add: drain_ok_def pbuf_env_ok_def mem_only_def same_rings_def)
    have ref3: "\<forall>a \<in> set as. ref_at (pb_heap (eth_pbufs s3)) a = 1" using pk(3) mem_only_ref [OF s3(3)] st(1) by simp
    from input_packet [OF ok3 s3(2) x ref3] obtain err s4 s5 where
      s4: "netif_input d p s3 = Some (err, s4)" "if err \<noteq> ERR_OK then \<exists>k. with_pbufs (pbuf_free (Some p)) s4 = Some (k, s5) else s5 = s4"
        "drain_ok d b s5" "ring_bytes b s5 = ring_bytes b s3" "inputs (eth_log s5) = inputs (eth_log s3) @ [x]"
        "pb_env (eth_pbufs s5) = pb_env (eth_pbufs s3)" "eth_env s5 = eth_env s3" by blast
    have "drain_loop b d (Suc n) m s = drain_loop b d n (m + 1) s5"
      using start Some s2(1) s3(1) s4(1,2) by (auto simp: drain_rest_def split: if_splits)
    then show ?thesis using that(2) [of s5] s1(4-6) s3(3,5,6,7) st s4(3-7) by (simp add: mem_only_def)
  qed
qed

lemma drain_loop_frames:
  assumes "drain_ok d b s" and "ring_bytes b s = concat (map frame fs)" and "\<forall>x \<in> set fs. length x < 2 ^ 16"
  shows "\<exists>k s'. drain_loop b d n m s = Some (m + k, s') \<and> k \<le> min n (length fs) \<and>
    (grants (eth_pbufs s) \<longrightarrow> k = min n (length fs)) \<and> drain_ok d b s' \<and>
    inputs (eth_log s') = inputs (eth_log s) @ take k fs \<and> ring_bytes b s' = concat (map frame (drop k fs)) \<and>
    eth_env s' = eth_env s"
  using assms
proof (induction n arbitrary: fs m s)
  case 0
  then show ?case by simp
next
  case (Suc n)
  show ?case
  proof (cases fs)
    case Nil
    with Suc.prems have "mem_buffer_len (Some b) (eth_mem s) = 0" by (simp add: mem_buffer_len_bytes)
    with Nil Suc.prems show ?thesis by simp
  next
    case (Cons x gs)
    then have ring: "ring_bytes b s = frame x @ concat (map frame gs)" and x: "length x < 2 ^ 16"
      and gs: "\<forall>x \<in> set gs. length x < 2 ^ 16" using Suc.prems by simp_all
    show ?thesis
    proof (rule drain_turn [OF Suc.prems(1) ring x, of n m])
      fix s' assume "drain_loop b d (Suc n) m s = Some (m, s')" "drain_ok d b s'" "ring_bytes b s' = ring_bytes b s"
        "inputs (eth_log s') = inputs (eth_log s)" "\<not> grants (eth_pbufs s)" "eth_env s' = eth_env s"
      then show ?thesis using Suc.prems(2) by (intro exI [of _ 0] exI [of _ s']) simp
    next
      fix s' assume s': "drain_loop b d (Suc n) m s = drain_loop b d n (m + 1) s'" "drain_ok d b s'"
        "ring_bytes b s' = concat (map frame gs)" "inputs (eth_log s') = inputs (eth_log s) @ [x]"
        "pb_env (eth_pbufs s') = pb_env (eth_pbufs s)" "eth_env s' = eth_env s"
      from Suc.IH [OF s'(2,3) gs, of "m + 1"] obtain k s'' where "drain_loop b d n (m + 1) s' = Some (m + 1 + k, s'')"
        "k \<le> min n (length gs)" "grants (eth_pbufs s') \<longrightarrow> k = min n (length gs)" "drain_ok d b s''"
        "inputs (eth_log s'') = inputs (eth_log s') @ take k gs" "ring_bytes b s'' = concat (map frame (drop k gs))"
        "eth_env s'' = eth_env s'" by blast
      then show ?thesis using s' Cons by (intro exI [of _ "Suc k"] exI [of _ s'']) (simp add: grants_def)
    qed
  qed
qed

section \<open>Arrivals and drains\<close>

text \<open>A run of the driver: frames arrive from the device, and the timer drains the ring. It stops at a
  frame that is refused.\<close>

datatype rx_op = Arrive bytes | Drain nat

fun run_rx :: "nat \<Rightarrow> nat \<Rightarrow> rx_op list \<Rightarrow> eth_state \<Rightarrow> (bool \<times> eth_state) option" where
  "run_rx d b [] s = Some (True, s)"
| "run_rx d b (Arrive x # ops) s = do {
     (ok, s) \<leftarrow> eth_ring_push_frame d x s;
     if ok then run_rx d b ops s else Some (False, s) }"
| "run_rx d b (Drain n # ops) s = do {
     (k, s) \<leftarrow> eth_rx_ring_drain (Some b) (Some d) n s;
     run_rx d b ops s }"

fun arrivals :: "rx_op list \<Rightarrow> bytes list" where
  "arrivals [] = []"
| "arrivals (Arrive x # ops) = x # arrivals ops"
| "arrivals (Drain n # ops) = arrivals ops"

definition frame_sized :: "bytes \<Rightarrow> bool" where
  "frame_sized x \<longleftrightarrow> 0 < length x \<and> length x < 2 ^ 16"

lemma run_rx_frames:
  assumes "drain_ok d b s" and "ring_bytes b s = concat (map frame fs)" and "list_all frame_sized fs"
    and "list_all frame_sized (arrivals ops)"
  shows "\<exists>ok s'. run_rx d b ops s = Some (ok, s') \<and> (ok \<longrightarrow> (\<exists>out rest. inputs (eth_log s') = inputs (eth_log s) @ out \<and>
    fs @ arrivals ops = out @ rest \<and> ring_bytes b s' = concat (map frame rest) \<and> drain_ok d b s'))"
  using assms
proof (induction ops arbitrary: s fs)
  case Nil
  then show ?case by auto
next
  case (Cons x ops)
  show ?case
  proof (cases x)
    case (Arrive y)
    then have y: "0 < length y" "length y < 2 ^ 16" using Cons.prems(4) by (simp_all add: frame_sized_def)
    from Cons.prems(1) obtain v where v: "eth_devs s d = Some v" "rx_ring v = Some b" by (auto simp: drain_ok_def)
    have good: "ring_good b s" using Cons.prems(1) by (simp add: drain_ok_def)
    from push_frame_ring [OF v good y] obtain ok s1 where s1: "eth_ring_push_frame d y s = Some (ok, s1)" "ring_good b s1"
      "ring_step s s1" "ok \<longrightarrow> ring_bytes b s1 = ring_bytes b s @ frame y" by (auto split: if_splits)
    show ?thesis
    proof (cases ok)
      case False
      then show ?thesis using s1(1) Arrive by (intro exI [of _ False] exI [of _ s1]) simp
    next
      case True
      have "drain_ok d b s1" "ring_bytes b s1 = concat (map frame (fs @ [y]))" "inputs (eth_log s1) = inputs (eth_log s)"
        using True s1 Cons.prems(1,2) by (simp_all add: drain_ok_def ring_step_def)
      with Cons.IH [of s1 "fs @ [y]"] Cons.prems(3,4) Arrive True s1(1) show ?thesis by simp
    qed
  next
    case (Drain n)
    have "\<forall>x \<in> set fs. length x < 2 ^ 16" using Cons.prems(3) by (simp add: list_all_iff frame_sized_def)
    from drain_loop_frames [OF Cons.prems(1,2) this, of n 0] obtain k s1 where s1: "drain_loop b d n 0 s = Some (k, s1)"
      "drain_ok d b s1" "inputs (eth_log s1) = inputs (eth_log s) @ take k fs" "ring_bytes b s1 = concat (map frame (drop k fs))"
      by auto
    have "list_all frame_sized (drop k fs)" using Cons.prems(3) by (auto simp: list_all_iff dest: in_set_dropD)
    from Cons.IH [OF s1(2,4) this] Cons.prems(4) Drain obtain ok s' where s': "run_rx d b ops s1 = Some (ok, s')"
      "ok \<longrightarrow> (\<exists>out rest. inputs (eth_log s') = inputs (eth_log s1) @ out \<and> drop k fs @ arrivals ops = out @ rest \<and>
         ring_bytes b s' = concat (map frame rest) \<and> drain_ok d b s')" by auto
    have run: "run_rx d b (x # ops) s = Some (ok, s')" using Drain s1(1) s'(1) by (simp add: eth_rx_ring_drain_def)
    have "\<exists>out rest. inputs (eth_log s') = inputs (eth_log s) @ out \<and> fs @ arrivals (x # ops) = out @ rest \<and>
        ring_bytes b s' = concat (map frame rest) \<and> drain_ok d b s'" if ok
    proof -
      from s'(2) that obtain out rest where o: "inputs (eth_log s') = inputs (eth_log s1) @ out"
        "drop k fs @ arrivals ops = out @ rest" "ring_bytes b s' = concat (map frame rest)" "drain_ok d b s'" by blast
      have "fs @ arrivals ops = (take k fs @ out) @ rest" using o(2) by (metis append.assoc append_take_drop_id)
      then show ?thesis using o s1(3) Drain by (intro exI [of _ "take k fs @ out"] exI [of _ rest]) simp
    qed
    with run show ?thesis by blast
  qed
qed

section \<open>Properties\<close>

text \<open>An example: one device, a ring of 16 bytes that may grow to 64, pools that are never noticed and a
  stack that takes every packet.\<close>

definition quiet_env :: eth_env where
  "quiet_env = \<lparr>en_schedule = (\<lambda>l. False), en_control = (\<lambda>l. (False, [])), en_descriptor = (\<lambda>l. (False, [])),
     en_config_len = (\<lambda>l. 0), en_string = (\<lambda>l. (False, [])), en_failed = (\<lambda>l. False), en_flag = (\<lambda>l. False),
     en_endpoint = (\<lambda>l. 1), en_data = (\<lambda>l. None), en_number = (\<lambda>l. 0), en_malloc = (\<lambda>l. True), en_stack = (\<lambda>l. replicate 256 nul),
     en_pools = (\<lambda>l \<sigma>. \<sigma>), en_input = (\<lambda>l p pb \<sigma>. (ERR_OK, pb, \<sigma>))\<rparr>"

definition example_device :: eth_device where
  "example_device = (no_device 7)\<lparr>ed_type := USB_ECM_SUBCLASS, rx_ring := Some 0, rx_endpoint := 1, rx_cb := Some Ecm_receive,
     if_name := ''en''\<rparr>"

definition example_eth :: "nat \<Rightarrow> eth_state" where
  "example_eth budget = \<lparr>ifnums_used = 1, eth_disabled_with_error = False, g_rx_throttle = MEM_PRESSURE_NONE, g_hook_registered = True,
     g_drain_scheduled = True, g_drain_interval = 5, int_retries = 0, default_netif_set = False, tx_retries = 0, ecm_rx_retries = 0,
     ncm_rx_retries = 0, eth_devs = [0 \<mapsto> example_device], eth_next = 1, netif_list = [0], netif_default = None,
     eth_mem = (mem_buffer_set_drain (Some 0) True (mem_buffer_set_owner (Some 0) MEM_BUF_OWNER_ETH_RX
       (example_ring budget 16 64)))\<lparr>g_hook_eth := True\<rparr>,
     eth_pbufs = no_pbufs, eth_log = [], eth_env = quiet_env\<rparr>"

lemma example_eth_ok:
  assumes "76 \<le> budget" and "budget < 2 ^ 24"
  shows "drain_ok 0 0 (example_eth budget)" and "ring_bytes 0 (example_eth budget) = []"
proof -
  have "ring_good 0 (example_eth budget)"
    using assms by (simp add: ring_good_def example_eth_def ring_inv_def ring_ok_def alloc_ok_def example_ring_defs
        mem_buffer_set_drain_def mem_buffer_set_owner_def)
  then show "drain_ok 0 0 (example_eth budget)"
    using no_pbufs_ok by (simp add: drain_ok_def example_eth_def example_device_def stack_ok_def quiet_env_def)
  show "ring_bytes 0 (example_eth budget) = []"
    using assms by (simp add: ring_bytes_def example_eth_def ring_of_def example_ring_defs mem_buffer_set_drain_def mem_buffer_set_owner_def)
qed

text \<open>C5. Frames pass through the receive ring and the drain in order, complete and unchanged: in any run
  of arrivals and drains in which no frame is refused, the packets handed to lwIP followed by the
  frames still in the ring are the frames that were in the ring followed by those that arrived. This
  holds whatever the ring and the packet allocator do and however frames are cut into packet buffers.\<close>

theorem frames_in_order:
  assumes "drain_ok d b s" and "ring_bytes b s = concat (map frame fs)" and "list_all frame_sized fs"
    and "list_all frame_sized (arrivals ops)"
  shows "\<exists>ok s'. run_rx d b ops s = Some (ok, s') \<and> (ok \<longrightarrow> (\<exists>out rest. inputs (eth_log s') = inputs (eth_log s) @ out \<and>
    fs @ arrivals ops = out @ rest \<and> ring_bytes b s' = concat (map frame rest) \<and> drain_ok d b s'))"
  by (rule run_rx_frames [OF assms])

theorem frames_in_order_witness:
  "drain_ok 0 0 (example_eth 4096) \<and>
   (\<exists>ok s'. run_rx 0 0 [Arrive ''abc'', Arrive ''defgh'', Drain 1, Arrive ''i'', Drain 8] (example_eth 4096) = Some (ok, s') \<and>
    (ok \<longrightarrow> (\<exists>out rest. inputs (eth_log s') = inputs (eth_log (example_eth 4096)) @ out \<and>
     [''abc'', ''defgh'', ''i''] = out @ rest \<and> ring_bytes 0 s' = concat (map frame rest) \<and> drain_ok 0 0 s')))"
  using frames_in_order [of 0 0 "example_eth 4096" "[]" "[Arrive ''abc'', Arrive ''defgh'', Drain 1, Arrive ''i'', Drain 8]"]
    example_eth_ok [of 4096] by (simp add: frame_sized_def)

end
