(* ===== verification/Mem_Pressure.thy ===== *)
theory Mem_Pressure
  imports Mem_Ring
begin

text \<open>
  Memory pressure: the throttle hook of the Ethernet driver is told every change of the effective
  pressure level and nothing else, a ring that refuses bytes has reported critical pressure, and
  taking bytes out of it takes the critical pressure back.
\<close>

section \<open>The hook follows the effective level\<close>

text \<open>The level the hook has been told last.\<close>

fun told :: "mem_event \<Rightarrow> mem_pressure_level \<Rightarrow> mem_pressure_level" where
  "told (Ev_eth_throttle level) _ = level"
| "told _ level = level"

definition follows :: "mem_state \<Rightarrow> mem_state \<Rightarrow> bool" where
  "follows \<sigma> \<sigma>' \<longleftrightarrow> g_hook_eth \<sigma>' = g_hook_eth \<sigma> \<and> (\<exists>l. g_log \<sigma>' = g_log \<sigma> @ l \<and>
     (g_hook_eth \<sigma> \<longrightarrow> fold told l (g_eth_eff \<sigma>) = g_eth_eff \<sigma>'))"

lemma follows_refl [simp]: "follows \<sigma> \<sigma>"
  by (simp add: follows_def)

lemma follows_trans [trans]: "follows \<sigma> \<sigma>' \<Longrightarrow> follows \<sigma>' \<sigma>'' \<Longrightarrow> follows \<sigma> \<sigma>''"
  by (auto simp: follows_def)

named_theorems follows_intro \<open>operations that keep the hook informed\<close>

lemma follows_log [follows_intro]: "(\<And>t. e \<noteq> Ev_eth_throttle t) \<Longrightarrow> follows \<sigma> (mem_log e \<sigma>)"
  by (cases e) (auto simp: follows_def mem_log_def)

lemma follows_same:
  assumes "g_log \<sigma>' = g_log \<sigma>" and "g_hook_eth \<sigma>' = g_hook_eth \<sigma>" and "g_eth_eff \<sigma>' = g_eth_eff \<sigma>"
  shows "follows \<sigma> \<sigma>'"
  using assms by (simp add: follows_def)

lemma follows_small [follows_intro]:
  "follows \<sigma> (buf_upd b f \<sigma>)" "follows \<sigma> (mem_buffer_release n \<sigma>)" "follows \<sigma> (refund n \<sigma>)"
  "follows \<sigma> (snd (mem_buffer_charge n \<sigma>))" "follows \<sigma> (snd (call_malloc n \<sigma>))" "follows \<sigma> (snd (call_realloc a n \<sigma>))"
  by (auto simp: buf_upd_def mem_buffer_release_def refund_def mem_buffer_charge_def call_malloc_def call_realloc_def
      intro!: follows_same follows_log)

lemma follows_update_effective [follows_intro]: "follows \<sigma> (mem_pressure_update_effective \<sigma>)"
  by (auto simp: mem_pressure_update_effective_def follows_def mem_log_def Let_def)

lemma follows_after:
  assumes "g_log \<sigma>1 = g_log \<sigma>" and "g_hook_eth \<sigma>1 = g_hook_eth \<sigma>" and "g_eth_eff \<sigma>1 = g_eth_eff \<sigma>" and "follows \<sigma>1 \<sigma>'"
  shows "follows \<sigma> \<sigma>'"
  using follows_trans [OF follows_same assms(4)] assms(1-3) by simp

lemma follows_mark [follows_intro]: "follows \<sigma> (mem_pressure_mark b level \<sigma>)"
  by (auto simp: mem_pressure_mark_def intro!: follows_after [OF _ _ _ follows_update_effective] split: mem_buffer_owner.split)

lemma follows_notify_lowmem [follows_intro]: "follows \<sigma> (mem_buffer_notify_lowmem b n level \<sigma>)"
  unfolding mem_buffer_notify_lowmem_def Let_def
  by (auto intro: follows_intro follows_trans [OF follows_mark] follows_trans [OF follows_trans [OF follows_mark follows_small(1)]]
      follows_trans [OF follows_trans [OF follows_trans [OF follows_mark follows_small(1)] follows_log]])

lemma follows_maybe_clear [follows_intro]: "follows \<sigma> (mem_pressure_maybe_clear b \<sigma>)"
proof -
  have upd: "follows \<sigma> (mem_pressure_update_effective \<sigma>1)"
    if "g_log \<sigma>1 = g_log \<sigma>" "g_hook_eth \<sigma>1 = g_hook_eth \<sigma>" "g_eth_eff \<sigma>1 = g_eth_eff \<sigma>" for \<sigma>1
    using follows_after [OF that follows_update_effective] .
  show ?thesis unfolding mem_pressure_maybe_clear_def Let_def
    by (auto simp: buf_upd_def intro!: upd intro: follows_same split: mem_buffer_owner.split)
qed

lemma follows_resized [follows_intro]: "follows \<sigma> (resized b addr new c shrink \<sigma>)"
  by (auto simp: resized_def Let_def intro: follows_small follows_trans [OF follows_small(1) follows_small(2)])

lemma follows_notify_usage [follows_intro]: "follows \<sigma> (notify_usage b n \<sigma>)"
  by (simp add: notify_usage_def Let_def follows_notify_lowmem)

lemma follows_resize_in_place:
  assumes "resize_in_place b c \<sigma> = Some (ok, \<sigma>')"
  shows "follows \<sigma> \<sigma>'"
proof -
  let ?re = "\<lambda>old. snd (call_realloc (mb_addr (g_bufs \<sigma> b)) c (buf_upd b (\<lambda>m. m\<lparr>mb_buf := old\<rparr>) \<sigma>))"
  have f: "follows \<sigma> (?re old)" for old by (rule follows_trans [OF follows_small(1) follows_small(6)])
  show ?thesis
    using assms by (auto simp: resize_in_place_def Let_def bind_eq_Some_conv case_prod_beta split: option.splits
      intro: follows_trans [OF f follows_resized] follows_trans [OF follows_trans [OF f follows_notify_lowmem] follows_small(3)])
qed

lemma follows_resize_by_copy:
  assumes "resize_by_copy b c \<sigma> = Some (ok, \<sigma>')"
  shows "follows \<sigma> \<sigma>'"
proof -
  obtain r \<sigma>1 where \<sigma>1: "call_malloc c \<sigma> = (r, \<sigma>1)" by fastforce
  have "follows \<sigma> \<sigma>1" using follows_small(5) [of \<sigma> c] \<sigma>1 by simp
  also have "follows \<sigma>1 \<sigma>'"
    using assms \<sigma>1 follows_small(3) follows_trans [OF follows_log follows_resized]
    by (auto simp: resize_by_copy_def Let_def bind_eq_Some_conv split: option.splits)
  finally show ?thesis .
qed

lemma follows_resize:
  assumes "mem_buffer_resize b c \<sigma> = Some (ok, \<sigma>')"
  shows "follows \<sigma> \<sigma>'"
proof -
  obtain ch \<sigma>1 where \<sigma>1: "(if 0 < c - mb_cap (g_bufs \<sigma> b) then mem_buffer_charge (c - mb_cap (g_bufs \<sigma> b)) \<sigma> else (True, \<sigma>)) = (ch, \<sigma>1)"
    by fastforce
  then have f: "follows \<sigma> \<sigma>1" using follows_small(4) by (metis follows_refl snd_conv)
  show ?thesis
  proof (cases "\<sigma>' = \<sigma>")
    case False
    then have "\<sigma>' = \<sigma>1 \<or> resize_in_place b c \<sigma>1 = Some (ok, \<sigma>') \<or> resize_by_copy b c \<sigma>1 = Some (ok, \<sigma>')"
      using assms \<sigma>1 unfolding mem_buffer_resize_def Let_def by (auto split: if_splits)
    then show ?thesis using f follows_trans follows_resize_in_place follows_resize_by_copy by blast
  qed simp
qed

lemma follows_maybe_grow:
  assumes "mem_buffer_maybe_grow b n \<sigma> = Some (ok, \<sigma>')"
  shows "follows \<sigma> \<sigma>'"
proof -
  define \<sigma>1 where "\<sigma>1 = notify_usage b (wrap (u_0 (g_bufs \<sigma> b) + n)) \<sigma>"
  have f: "follows \<sigma> \<sigma>1" by (simp add: \<sigma>1_def follows_notify_usage)
  let ?crit = "mem_buffer_notify_lowmem b (wrap (u_0 (g_bufs \<sigma> b) + n)) MEM_PRESSURE_CRITICAL"
  have "\<sigma>' = \<sigma>1 \<or> \<sigma>' = ?crit \<sigma>1 \<or> (\<exists>t ok' \<sigma>2. mem_buffer_resize b t \<sigma>1 = Some (ok', \<sigma>2) \<and> (\<sigma>' = \<sigma>2 \<or> \<sigma>' = ?crit \<sigma>2))"
    using assms unfolding mem_buffer_maybe_grow_def Let_def \<sigma>1_def [symmetric]
    by (auto simp: bind_eq_Some_conv split: if_splits)
  then show ?thesis
    by (auto intro: f follows_trans [OF f follows_notify_lowmem] follows_trans [OF f follows_resize]
        follows_trans [OF follows_trans [OF f follows_resize] follows_notify_lowmem])
qed

lemma follows_reserve: "mem_buffer_reserve (Some b) n \<sigma> = Some (ok, \<sigma>') \<Longrightarrow> follows \<sigma> \<sigma>'"
  using follows_maybe_grow by (auto simp: mem_buffer_reserve_def split: if_splits)

lemma follows_push: "mem_buffer_push (Some b) d \<sigma> = Some (ok, \<sigma>') \<Longrightarrow> follows \<sigma> \<sigma>'"
  using follows_maybe_grow follows_trans [OF follows_maybe_grow follows_small(1)]
  by (fastforce simp: mem_buffer_push_def Let_def bind_eq_Some_conv split: if_splits)

lemma follows_maybe_shrink:
  assumes "mem_buffer_maybe_shrink b w \<sigma> = Some \<sigma>'"
  shows "follows \<sigma> \<sigma>'"
  using assms by (auto simp: mem_buffer_maybe_shrink_def Let_def bind_eq_Some_conv split: if_splits
    intro: follows_small(1) follows_trans [OF follows_trans [OF follows_small(1) follows_resize] follows_small(1)])

lemma follows_pop:
  assumes "mem_buffer_pop (Some b) n \<sigma> = Some (out, \<sigma>')"
  shows "follows \<sigma> \<sigma>'"
  using assms by (auto simp: mem_buffer_pop_def Let_def bind_eq_Some_conv split: if_splits
    intro: follows_trans [OF follows_trans [OF follows_small(1) follows_maybe_shrink] follows_maybe_clear])

section \<open>Critical pressure\<close>

text \<open>The receive ring \<open>b\<close> has reported critical pressure, and the hook has been told.\<close>

definition critical :: "nat \<Rightarrow> mem_state \<Rightarrow> bool" where
  "critical b \<sigma> \<longleftrightarrow> mb_last_level (g_bufs \<sigma> b) = MEM_PRESSURE_CRITICAL \<and> g_eth_active \<sigma> \<and>
     g_eth_level \<sigma> = MEM_PRESSURE_CRITICAL \<and> g_eth_eff \<sigma> = MEM_PRESSURE_CRITICAL"

text \<open>What the pressure of the receive ring does not depend on: the pools, the limit for relief.\<close>

definition calm :: "mem_state \<Rightarrow> bool" where
  "calm \<sigma> \<longleftrightarrow> \<not> (g_glob_active \<sigma> \<and> g_glob_level \<sigma> = MEM_PRESSURE_CRITICAL) \<and> g_clear_pct \<sigma> \<le> 100 \<and> g_hook_eth \<sigma>"

text \<open>A receive ring of the driver: its owner, and that it has a drain function.\<close>

definition rx_owner :: "nat \<Rightarrow> mem_state \<Rightarrow> bool" where
  "rx_owner b \<sigma> \<longleftrightarrow> mb_owner (g_bufs \<sigma> b) = MEM_BUF_OWNER_ETH_RX \<and> mb_drain (g_bufs \<sigma> b)"

definition keeps :: "nat \<Rightarrow> mem_state \<Rightarrow> mem_state \<Rightarrow> bool" where
  "keeps b \<sigma> \<sigma>' \<longleftrightarrow> (rx_owner b \<sigma> \<longrightarrow> rx_owner b \<sigma>' \<and> calm \<sigma>' = calm \<sigma>)"

definition keeps_critical :: "nat \<Rightarrow> mem_state \<Rightarrow> mem_state \<Rightarrow> bool" where
  "keeps_critical b \<sigma> \<sigma>' \<longleftrightarrow> keeps b \<sigma> \<sigma>' \<and> (rx_owner b \<sigma> \<and> critical b \<sigma> \<longrightarrow> critical b \<sigma>')"

lemma keeps_trans: "keeps b \<sigma> \<sigma>' \<Longrightarrow> keeps b \<sigma>' \<sigma>'' \<Longrightarrow> keeps b \<sigma> \<sigma>''"
  by (simp add: keeps_def)

lemma keeps_critical_trans: "keeps_critical b \<sigma> \<sigma>' \<Longrightarrow> keeps_critical b \<sigma>' \<sigma>'' \<Longrightarrow> keeps_critical b \<sigma> \<sigma>''"
  by (auto simp: keeps_critical_def keeps_def)

lemma level_max: "level \<le> MEM_PRESSURE_CRITICAL" "max level MEM_PRESSURE_CRITICAL = MEM_PRESSURE_CRITICAL"
  "max MEM_PRESSURE_CRITICAL level = MEM_PRESSURE_CRITICAL" "\<not> MEM_PRESSURE_CRITICAL < level"
  by (cases level; simp add: max_def less_eq_mem_pressure_level_def less_mem_pressure_level_def)+

lemma level_less_critical: "level < MEM_PRESSURE_CRITICAL \<longleftrightarrow> level \<noteq> MEM_PRESSURE_CRITICAL"
  by (cases level) (simp_all add: less_mem_pressure_level_def)

text \<open>Whatever pressure a ring reports, its owner and the pools' pressure stay as they are. A report of
  critical pressure makes it critical.\<close>

lemma keeps_update_effective: "keeps b \<sigma> (mem_pressure_update_effective \<sigma>)"
  by (simp add: keeps_def rx_owner_def calm_def mem_pressure_update_effective_def mem_log_def Let_def)

lemma keeps_notify_lowmem: "keeps b \<sigma> (mem_buffer_notify_lowmem b n level \<sigma>)"
  by (simp add: keeps_def rx_owner_def calm_def mem_buffer_notify_lowmem_def mem_pressure_mark_def mem_pressure_update_effective_def
      mem_log_def buf_upd_def Let_def)

lemma notify_critical:
  assumes "rx_owner b \<sigma>"
  shows "critical b (mem_buffer_notify_lowmem b n MEM_PRESSURE_CRITICAL \<sigma>)"
  using assms
  by (simp add: critical_def rx_owner_def mem_buffer_notify_lowmem_def mem_pressure_mark_def mem_pressure_update_effective_def
      mem_log_def buf_upd_def level_max level_less_critical Let_def)

lemma keeps_critical_notify: "keeps_critical b \<sigma> (mem_buffer_notify_lowmem b n MEM_PRESSURE_CRITICAL \<sigma>)"
  by (simp add: keeps_critical_def keeps_notify_lowmem notify_critical)

lemma keeps_critical_small:
  "keeps_critical b \<sigma> \<sigma>"
  "keeps_critical b \<sigma> (buf_upd b (\<lambda>m. m\<lparr>mb_buf := x\<rparr>) \<sigma>)" "keeps_critical b \<sigma> (refund n \<sigma>)"
  "keeps_critical b \<sigma> (snd (mem_buffer_charge n \<sigma>))" "keeps_critical b \<sigma> (snd (call_malloc n \<sigma>))"
  "keeps_critical b \<sigma> (snd (call_realloc a n \<sigma>))" "keeps_critical b \<sigma> (resized b a x c k \<sigma>)" "keeps_critical b \<sigma> (mem_log e \<sigma>)"
  "keeps_critical b \<sigma> (buf_upd b next_stage \<sigma>)" "keeps_critical b \<sigma> (buf_upd b reset_shrink \<sigma>)"
  "keeps_critical b \<sigma> (buf_upd b (\<lambda>m. m\<lparr>mb_hits := n\<rparr>) \<sigma>)"
  "keeps_critical b \<sigma> (buf_upd b (\<lambda>m. m\<lparr>mb_buf := x, u_1 := n, u_0 := k\<rparr>) \<sigma>)"
  by (simp_all add: keeps_critical_def keeps_def critical_def calm_def rx_owner_def buf_upd_def refund_def mem_buffer_release_def
      mem_buffer_charge_def call_malloc_def call_realloc_def resized_def next_stage_def reset_shrink_def mem_log_def Let_def)

lemma keeps_critical_resize:
  assumes "mem_buffer_resize b c \<sigma> = Some (ok, \<sigma>')"
  shows "keeps_critical b \<sigma> \<sigma>'"
proof -
  have place: "keeps_critical b \<sigma> \<sigma>'" if "resize_in_place b c \<sigma> = Some (ok, \<sigma>')" for \<sigma> \<sigma>'
  proof -
    let ?re = "\<lambda>old. snd (call_realloc (mb_addr (g_bufs \<sigma> b)) c (buf_upd b (\<lambda>m. m\<lparr>mb_buf := old\<rparr>) \<sigma>))"
    have f: "keeps_critical b \<sigma> (?re old)" for old
      by (rule keeps_critical_trans [OF keeps_critical_small(2) keeps_critical_small(6)])
    show ?thesis using that
      by (auto simp: resize_in_place_def Let_def bind_eq_Some_conv case_prod_beta split: option.splits
          intro: keeps_critical_trans [OF f keeps_critical_small(7)]
            keeps_critical_trans [OF keeps_critical_trans [OF f keeps_critical_notify] keeps_critical_small(3)])
  qed
  have copy: "keeps_critical b \<sigma> \<sigma>'" if "resize_by_copy b c \<sigma> = Some (ok, \<sigma>')" for \<sigma> \<sigma>'
    using that by (auto simp: resize_by_copy_def Let_def bind_eq_Some_conv case_prod_beta split: option.splits
      intro: keeps_critical_trans [OF keeps_critical_small(5) keeps_critical_small(3)]
        keeps_critical_trans [OF keeps_critical_trans [OF keeps_critical_small(5) keeps_critical_small(8)] keeps_critical_small(7)])
  show ?thesis using assms
    by (auto simp: mem_buffer_resize_def Let_def case_prod_beta split: if_splits
        intro: place copy keeps_critical_small(1,4) keeps_critical_trans [OF keeps_critical_small(4) place]
          keeps_critical_trans [OF keeps_critical_small(4) copy])
qed

lemma keeps_critical_shrink:
  assumes "mem_buffer_maybe_shrink b w \<sigma> = Some \<sigma>'"
  shows "keeps_critical b \<sigma> \<sigma>'"
  using assms by (auto simp: mem_buffer_maybe_shrink_def Let_def bind_eq_Some_conv split: if_splits
    intro: keeps_critical_small keeps_critical_trans [OF keeps_critical_trans [OF keeps_critical_small(11) keeps_critical_resize] keeps_critical_small(9)])

text \<open>A ring that cannot take what is offered ends up critical.\<close>

lemma grow_refused:
  assumes "mem_buffer_maybe_grow b n \<sigma> = Some (ok, \<sigma>')" and "rx_owner b \<sigma>"
  shows "keeps b \<sigma> \<sigma>'" and "\<not> ok \<Longrightarrow> critical b \<sigma>'"
proof -
  define m where "m = wrap (u_0 (g_bufs \<sigma> b) + n)"
  define \<sigma>1 where "\<sigma>1 = notify_usage b m \<sigma>"
  have k: "keeps b \<sigma> \<sigma>1" using keeps_notify_lowmem by (auto simp: \<sigma>1_def notify_usage_def Let_def keeps_def)
  let ?crit = "mem_buffer_notify_lowmem b m MEM_PRESSURE_CRITICAL"
  have shape: "(if ok then \<sigma>' = \<sigma>1 else \<sigma>' = ?crit \<sigma>1) \<or>
      (\<exists>t \<sigma>2. mem_buffer_resize b t \<sigma>1 = Some (ok, \<sigma>2) \<and> \<sigma>' = (if ok then \<sigma>2 else ?crit \<sigma>2))"
    using assms(1) unfolding mem_buffer_maybe_grow_def Let_def m_def [symmetric] \<sigma>1_def [symmetric]
    by (auto simp: bind_eq_Some_conv split: if_splits)
  have r: "keeps b \<sigma> \<sigma>2" if "mem_buffer_resize b t \<sigma>1 = Some (ok, \<sigma>2)" for t \<sigma>2
    using keeps_critical_resize [OF that] keeps_trans [OF k] by (simp add: keeps_critical_def)
  from shape show "keeps b \<sigma> \<sigma>'"
    using k r keeps_trans [OF k keeps_notify_lowmem] keeps_trans [OF r keeps_notify_lowmem] by (auto split: if_splits)
  assume "\<not> ok"
  with shape show "critical b \<sigma>'"
    using k r assms(2) notify_critical unfolding keeps_def by auto
qed

section \<open>Relief\<close>

text \<open>Critical pressure goes back one step at a time.\<close>

lemma relief_critical: "mem_pressure_level_relief MEM_PRESSURE_CRITICAL pct = MEM_PRESSURE_HIGH"
  by (simp add: mem_pressure_level_relief_def mem_pressure_level_from_usage_def less_mem_pressure_level_def Let_def)

definition no_throttle :: "mem_event list \<Rightarrow> bool" where
  "no_throttle l \<longleftrightarrow> (\<forall>e \<in> set l. \<forall>t. e \<noteq> Ev_eth_throttle t)"

lemma clear_critical:
  assumes "rx_owner b \<sigma>" and "critical b \<sigma>" and "calm \<sigma>"
  obtains t l where "t \<noteq> MEM_PRESSURE_CRITICAL" and "g_log (mem_pressure_maybe_clear b \<sigma>) = g_log \<sigma> @ Ev_eth_throttle t # l"
    and "no_throttle l"
proof -
  define \<sigma>1 where "\<sigma>1 = (buf_upd b (\<lambda>m. m\<lparr>mb_last_level := MEM_PRESSURE_HIGH\<rparr>) \<sigma>)\<lparr>g_eth_active := True, g_eth_level := MEM_PRESSURE_HIGH\<rparr>"
  have "mem_pressure_maybe_clear b \<sigma> = mem_pressure_update_effective \<sigma>1"
    using assms by (simp add: mem_pressure_maybe_clear_def \<sigma>1_def calm_def rx_owner_def critical_def relief_critical Let_def)
  moreover define t where "t = (if g_glob_active \<sigma> \<and> MEM_PRESSURE_HIGH \<le> g_glob_level \<sigma> then g_glob_level \<sigma> else MEM_PRESSURE_HIGH)"
  have t: "t \<noteq> MEM_PRESSURE_CRITICAL" using assms(3) by (auto simp: t_def calm_def)
  moreover have "\<exists>l. g_log (mem_pressure_update_effective \<sigma>1) = g_log \<sigma> @ Ev_eth_throttle t # l \<and> no_throttle l"
    using assms t by (auto simp: mem_pressure_update_effective_def \<sigma>1_def t_def mem_log_def buf_upd_def critical_def calm_def
        no_throttle_def Let_def not_le)
  ultimately show thesis using that by metis
qed

text \<open>The first bytes taken out of a critical ring make the hook leave the critical level.\<close>

lemma pop_critical:
  assumes pop: "mem_buffer_pop (Some b) n \<sigma> = Some (out, \<sigma>')" "\<sigma>' \<noteq> \<sigma>" and "rx_owner b \<sigma>" "critical b \<sigma>" "calm \<sigma>"
  obtains l t l' where "g_log \<sigma>' = g_log \<sigma> @ l @ Ev_eth_throttle t # l'" and "fold told l MEM_PRESSURE_CRITICAL = MEM_PRESSURE_CRITICAL"
    and "t \<noteq> MEM_PRESSURE_CRITICAL" and "no_throttle l'"
proof -
  obtain x i k w \<sigma>2 where \<sigma>2: "mem_buffer_maybe_shrink b w (buf_upd b (\<lambda>m. m\<lparr>mb_buf := x, u_1 := i, u_0 := k\<rparr>) \<sigma>) = Some \<sigma>2"
    "\<sigma>' = mem_pressure_maybe_clear b \<sigma>2"
    using pop by (auto simp: mem_buffer_pop_def Let_def bind_eq_Some_conv split: if_splits)
  have "keeps_critical b \<sigma> \<sigma>2" using keeps_critical_trans [OF keeps_critical_small(12) keeps_critical_shrink [OF \<sigma>2(1)]] .
  then have "rx_owner b \<sigma>2" "critical b \<sigma>2" "calm \<sigma>2" using assms(3-5) by (auto simp: keeps_critical_def keeps_def)
  then obtain t l' where t: "t \<noteq> MEM_PRESSURE_CRITICAL" "g_log \<sigma>' = g_log \<sigma>2 @ Ev_eth_throttle t # l'" "no_throttle l'"
    using clear_critical \<sigma>2(2) by metis
  have "follows \<sigma> \<sigma>2" using follows_trans [OF follows_small(1) follows_maybe_shrink [OF \<sigma>2(1)]] .
  then obtain l where l: "g_log \<sigma>2 = g_log \<sigma> @ l" "fold told l (g_eth_eff \<sigma>) = g_eth_eff \<sigma>2"
    using assms(5) by (auto simp: follows_def calm_def)
  show thesis
    by (rule that [of l t l']) (use l t \<open>critical b \<sigma>2\<close> assms(4) in \<open>simp_all add: critical_def\<close>)
qed

end
