(* ===== verification/Usb_Eth_Throttle.thy ===== *)
theory Usb_Eth_Throttle
  imports Usb_Eth_Rx Mem_Pressure
begin

text \<open>
  Throttling: the level the driver works with is the effective pressure level of the buffer manager,
  and a frame that was refused does not stop the reception for good as long as there is a frame in
  the ring to drain; if there is none, it does.
\<close>

section \<open>The driver's level\<close>

definition in_sync :: "eth_state \<Rightarrow> bool" where
  "in_sync s \<longleftrightarrow> g_rx_throttle s = g_eth_eff (eth_mem s)"

lemma restart_rx_throttle: "g_rx_throttle (restart_rx d s) = g_rx_throttle s"
  by (simp add: restart_rx_def schedule_in_def eth_call_def put_dev_def Let_def split: option.split)

lemma fold_restart_throttle: "g_rx_throttle (fold restart_rx ds s) = g_rx_throttle s"
  by (induction ds arbitrary: s) (simp_all add: restart_rx_throttle)

lemma run_hook_throttle: "g_rx_throttle (run_hook e s) = told e (g_rx_throttle s)"
  by (cases e) (simp_all add: eth_set_rx_throttle_def fold_restart_throttle Let_def)

lemma fold_hook_throttle: "g_rx_throttle (fold run_hook l s) = fold told l (g_rx_throttle s)"
  by (induction l arbitrary: s) (simp_all add: run_hook_throttle)

lemma set_mem_throttle:
  "g_rx_throttle (set_mem \<sigma> s) = fold told (drop (length (g_log (eth_mem s))) (g_log \<sigma>)) (g_rx_throttle s)"
  by (simp add: set_mem_def fold_hook_throttle)

lemma set_mem_in_sync:
  assumes "in_sync s" and "follows (eth_mem s) \<sigma>" and "g_hook_eth (eth_mem s)"
  shows "in_sync (set_mem \<sigma> s)"
  using assms by (auto simp: in_sync_def set_mem_throttle follows_def)

section \<open>Active receive transfers\<close>

definition active :: "nat \<Rightarrow> eth_state \<Rightarrow> bool" where
  "active d s \<longleftrightarrow> (case eth_devs s d of None \<Rightarrow> False | Some v \<Rightarrow> rx_transfer_active v)"

text \<open>A device the hook can start, over a USB library that does not refuse.\<close>

definition startable :: "nat \<Rightarrow> eth_state \<Rightarrow> bool" where
  "startable d s \<longleftrightarrow> (\<forall>l. \<not> en_schedule (eth_env s) l) \<and>
     (case eth_devs s d of None \<Rightarrow> False | Some v \<Rightarrow> is_en v \<and> rx_cb v \<noteq> None)"

lemma restart_active: "active d s \<Longrightarrow> active d (restart_rx d' s)"
  by (auto simp: active_def restart_rx_def schedule_in_def eth_call_def put_dev_def Let_def split: option.splits)

lemma restart_startable: "startable d s \<Longrightarrow> startable d (restart_rx d' s)"
  by (auto simp: startable_def restart_rx_def schedule_in_def eth_call_def put_dev_def is_en_def Let_def split: option.splits)

lemma restart_starts: "startable d s \<Longrightarrow> active d (restart_rx d s)"
  by (auto simp: startable_def active_def restart_rx_def schedule_in_def eth_call_def put_dev_def Let_def split: option.splits)

lemma fold_restart_active: "active d s \<Longrightarrow> active d (fold restart_rx ds s)"
  by (induction ds arbitrary: s) (simp_all add: restart_active)

lemma fold_restart_startable: "startable d s \<Longrightarrow> startable d (fold restart_rx ds s)"
  by (induction ds arbitrary: s) (simp_all add: restart_startable)

lemma fold_restart_starts:
  assumes "startable d s" and "d \<in> set ds"
  shows "active d (fold restart_rx ds s)"
  using assms
proof (induction ds arbitrary: s)
  case (Cons d' ds)
  then show ?case
    by (cases "d = d'") (simp_all add: restart_starts fold_restart_active restart_startable)
qed simp

lemma hook_active: "active d s \<Longrightarrow> active d (run_hook e s)"
proof (cases e)
  case (Ev_eth_throttle t)
  assume a: "active d s"
  then have "active d (s\<lparr>g_rx_throttle := t\<rparr>)" by (simp add: active_def)
  with fold_restart_active [OF this] show ?thesis using Ev_eth_throttle by (simp add: eth_set_rx_throttle_def Let_def)
qed simp_all

lemma hook_startable: "startable d s \<Longrightarrow> startable d (run_hook e s)"
proof (cases e)
  case (Ev_eth_throttle t)
  assume a: "startable d s"
  then have "startable d (s\<lparr>g_rx_throttle := t\<rparr>)" by (simp add: startable_def)
  with fold_restart_startable [OF this] show ?thesis using Ev_eth_throttle by (simp add: eth_set_rx_throttle_def Let_def)
qed simp_all

lemma fold_hook_active: "active d s \<Longrightarrow> active d (fold run_hook l s)"
  by (induction l arbitrary: s) (simp_all add: hook_active)

lemma fold_hook_startable: "startable d s \<Longrightarrow> startable d (fold run_hook l s)"
  by (induction l arbitrary: s) (simp_all add: hook_startable)

lemma fold_hook_netifs: "netif_list (fold run_hook l s) = netif_list s"
  using rx_onlyD(4) [OF fold_rx_only [of run_hook, OF run_hook_rx_only]] .

lemma set_mem_active: "active d s \<Longrightarrow> active d (set_mem \<sigma> s)"
  unfolding set_mem_def by (rule fold_hook_active) (simp add: active_def)

lemma set_mem_startable: "startable d s \<Longrightarrow> startable d (set_mem \<sigma> s)"
  unfolding set_mem_def by (rule fold_hook_startable) (simp add: startable_def)

text \<open>Leaving the critical level starts every receive transfer that is not active.\<close>

lemma set_mem_starts:
  assumes log: "g_log \<sigma> = g_log (eth_mem s) @ l @ Ev_eth_throttle t # l'"
    and crit: "fold told l (g_rx_throttle s) = MEM_PRESSURE_CRITICAL" and d: "startable d s" "d \<in> set (netif_list s)"
  shows "active d (set_mem \<sigma> s)"
proof -
  let ?s1 = "fold run_hook l (s\<lparr>eth_mem := \<sigma>\<rparr>)"
  have "startable d (s\<lparr>eth_mem := \<sigma>\<rparr>)" using d(1) by (simp add: startable_def)
  from fold_hook_startable [OF this] have st: "startable d (?s1\<lparr>g_rx_throttle := t\<rparr>)" by (simp add: startable_def)
  have "g_rx_throttle ?s1 = MEM_PRESSURE_CRITICAL" using crit by (simp add: fold_hook_throttle)
  then have "eth_set_rx_throttle t ?s1 = fold restart_rx (netif_list s) (?s1\<lparr>g_rx_throttle := t\<rparr>)"
    using fold_hook_netifs [of l "s\<lparr>eth_mem := \<sigma>\<rparr>"] by (simp add: eth_set_rx_throttle_def Let_def)
  with fold_restart_starts [OF st d(2)] have "active d (eth_set_rx_throttle t ?s1)" by simp
  from fold_hook_active [OF this] log show ?thesis by (simp add: set_mem_def)
qed

section \<open>A drain does not stop a transfer\<close>

lemma with_mem_active: "with_mem f s = Some (r, s') \<Longrightarrow> active d s \<Longrightarrow> active d s'"
  by (auto simp: with_mem_def bind_eq_Some_conv set_mem_active)

lemma with_pbufs_active: "with_pbufs f s = Some (r, s') \<Longrightarrow> active d s \<Longrightarrow> active d s'"
  by (auto simp: with_pbufs_def bind_eq_Some_conv Let_def intro!: set_mem_active) (simp add: active_def)

lemma netif_input_active: "netif_input d' p s = Some (err, s') \<Longrightarrow> active d s \<Longrightarrow> active d s'"
  by (auto simp: netif_input_def bind_eq_Some_conv Let_def case_prod_beta intro!: set_mem_active) (simp add: active_def)

lemma fill_loop_active:
  assumes "fill_loop b q n s = Some r"
  shows "active d s \<longrightarrow> active d (snd r)"
proof (rule fill_loop.raw_induct [where P = "\<lambda>b q n s r. active d s \<longrightarrow> active d (snd r)", OF _ assms], goal_cases)
  case (1 f b q n s r)
  show ?case
  proof
    assume a: "active d s"
    show "active d (snd r)"
    proof (cases "q = None \<or> n = 0")
      case True
      with 1(2) a show ?thesis by (auto split: option.splits)
    next
      case False
      then obtain q' where q: "q = Some q'" "n \<noteq> 0" by auto
      with 1(2) obtain bq where bq: "pb_heap (eth_pbufs s) q' = Some bq" by (auto simp: bind_eq_Some_conv)
      define x where "x = (if n < p_len bq then n else p_len bq)"
      from 1(2) obtain out s1 pb where s1: "with_mem (mem_buffer_pop (Some b) x) s = Some (out, s1)"
        and f: "f b (p_next bq) (n - x) (s1\<lparr>eth_pbufs := pb\<rparr>) = Some r"
        by (auto simp: q bq Let_def bind_eq_Some_conv simp flip: x_def)
      have "active d (s1\<lparr>eth_pbufs := pb\<rparr>)" using with_mem_active [OF s1 a] by (simp add: active_def)
      then show ?thesis using 1(1) [OF f] by blast
    qed
  qed
qed

lemma drain_loop_cases:
  assumes "drain_loop b d (Suc n) m s = Some r"
  obtains "r = (m, s)"
  | len s1 where "with_pbufs (pbuf_alloc PBUF_RAW len PBUF_POOL) s = Some (None, s1)" "r = (m, s1)"
  | len p s1 h s2 where "with_pbufs (pbuf_alloc PBUF_RAW len PBUF_POOL) s = Some (Some p, s1)"
      "with_mem (mem_buffer_pop (Some b) 2) s1 = Some (h, s2)" "drain_rest b d n m len p s2 = Some r"
proof (cases "mem_buffer_len (Some b) (eth_mem s) < 2")
  case True
  with assms that(1) show ?thesis by simp
next
  case False
  with assms obtain hdr where hdr: "mem_buffer_peek (Some b) 0 2 (eth_mem s) = Some hdr" by (auto simp: bind_eq_Some_conv)
  show ?thesis
  proof (cases hdr)
    case None
    with assms False hdr that(1) show ?thesis by simp
  next
    case (Some h)
    define len where "len = code (h ! 0) * 256 + code (h ! 1)"
    have alloc: "(if mem_buffer_len (Some b) (eth_mem s) < len + 2 then Some (m, s)
        else with_pbufs (pbuf_alloc PBUF_RAW len PBUF_POOL) s \<bind> (\<lambda>(p, s). case p of None \<Rightarrow> Some (m, s)
          | Some p \<Rightarrow> with_mem (mem_buffer_pop (Some b) 2) s \<bind> (\<lambda>(h, s). drain_rest b d n m len p s))) = Some r"
      using assms unfolding drain_loop.simps(2) if_not_P [OF False] hdr Some option.case Option.bind.bind_lunit Let_def drain_rest_def len_def .
    show ?thesis
    proof (cases "mem_buffer_len (Some b) (eth_mem s) < len + 2")
      case True
      with alloc that(1) show ?thesis by simp
    next
      case no: False
      with alloc obtain p s1 where p: "with_pbufs (pbuf_alloc PBUF_RAW len PBUF_POOL) s = Some (p, s1)" by (auto simp: bind_eq_Some_conv)
      show ?thesis
      proof (cases p)
        case None
        with alloc no p that(2) show ?thesis by simp
      next
        case (Some a)
        with alloc no p that(3) show ?thesis by (auto simp: bind_eq_Some_conv)
      qed
    qed
  qed
qed

lemma drain_loop_active:
  "drain_loop b d' n m s = Some (k, s') \<Longrightarrow> active d s \<Longrightarrow> active d s'"
proof (induction n arbitrary: m s)
  case (Suc n)
  have rest: "active d s'" if "drain_rest b d' n m len p s2 = Some (k, s')" "active d s2" for len p s2
    using that by (auto simp: drain_rest_def bind_eq_Some_conv split: if_splits
      dest!: with_pbufs_active [where d = d] fill_loop_active [where d = d] netif_input_active [where d = d] dest: Suc.IH)
  from Suc.prems(1) show ?case
    by (rule drain_loop_cases) (use Suc.prems(2) rest in \<open>auto dest!: with_pbufs_active [where d = d] with_mem_active [where d = d]\<close>)
qed simp

lemma drain_rest_active:
  "drain_rest b d' n m len p s = Some (k, s') \<Longrightarrow> active d s \<Longrightarrow> active d s'"
  by (auto simp: drain_rest_def bind_eq_Some_conv split: if_splits
      dest!: with_pbufs_active [where d = d] fill_loop_active [where d = d] netif_input_active [where d = d]
      dest: drain_loop_active [where d = d])

section \<open>A refused frame\<close>

lemma with_mem_Some: "with_mem f s = Some (r, s') \<longleftrightarrow> (\<exists>\<sigma>. f (eth_mem s) = Some (r, \<sigma>) \<and> s' = set_mem \<sigma> s)"
  by (auto simp: with_mem_def bind_eq_Some_conv)

lemma reserve_refused:
  assumes "mem_buffer_reserve (Some b) n \<sigma> = Some (ok, \<sigma>')" and "rx_owner b \<sigma>" and "0 < n" and "\<not> malloc_type (mb_flags (g_bufs \<sigma> b))"
  shows "keeps b \<sigma> \<sigma>'" and "\<not> ok \<Longrightarrow> critical b \<sigma>'"
  using grow_refused [of b n \<sigma> ok \<sigma>'] assms by (auto simp: mem_buffer_reserve_def)

lemma push_refused:
  assumes "mem_buffer_push (Some b) d \<sigma> = Some (ok, \<sigma>')" and "rx_owner b \<sigma>" and "d \<noteq> []" and "\<not> malloc_type (mb_flags (g_bufs \<sigma> b))"
  shows "keeps b \<sigma> \<sigma>'" and "\<not> ok \<Longrightarrow> critical b \<sigma>'"
proof -
  have upd: "keeps b \<sigma> (buf_upd b (\<lambda>m. m\<lparr>mb_buf := x, u_0 := k\<rparr>) \<sigma>2)" if "keeps b \<sigma> \<sigma>2" for x k \<sigma>2
    using that by (auto simp: keeps_def rx_owner_def calm_def buf_upd_def)
  from assms obtain ok' \<sigma>2 where g: "mem_buffer_maybe_grow b (length d) \<sigma> = Some (ok', \<sigma>2)"
    by (auto simp: mem_buffer_push_def bind_eq_Some_conv)
  have "keeps b \<sigma> \<sigma>' \<and> (\<not> ok \<longrightarrow> critical b \<sigma>')"
    using assms g upd grow_refused [OF g assms(2)]
    by (auto simp: mem_buffer_push_def Let_def bind_eq_Some_conv split: if_splits)
  then show "keeps b \<sigma> \<sigma>'" and "\<not> ok \<Longrightarrow> critical b \<sigma>'" by blast+
qed

text \<open>What the driver knows of its reception: the level is the buffer manager's, the ring is set up, and
  no pressure from elsewhere is critical.\<close>

definition rx_ready :: "nat \<Rightarrow> nat \<Rightarrow> eth_state \<Rightarrow> bool" where
  "rx_ready d b s \<longleftrightarrow> in_sync s \<and> calm (eth_mem s) \<and> rx_owner b (eth_mem s) \<and> startable d s \<and> d \<in> set (netif_list s)"

lemma ring_good_ring: "ring_good b s \<Longrightarrow> \<not> malloc_type (mb_flags (g_bufs (eth_mem s) b))"
  by (simp add: ring_good_def ring_inv_def ring_ok_def)

lemma rx_ready_set_mem:
  assumes "rx_ready d b s" and "follows (eth_mem s) \<sigma>" and "keeps b (eth_mem s) \<sigma>"
  shows "rx_ready d b (set_mem \<sigma> s)"
proof -
  have "g_hook_eth (eth_mem s)" using assms(1) by (simp add: rx_ready_def calm_def)
  then show ?thesis
    using assms set_mem_in_sync [OF _ assms(2)] set_mem_startable by (auto simp: rx_ready_def keeps_def)
qed

lemma frame_refused:
  assumes v: "eth_devs s d = Some v" "rx_ring v = Some b" and good: "ring_good b s" and x: "frame_sized x"
    and ready: "rx_ready d b s" and refused: "eth_ring_push_frame d x s = Some (False, s1)"
  shows "rx_ready d b s1" and "critical b (eth_mem s1)"
proof -
  have n: "length x + 2 < 2 ^ 23" "length (frame_header (length x)) < 2 ^ 23" using x by (simp_all add: frame_sized_def)
  obtain o1 \<sigma>1 where s1: "mem_buffer_reserve (Some b) (length x + 2) (eth_mem s) = Some (o1, \<sigma>1)" "ring_good b (set_mem \<sigma>1 s)"
    using dq.reserve [OF good n(1)] by (auto simp: with_mem_Some)
  define t1 where "t1 = set_mem \<sigma>1 s"
  have r1: "rx_ready d b t1" "\<not> o1 \<Longrightarrow> critical b (eth_mem t1)"
    using reserve_refused [OF s1(1)] ready ring_good_ring [OF good] rx_ready_set_mem [OF ready follows_reserve [OF s1(1)]]
    by (auto simp: t1_def rx_ready_def)
  have g1: "ring_good b t1" using s1(2) by (simp add: t1_def)
  obtain o2 \<sigma>2 where s2: "mem_buffer_push (Some b) (frame_header (length x)) (eth_mem t1) = Some (o2, \<sigma>2)" "ring_good b (set_mem \<sigma>2 t1)"
    using dq.push [OF g1 n(2)] by (auto simp: with_mem_Some)
  define t2 where "t2 = set_mem \<sigma>2 t1"
  have "frame_header (length x) \<noteq> []" by (simp add: frame_header_def)
  then have r2: "rx_ready d b t2" "\<not> o2 \<Longrightarrow> critical b (eth_mem t2)"
    using push_refused [OF s2(1)] r1(1) ring_good_ring [OF g1] rx_ready_set_mem [OF r1(1) follows_push [OF s2(1)]]
    by (auto simp: t2_def rx_ready_def)
  have g2: "ring_good b t2" using s2(2) by (simp add: t2_def)
  have push: "eth_ring_push_frame d x s = (if \<not> o1 then Some (False, t1) else if \<not> o2 then Some (False, t2)
      else with_mem (mem_buffer_push (Some b) x) t2)"
    using v x s1(1) s2(1) by (simp add: eth_ring_push_frame_def with_mem_def t1_def t2_def frame_sized_def)
  have r3: "rx_ready d b s1 \<and> critical b (eth_mem s1)" if "with_mem (mem_buffer_push (Some b) x) t2 = Some (False, s1)"
  proof -
    from that obtain \<sigma>3 where s3: "mem_buffer_push (Some b) x (eth_mem t2) = Some (False, \<sigma>3)" "s1 = set_mem \<sigma>3 t2"
      by (auto simp: with_mem_Some)
    then show ?thesis
      using push_refused [OF s3(1)] r2(1) x ring_good_ring [OF g2] rx_ready_set_mem [OF r2(1) follows_push [OF s3(1)]]
      by (auto simp: rx_ready_def frame_sized_def)
  qed
  have "rx_ready d b s1 \<and> critical b (eth_mem s1)"
    using refused push r1 r2 r3 by (auto split: if_splits)
  then show "rx_ready d b s1" and "critical b (eth_mem s1)" by simp_all
qed

lemma refused_ring:
  assumes "eth_devs s d = Some v" and "rx_ring v = Some b" and "ring_good b s" and "frame_sized x"
    and "eth_ring_push_frame d x s = Some (False, s1)"
  shows "ring_good b s1" and "ring_step s s1"
    and "ring_bytes b s1 = ring_bytes b s \<or> ring_bytes b s1 = ring_bytes b s @ frame_header (length x)"
proof -
  have "0 < length x" "length x < 2 ^ 16" using assms(4) by (simp_all add: frame_sized_def)
  from push_frame_ring [OF assms(1-3) this] assms(5) show "ring_good b s1" and "ring_step s s1"
    and "ring_bytes b s1 = ring_bytes b s \<or> ring_bytes b s1 = ring_bytes b s @ frame_header (length x)" by auto
qed

text \<open>What the reception relies on of the pools: they tell the hook what they change, and do not take
  back the pressure of the ring or report critical pressure of their own.\<close>

definition quiet_pools :: "nat \<Rightarrow> eth_env \<Rightarrow> bool" where
  "quiet_pools b E \<longleftrightarrow> (\<forall>l \<sigma>. follows \<sigma> (en_pools E l \<sigma>) \<and> keeps_critical b \<sigma> (en_pools E l \<sigma>))"

lemma with_pbufs_ready:
  assumes "with_pbufs f s = Some (r, s')" and "quiet_pools b (eth_env s)" and "rx_ready d b s" and "critical b (eth_mem s)"
  shows "rx_ready d b s'" and "critical b (eth_mem s')"
proof -
  from assms(1) obtain pb where s': "s' = set_mem (en_pools (eth_env s) (eth_log s @ [Pools]) (eth_mem s)) (eth_call Pools (s\<lparr>eth_pbufs := pb\<rparr>))"
    by (auto simp: with_pbufs_def bind_eq_Some_conv Let_def)
  let ?s = "eth_call Pools (s\<lparr>eth_pbufs := pb\<rparr>)"
  have r: "rx_ready d b ?s" using assms(3) by (simp add: rx_ready_def in_sync_def startable_def eth_call_def)
  have q: "follows (eth_mem ?s) (en_pools (eth_env s) (eth_log s @ [Pools]) (eth_mem s))"
    "keeps_critical b (eth_mem s) (en_pools (eth_env s) (eth_log s @ [Pools]) (eth_mem s))"
    using assms(2) by (simp_all add: quiet_pools_def)
  from rx_ready_set_mem [OF r q(1)] q(2) show "rx_ready d b s'" by (simp add: s' keeps_critical_def)
  show "critical b (eth_mem s')" using q(2) assms(3,4) by (simp add: s' keeps_critical_def rx_ready_def)
qed

section \<open>Starting again\<close>

lemma pop_starts:
  assumes good: "ring_good b s" and ready: "rx_ready d b s" and crit: "critical b (eth_mem s)"
    and ring: "ring_bytes b s = x @ y" "x \<noteq> []" and pop: "with_mem (mem_buffer_pop (Some b) (length x)) s = Some (h, s')"
  shows "active d s'"
proof -
  from pop obtain \<sigma> where \<sigma>: "mem_buffer_pop (Some b) (length x) (eth_mem s) = Some (h, \<sigma>)" "s' = set_mem \<sigma> s"
    by (auto simp: with_mem_Some)
  have "ring_bytes b s' = y" using dq.pop_front [OF good ring(1)] pop by simp
  then have "\<sigma> \<noteq> eth_mem s" using ring \<sigma>(2) by (auto simp: ring_bytes_def)
  moreover have "rx_owner b (eth_mem s)" "calm (eth_mem s)" "g_rx_throttle s = MEM_PRESSURE_CRITICAL"
    using ready crit by (simp_all add: rx_ready_def in_sync_def critical_def)
  ultimately obtain l t l' where "g_log \<sigma> = g_log (eth_mem s) @ l @ Ev_eth_throttle t # l'"
    "fold told l (g_rx_throttle s) = MEM_PRESSURE_CRITICAL" using pop_critical [OF \<sigma>(1)] crit by metis
  from set_mem_starts [OF this] ready show ?thesis by (simp add: \<sigma>(2) rx_ready_def)
qed

lemma drain_starts:
  assumes ok: "drain_ok d b s" and ready: "rx_ready d b s" and crit: "critical b (eth_mem s)"
    and ring: "ring_bytes b s = frame x @ y" and x: "length x < 2 ^ 16"
    and env: "quiet_pools b (eth_env s)" "grants (eth_pbufs s)"
  obtains s' where "drain_loop b d 1 0 s = Some (1, s')" and "active d s'"
proof -
  obtain s' where s': "drain_loop b d (Suc 0) 0 s = Some (1, s')"
    by (rule drain_turn [OF ok ring x, of 0 0]) (use env(2) in auto)
  obtain r s1 where s1: "with_pbufs (pbuf_alloc PBUF_RAW (length x) PBUF_POOL) s = Some (r, s1)" "drain_ok d b s1"
    "ring_bytes b s1 = ring_bytes b s" "grants (eth_pbufs s) \<longrightarrow> r \<noteq> None" by (rule alloc_packet [OF ok x])
  have good: "ring_good b s" "ring_good b s1" using ok s1(2) by (simp_all add: drain_ok_def)
  from s1(4) env(2) obtain p where p: "r = Some p" by blast
  from drain_turn_start [OF good(1) ring x s1(1), of d 0 0] s' p obtain h s2 where
    s2: "with_mem (mem_buffer_pop (Some b) 2) s1 = Some (h, s2)" "drain_rest b d 0 0 (length x) p s2 = Some (1, s')"
    by (auto simp: bind_eq_Some_conv)
  have "ring_bytes b s1 = frame_header (length x) @ (x @ y)" "frame_header (length x) \<noteq> []"
    using s1(3) ring by (simp_all add: frame_def frame_header_def)
  with pop_starts [OF good(2) with_pbufs_ready [OF s1(1) env(1) ready crit]] s2(1) have "active d s2" by simp
  from drain_rest_active [OF s2(2) this] s' that show thesis by simp
qed

text \<open>The timer, with one interface.\<close>

lemma timer_starts:
  assumes "drain_ok d b s" and "rx_ready d b s" and "critical b (eth_mem s)" and "ring_bytes b s = frame x @ y"
    and "length x < 2 ^ 16" and "quiet_pools b (eth_env s)" and "grants (eth_pbufs s)" and one: "netif_list s = [d]"
  shows "\<exists>s'. eth_rx_drain_timer s = Some s' \<and> active d s'"
proof -
  obtain s' where s': "drain_loop b d 1 0 s = Some (1, s')" "active d s'" by (rule drain_starts [OF assms(1-7)])
  have "g_rx_throttle s = MEM_PRESSURE_CRITICAL" using assms(2,3) by (simp add: rx_ready_def in_sync_def critical_def)
  then have budget: "eth_drain_budget s = 1" by (simp add: eth_drain_budget_def)
  obtain v where v: "eth_devs s d = Some v" "rx_ring v = Some b" "is_en v" "mb_drain (g_bufs (eth_mem s) b)"
    using assms(1,2) by (auto simp: drain_ok_def rx_ready_def startable_def rx_owner_def split: option.splits)
  have "eth_rx_ring_drain (Some b) (Some d) 1 s = Some (1, s')" using s'(1) by (simp add: eth_rx_ring_drain_def)
  with v one budget have "eth_rx_drain_timer s = Some (eth_call (Sys_timeout (g_drain_interval s')) s')"
    by (simp add: eth_rx_drain_timer_def)
  moreover have "active d (eth_call e s')" for e using s'(2) by (simp add: active_def)
  ultimately show ?thesis by blast
qed

section \<open>Not starting again\<close>

text \<open>With no complete frame in the ring the timer does nothing to the receive transfers.\<close>

lemma drain_nothing:
  assumes "ring_good b s" and "ring_bytes b s = [] \<or> (\<exists>n. 0 < n \<and> n < 2 ^ 16 \<and> ring_bytes b s = frame_header n)"
  shows "eth_rx_ring_drain (Some b) (Some d) k s = Some (0, s)"
proof (cases k)
  case 0
  then show ?thesis by (simp add: eth_rx_ring_drain_def)
next
  case (Suc n)
  from assms(2) show ?thesis
  proof
    assume "ring_bytes b s = []"
    then show ?thesis using Suc by (simp add: eth_rx_ring_drain_def mem_buffer_len_bytes)
  next
    assume "\<exists>n. 0 < n \<and> n < 2 ^ 16 \<and> ring_bytes b s = frame_header n"
    then obtain m where m: "0 < m" "m < 2 ^ 16" "ring_bytes b s = frame_header m" by blast
    have len: "mem_buffer_len (Some b) (eth_mem s) = 2" using m(3) by (simp add: mem_buffer_len_bytes)
    have peek: "mem_buffer_peek (Some b) 0 2 (eth_mem s) = Some (Some (frame_header m))"
      using dq.peek [OF assms(1), of 0 2] m(3) by simp
    have "drain_loop b d (Suc n) 0 s = Some (0, s)"
      unfolding drain_loop.simps(2) len peek Option.bind.bind_lunit option.case Let_def frame_header_value [OF m(2)] using m(1) by simp
    then show ?thesis using Suc by (simp add: eth_rx_ring_drain_def)
  qed
qed

fun ticks :: "nat \<Rightarrow> eth_state \<Rightarrow> eth_state option" where
  "ticks 0 s = Some s"
| "ticks (Suc n) s = do { s \<leftarrow> eth_rx_drain_timer s; ticks n s }"

lemma ticks_nothing:
  assumes "ring_good b s" and "ring_bytes b s = [] \<or> (\<exists>n. 0 < n \<and> n < 2 ^ 16 \<and> ring_bytes b s = frame_header n)"
    and "netif_list s = [d]" and "map_option rx_ring (eth_devs s d) = Some (Some b)"
  shows "\<exists>l. ticks n s = Some (s\<lparr>eth_log := eth_log s @ l\<rparr>)"
  using assms
proof (induction n arbitrary: s)
  case 0
  then show ?case by (auto intro: exI [of _ "[]"])
next
  case (Suc n)
  from Suc.prems(4) obtain v where v: "eth_devs s d = Some v" "rx_ring v = Some b" by auto
  have one: "eth_rx_drain_timer s = Some (eth_call (Sys_timeout (g_drain_interval s)) s)"
    using v Suc.prems(3) drain_nothing [OF Suc.prems(1,2)] by (simp add: eth_rx_drain_timer_def)
  let ?s = "eth_call (Sys_timeout (g_drain_interval s)) s"
  from Suc.IH [of ?s] Suc.prems obtain l where "ticks n ?s = Some (?s\<lparr>eth_log := eth_log ?s @ l\<rparr>)"
    by (auto simp: ring_good_def ring_bytes_def)
  then show ?case using one by (auto simp: eth_call_def)
qed

section \<open>Properties\<close>

lemmas push_eval = eth_ring_push_frame_def with_mem_def mem_buffer_reserve_def mem_buffer_push_def mem_buffer_maybe_grow_def
  notify_usage_def mem_buffer_usage_pct_def mem_pressure_level_from_usage_def mem_buffer_notify_lowmem_def mem_pressure_mark_def
  mem_pressure_update_effective_def grow_target_def align_step_def threshold_bytes_def mem_buffer_resize_def set_mem_def
  eth_set_rx_throttle_def eth_should_schedule_rx_def mem_buffer_set_drain_def mem_buffer_set_owner_def
  less_mem_pressure_level_def less_eq_mem_pressure_level_def max_def

text \<open>A frame for which the heap budget has no room.\<close>

lemma example_refused:
  "\<exists>s1. eth_ring_push_frame 0 (replicate 40 (CHR ''x'')) (example_eth 80) = Some (False, s1) \<and> \<not> active 0 s1"
  by (simp add: example_eth_def example_ring_defs push_eval active_def example_device_def no_device_def)

text \<open>The same with a frame in the ring.\<close>

definition example_waiting :: eth_state where
  "example_waiting = (example_eth 80)\<lparr>eth_mem := buf_upd 0 (\<lambda>m. m\<lparr>mb_buf := frame ''ab'' @ replicate 12 nul, u_0 := 4\<rparr>)
     (eth_mem (example_eth 80))\<rparr>"

lemma example_waiting_refused:
  "\<exists>s1. eth_ring_push_frame 0 (replicate 40 (CHR ''x'')) example_waiting = Some (False, s1)"
  by (simp add: example_waiting_def example_eth_def example_ring_defs push_eval active_def example_device_def no_device_def)

lemma example_waiting_ring: "ring_bytes 0 example_waiting = frame ''ab''"
  by (simp add: ring_bytes_def ring_of_def example_waiting_def example_eth_def example_ring_defs frame_def frame_header_def
      mem_buffer_set_drain_def mem_buffer_set_owner_def upt_rec)

lemma example_waiting_ok: "drain_ok 0 0 example_waiting" "rx_ready 0 0 example_waiting" "netif_list example_waiting = [0]"
  "quiet_pools 0 (eth_env example_waiting)" "grants (eth_pbufs example_waiting)"
proof -
  have "ring_good 0 example_waiting"
    by (simp add: ring_good_def example_waiting_def example_eth_def ring_inv_def ring_ok_def alloc_ok_def example_ring_defs
        mem_buffer_set_drain_def mem_buffer_set_owner_def frame_def)
  then show "drain_ok 0 0 example_waiting"
    using no_pbufs_ok by (simp add: drain_ok_def example_waiting_def example_eth_def example_device_def stack_ok_def quiet_env_def)
  show "rx_ready 0 0 example_waiting"
    by (simp add: rx_ready_def in_sync_def calm_def rx_owner_def startable_def is_en_def example_waiting_def example_eth_def
        example_ring_defs mem_buffer_set_drain_def mem_buffer_set_owner_def example_device_def quiet_env_def)
  show "netif_list example_waiting = [0]" by (simp add: example_waiting_def example_eth_def)
  show "quiet_pools 0 (eth_env example_waiting)"
    by (simp add: quiet_pools_def keeps_critical_small(1) example_waiting_def example_eth_def quiet_env_def)
  show "grants (eth_pbufs example_waiting)" by (simp add: grants_def example_waiting_def example_eth_def no_pbufs_def)
qed

text \<open>C6. Reception recovers: after a frame was refused for want of memory, the next tick of the drain
  timer starts the receive transfer again, provided a frame waits in the ring, a packet can be
  allocated and the pools are not under critical pressure.\<close>

theorem rx_restarts:
  assumes "drain_ok d b s" and "rx_ready d b s" and "netif_list s = [d]" and "quiet_pools b (eth_env s)" and "grants (eth_pbufs s)"
    and "ring_bytes b s = frame y @ rest" and "length y < 2 ^ 16" and "frame_sized x"
    and "eth_ring_push_frame d x s = Some (False, s1)"
  shows "\<exists>s2. eth_rx_drain_timer s1 = Some s2 \<and> active d s2"
proof -
  from assms(1) obtain v where v: "eth_devs s d = Some v" "rx_ring v = Some b" by (auto simp: drain_ok_def)
  have good: "ring_good b s" using assms(1) by (simp add: drain_ok_def)
  note st = refused_ring [OF v good assms(8,9)]
  have ok: "drain_ok d b s1" "netif_list s1 = [d]" "quiet_pools b (eth_env s1)" "grants (eth_pbufs s1)"
    using assms(1,3-5) st(1,2) by (simp_all add: drain_ok_def ring_step_def)
  from st(3) assms(6) obtain z where "ring_bytes b s1 = frame y @ z" by auto
  from timer_starts [OF ok(1) frame_refused [OF v good assms(8,2,9)] this assms(7) ok(3,4,2)] show ?thesis .
qed

theorem rx_restarts_witness:
  "\<exists>s1 s2. eth_ring_push_frame 0 (replicate 40 (CHR ''x'')) example_waiting = Some (False, s1) \<and>
     eth_rx_drain_timer s1 = Some s2 \<and> active 0 s2"
proof -
  obtain s1 where s1: "eth_ring_push_frame 0 (replicate 40 (CHR ''x'')) example_waiting = Some (False, s1)"
    using example_waiting_refused by blast
  from rx_restarts [OF example_waiting_ok, of "''ab''" "[]", OF _ _ _ s1] s1 show ?thesis
    by (auto simp: example_waiting_ring frame_sized_def)
qed

text \<open>C39. With a single interface, reception does not recover from a frame refused on its empty ring
  when no receive transfer is outstanding. The timer finds nothing to drain: however often it runs,
  the state differs from the one after the refusal in the log of calls only, so the memory and its
  pressure stay as they were and the receive transfer is not started again. (The ring of a second
  interface could drain and take the pressure back.)\<close>

theorem rx_stalls:
  assumes "drain_ok d b s" and "netif_list s = [d]" and "ring_bytes b s = []" and "frame_sized x"
    and "eth_ring_push_frame d x s = Some (False, s1)" and "\<not> active d s1"
  shows "\<exists>l. ticks n s1 = Some (s1\<lparr>eth_log := eth_log s1 @ l\<rparr>) \<and> \<not> active d (s1\<lparr>eth_log := eth_log s1 @ l\<rparr>)"
proof -
  from assms(1) obtain v where v: "eth_devs s d = Some v" "rx_ring v = Some b" by (auto simp: drain_ok_def)
  have good: "ring_good b s" using assms(1) by (simp add: drain_ok_def)
  note st = refused_ring [OF v good assms(4,5)]
  have "ring_bytes b s1 = [] \<or> (\<exists>n. 0 < n \<and> n < 2 ^ 16 \<and> ring_bytes b s1 = frame_header n)"
    using st(3) assms(3,4) by (auto simp: frame_sized_def)
  moreover have "netif_list s1 = [d]" "map_option rx_ring (eth_devs s1 d) = Some (Some b)"
    using assms(1,2) st(2) by (simp_all add: drain_ok_def ring_step_def)
  ultimately obtain l where "ticks n s1 = Some (s1\<lparr>eth_log := eth_log s1 @ l\<rparr>)" using ticks_nothing [OF st(1)] by blast
  then show ?thesis using assms(6) by (auto simp: active_def)
qed

theorem rx_stalls_witness:
  "\<exists>s1 s2. eth_ring_push_frame 0 (replicate 40 (CHR ''x'')) (example_eth 80) = Some (False, s1) \<and>
     ticks 1000 s1 = Some s2 \<and> eth_mem s2 = eth_mem s1 \<and> \<not> active 0 s2"
proof -
  obtain s1 where s1: "eth_ring_push_frame 0 (replicate 40 (CHR ''x'')) (example_eth 80) = Some (False, s1)" "\<not> active 0 s1"
    using example_refused by blast
  have "drain_ok 0 0 (example_eth 80)" "netif_list (example_eth 80) = [0]" "ring_bytes 0 (example_eth 80) = []"
    using example_eth_ok [of 80] by (simp_all add: example_eth_def)
  from rx_stalls [OF this _ s1, of 1000] s1(1) show ?thesis by (auto simp: frame_sized_def)
qed

end
