(* ===== verification/Usb_Eth_Events.thy ===== *)
theory Usb_Eth_Events
  imports Usb_Eth_Throttle
begin

text \<open>
  The driver as a state machine: everything that can happen to it is a step, and what holds along
  all runs is shown by rule induction: the interfaces keep their numbers, and which interface is
  the default one.
\<close>

section \<open>Steps\<close>

text \<open>USB events, the call-backs of transfers, the timer, packets sent by lwIP, the USB hardware filling
  the buffers of a device, and lwIP working on packet buffers and memory.\<close>

inductive eth_step :: "eth_state \<Rightarrow> eth_state \<Rightarrow> bool" where
  event: "eth_usb_event_callback e dev s = Some (r, s') \<Longrightarrow> eth_step s s'"
| interrupt: "interrupt_receive_callback status n d s = Some (r, s') \<Longrightarrow> eth_step s s'"
| sent: "bulk_transmit_callback status x s = Some (r, s') \<Longrightarrow> eth_step s s'"
| ecm_received: "ecm_receive_callback status n d s = Some (r, s') \<Longrightarrow> eth_step s s'"
| ncm_received: "ncm_receive_callback status n d s = Some (r, s') \<Longrightarrow> eth_step s s'"
| tick: "eth_rx_drain_timer s = Some s' \<Longrightarrow> eth_step s s'"
| ecm_send: "ecm_bulk_transmit d p s = Some (err, s') \<Longrightarrow> eth_step s s'"
| ncm_send: "ncm_bulk_transmit d p s = Some (err, s') \<Longrightarrow> eth_step s s'"
| interval: "eth_step s (eth_set_rx_drain_interval_ms n s)"
| buffers: "eth_devs s d = Some v \<Longrightarrow> eth_step s (put_dev d (v\<lparr>rx_buf := x, int_buf := y\<rparr>) s)"
| stack: "eth_step s (set_mem \<sigma> (s\<lparr>eth_pbufs := pb\<rparr>))"

definition eth_power_up :: "mem_state \<Rightarrow> pbufs \<Rightarrow> eth_env \<Rightarrow> eth_state" where
  "eth_power_up \<sigma> pb E = \<lparr>ifnums_used = 0, eth_disabled_with_error = False, g_rx_throttle = MEM_PRESSURE_NONE, g_hook_registered = False,
     g_drain_scheduled = False, g_drain_interval = 5, int_retries = 0, default_netif_set = False, tx_retries = 0, ecm_rx_retries = 0,
     ncm_rx_retries = 0, eth_devs = (\<lambda>_. None), eth_next = 0, netif_list = [], netif_default = None, eth_mem = \<sigma>, eth_pbufs = pb,
     eth_log = [], eth_env = E\<rparr>"

section \<open>What most operations leave alone\<close>

text \<open>The device data the USB library holds, by the calls made.\<close>

fun is_data :: "eth_event \<Rightarrow> bool" where
  "is_data (Usb_set_data dev x) = True"
| "is_data _ = False"

fun note_data :: "eth_event \<Rightarrow> (nat \<Rightarrow> nat option) \<Rightarrow> nat \<Rightarrow> nat option" where
  "note_data (Usb_set_data dev x) f = f(dev := x)"
| "note_data _ f = f"

definition device_data :: "eth_event list \<Rightarrow> nat \<Rightarrow> nat option" where
  "device_data l = fold note_data l (\<lambda>_. None)"

lemma device_data_simps [simp]: "device_data [] = (\<lambda>_. None)" "device_data (l @ l') = fold note_data l' (device_data l)"
  by (simp_all add: device_data_def)

text \<open>The interfaces: numbers in use, list, numbers of the devices and device data.\<close>

definition ifs :: "eth_state \<Rightarrow> u8 \<times> nat list \<times> nat \<times> (nat \<Rightarrow> nat option) \<times> (nat \<Rightarrow> nat option) \<times> eth_env" where
  "ifs s = (ifnums_used s, netif_list s, eth_next s, (\<lambda>d. map_option if_num (eth_devs s d)), device_data (eth_log s), eth_env s)"

definition dflt :: "eth_state \<Rightarrow> nat option \<times> bool" where
  "dflt s = (netif_default s, default_netif_set s)"

definition view :: "eth_state \<Rightarrow> _" where
  "view s = (ifs s, dflt s)"

named_theorems view_intro

lemma view_upd [simp]:
  "view (s\<lparr>eth_mem := \<sigma>\<rparr>) = view s" "view (s\<lparr>eth_pbufs := pb\<rparr>) = view s" "view (s\<lparr>g_rx_throttle := t\<rparr>) = view s"
  "view (s\<lparr>g_hook_registered := b\<rparr>) = view s" "view (s\<lparr>g_drain_scheduled := b\<rparr>) = view s" "view (s\<lparr>g_drain_interval := n\<rparr>) = view s"
  "view (s\<lparr>int_retries := n\<rparr>) = view s" "view (s\<lparr>tx_retries := n\<rparr>) = view s" "view (s\<lparr>ecm_rx_retries := n\<rparr>) = view s"
  "view (s\<lparr>ncm_rx_retries := n\<rparr>) = view s" "view (s\<lparr>eth_disabled_with_error := b\<rparr>) = view s"
  by (simp_all add: view_def ifs_def dflt_def)

lemma view_call [simp]: "\<not> is_data e \<Longrightarrow> view (eth_call e s) = view s"
  by (cases e) (simp_all add: view_def ifs_def dflt_def eth_call_def)

lemma view_put_dev:
  "eth_devs s d = Some v \<Longrightarrow> if_num v' = if_num v \<Longrightarrow> view (put_dev d v' s) = view s"
  by (auto simp: view_def ifs_def dflt_def put_dev_def)

lemma view_upd_dev: "upd_dev d f s = Some s' \<Longrightarrow> (\<And>v. if_num (f v) = if_num v) \<Longrightarrow> view s' = view s"
  by (auto simp: upd_dev_def bind_eq_Some_conv view_put_dev)

lemma view_rx_only:
  assumes "rx_only s s'"
  shows "view s' = view s"
proof -
  from assms obtain t D l where s': "s' = s\<lparr>g_rx_throttle := t, eth_devs := D, eth_log := eth_log s @ l\<rparr>"
    and D: "same_devs (eth_devs s) D" and l: "in_transfers l" unfolding rx_only_def by blast
  have "map_option if_num (D d) = map_option if_num (eth_devs s d)" for d
  proof -
    have "map_option (\<lambda>v. v\<lparr>rx_transfer_active := False\<rparr>) (D d) = map_option (\<lambda>v. v\<lparr>rx_transfer_active := False\<rparr>) (eth_devs s d)"
      using D by (simp add: same_devs_def)
    then have "map_option (if_num \<circ> (\<lambda>v. v\<lparr>rx_transfer_active := False\<rparr>)) (D d) =
        map_option (if_num \<circ> (\<lambda>v. v\<lparr>rx_transfer_active := False\<rparr>)) (eth_devs s d)" by (metis option.map_comp)
    then show ?thesis by (simp add: comp_def)
  qed
  moreover have "fold note_data l f = f" for f
    using l by (induction l) (auto simp: in_transfers_def)
  ultimately show ?thesis by (simp add: s' view_def ifs_def dflt_def device_data_def)
qed

lemma view_set_mem [simp]: "view (set_mem \<sigma> s) = view s"
  using view_rx_only [OF set_mem_rx_only [of \<sigma> s]] by simp

lemma view_with_mem [view_intro]: "with_mem f s = Some (r, s') \<Longrightarrow> view s' = view s"
  by (auto simp: with_mem_def bind_eq_Some_conv)

lemma view_with_pbufs [view_intro]: "with_pbufs f s = Some (r, s') \<Longrightarrow> view s' = view s"
  by (auto simp: with_pbufs_def Let_def bind_eq_Some_conv)

lemma view_schedule_in [simp]: "view (snd (schedule_in ep n cb d s)) = view s"
  by (simp add: schedule_in_def Let_def)

lemma view_schedule_out [view_intro]: "schedule_out ep p n s = Some s' \<Longrightarrow> view s' = view s"
  by (auto simp: schedule_out_def bind_eq_Some_conv)

lemma view_next_rx [view_intro]: "next_rx d n s = Some s' \<Longrightarrow> view s' = view s"
  by (auto simp: next_rx_def bind_eq_Some_conv dest!: view_upd_dev)

lemma view_fatal [view_intro]: "eth_xmit_fatal_error d n s = Some (r, s') \<Longrightarrow> view s' = view s"
  by (auto simp: eth_xmit_fatal_error_def bind_eq_Some_conv split: if_splits)

lemma view_push_frame [view_intro]: "eth_ring_push_frame d x s = Some (r, s') \<Longrightarrow> view s' = view s"
  by (auto simp: eth_ring_push_frame_def bind_eq_Some_conv split: if_splits dest!: view_intro)

lemma view_netif_input [view_intro]: "netif_input d p s = Some (r, s') \<Longrightarrow> view s' = view s"
  by (auto simp: netif_input_def bind_eq_Some_conv Let_def case_prod_beta)

lemma view_fill_loop [view_intro]:
  assumes "fill_loop b q n s = Some (r, s')"
  shows "view s' = view s"
proof -
  have "view (snd x) = view s" if "fill_loop b q n s = Some x" for x
  proof (rule fill_loop.raw_induct [where P = "\<lambda>b q n s x. view (snd x) = view s", OF _ that], goal_cases)
    case (1 f b q n s x)
    from 1(2) show ?case
      by (auto simp: Let_def bind_eq_Some_conv split: option.splits if_splits dest!: 1(1) view_intro)
  qed
  from this [OF assms] show ?thesis by simp
qed

lemma view_drain_loop [view_intro]: "drain_loop b d n m s = Some (r, s') \<Longrightarrow> view s' = view s"
proof (induction n arbitrary: m s)
  case (Suc n)
  have rest: "view s' = view s2" if "drain_rest b d n m len p s2 = Some (r, s')" for len p s2
    using that by (auto simp: drain_rest_def bind_eq_Some_conv split: if_splits dest!: Suc.IH view_intro)
  from Suc.prems show ?case by (rule drain_loop_cases) (auto dest!: rest view_intro)
qed simp

lemma view_drain_netifs [view_intro]: "drain_netifs ds n s = Some s' \<Longrightarrow> view s' = view s"
proof (induction ds arbitrary: n s)
  case (Cons d ds)
  from Cons.prems show ?case
    by (auto simp: eth_rx_ring_drain_def bind_eq_Some_conv split: if_splits option.splits dest!: Cons.IH view_intro)
qed simp

lemma view_timer: "eth_rx_drain_timer s = Some s' \<Longrightarrow> view s' = view s"
  by (auto simp: eth_rx_drain_timer_def bind_eq_Some_conv dest!: view_intro)

lemma view_datagram_loop [view_intro]:
  assumes "datagram_loop d ntb i n s = Some (r, s')"
  shows "view s' = view s"
proof -
  have "view (snd x) = view s" if "datagram_loop d ntb i n s = Some x" for x
  proof (rule datagram_loop.raw_induct [where P = "\<lambda>d ntb i n s x. view (snd x) = view s", OF _ that], goal_cases)
    case (1 f d ntb i n s x)
    from 1(2) show ?case by (auto simp: Let_def bind_eq_Some_conv split: if_splits dest!: 1(1) view_intro)
  qed
  from this [OF assms] show ?thesis by simp
qed

lemma view_ndp_loop [view_intro]:
  assumes "ndp_loop d ntb ndp s = Some (r, s')"
  shows "view s' = view s"
proof -
  have "view (snd x) = view s" if "ndp_loop d ntb ndp s = Some x" for x
  proof (rule ndp_loop.raw_induct [where P = "\<lambda>d ntb ndp s x. view (snd x) = view s", OF _ that], goal_cases)
    case (1 f d ntb ndp s x)
    from 1(2) show ?case by (auto simp: bind_eq_Some_conv split: if_splits dest!: 1(1) view_intro)
  qed
  from this [OF assms] show ?thesis by simp
qed

lemma view_sent: "bulk_transmit_callback status x s = Some (r, s') \<Longrightarrow> view s' = view s"
  by (auto simp: bulk_transmit_callback_def bind_eq_Some_conv Let_def split: if_splits option.splits dest!: view_intro)

lemma view_active_off: "upd_dev d (\<lambda>v. v\<lparr>rx_transfer_active := b\<rparr>) s = Some s' \<Longrightarrow> view s' = view s"
  by (erule view_upd_dev) simp

lemma view_ecm_received: "ecm_receive_callback status n d s = Some (r, s') \<Longrightarrow> view s' = view s"
  by (auto simp: ecm_receive_callback_def bind_eq_Some_conv Let_def split: if_splits dest!: view_intro view_active_off)

lemma view_ncm_received: "ncm_receive_callback status n d s = Some (r, s') \<Longrightarrow> view s' = view s"
  by (auto simp: ncm_receive_callback_def bind_eq_Some_conv Let_def split: if_splits dest!: view_intro view_active_off)

lemma view_ecm_send: "ecm_bulk_transmit d p s = Some (err, s') \<Longrightarrow> view s' = view s"
  by (auto simp: ecm_bulk_transmit_def bind_eq_Some_conv Let_def split: if_splits dest!: view_intro)

lemma view_sequence: "upd_dev d (\<lambda>v. v\<lparr>ncm_sequence := f v\<rparr>) s = Some s' \<Longrightarrow> view s' = view s"
  by (erule view_upd_dev) simp

lemma view_ncm_send: "ncm_bulk_transmit d p s = Some (err, s') \<Longrightarrow> view s' = view s"
  by (auto simp: ncm_bulk_transmit_def bind_eq_Some_conv Let_def split: if_splits option.splits dest!: view_intro view_sequence)

text \<open>Notifications change the default interface only.\<close>

lemma ifs_of_view: "view s' = view s \<Longrightarrow> ifs s' = ifs s" and dflt_of_view: "view s' = view s \<Longrightarrow> dflt s' = dflt s"
  by (simp_all add: view_def)

lemma ifs_call [simp]: "\<not> is_data e \<Longrightarrow> ifs (eth_call e s) = ifs s"
  by (rule ifs_of_view) simp

lemma ifs_upd [simp]: "ifs (s\<lparr>netif_default := x\<rparr>) = ifs s" "ifs (s\<lparr>default_netif_set := y\<rparr>) = ifs s"
  by (simp_all add: ifs_def)

lemma ifs_connection [simp]: "ifs (network_connection d up s) = ifs s"
  by (simp add: network_connection_def Let_def)



lemma notify_loop_keeps:
  assumes "\<And>up s. P s \<Longrightarrow> P (network_connection d up s)"
  shows "notify_loop d ibuf n i s = Some s' \<Longrightarrow> P s \<Longrightarrow> P s'"
proof (induction "n - i" arbitrary: i s rule: less_induct)
  case less
  from less.prems(1) obtain hdr wValue wLength where r: "read_bytes i 8 ibuf = Some hdr" "setup_word (i + 2) ibuf = Some wValue"
    "setup_word (i + 6) ibuf = Some wLength" by (subst (asm) notify_loop.simps) (auto simp: bind_eq_Some_conv)
  define s1 where "s1 = (if code (hdr ! 0) = 0xA1 \<and> code (hdr ! 1) = 0 then network_connection d (wValue \<noteq> 0) s else s)"
  have s1: "P s1" using assms less.prems(2) by (simp add: s1_def)
  have eq: "(if i + 8 + wLength < n then notify_loop d ibuf n (i + 8 + wLength) s1 else Some s1) = Some s'"
    using less.prems(1) unfolding notify_loop.simps [of d ibuf n i] r Option.bind.bind_lunit Let_def s1_def .
  show ?case
  proof (cases "i + 8 + wLength < n")
    case True
    with eq less.hyps [OF _ _ s1, of "i + 8 + wLength"] show ?thesis by simp
  next
    case False
    with eq s1 show ?thesis by simp
  qed
qed

lemma interrupt_keeps:
  assumes conn: "\<And>up s. P s \<Longrightarrow> P (network_connection d up s)" and view: "\<And>s s'. view s' = view s \<Longrightarrow> P s \<Longrightarrow> P s'"
    and cb: "interrupt_receive_callback status n d s = Some (r, s')" and s: "P s"
  shows "P s'"
proof -
  have again: "P s'" if "eth_devs s1 d \<bind> (\<lambda>v. Some (USB_SUCCESS, snd (schedule_in (int_endpoint v) INTERRUPT_RX_MAX On_interrupt d s1))) = Some (r, s')"
    "P s1" for s1
    using that by (auto simp: bind_eq_Some_conv intro: view [of _ s1])
  show ?thesis
  proof (cases status)
    case True
    with cb obtain fatal s1 where s1: "eth_xmit_fatal_error (Some d) (int_retries s) s = Some (fatal, s1)"
      by (auto simp: interrupt_receive_callback_def Let_def bind_eq_Some_conv)
    have p1: "P (s1\<lparr>int_retries := k\<rparr>)" for k using view [OF _ s, of "s1\<lparr>int_retries := k\<rparr>"] view_fatal [OF s1] by simp
    have "P s1" using view [OF view_fatal [OF s1] s] .
    with cb True s1 again [OF _ p1] show ?thesis
      by (cases fatal) (simp_all add: interrupt_receive_callback_def Let_def)
  next
    case False
    show ?thesis
    proof (cases "0 < n")
      case True
      with cb False obtain v s1 where s1: "eth_devs s d = Some v" "notify_loop d (int_buf v) n 0 s = Some s1"
        by (auto simp: interrupt_receive_callback_def Let_def bind_eq_Some_conv)
      have "P s1" by (rule notify_loop_keeps [OF conn s1(2) s])
      then have "P (s1\<lparr>int_retries := 0\<rparr>)" by (rule view [rotated]) simp
      with cb False True s1 again [of "s1\<lparr>int_retries := 0\<rparr>"] show ?thesis by (simp add: interrupt_receive_callback_def Let_def)
    qed (use cb False again [OF _ s] in \<open>simp add: interrupt_receive_callback_def Let_def\<close>)
  qed
qed

lemma ifs_interrupt: "interrupt_receive_callback status n d s = Some (r, s') \<Longrightarrow> ifs s' = ifs s"
  by (rule interrupt_keeps [where P = "\<lambda>s'. ifs s' = ifs s"]) (auto dest: ifs_of_view)

section \<open>Finding a device\<close>

text \<open>Reading the descriptors changes nothing but the log.\<close>

lemma view_control_transfer [simp]: "view (snd (control_transfer dev setup data s)) = view s"
  by (simp add: control_transfer_def Let_def)

lemma view_next_random [simp]: "view (snd (next_random s)) = view s"
  by (simp add: next_random_def Let_def)

lemma view_device_endpoint [simp]: "view (snd (device_endpoint dev a s)) = view s"
  by (simp add: device_endpoint_def Let_def)

lemma view_mac_address [simp]: "view (snd (snd (mac_address dev i hw s))) = view s"
  by (simp add: mac_address_def Let_def case_prod_beta)

lemma view_ncm_control_setup [simp]: "view (snd (snd (ncm_control_setup v s))) = view s"
  by (simp add: ncm_control_setup_def Let_def case_prod_beta)

lemma view_parse_interface [view_intro]: "parse_interface buf n dev at ps s = Some (r, ps', s') \<Longrightarrow> view s' = view s"
  by (auto simp: parse_interface_def Let_def bind_eq_Some_conv split: if_splits)

lemma view_parse_class_specific [view_intro]: "parse_class_specific buf dev at ps s = Some (ps', s') \<Longrightarrow> view s' = view s"
  by (auto simp: parse_class_specific_def Let_def bind_eq_Some_conv case_prod_beta split: if_splits)

lemma view_parse_loop [view_intro]:
  assumes "parse_loop buf n dev at ps s = Some (r, ps', s')"
  shows "view s' = view s"
proof -
  have "view (snd (snd x)) = view s" if "parse_loop buf n dev at ps s = Some x" for x
  proof (rule parse_loop.raw_induct [where P = "\<lambda>buf n dev at ps s x. view (snd (snd x)) = view s", OF _ that], goal_cases)
    case (1 f buf n dev at ps s x)
    from 1(2) show ?case by (auto simp: bind_eq_Some_conv split: if_splits dest!: 1(1) view_intro)
  qed
  from this [OF assms] show ?thesis by simp
qed

lemma view_parse_configs [view_intro]: "parse_configs cs dev buf ps s = Some (r, buf', n, ps', s') \<Longrightarrow> view s' = view s"
proof (induction cs arbitrary: buf ps s)
  case (Cons c cs)
  from Cons.prems show ?case
    by (auto simp: bind_eq_Some_conv Let_def case_prod_beta split: if_splits dest!: Cons.IH view_intro)
qed simp

lemma view_create_rx_ring [view_intro]: "create_rx_ring d s = Some (ok, s') \<Longrightarrow> view s' = view s"
proof -
  have ring: "view s2 = view s1" if "upd_dev d (\<lambda>v. v\<lparr>rx_ring := r\<rparr>) s1 = Some s2" for r s1 s2
    using that by (rule view_upd_dev) simp
  show "create_rx_ring d s = Some (ok, s') \<Longrightarrow> view s' = view s"
    by (auto simp: create_rx_ring_def Let_def bind_eq_Some_conv case_prod_beta split: if_splits dest!: ring)
qed

lemma view_start_device [view_intro]: "start_device d tmp s = Some s' \<Longrightarrow> view s' = view s"
  by (auto simp: start_device_def eth_register_pressure_hook_def Let_def bind_eq_Some_conv split: if_splits dest!: view_next_rx)

section \<open>Interfaces come and go\<close>

text \<open>What the driver relies on: the USB library answers with the data that was set last.\<close>

definition data_ok :: "eth_env \<Rightarrow> bool" where
  "data_ok E \<longleftrightarrow> (\<forall>l dev. en_data E (l @ [Usb_get_data dev]) = device_data l dev)"

text \<open>A new interface and one that is gone, for what \<open>ifs\<close> shows.\<close>

fun with_interface :: "nat \<Rightarrow> u8 \<times> nat list \<times> nat \<times> (nat \<Rightarrow> nat option) \<times> (nat \<Rightarrow> nat option) \<times> eth_env \<Rightarrow> _" where
  "with_interface dev (U, L, N, num, data, E) =
     (or U (push_bit (ifnum_assigned U) 1), N # L, N + 1, num(N \<mapsto> ifnum_assigned U), data(dev \<mapsto> N), E)"

fun without_interface :: "nat \<Rightarrow> nat \<Rightarrow> nat \<Rightarrow> u8 \<times> nat list \<times> nat \<times> (nat \<Rightarrow> nat option) \<times> (nat \<Rightarrow> nat option) \<times> eth_env \<Rightarrow> _" where
  "without_interface dev d n (U, L, N, num, data, E) =
     (and U (not (push_bit n 1)), removeAll d L, N, num(d := None), data(dev := None), E)"

lemma attach_view:
  assumes "attach_device dev tmp s = Some (r, s')" and "data_ok (eth_env s)"
  shows "view s' = view s \<or> device_data (eth_log s) dev = None \<and> ifs s' = with_interface dev (ifs s) \<and> dflt s' = dflt s"
proof -
  define s1 where "s1 = eth_call (Usb_get_data dev) s"
  have s1: "get_device_data dev s = (device_data (eth_log s) dev, s1)" "view s1 = view s"
    using assms(2) by (simp_all add: get_device_data_def Let_def s1_def data_ok_def)
  show ?thesis
  proof (cases "device_data (eth_log s) dev")
    case None
    define s2 where "s2 = eth_call Malloc_device s1"
    have s2: "view s2 = view s" using s1(2) by (simp add: s2_def)
    show ?thesis
    proof (cases "en_malloc (eth_env s2) (eth_log s2)")
      case True
      define new where "new = (eth_netif_init tmp)\<lparr>if_name := ''en'', if_num := ifnum_assigned (ifnums_used s2)\<rparr>"
      define s3 where "s3 = eth_call (Netif_linklocal (eth_next s2)) (eth_call (Usb_set_data dev (Some (eth_next s2)))
        (eth_call (Netif_added (eth_next s2)) ((put_dev (eth_next s2) new s2)\<lparr>eth_next := eth_next s2 + 1, netif_list := eth_next s2 # netif_list s2\<rparr>)))"
      have "s' = eth_call (Netif_hostname (eth_next s2)) (s3\<lparr>ifnums_used := or (ifnums_used s3) (push_bit (ifnum_assigned (ifnums_used s2)) 1)\<rparr>)"
        using assms(1) True unfolding attach_device_def s1(1) None Let_def prod.case option.case s2_def [symmetric] new_def [symmetric] s3_def [symmetric]
        by simp
      then have "ifs s' = with_interface dev (ifs s2) \<and> dflt s' = dflt s2"
        by (simp add: s3_def put_dev_def eth_call_def ifs_def dflt_def new_def fun_eq_iff)
      with s2 None show ?thesis by (simp add: ifs_of_view [OF s2] dflt_of_view [OF s2])
    next
      case False
      then have "s' = s2"
        using assms(1) unfolding attach_device_def s1(1) None Let_def prod.case option.case s2_def [symmetric] by simp
      with s2 show ?thesis by simp
    qed
  next
    case (Some d)
    with assms(1) s1 show ?thesis
      by (auto simp: attach_device_def Let_def bind_eq_Some_conv eth_netif_init_def intro!: trans [OF view_put_dev])
  qed
qed

lemma init_success_cases:
  assumes "init_success dev buf n ps s = Some (r, s')"
  obtains "view s' = view s"
  | tmp s1 x s2 where "view s1 = view s" "attach_device dev tmp s1 = Some (x, s2)" "view s' = view s2"
proof -
  obtain failed v s1 where s1: "ncm_control_setup (pa_tmp ps) s = (failed, v, s1)" by (cases "ncm_control_setup (pa_tmp ps) s") auto
  have v1: "view s1 = view s" using view_ncm_control_setup [of "pa_tmp ps" s] by (simp add: s1)
  show thesis
  proof (cases failed)
    case True
    with assms s1 v1 that(1) show thesis by (simp add: init_success_def)
  next
    case False
    define tmp where "tmp = v\<lparr>rx_cb := (if ed_type v = USB_NCM_SUBCLASS then Some Ncm_receive else if ed_type v = USB_ECM_SUBCLASS then Some Ecm_receive else None),
      tx_emit := (if ed_type v = USB_NCM_SUBCLASS then Some Ncm_transmit else if ed_type v = USB_ECM_SUBCLASS then Some Ecm_transmit else None)\<rparr>"
    define s2 where "s2 = eth_call (Usb_set_interface dev (take (n - if_bulk ps) (drop (if_bulk ps) buf))) s1"
    define s3 where "s3 = snd (device_endpoint dev (addr_in ps) s2)"
    define s4 where "s4 = snd (device_endpoint dev (addr_out ps) s3)"
    define s5 where "s5 = snd (device_endpoint dev (addr_int ps) s4)"
    define tmp' where "tmp' = tmp\<lparr>rx_endpoint := fst (device_endpoint dev (addr_in ps) s2),
      tx_endpoint := fst (device_endpoint dev (addr_out ps) s3), int_endpoint := fst (device_endpoint dev (addr_int ps) s4)\<rparr>"
    have v: "view s2 = view s" "view s5 = view s" using v1 by (simp_all add: s2_def s3_def s4_def s5_def)
    have eq: "(if tx_emit tmp = None \<or> rx_cb tmp = None then Some (False, s1)
        else if en_failed (eth_env s2) (eth_log s2) then Some (False, s2)
        else do {
          (x, s) \<leftarrow> attach_device dev tmp' s5;
          case x of None \<Rightarrow> Some (False, s) | Some d \<Rightarrow> do {
            (ok, s) \<leftarrow> create_rx_ring d s;
            if \<not> ok then Some (False, s) else do { s \<leftarrow> start_device d tmp' s; Some (True, s) } } }) = Some (r, s')"
      using assms False unfolding init_success_def s1 Let_def case_prod_beta fst_conv snd_conv
        tmp_def [symmetric] s2_def [symmetric] s3_def [symmetric] s4_def [symmetric] s5_def [symmetric] tmp'_def [symmetric]
      by simp
    show thesis
    proof (cases "tx_emit tmp = None \<or> rx_cb tmp = None \<or> en_failed (eth_env s2) (eth_log s2)")
      case True
      with eq v1 v(1) that(1) show thesis by (auto split: if_splits)
    next
      case False
      with eq obtain x s6 where x: "attach_device dev tmp' s5 = Some (x, s6)" by (auto simp: bind_eq_Some_conv)
      with eq False have "view s' = view s6"
        by (auto simp: bind_eq_Some_conv split: option.splits if_splits dest!: view_intro)
      with that(2) v(2) x show thesis by blast
    qed
  qed
qed

lemma init_view:
  assumes "init_ethernet_usb_device dev s = Some (r, s')" and "data_ok (eth_env s)"
  shows "view s' = view s \<or> ifnums_used s \<noteq> 0xFF \<and> device_data (eth_log s) dev = None \<and> ifs s' = with_interface dev (ifs s) \<and> dflt s' = dflt s"
proof -
  have success: "view s' = view s \<or> device_data (eth_log s) dev = None \<and> ifs s' = with_interface dev (ifs s) \<and> dflt s' = dflt s"
    if "init_success dev buf n ps s1 = Some (r, s')" "view s1 = view s" for buf n ps s1
    using that(1)
  proof (rule init_success_cases)
    fix tmp s2 x s3
    assume s2: "view s2 = view s1" "attach_device dev tmp s2 = Some (x, s3)" "view s' = view s3"
    then have "ifs s2 = ifs s" "dflt s2 = dflt s" using that(2) by (simp_all add: view_def)
    moreover then have "device_data (eth_log s2) dev = device_data (eth_log s) dev" "eth_env s2 = eth_env s" by (simp_all add: ifs_def)
    ultimately show ?thesis using attach_view [OF s2(2)] assms(2) s2 that(2) by (auto simp: view_def)
  qed (use that(2) in simp)
  show ?thesis
    using assms(1) success
    by (auto simp: init_ethernet_usb_device_def Let_def case_prod_beta bind_eq_Some_conv split: if_splits dest!: view_intro)
qed

lemma disconnect_view:
  assumes "disconnect dev s = Some s'" and "data_ok (eth_env s)"
  shows "eth_disabled_with_error s \<and> view s' = view s \<or> (\<exists>d v. device_data (eth_log s) dev = Some d \<and> eth_devs s d = Some v \<and>
    ifs s' = without_interface dev d (if_num v) (ifs s) \<and> dflt s' = (if netif_default s = Some d then None else netif_default s, default_netif_set s))"
proof -
  define s1 where "s1 = eth_call (Usb_get_data dev) s"
  have "get_device_data dev s = (device_data (eth_log s) dev, s1)"
    using assms(2) by (simp add: get_device_data_def Let_def s1_def data_ok_def)
  with assms(1) obtain d v where d: "device_data (eth_log s) dev = Some d" "eth_devs s d = Some v"
    and get: "get_device_data dev s = (Some d, s1)"
    by (auto simp: disconnect_def bind_eq_Some_conv s1_def)
  define s2 where "s2 = eth_call (Netif_down d) (eth_call (Netif_link_down d) s1)"
  have s2: "view s2 = view s" "eth_devs s2 = eth_devs s" "netif_default s2 = netif_default s" "default_netif_set s2 = default_netif_set s"
    "eth_disabled_with_error s2 = eth_disabled_with_error s"
    by (simp_all add: s2_def s1_def) (simp_all add: eth_call_def)
  show ?thesis
  proof (cases "eth_disabled_with_error s2")
    case True
    have "s' = (eth_call (Usb_reset dev) s2)\<lparr>eth_disabled_with_error := False\<rparr>"
      using assms(1) d(2) True unfolding disconnect_def get Let_def prod.case Option.bind.bind_lunit s2_def [symmetric] by (simp add: s1_def)
    with s2(1,5) True show ?thesis by simp
  next
    case False
    define s3 where "s3 = s2\<lparr>ifnums_used := and (ifnums_used s2) (not (push_bit (if_num v) 1))\<rparr>"
    define s4 where "s4 = (eth_call (Netif_remove d) s3)\<lparr>netif_list := removeAll d (netif_list s3),
      netif_default := (if netif_default s3 = Some d then None else netif_default s3)\<rparr>"
    define s5 where "s5 = (case rx_ring v of None \<Rightarrow> s4 | Some b \<Rightarrow> set_mem (mem_buffer_destroy (Some b) (eth_mem s4)) s4)"
    have s5: "view s5 = view s4" by (simp add: s5_def split: option.split)
    have d1: "eth_devs s1 d = Some v" using d(2) by (simp add: s1_def)
    have s': "s' = eth_call (Usb_set_data dev None) ((eth_call (Free_device d) s5)\<lparr>eth_devs := (eth_devs s5)(d := None)\<rparr>)"
      using assms(1) unfolding disconnect_def get Let_def prod.case Option.bind.bind_lunit d1 s2_def [symmetric] if_not_P [OF False]
        s3_def [symmetric] s4_def [symmetric] s5_def [symmetric] by simp
    have "ifs s' = without_interface dev d (if_num v) (ifs s)"
      using ifs_of_view [OF s5] ifs_of_view [OF s2(1)] by (auto simp: s' ifs_def eth_call_def s3_def s4_def fun_eq_iff)
    moreover have "dflt s' = (if netif_default s = Some d then None else netif_default s, default_netif_set s)"
      using dflt_of_view [OF s5] s2 by (simp add: s' dflt_def eth_call_def s3_def s4_def)
    ultimately show ?thesis using d by blast
  qed
qed

text \<open>The numbers are those of the interfaces in the list, each of its own, and the USB library refers
  to devices in the list.\<close>

fun numbered :: "u8 \<times> nat list \<times> nat \<times> (nat \<Rightarrow> nat option) \<times> (nat \<Rightarrow> nat option) \<times> eth_env \<Rightarrow> bool" where
  "numbered (U, L, N, num, data, E) \<longleftrightarrow> distinct L \<and> (\<forall>d. num d \<noteq> None \<longleftrightarrow> d \<in> set L) \<and> (\<forall>d \<in> set L. d < N) \<and> inj_on num (set L) \<and>
     (\<forall>i. bit U i \<longleftrightarrow> Some i \<in> num ` set L) \<and> (\<forall>dev d. data dev = Some d \<longrightarrow> d \<in> set L) \<and>
     (\<forall>dev dev' d. data dev = Some d \<and> data dev' = Some d \<longrightarrow> dev = dev') \<and> data_ok E"

lemma numberedI:
  assumes "distinct L" and "\<And>d. num d \<noteq> None \<longleftrightarrow> d \<in> set L" and "\<And>d. d \<in> set L \<Longrightarrow> d < N" and "inj_on num (set L)"
    and "\<And>i. bit U i \<longleftrightarrow> Some i \<in> num ` set L" and "\<And>dev d. data dev = Some d \<Longrightarrow> d \<in> set L"
    and "\<And>dev dev' d. data dev = Some d \<Longrightarrow> data dev' = Some d \<Longrightarrow> dev = dev'" and "data_ok E"
  shows "numbered (U, L, N, num, data, E)"
  using assms by simp

lemma numberedD:
  assumes "numbered (U, L, N, num, data, E)"
  shows "distinct L" and "\<And>d. num d \<noteq> None \<longleftrightarrow> d \<in> set L" and "\<And>d. d \<in> set L \<Longrightarrow> d < N" and "inj_on num (set L)"
    and "\<And>i. bit U i \<longleftrightarrow> Some i \<in> num ` set L" and "\<And>dev d. data dev = Some d \<Longrightarrow> d \<in> set L"
    and "\<And>dev dev' d. data dev = Some d \<Longrightarrow> data dev' = Some d \<Longrightarrow> dev = dev'" and "data_ok E"
  using assms by simp_all

declare numbered.simps [simp del]

lemma ifnum_assigned_free:
  assumes "U \<noteq> 0xFF"
  shows "ifnum_assigned U < 8" and "\<not> bit U (ifnum_assigned U)"
proof -
  have "\<exists>i < 8. \<not> bit U i"
  proof (rule ccontr)
    assume all: "\<not> (\<exists>i < 8. \<not> bit U i)"
    have "U = 0xFF"
    proof (rule bit_word_eqI)
      fix i :: nat
      assume "i < LENGTH(8)"
      then have i: "i < 8" by simp
      then have "i \<in> {0, 1, 2, 3, 4, 5, 6, 7}" by auto
      then have "bit (0xFF :: u8) i" by auto
      with all i show "bit U i = bit (0xFF :: u8) i" by simp
    qed
    with assms show False by simp
  qed
  then obtain i where "i \<in> set [0 ..< 8]" "\<not> bit U i" by auto
  then obtain k where "find (\<lambda>i. \<not> bit U i) [0 ..< 8] = Some k" by (metis find_None_iff not_None_eq)
  moreover then have "k < 8" "\<not> bit U k" by (auto simp: find_Some_iff)
  ultimately show "ifnum_assigned U < 8" "\<not> bit U (ifnum_assigned U)" by (simp_all add: ifnum_assigned_def)
qed

lemma numbered_new:
  assumes "numbered (U, L, N, num, data, E)" and "U \<noteq> 0xFF" and "data dev = None"
  shows "numbered (with_interface dev (U, L, N, num, data, E))"
proof -
  note old = numberedD [OF assms(1)] and n = ifnum_assigned_free [OF assms(2)]
  define k where "k = ifnum_assigned U"
  have N: "N \<notin> set L" using old(3) [of N] by auto
  have b: "bit (or U (push_bit k 1)) i \<longleftrightarrow> i = k \<or> bit U i" for i
    using n(1) by (auto simp: bit_or_iff bit_exp_iff k_def)
  have img: "num(N \<mapsto> k) ` set L = num ` set L" using N by (auto simp: image_iff)
  have k: "Some k \<notin> num ` set L" using old(5) n(2) by (simp add: k_def)
  show ?thesis unfolding with_interface.simps k_def [symmetric]
  proof (rule numberedI, goal_cases)
    case 1 show ?case using old(1) N by simp
  next
    case (2 d) show ?case using old(2) by simp
  next
    case (3 d) then show ?case using old(3) [of d] by auto
  next
    case 4 show ?case using inj_on_fun_updI [OF old(4) k, of N] k N img by simp
  next
    case (5 i) show ?case unfolding list.set image_insert img b fun_upd_same using old(5) by simp
  next
    case (6 dev' d) then show ?case using old(6) [of dev' d] by (auto split: if_splits)
  next
    case (7 dev1 dev2 d) then show ?case using old(6) [of _ d] old(7) [of dev1 d dev2] N by (auto split: if_splits)
  qed (rule old(8))
qed

lemma numbered_gone:
  assumes "numbered (U, L, N, num, data, E)" and "num d = Some n" and "data dev = Some d"
  shows "numbered (without_interface dev d n (U, L, N, num, data, E))"
proof -
  note old = numberedD [OF assms(1)]
  have d: "d \<in> set L" using old(6) assms(3) .
  have "Some n \<in> num ` set L" using assms(2) d by (metis image_eqI)
  then have "n < 8" using bit_imp_le_length [of U n] old(5) by simp
  then have b: "bit (and U (not (push_bit n 1))) i \<longleftrightarrow> bit U i \<and> i \<noteq> n" for i
    using bit_imp_le_length [of U i] by (auto simp: bit_and_iff bit_not_iff bit_exp_iff)
  have img: "(num(d := None)) ` (set L - {d}) = num ` set L - {Some n}"
    using old(4) d assms(2) by (auto simp: inj_on_def image_iff)
  show ?thesis unfolding without_interface.simps
  proof (rule numberedI, goal_cases)
    case 1 show ?case using old(1) by (simp add: distinct_removeAll)
  next
    case (2 d') show ?case using old(2) by simp
  next
    case (3 d') then show ?case using old(3) [of d'] by simp
  next
    case 4 show ?case using old(4) by (auto simp: inj_on_def)
  next
    case (5 i) show ?case unfolding set_removeAll img b using old(5) by auto
  next
    case (6 dev' d')
    then have 6: "data dev' = Some d'" "dev' \<noteq> dev" by (auto split: if_splits)
    then have "d' \<noteq> d" using old(7) [OF assms(3)] by auto
    then show ?case using old(6) [OF 6(1)] by simp
  next
    case (7 dev1 dev2 d')
    then have "data dev1 = Some d'" "data dev2 = Some d'" by (auto split: if_splits)
    then show ?case by (rule old(7))
  qed (rule old(8))
qed

section \<open>What a step does to the interfaces\<close>

definition gone :: "nat \<Rightarrow> eth_state \<Rightarrow> eth_state \<Rightarrow> bool" where
  "gone dev s s' \<longleftrightarrow> (\<exists>d v. device_data (eth_log s) dev = Some d \<and> eth_devs s d = Some v \<and>
     ifs s' = without_interface dev d (if_num v) (ifs s) \<and>
     dflt s' = (if netif_default s = Some d then None else netif_default s, default_netif_set s))"

definition came :: "nat \<Rightarrow> eth_state \<Rightarrow> eth_state \<Rightarrow> bool" where
  "came dev s s' \<longleftrightarrow> ifnums_used s \<noteq> 0xFF \<and> device_data (eth_log s) dev = None \<and> ifs s' = with_interface dev (ifs s) \<and> dflt s' = dflt s"

lemma event_view:
  assumes "eth_usb_event_callback e dev s = Some (r, s')" and "data_ok (eth_env s)"
  shows "view s' = view s \<or> came dev s s' \<or> gone dev s s'"
proof (cases e)
  case USB_DEVICE_ENABLED
  define s1 where "s1 = eth_call (Usb_flags dev) s"
  have s1: "view s1 = view s" "eth_env s1 = eth_env s" by (simp_all add: s1_def)
  have came: "came dev s1 s' \<Longrightarrow> came dev s s'" using s1(1) by (auto simp: came_def view_def ifs_def)
  have hub: "view s' = view s" if "enable_hub dev s1 = Some s'"
    using that s1(1) by (auto simp: enable_hub_def Let_def case_prod_beta split: if_splits)
  show ?thesis
  proof (cases "en_flag (eth_env s1) (eth_log s1)")
    case True
    with assms(1) USB_DEVICE_ENABLED hub show ?thesis
      unfolding eth_usb_event_callback_def Let_def s1_def [symmetric] by (simp add: bind_eq_Some_conv)
  next
    case False
    with assms(1) USB_DEVICE_ENABLED obtain ok where "init_ethernet_usb_device dev s1 = Some (ok, s')"
      unfolding eth_usb_event_callback_def Let_def s1_def [symmetric] by (auto simp: bind_eq_Some_conv)
    from init_view [OF this] assms(2) s1 came show ?thesis by (auto simp: came_def)
  qed
qed (use assms disconnect_view [OF _ assms(2), of dev s'] in
    \<open>auto simp: eth_usb_event_callback_def Let_def bind_eq_Some_conv gone_def split: if_splits\<close>)

lemma step_ifs:
  assumes "eth_step s s'" and "data_ok (eth_env s)"
  shows "ifs s' = ifs s \<or> (\<exists>dev. came dev s s' \<or> gone dev s s')"
  using assms
proof (cases rule: eth_step.cases)
  case (event e dev r)
  from event_view [OF this assms(2)] show ?thesis by (auto simp: view_def)
next
  case (buffers d v y x)
  then show ?thesis using ifs_of_view [OF view_put_dev, of s d v "v\<lparr>rx_buf := x, int_buf := y\<rparr>"] by simp
next
  case (interval n)
  then show ?thesis by (simp add: eth_set_rx_drain_interval_ms_def ifs_of_view [OF view_upd(6)])
next
  case (stack \<sigma> pb)
  then show ?thesis using ifs_of_view [OF trans [OF view_set_mem view_upd(2)]] by simp
qed (auto dest!: ifs_interrupt view_sent view_ecm_received view_ncm_received view_timer view_ecm_send view_ncm_send simp: view_def)

lemma numbered_step:
  assumes "eth_step s s'" and "numbered (ifs s)"
  shows "numbered (ifs s')"
proof -
  obtain U L N num data E where ifs: "ifs s = (U, L, N, num, data, E)" by (cases "ifs s") auto
  then have E: "eth_env s = E" "ifnums_used s = U" "device_data (eth_log s) = data" "num = (\<lambda>d. map_option if_num (eth_devs s d))"
    by (simp_all add: ifs_def)
  note num = assms(2) [unfolded ifs]
  from numberedD(8) [OF num] E(1) have "data_ok (eth_env s)" by simp
  from step_ifs [OF assms(1) this] show ?thesis
    using assms(2) numbered_new [OF num] numbered_gone [OF num] E by (auto simp: came_def gone_def ifs)
qed

lemma numbered_steps: "eth_step\<^sup>*\<^sup>* s s' \<Longrightarrow> numbered (ifs s) \<Longrightarrow> numbered (ifs s')"
  by (induction rule: rtranclp_induct) (auto intro: numbered_step)

lemma numbered_power_up: "data_ok E \<Longrightarrow> numbered (ifs (eth_power_up \<sigma> pb E))"
  by (auto simp: ifs_def eth_power_up_def intro!: numberedI)

text \<open>Once the interface that was the default one is gone, the driver believes there still is one.\<close>

definition orphaned :: "eth_state \<Rightarrow> bool" where
  "orphaned s \<longleftrightarrow> dflt s = (None, True)"

lemma orphaned_step:
  assumes "eth_step s s'" and "data_ok (eth_env s)" and "orphaned s"
  shows "orphaned s' \<and> data_ok (eth_env s')"
proof -
  have "data_ok (eth_env s')" using step_ifs [OF assms(1,2)] assms(2) by (auto simp: ifs_def came_def gone_def)
  moreover have "orphaned s'"
    using assms(1)
  proof (cases rule: eth_step.cases)
    case (event e dev r)
    from event_view [OF this assms(2)] assms(3) show ?thesis by (auto simp: view_def orphaned_def came_def gone_def dflt_def)
  next
    case (interrupt status n d r)
    show ?thesis
      by (rule interrupt_keeps [where P = orphaned, OF _ _ interrupt assms(3)])
        (auto simp: orphaned_def dflt_def network_connection_def Let_def eth_call_def view_def)
  next
    case (buffers d v y x)
    then show ?thesis using dflt_of_view [OF view_put_dev, of s d v "v\<lparr>rx_buf := x, int_buf := y\<rparr>"] assms(3) by (simp add: orphaned_def)
  next
    case (interval n)
    then show ?thesis using assms(3) by (simp add: orphaned_def eth_set_rx_drain_interval_ms_def dflt_def)
  next
    case (stack \<sigma> pb)
    then show ?thesis using dflt_of_view [OF trans [OF view_set_mem view_upd(2)]] assms(3) by (simp add: orphaned_def)
  qed (use assms(3) in \<open>auto dest!: view_sent view_ecm_received view_ncm_received view_timer view_ecm_send view_ncm_send simp: view_def orphaned_def\<close>)
  ultimately show ?thesis by blast
qed

lemma orphaned_steps: "eth_step\<^sup>*\<^sup>* s s' \<Longrightarrow> data_ok (eth_env s) \<Longrightarrow> orphaned s \<Longrightarrow> orphaned s'"
proof -
  assume "eth_step\<^sup>*\<^sup>* s s'" "data_ok (eth_env s)" "orphaned s"
  then have "orphaned s' \<and> data_ok (eth_env s')" by (induction rule: rtranclp_induct) (use orphaned_step in blast)+
  then show ?thesis by blast
qed

section \<open>Properties\<close>

text \<open>An ECM device: its device descriptor and its configuration, with a control interface, the functional
  descriptors, and a data interface.\<close>

definition ecm_device_descriptor :: bytes where
  "ecm_device_descriptor = map char_of [18, 1, 0, 2, 0, 0, 0, 64, 0, 0, 0, 0, 0, 0, 0, 0, 0, 1 :: nat]"

definition ecm_bytes :: "nat list" where
  "ecm_bytes = [9, 2, 66, 0, 2, 1, 0, 128, 50, 9, 4, 0, 0, 1, 2, 6, 0, 0, 5, 36, 6, 0, 1, 13, 36, 15, 0, 0, 0, 0, 0, 234, 5, 0, 0, 0,
     7, 5, 129, 3, 16, 0, 8, 9, 4, 1, 0, 2, 10, 0, 0, 0, 7, 5, 130, 2, 0, 2, 0, 7, 5, 3, 2, 0, 2, 0]"

definition plug_env :: eth_env where
  "plug_env = quiet_env\<lparr>en_descriptor := (\<lambda>l. (False, case last l of Usb_descriptor dev t c n \<Rightarrow> (if t = 1 then ecm_device_descriptor else map char_of ecm_bytes) | _ \<Rightarrow> map char_of ecm_bytes)),
     en_config_len := (\<lambda>l. 66), en_control := (\<lambda>l. (False, ''abcdef'')),
     en_data := (\<lambda>l. case last l of Usb_get_data dev \<Rightarrow> device_data (butlast l) dev | _ \<Rightarrow> None)\<rparr>"

lemma byte_at_overlay:
  "i < length new \<Longrightarrow> length new \<le> length old \<Longrightarrow> byte_at i (overlay new old) = byte_at i new"
  by (simp add: byte_at_def overlay_def nth_append)

lemma ecm_bytes_small: "length ecm_bytes = 66" "i < 66 \<Longrightarrow> ecm_bytes ! i < 256"
proof -
  show "length ecm_bytes = 66" by (simp add: ecm_bytes_def)
  moreover have "\<forall>x \<in> set ecm_bytes. x < 256" by (simp add: ecm_bytes_def)
  ultimately show "i < 66 \<Longrightarrow> ecm_bytes ! i < 256" by (metis nth_mem)
qed

lemma parse_ecm:
  assumes b: "\<And>i. i < 66 \<Longrightarrow> byte_at i buf = Some (ecm_bytes ! i)" and E: "eth_env s = plug_env"
    and nb: "\<not> has_bulk_if_num ps"
  shows "\<exists>ps' s'. parse_loop buf 66 dev 0 ps s = Some (Init_success, ps', s') \<and> ed_type (pa_tmp ps') = USB_ECM_SUBCLASS \<and>
    addr_in ps' = 130 \<and> addr_out ps' = 3 \<and> addr_int ps' = 129"
proof -
  define s1 where "s1 = eth_call (Usb_set_configuration dev (take 66 buf)) s"
  have E1: "eth_env s1 = plug_env" using E by (simp add: s1_def)
  obtain hw s2 where m: "mac_address dev 0 (ed_hwaddr (pa_tmp ps)) s1 = (True, hw, s2)"
    using E1 by (simp add: mac_address_def control_transfer_def Let_def case_prod_beta plug_env_def quiet_env_def)
  define ps1 where "ps1 = (parse_reset ps)\<lparr>pa_tmp := (pa_tmp ps)\<lparr>ed_type := 6\<rparr>, has_control_if := True\<rparr>"
  define ps2 where "ps2 = ps1\<lparr>pa_ifnum := 1, has_bulk_if_num := True\<rparr>"
  define ps3 where "ps3 = ps2\<lparr>pa_tmp := (pa_tmp ps2)\<lparr>ed_hwaddr := hw\<rparr>, has_mac_addr := True\<rparr>"
  define ps4 where "ps4 = ps3\<lparr>addr_int := 129, has_endpoint_int := True\<rparr>"
  define ps5 where "ps5 = ps4\<lparr>if_bulk := 43, has_bulk_if := True\<rparr>"
  define ps6 where "ps6 = ps5\<lparr>addr_in := 130, has_endpoint_in := True\<rparr>"
  define ps7 where "ps7 = ps6\<lparr>addr_out := 3, has_endpoint_out := True\<rparr>"
  note ps = ps1_def ps2_def ps3_def ps4_def ps5_def ps6_def ps7_def parse_reset_def
  have t0: "parse_loop buf 66 dev 0 ps s = parse_loop buf 66 dev 9 ps s"
    by (subst parse_loop.simps) (simp add: b ecm_bytes_def)
  have i1: "parse_interface buf 66 dev 9 ps s = Some (Parsing, ps1, s1)" if "\<not> has_bulk_if_num ps"
    using that E by (simp add: parse_interface_def Let_def b ecm_bytes_def ps s1_def plug_env_def quiet_env_def)
  have t1: "parse_loop buf 66 dev 9 ps s = parse_loop buf 66 dev 18 ps1 s1" if "\<not> has_bulk_if_num ps"
    using i1 that by (subst parse_loop.simps) (simp add: b ecm_bytes_def)
  have t2: "parse_loop buf 66 dev 18 ps1 s1 = parse_loop buf 66 dev 23 ps2 s1"
    by (subst parse_loop.simps) (simp add: b ecm_bytes_def parse_class_specific_def ps)
  have t3: "parse_loop buf 66 dev 23 ps2 s1 = parse_loop buf 66 dev 36 ps3 s2"
    using m by (subst parse_loop.simps) (simp add: b ecm_bytes_def parse_class_specific_def ps)
  have t4: "parse_loop buf 66 dev 36 ps3 s2 = parse_loop buf 66 dev 43 ps4 s2"
    by (subst parse_loop.simps) (simp add: b ecm_bytes_def parse_endpoint_def ps)
  have i5: "parse_interface buf 66 dev 43 ps4 s2 = Some (Parsing, ps5, s2)"
    by (simp add: parse_interface_def Let_def b ecm_bytes_def ps)
  have t5: "parse_loop buf 66 dev 43 ps4 s2 = parse_loop buf 66 dev 52 ps5 s2"
    using i5 by (subst parse_loop.simps) (simp add: b ecm_bytes_def)
  have t6: "parse_loop buf 66 dev 52 ps5 s2 = parse_loop buf 66 dev 59 ps6 s2"
    by (subst parse_loop.simps) (simp add: b ecm_bytes_def parse_endpoint_def ps)
  have t7: "parse_loop buf 66 dev 59 ps6 s2 = Some (Init_success, ps7, s2)"
    by (subst parse_loop.simps) (simp add: b ecm_bytes_def parse_endpoint_def ps)
  show ?thesis using t0 t1 t2 t3 t4 t5 t6 t7 nb by (simp add: ps)
qed

text \<open>From the parsed descriptors on nothing fails.\<close>

lemma create_rx_ring_Some:
  assumes "eth_devs s d = Some v"
  obtains ok s' v' where "create_rx_ring d s = Some (ok, s')" and "eth_devs s' d = Some v'" and "rx_cb v' = rx_cb v"
proof (cases "rx_ring v")
  case None
  define c where "c = mem_buffer_create 512 2048 0 \<lparr>secure_mode = False, lock_size_flag = False, malloc_type = False\<rparr> False (eth_mem s)"
  define \<sigma> where "\<sigma> = mem_buffer_set_shrink (fst c) 30 512 (mem_buffer_set_grow (fst c) 85 512 (mem_buffer_set_drain (fst c) True
    (mem_buffer_set_owner (fst c) MEM_BUF_OWNER_ETH_RX (snd c))))"
  obtain v1 where v1: "eth_devs (set_mem (snd c) s) d = Some v1" "rx_cb v1 = rx_cb v" using same_devs_cb [OF set_mem_devs assms] by blast
  obtain v2 where v2: "eth_devs (set_mem \<sigma> s) d = Some v2" "rx_cb v2 = rx_cb v" using same_devs_cb [OF set_mem_devs assms] by blast
  have eq: "create_rx_ring d s = (if fst c = None then Some (False, set_mem (snd c) s)
      else do { s \<leftarrow> upd_dev d (\<lambda>v. v\<lparr>rx_ring := fst c\<rparr>) (set_mem \<sigma> s); Some (True, s) })"
    using assms None by (simp add: create_rx_ring_def Let_def case_prod_beta c_def \<sigma>_def)
  show thesis
  proof (cases "fst c = None")
    case True
    with eq show thesis by (intro that [of False, OF _ v1]) simp
  next
    case False
    with eq v2(1) show thesis
      by (intro that [of True "put_dev d (v2\<lparr>rx_ring := fst c\<rparr>) (set_mem \<sigma> s)" "v2\<lparr>rx_ring := fst c\<rparr>"])
        (simp_all add: upd_dev_def put_dev_def v2(2))
  qed
qed (use assms that in \<open>simp add: create_rx_ring_def\<close>)

lemma start_device_Some:
  assumes "eth_devs s d = Some v" and "rx_cb v \<noteq> None"
  obtains s' where "start_device d tmp s = Some s'"
proof -
  define s1 where "s1 = (if g_drain_scheduled s then s else (eth_call (Sys_timeout (g_drain_interval s)) s)\<lparr>g_drain_scheduled := True\<rparr>)"
  define s2 where "s2 = eth_call (Netif_up d) (eth_register_pressure_hook s1)"
  have v1: "eth_devs s1 d = Some v" using assms(1) by (simp add: s1_def)
  have "same_devs (eth_devs s1) (eth_devs s2)"
    by (simp add: s2_def eth_register_pressure_hook_def set_mem_devs) (simp add: same_devs_def)
  from same_devs_cb [OF this v1] obtain v2 where v2: "eth_devs s2 d = Some v2" "rx_cb v2 = rx_cb v" by blast
  define s3 where "s3 = snd (schedule_in (int_endpoint v2) INTERRUPT_RX_MAX On_interrupt d s2)"
  have v3: "eth_devs s3 d = Some v2" using v2(1) by (simp add: s3_def schedule_in_def Let_def)
  have "rx_cb v2 \<noteq> None" using v2(2) assms(2) by simp
  then obtain s4 where s4: "next_rx d (rx_len tmp) s3 = Some s4" using next_rx_ring [OF v3] by blast
  have "start_device d tmp s = (if eth_should_schedule_rx s3 then next_rx d (rx_len tmp) s3 else Some s3)"
    unfolding start_device_def Let_def s1_def [symmetric] s2_def [symmetric] v2(1) Option.bind.bind_lunit s3_def [symmetric] ..
  then have "start_device d tmp s = Some (if eth_should_schedule_rx s3 then s4 else s3)" using s4 by simp
  with that show thesis by blast
qed

lemma attach_new:
  assumes E: "eth_env s = plug_env" and new: "device_data (eth_log s) dev = None"
  obtains d s' v where "attach_device dev tmp s = Some (Some d, s')" and "eth_devs s' d = Some v" and "rx_cb v = rx_cb tmp"
    and "ifs s' = with_interface dev (ifs s)"
proof -
  have d: "get_device_data dev s = (None, eth_call (Usb_get_data dev) s)"
    using E new by (simp add: get_device_data_def Let_def plug_env_def)
  obtain d s' v where s': "attach_device dev tmp s = Some (Some d, s')" "eth_devs s' d = Some v" "rx_cb v = rx_cb tmp" "netif_list s' \<noteq> netif_list s"
    using E by (simp add: attach_device_def d Let_def put_dev_def plug_env_def quiet_env_def eth_netif_init_def)
  have "data_ok (eth_env s)" by (simp add: E data_ok_def plug_env_def)
  from attach_view [OF s'(1) this] s'(4) have "ifs s' = with_interface dev (ifs s)" by (auto simp: view_def ifs_def)
  with s'(1-3) that show thesis by blast
qed

lemma init_success_ecm:
  assumes E: "eth_env s = plug_env" and new: "device_data (eth_log s) dev = None" and ty: "ed_type (pa_tmp ps) = USB_ECM_SUBCLASS"
  obtains ok s' where "init_success dev buf n ps s = Some (ok, s')" and "ifs s' = with_interface dev (ifs s)"
proof -
  define tmp where "tmp = (pa_tmp ps)\<lparr>rx_cb := Some Ecm_receive, tx_emit := Some Ecm_transmit\<rparr>"
  define s2 where "s2 = eth_call (Usb_set_interface dev (take (n - if_bulk ps) (drop (if_bulk ps) buf))) s"
  define s3 where "s3 = snd (device_endpoint dev (addr_in ps) s2)"
  define s4 where "s4 = snd (device_endpoint dev (addr_out ps) s3)"
  define s5 where "s5 = snd (device_endpoint dev (addr_int ps) s4)"
  define tmp' where "tmp' = tmp\<lparr>rx_endpoint := fst (device_endpoint dev (addr_in ps) s2),
      tx_endpoint := fst (device_endpoint dev (addr_out ps) s3), int_endpoint := fst (device_endpoint dev (addr_int ps) s4)\<rparr>"
  have v: "view s2 = view s" "view s5 = view s" by (simp_all add: s2_def s3_def s4_def s5_def)
  then have E5: "eth_env s2 = plug_env" "eth_env s5 = plug_env" "device_data (eth_log s5) dev = None" "ifs s5 = ifs s"
    using E new by (simp_all add: view_def ifs_def)
  obtain d s6 w where s6: "attach_device dev tmp' s5 = Some (Some d, s6)" "eth_devs s6 d = Some w" "rx_cb w = rx_cb tmp'"
    "ifs s6 = with_interface dev (ifs s5)" using attach_new [OF E5(2,3)] by blast
  obtain ok s7 w7 where s7: "create_rx_ring d s6 = Some (ok, s7)" "eth_devs s7 d = Some w7" "rx_cb w7 = rx_cb w"
    using create_rx_ring_Some [OF s6(2)] by blast
  have "rx_cb w7 \<noteq> None" using s7(3) s6(3) by (simp add: tmp'_def tmp_def)
  then obtain s8 where s8: "start_device d tmp' s7 = Some s8" using start_device_Some [OF s7(2)] by blast
  have nf: "\<not> en_failed (eth_env s2) (eth_log s2)" by (simp add: E5 plug_env_def quiet_env_def)
  have ncm: "ncm_control_setup (pa_tmp ps) s = (False, pa_tmp ps, s)" by (simp add: ncm_control_setup_def ty)
  have "init_success dev buf n ps s = Some (ok, if ok then s8 else s7)"
    unfolding init_success_def ncm Let_def prod.case ty
    using nf s6(1) s7(1) s8 by (simp add: case_prod_beta s5_def s4_def s3_def s2_def tmp'_def tmp_def)
  moreover have "ifs (if ok then s8 else s7) = with_interface dev (ifs s)"
    using ifs_of_view [OF view_create_rx_ring [OF s7(1)]] ifs_of_view [OF view_start_device [OF s8]] s6(4) E5(4) by simp
  ultimately show thesis using that by blast
qed

lemma plug_in:
  assumes E: "eth_env s = plug_env" and U: "ifnums_used s \<noteq> 0xFF" and new: "device_data (eth_log s) dev = None"
  obtains s' where "eth_usb_event_callback USB_DEVICE_ENABLED dev s = Some (USB_SUCCESS, s')" and "ifs s' = with_interface dev (ifs s)"
proof -
  define s1 where "s1 = eth_call (Usb_flags dev) s"
  define s2 where "s2 = eth_call (Usb_descriptor dev 1 0 18) s1"
  define s3 where "s3 = eth_call (Usb_descriptor dev 2 0 66) (eth_call (Usb_config_len dev 0) s2)"
  define buf where "buf = overlay ecm_device_descriptor (replicate 256 nul)"
  define buf2 where "buf2 = overlay (map char_of ecm_bytes) buf"
  have v: "view s1 = view s" "view s3 = view s" "ifnums_used s1 = ifnums_used s"
    by (simp_all add: s1_def s2_def s3_def) (simp add: eth_call_def)
  have E3: "eth_env s1 = plug_env" "eth_env s2 = plug_env" "eth_env s3 = plug_env" using E by (simp_all add: s1_def s2_def s3_def)
  have "length buf = 256" by (simp add: buf_def overlay_def ecm_device_descriptor_def)
  then have "byte_at i buf2 = Some (ecm_bytes ! i)" if "i < 66" for i
    using that ecm_bytes_small(2) [OF that] by (simp add: buf2_def byte_at_overlay ecm_bytes_small(1)) (simp add: byte_at_def ecm_bytes_small(1))
  moreover have "\<not> has_bulk_if_num ((parse_reset (parse_start dev))\<lparr>pa_ifnum := 0\<rparr>)" by (simp add: parse_reset_def)
  ultimately obtain ps s4 where
    ps: "parse_loop buf2 66 dev 0 ((parse_reset (parse_start dev))\<lparr>pa_ifnum := 0\<rparr>) s3 = Some (Init_success, ps, s4)" "ed_type (pa_tmp ps) = USB_ECM_SUBCLASS"
    using parse_ecm [OF _ E3(3)] by blast
  have "view s4 = view s" using view_parse_loop [OF ps(1)] v(2) by simp
  then have s4: "eth_env s4 = plug_env" "device_data (eth_log s4) dev = None" "ifs s4 = ifs s" using E new by (simp_all add: view_def ifs_def)
  obtain ok s' where s': "init_success dev buf2 66 ps s4 = Some (ok, s')" "ifs s' = with_interface dev (ifs s)"
    using init_success_ecm [OF s4(1,2) ps(2)] s4(3) by metis
  have ans: "en_config_len (eth_env (eth_call (Usb_config_len dev 0) s2)) (eth_log (eth_call (Usb_config_len dev 0) s2)) = 66"
    "en_descriptor (eth_env s3) (eth_log s3) = (False, map char_of ecm_bytes)" "en_descriptor (eth_env s2) (eth_log s2) = (False, ecm_device_descriptor)"
    "en_stack (eth_env s1) (eth_log s1) = replicate 256 nul"
    using E3 by (simp_all add: plug_env_def quiet_env_def) (simp_all add: s3_def s2_def)
  have configs: "parse_configs [0] dev buf (parse_start dev) s2 = Some (Init_success, buf2, 66, ps, s4)"
    unfolding parse_configs.simps Let_def ans(1) s3_def [symmetric] ans(2) prod.case buf2_def [symmetric] ps(1) by (simp add: ecm_bytes_small(1) ps(1))
  have hd: "code (buf ! 4) = 0" "code (buf ! 17) = 1" "length ecm_device_descriptor = 18"
    by (simp_all add: buf_def overlay_def ecm_device_descriptor_def nth_append)
  have "init_ethernet_usb_device dev s1 = Some (ok, s')"
    unfolding init_ethernet_usb_device_def Let_def ans(4) s2_def [symmetric] ans(3) prod.case buf_def [symmetric]
    using U v(3) hd configs s'(1) by simp
  then have "eth_usb_event_callback USB_DEVICE_ENABLED dev s = Some (USB_SUCCESS, s')"
    using E by (simp add: eth_usb_event_callback_def Let_def plug_env_def quiet_env_def s1_def)
  with s'(2) that show thesis by blast
qed

text \<open>C12. The bitmap of \<open>eth_get_interfaces\<close> tells exactly which interfaces exist: in every state the
  driver can reach from power-up, whatever devices come and go, the interfaces in the list of lwIP
  have numbers of their own, these are the numbers of the bits set, and there are at most eight.\<close>

theorem interfaces_numbered:
  assumes "data_ok E" and "eth_step\<^sup>*\<^sup>* (eth_power_up \<sigma> pb E) s"
  shows "\<exists>nums. map (\<lambda>d. map_option if_num (eth_devs s d)) (netif_list s) = map Some nums \<and> distinct nums \<and>
    set nums = {i. bit (eth_get_interfaces s) i} \<and> length nums \<le> 8"
proof -
  define num where "num = (\<lambda>d. map_option if_num (eth_devs s d))"
  have "numbered (ifnums_used s, netif_list s, eth_next s, num, device_data (eth_log s), eth_env s)"
    using numbered_steps [OF assms(2) numbered_power_up [OF assms(1)]] by (simp add: ifs_def num_def)
  note n = numberedD [OF this]
  define nums where "nums = map (the \<circ> num) (netif_list s)"
  have nums: "map num (netif_list s) = map Some nums" using n(2) by (simp add: nums_def)
  have "distinct (map num (netif_list s))" using n(1,4) by (simp add: distinct_map)
  then have d: "distinct nums" by (simp add: nums distinct_map)
  have "num ` set (netif_list s) = Some ` set nums" using arg_cong [OF nums, of set] by simp
  then have b: "set nums = {i. bit (eth_get_interfaces s) i}" using n(5) by (auto simp: eth_get_interfaces_def)
  have "set nums \<subseteq> {0 ..< 8}" using bit_imp_le_length [of "eth_get_interfaces s"] by (fastforce simp: b)
  from card_mono [OF _ this] have "length nums \<le> 8" using d by (simp add: distinct_card)
  with nums d b show ?thesis unfolding num_def by blast
qed

theorem interfaces_numbered_witness:
  "\<exists>s nums. eth_step\<^sup>*\<^sup>* (eth_power_up mem_zero no_pbufs plug_env) s \<and> netif_list s = [1, 0] \<and>
     map (\<lambda>d. map_option if_num (eth_devs s d)) [1, 0] = map Some nums \<and> distinct nums \<and> set nums = {i. bit (eth_get_interfaces s) i}"
proof -
  let ?s0 = "eth_power_up mem_zero no_pbufs plug_env"
  have i0: "ifs ?s0 = (0, [], 0, (\<lambda>_. None), (\<lambda>_. None), plug_env)" by (simp add: ifs_def eth_power_up_def)
  have "eth_env ?s0 = plug_env" "ifnums_used ?s0 \<noteq> 0xFF" "device_data (eth_log ?s0) 7 = None" by (simp_all add: eth_power_up_def)
  from plug_in [OF this] obtain s1 where s1: "eth_usb_event_callback USB_DEVICE_ENABLED 7 ?s0 = Some (USB_SUCCESS, s1)"
    "ifs s1 = with_interface 7 (ifs ?s0)" by blast
  have "eth_env s1 = plug_env" "ifnums_used s1 \<noteq> 0xFF" "device_data (eth_log s1) 8 = None"
    using s1(2) i0 by (simp_all add: ifs_def ifnum_assigned_def upt_rec)
  from plug_in [OF this] obtain s2 where s2: "eth_usb_event_callback USB_DEVICE_ENABLED 8 s1 = Some (USB_SUCCESS, s2)"
    "ifs s2 = with_interface 8 (ifs s1)" by blast
  have run: "eth_step\<^sup>*\<^sup>* ?s0 s2"
    using eth_step.event [OF s1(1)] eth_step.event [OF s2(1)] by (meson rtranclp.simps)
  have l: "netif_list s2 = [1, 0]" using s1(2) s2(2) i0 by (simp add: ifs_def)
  have "data_ok plug_env" by (simp add: data_ok_def plug_env_def)
  from interfaces_numbered [OF this run, unfolded l] run l show ?thesis by blast
qed

text \<open>C38. Unplugging the default interface is final: the driver remembers in a static variable that a
  default interface has been set, and forgets it only when a link goes down, not when the interface
  is removed. Whatever is plugged in and whatever links come up afterwards, there is no default
  interface.\<close>

theorem no_default_again:
  assumes "data_ok (eth_env s)" and "device_data (eth_log s) dev = Some d" and "netif_default s = Some d" and "default_netif_set s"
    and "\<not> eth_disabled_with_error s" and "eth_usb_event_callback USB_DEVICE_DISCONNECTED dev s = Some (r, s1)" and "eth_step\<^sup>*\<^sup>* s1 s2"
  shows "netif_default s2 = None"
proof -
  have "disconnect dev s = Some s1" using assms(6) by (auto simp: eth_usb_event_callback_def bind_eq_Some_conv)
  from disconnect_view [OF this assms(1)] assms(2-5) have "orphaned s1" "ifs s1 = without_interface dev d (if_num (the (eth_devs s d))) (ifs s)"
    by (auto simp: orphaned_def)
  moreover then have "data_ok (eth_env s1)" using assms(1) by (simp add: ifs_def)
  ultimately have "orphaned s2" using orphaned_steps [OF assms(7)] by blast
  then show ?thesis by (simp add: orphaned_def dflt_def)
qed

definition default_up :: eth_state where
  "default_up = (example_eth 4096)\<lparr>eth_env := plug_env, eth_log := [Usb_set_data 7 (Some 0)], netif_default := Some 0, default_netif_set := True\<rparr>"

theorem no_default_again_witness:
  "\<exists>s1 s2. eth_usb_event_callback USB_DEVICE_DISCONNECTED 7 default_up = Some (USB_SUCCESS, s1) \<and>
     eth_usb_event_callback USB_DEVICE_ENABLED 7 s1 = Some (USB_SUCCESS, s2) \<and> netif_list s2 = [1] \<and> netif_default s2 = None"
proof -
  have s: "data_ok (eth_env default_up)" "device_data (eth_log default_up) 7 = Some 0" "netif_default default_up = Some 0"
    "default_netif_set default_up" "\<not> eth_disabled_with_error default_up"
    by (simp_all add: default_up_def example_eth_def data_ok_def plug_env_def device_data_def)
  have i: "ifs default_up = (1, [0], 1, [0 \<mapsto> 0], [7 \<mapsto> 0], plug_env)"
    by (auto simp: ifs_def default_up_def example_eth_def example_device_def no_device_def device_data_def)
  have g: "get_device_data 7 default_up = (Some 0, eth_call (Usb_get_data 7) default_up)" "eth_devs default_up 0 = Some example_device"
    "if_num example_device = 0"
    by (simp_all add: get_device_data_def default_up_def plug_env_def device_data_def example_eth_def example_device_def no_device_def)
  then have "\<exists>s1. disconnect 7 default_up = Some s1" by (simp add: disconnect_def Let_def)
  then obtain s1 where s1: "disconnect 7 default_up = Some s1" by blast
  then have e1: "eth_usb_event_callback USB_DEVICE_DISCONNECTED 7 default_up = Some (USB_SUCCESS, s1)" by (simp add: eth_usb_event_callback_def)
  have "ifs s1 = (0, [], 1, (\<lambda>_. None), (\<lambda>_. None), plug_env)"
    using disconnect_view [OF s1 s(1)] s(2,5) g(2,3) i by auto
  then have "eth_env s1 = plug_env" "ifnums_used s1 \<noteq> 0xFF" "device_data (eth_log s1) 7 = None" "ifs s1 = (0, [], 1, (\<lambda>_. None), (\<lambda>_. None), plug_env)"
    by (simp_all add: ifs_def)
  moreover from plug_in [OF this(1-3)] obtain s2 where s2: "eth_usb_event_callback USB_DEVICE_ENABLED 7 s1 = Some (USB_SUCCESS, s2)"
    "ifs s2 = with_interface 7 (ifs s1)" by blast
  ultimately have "netif_list s2 = [1]" by (simp add: ifs_def)
  moreover have "netif_default s2 = None"
    using no_default_again [OF s e1] eth_step.event [OF s2(1)] by blast
  ultimately show ?thesis using e1 s2(1) by blast
qed

end
