(* ===== verification/Usb_Eth_Ncm.thy ===== *)
theory Usb_Eth_Ncm
  imports Usb_Eth_Rx
begin

text \<open>
  The network control model: what \<open>ncm_bulk_transmit\<close> packs is what \<open>ncm_receive_callback\<close> unpacks.
\<close>

section \<open>Words in buffers\<close>

lemma setup_word_at:
  assumes "take 2 (drop i buf) = le16 n" and "n < 2 ^ 16"
  shows "setup_word i buf = Some n"
proof -
  have l: "i + 2 \<le> length buf" using arg_cong [OF assms(1), of length] by (auto simp: min_def split: if_splits)
  have "of_le16 (le16 n ! 0) (le16 n ! 1) = n" using assms(2) by (simp add: le16_def of_le16_def)
  with l assms(1) show ?thesis by (simp add: setup_word_def read_bytes_def)
qed

text \<open>A piece of a list that is put together from pieces.\<close>

lemma piece_at: "length a = i \<Longrightarrow> length x = n \<Longrightarrow> take n (drop i (a @ x @ c)) = x"
  by simp

section \<open>The headers\<close>

definition ncm_table :: "nat \<Rightarrow> bytes" where
  "ncm_table n = NCM_NDP_SIG0 @ le16 16 @ le16 0 @ le16 64 @ le16 n @ le16 0 @ le16 0"

definition ncm_nth :: "nat \<Rightarrow> nat \<Rightarrow> nat \<Rightarrow> bytes" where
  "ncm_nth off sequence n = NCM_NTH_SIG @ le16 12 @ le16 sequence @ le16 (64 + n) @ le16 off"

lemma ncm_lengths [simp]: "length (ncm_nth off sequence n) = 12" "length (ncm_table n) = 16"
  by (simp_all add: ncm_nth_def ncm_table_def)

lemma ncm_headers_eq:
  assumes "12 \<le> off" and "off \<le> 48"
  shows "ncm_headers off sequence n =
    Some (ncm_nth off sequence n @ replicate (off - 12) nul @ ncm_table n @ replicate (48 - off) nul)"
proof -
  have "store_bytes 0 (ncm_nth off sequence n) (replicate 64 nul) = Some (ncm_nth off sequence n @ replicate 52 nul)"
    by (simp add: store_bytes_def)
  moreover have "store_bytes off (ncm_table n) (ncm_nth off sequence n @ replicate 52 nul) =
      Some (ncm_nth off sequence n @ replicate (off - 12) nul @ ncm_table n @ replicate (48 - off) nul)"
    using assms by (simp add: store_bytes_def min_def)
  ultimately show ?thesis by (simp add: ncm_headers_def ncm_nth_def ncm_table_def)
qed

text \<open>Reading the headers back, out of a buffer that starts with them.\<close>

lemma ncm_headers_read:
  assumes "12 \<le> off" and "off \<le> 48" and "n < 2 ^ 16" and "ncm_headers off sequence n = Some h"
  shows "length h = 64" and "read_bytes 0 4 (h @ x) = Some NCM_NTH_SIG" and "setup_word 10 (h @ x) = Some off"
    and "read_bytes off 4 (h @ x) = Some NCM_NDP_SIG0" and "setup_word (off + 6) (h @ x) = Some 0"
    and "setup_word (off + 8) (h @ x) = Some 64" and "setup_word (off + 10) (h @ x) = Some n"
    and "setup_word (off + 12) (h @ x) = Some 0"
proof -
  define a where "a = ncm_nth off sequence n @ replicate (off - 12) nul"
  have a: "length a = off" using assms(1) by (simp add: a_def)
  have h: "h = a @ ncm_table n @ replicate (48 - off) nul" using ncm_headers_eq [OF assms(1,2)] assms(4) by (simp add: a_def)
  show "length h = 64" using assms(2) a by (simp add: h)
  show "read_bytes 0 4 (h @ x) = Some NCM_NTH_SIG" using assms(2) by (simp add: h a_def read_bytes_def ncm_nth_def)
  have "h @ x = (NCM_NTH_SIG @ le16 12 @ le16 sequence @ le16 (64 + n)) @ le16 off @ (replicate (off - 12) nul @ ncm_table n @
      replicate (48 - off) nul @ x)" by (simp add: h a_def ncm_nth_def)
  then show "setup_word 10 (h @ x) = Some off" using assms(2)
    by (intro setup_word_at) (simp_all only: piece_at, simp_all)
  show "read_bytes off 4 (h @ x) = Some NCM_NDP_SIG0" using a by (simp add: h read_bytes_def ncm_table_def)
  have t: "setup_word (off + i) (h @ x) = Some k"
    if "ncm_table n = u @ le16 k @ w" "length u = i" "k < 2 ^ 16" for u k w i
  proof (rule setup_word_at [OF _ that(3)])
    have "h @ x = (a @ u) @ le16 k @ (w @ replicate (48 - off) nul @ x)" by (simp add: h that(1))
    then show "take 2 (drop (off + i) (h @ x)) = le16 k" using a that(2) by (simp only: piece_at length_append length_le16)
  qed
  show "setup_word (off + 6) (h @ x) = Some 0"
    by (rule t [of "NCM_NDP_SIG0 @ le16 16"]) (simp_all add: ncm_table_def)
  show "setup_word (off + 8) (h @ x) = Some 64"
    by (rule t [of "NCM_NDP_SIG0 @ le16 16 @ le16 0"]) (simp_all add: ncm_table_def)
  show "setup_word (off + 10) (h @ x) = Some n"
    by (rule t [of "NCM_NDP_SIG0 @ le16 16 @ le16 0 @ le16 64"]) (use assms(3) in \<open>simp_all add: ncm_table_def\<close>)
  show "setup_word (off + 12) (h @ x) = Some 0"
    by (rule t [of "NCM_NDP_SIG0 @ le16 16 @ le16 0 @ le16 64 @ le16 n"]) (simp_all add: ncm_table_def)
qed

section \<open>Accepting a frame\<close>

lemma with_mem_result: "f (eth_mem s) = Some (r, \<sigma>) \<Longrightarrow> \<exists>s'. with_mem f s = Some (r, s') \<and> eth_mem s' = \<sigma>"
  by (simp add: with_mem_def)

text \<open>A frame there is room for is accepted.\<close>

lemma push_frame_room:
  assumes v: "eth_devs s d = Some v" "rx_ring v = Some b" and good: "ring_good b s" and x: "0 < length x" "length x < 2 ^ 16"
    and room: "roomy b (length x + 2) (eth_mem s)"
  obtains s' where "eth_ring_push_frame d x s = Some (True, s')"
proof -
  have n: "length x + 2 < 2 ^ 23" "length (frame_header (length x)) < 2 ^ 23" using x by simp_all
  from reserve_room [OF good [unfolded ring_good_def] room] obtain \<sigma>1 where
    \<sigma>1: "mem_buffer_reserve (Some b) (length x + 2) (eth_mem s) = Some (True, \<sigma>1)" "room_used b 0 (eth_mem s) \<sigma>1" by auto
  from with_mem_result [of "mem_buffer_reserve (Some b) (length x + 2)", OF \<sigma>1(1)] dq.reserve [OF good n(1)] obtain s1 where
    s1: "with_mem (mem_buffer_reserve (Some b) (length x + 2)) s = Some (True, s1)" "eth_mem s1 = \<sigma>1" "ring_good b s1" by auto
  have r1: "roomy b (length x + 2) (eth_mem s1)" using \<sigma>1(2) room s1(2) by (simp add: room_used_def)
  then have "roomy b (length (frame_header (length x))) (eth_mem s1)" by (simp add: roomy_def Let_def) linarith
  from push_room [OF s1(3) [unfolded ring_good_def] this] obtain \<sigma>2 where
    \<sigma>2: "mem_buffer_push (Some b) (frame_header (length x)) (eth_mem s1) = Some (True, \<sigma>2)" "room_used b 2 (eth_mem s1) \<sigma>2" by auto
  from with_mem_result [of "mem_buffer_push (Some b) (frame_header (length x))", OF \<sigma>2(1)] dq.push [OF s1(3) n(2)] obtain s2 where
    s2: "with_mem (mem_buffer_push (Some b) (frame_header (length x))) s1 = Some (True, s2)" "eth_mem s2 = \<sigma>2" "ring_good b s2" by auto
  have "roomy b (length x) (eth_mem s2)" using \<sigma>2(2) r1 s2(2) by (simp add: room_used_def add.commute)
  from push_room [OF s2(3) [unfolded ring_good_def] this x(1)] obtain \<sigma>3 where
    \<sigma>3: "mem_buffer_push (Some b) x (eth_mem s2) = Some (True, \<sigma>3)" by blast
  from with_mem_result [of "mem_buffer_push (Some b) x", OF \<sigma>3] obtain s3 where
    s3: "with_mem (mem_buffer_push (Some b) x) s2 = Some (True, s3)" by blast
  show thesis using that v x(1) s1(1) s2(1) s3 by (simp add: eth_ring_push_frame_def)
qed

section \<open>Receiving\<close>

lemma push_frame_devs:
  assumes "eth_ring_push_frame d x s = Some (ok, s')"
  shows "same_devs (eth_devs s) (eth_devs s')"
proof -
  have refl: "same_devs (eth_devs s) (eth_devs s)" by (simp add: same_devs_def)
  show ?thesis using assms refl
    by (auto simp: eth_ring_push_frame_def bind_eq_Some_conv split: if_splits
        dest!: with_mem_devs intro: same_devs_trans)
qed

text \<open>The reception of one frame packed by the headers of \<open>ncm_headers\<close>.\<close>

lemma ncm_receive_frame:
  assumes off: "12 \<le> off" "off \<le> 48" and x: "0 < length x" "length x < 2 ^ 16" and h: "ncm_headers off sequence (length x) = Some h"
    and w: "eth_devs t d = Some w" "rx_ring w = Some b" "rx_cb w \<noteq> None" "rx_buf w = h @ x @ pad" and good: "ring_good b t"
    and k: "0 < k"
  shows "\<exists>ok t1. ncm_receive_callback False k d t = Some (USB_SUCCESS, t1) \<and> ring_good b t1 \<and>
    (roomy b (length x + 2) (eth_mem t) \<longrightarrow> ok) \<and>
    (if ok then ring_bytes b t1 = ring_bytes b t @ frame x
     else ring_bytes b t1 = ring_bytes b t \<or> ring_bytes b t1 = ring_bytes b t @ frame_header (length x))"
proof -
  note hd = ncm_headers_read [OF off x(2) h]
  define t0 where "t0 = (put_dev d (w\<lparr>rx_transfer_active := False\<rparr>) t)\<lparr>ncm_rx_retries := 0\<rparr>"
  have w0: "eth_devs t0 d = Some (w\<lparr>rx_transfer_active := False\<rparr>)" "ring_good b t0" "ring_bytes b t0 = ring_bytes b t"
    using good by (simp_all add: t0_def put_dev_def ring_good_def ring_bytes_def)
  have ring: "rx_ring (w\<lparr>rx_transfer_active := False\<rparr>) = Some b" using w(2) by simp
  from push_frame_ring [OF w0(1) ring w0(2) x, unfolded w0(3)] obtain ok t1 where
    t1: "eth_ring_push_frame d x t0 = Some (ok, t1)" "ring_good b t1"
      "if ok then ring_bytes b t1 = ring_bytes b t @ frame x
       else ring_bytes b t1 = ring_bytes b t \<or> ring_bytes b t1 = ring_bytes b t @ frame_header (length x)"
    by blast
  have room: "roomy b (length x + 2) (eth_mem t) \<longrightarrow> ok"
    using push_frame_room [OF w0(1) ring w0(2) x] t1(1) by (fastforce simp: t0_def put_dev_def)
  have data: "read_bytes 64 (length x) (h @ x @ pad) = Some x" using hd(1) by (simp add: read_bytes_def)
  have e: "setup_word (off + 8 + 4 * 0) (h @ x @ pad) = Some 64" "setup_word (off + 8 + 4 * 0 + 2) (h @ x @ pad) = Some (length x)"
    "setup_word (off + 8 + 4 * u16 (0 + 1)) (h @ x @ pad) = Some 0"
    using hd(6-8) by (simp_all add: u16_def add.commute)
  have nz: "length x \<noteq> 0" using x(1) by simp
  have "datagram_loop d (h @ x @ pad) (off + 8) 0 t0 = Some (ok, t1)"
    unfolding datagram_loop.simps [of d _ _ 0] e if_not_P [OF nz] data t1(1) Option.bind.bind_lunit Let_def prod.case by (cases ok) simp_all
  then have ndp: "ndp_loop d (h @ x @ pad) off t0 = Some (True, t1)"
    using hd(4,5) by (subst ndp_loop.simps) simp
  obtain v' where v': "eth_devs t1 d = Some v'" "rx_cb v' = rx_cb (w\<lparr>rx_transfer_active := False\<rparr>)"
    using same_devs_cb [OF push_frame_devs [OF t1(1)] w0(1)] by blast
  with w(3) have "rx_cb v' \<noteq> None" by simp
  from next_rx_ring [OF v'(1) this, of NCM_RX_NTB_MAX_SIZE] obtain t2 where
    t2: "next_rx d NCM_RX_NTB_MAX_SIZE t1 = Some t2" "eth_mem t2 = eth_mem t1" by blast
  have "ncm_receive_callback False k d t = Some (USB_SUCCESS, if eth_should_schedule_rx t1 then t2 else t1)"
    using k w hd(2,3) ndp t2(1) by (simp add: ncm_receive_callback_def upd_dev_def put_dev_def t0_def Let_def)
  with t1(2,3) t2(2) room show ?thesis
    by (intro exI [of _ ok] exI [of _ "if eth_should_schedule_rx t1 then t2 else t1"]) (cases ok, simp_all add: ring_good_def ring_bytes_def)
qed

section \<open>Transmitting\<close>

text \<open>A packet in one pbuf.\<close>

lemma single_block:
  "packet h (Some a) [a] d \<longleftrightarrow> (\<exists>b. h a = Some b \<and> in_block b \<and> p_tot_len b = length d \<and> p_len b = length d \<and> p_next b = None \<and> payload b = d)"
proof (cases "h a")
  case (Some b)
  have "p_len b \<le> length d \<and> drop (p_len b) d = [] \<longleftrightarrow> p_len b = length d" by auto
  with Some show ?thesis by (simp, metis take_all order_refl)
qed simp

lemma single_write:
  assumes "packet (pb_heap s) (Some a) [a] d" and "i + length x \<le> length d"
  obtains s' where "payload_write a i x s = Some s'" and "packet (pb_heap s') (Some a) [a] (take i d @ x @ drop (i + length x) d)"
    and "\<forall>c. c \<noteq> a \<longrightarrow> pb_heap s' c = pb_heap s c"
proof -
  from assms(1) obtain b where b: "pb_heap s a = Some b" "in_block b" "p_tot_len b = length d" "p_len b = length d" "p_next b = None" "payload b = d"
    by (auto simp only: single_block)
  have "i + length x \<le> p_len b" using assms(2) b(4) by simp
  from payload_write_eq [OF b(1,2) this] obtain m where
    m: "payload_write a i x s = Some (put_pbuf a (b\<lparr>p_mem := m\<rparr>) s)" "in_block (b\<lparr>p_mem := m\<rparr>)"
      "payload (b\<lparr>p_mem := m\<rparr>) = take i (payload b) @ x @ drop (i + length x) (payload b)" by blast
  show thesis by (rule that [OF m(1)]) (use b m(2,3) assms(2) in \<open>simp_all only: single_block, simp_all add: put_pbuf_def\<close>)
qed

lemma alloc_ram:
  assumes "fresh_ok s" and "pbuf_env_ok s" and "grants s" and "n < 2 ^ 16"
  obtains a s' d where "pbuf_alloc PBUF_RAW n PBUF_RAM s = Some (Some a, s')" and "packet (pb_heap s') (Some a) [a] d" and "length d = n"
    and "pb_heap s a = None" and "\<forall>c. c \<noteq> a \<longrightarrow> pb_heap s' c = pb_heap s c"
proof -
  obtain c where c: "pb_env s (pb_calls s) n = Some c" "length c = n"
    using assms(2,3) unfolding grants_def pbuf_env_ok_def by blast
  define b where "b = pbuf_init_alloced_pbuf c 0 n n PBUF_RAM False"
  show thesis
  proof (rule that)
    show "pbuf_alloc PBUF_RAW n PBUF_RAM s =
        Some (Some (pb_fresh s), put_pbuf (pb_fresh s) b (s\<lparr>pb_calls := pb_calls s + 1, pb_fresh := pb_fresh s + 1\<rparr>))"
      using assms(4) c(1) by (simp add: pbuf_alloc_def request_def b_def wrap_def)
    show "packet (pb_heap (put_pbuf (pb_fresh s) b (s\<lparr>pb_calls := pb_calls s + 1, pb_fresh := pb_fresh s + 1\<rparr>)))
        (Some (pb_fresh s)) [pb_fresh s] c"
      using c(2) by (simp add: put_pbuf_def b_def pbuf_init_alloced_pbuf_def in_block_def payload_def)
  qed (use assms(1) c(2) in \<open>simp_all add: fresh_ok_def put_pbuf_def\<close>)
qed

lemma with_pbufs_Some:
  assumes "f (eth_pbufs s) = Some (r, pb)"
  obtains s' where "with_pbufs f s = Some (r, s')" and "eth_pbufs s' = pb" and "same_devs (eth_devs s) (eth_devs s')"
  using assms that set_mem_devs [of "eth_call Pools (s\<lparr>eth_pbufs := pb\<rparr>)"] by (simp add: with_pbufs_def Let_def)

definition ncm_offset :: "nat \<Rightarrow> nat" where
  "ncm_offset align = 12 + align - 12 mod align"

lemma ncm_offset_bounds:
  assumes "0 < align" and "align \<le> 48"
  shows "12 \<le> ncm_offset align" and "ncm_offset align \<le> 48"
proof -
  have "12 mod align < align" using assms(1) by simp
  then show "12 \<le> ncm_offset align" by (simp add: ncm_offset_def)
  show "ncm_offset align \<le> 48" using assms by (cases "align \<le> 12") (simp_all add: ncm_offset_def)
qed

text \<open>A frame goes out behind its headers.\<close>

lemma ncm_transmit_frame:
  assumes v: "eth_devs s d = Some v" "setup_word 12 (ntb_params v) = Some align" "0 < align" "align \<le> 48"
    and pk: "packet (pb_heap (eth_pbufs s)) (Some p) as x" and x: "length x \<le> ETHERNET_MTU"
    and pb: "fresh_ok (eth_pbufs s)" "pbuf_env_ok (eth_pbufs s)" "grants (eth_pbufs s)"
  obtains s' h a where "ncm_bulk_transmit d p s = Some (ERR_OK, s')" and "last (eth_log s') = Usb_out (tx_endpoint v) (h @ x) (Packet a)"
    and "ncm_headers (ncm_offset align) (ncm_sequence v) (length x) = Some h"
proof -
  note off = ncm_offset_bounds [OF v(3,4)]
  from pk obtain b0 where b0: "pb_heap (eth_pbufs s) p = Some b0" "p_tot_len b0 = length x" by (cases as) (auto split: option.splits)
  have "64 + length x < 2 ^ 16" using x by simp
  from alloc_ram [OF pb this] obtain a pb1 d1 where
    a: "pbuf_alloc PBUF_RAW (64 + length x) PBUF_RAM (eth_pbufs s) = Some (Some a, pb1)" "packet (pb_heap pb1) (Some a) [a] d1"
      "length d1 = 64 + length x" "pb_heap (eth_pbufs s) a = None" "\<forall>c. c \<noteq> a \<longrightarrow> pb_heap pb1 c = pb_heap (eth_pbufs s) c" by blast
  obtain s1 where s1: "with_pbufs (pbuf_alloc PBUF_RAW (64 + length x) PBUF_RAM) s = Some (Some a, s1)" "eth_pbufs s1 = pb1"
    "same_devs (eth_devs s) (eth_devs s1)" by (rule with_pbufs_Some [of "pbuf_alloc PBUF_RAW (64 + length x) PBUF_RAM", OF a(1)])
  obtain v1 where v1: "eth_devs s1 d = Some v1" by (rule same_devs_cb [OF s1(3) v(1)])
  obtain pb2 where pb2: "payload_write a 0 (replicate (64 + length x) nul) pb1 = Some pb2"
    "packet (pb_heap pb2) (Some a) [a] (replicate (64 + length x) nul)" "\<forall>c. c \<noteq> a \<longrightarrow> pb_heap pb2 c = pb_heap pb1 c"
    by (rule single_write [OF a(2), of 0 "replicate (64 + length x) nul"]) (simp_all add: a(3))
  obtain h where h: "ncm_headers (ncm_offset align) (ncm_sequence v) (length x) = Some h" using ncm_headers_eq [OF off] by blast
  have lh: "length h = 64" using ncm_headers_read(1) [OF off _ h] x by simp
  from pbuf_take_packet(2) [OF pb2(2), of h] lh obtain pb3 where
    pb3: "pbuf_take (Some a) h pb2 = Some (ERR_OK, pb3)" "packet (pb_heap pb3) (Some a) [a] (h @ replicate (length x) nul)"
      "\<forall>c. c \<noteq> a \<longrightarrow> pb_heap pb3 c = pb_heap pb2 c" by auto
  have "packet (pb_heap pb3) (Some p) as x = packet (pb_heap (eth_pbufs s)) (Some p) as x"
    using a(4,5) pb2(3) pb3(3) packet_live [OF pk] by (intro packet_cong) metis
  then have "pbuf_copy_partial (Some p) (length x) 0 pb3 = Some x"
    using pbuf_copy_partial_packet [of pb3 "Some p" as x "length x" 0] pk x by simp
  moreover obtain pb4 where pb4: "payload_write a 64 x pb3 = Some pb4" "packet (pb_heap pb4) (Some a) [a] (h @ x)"
    by (rule single_write [OF pb3(2), of 64 x]) (simp_all add: lh)
  moreover from pb4(2) obtain b where b: "pb_heap pb4 a = Some b" "in_block b" "p_len b = 64 + length x" "payload b = h @ x"
    using lh by (auto simp only: single_block length_append)
  then have "payload_read b 0 (64 + length x) = Some (h @ x)" using payload_read_eq [OF b(2), of 0 "64 + length x"] lh by simp
  moreover have "u16 (12 + align - 12 mod align) = ncm_offset align" using off(2) by (simp add: ncm_offset_def u16_def)
  ultimately have "ncm_bulk_transmit d p s = Some (ERR_OK, eth_call (Usb_out (tx_endpoint v) (h @ x) (Packet a))
      ((put_dev d (v1\<lparr>ncm_sequence := u16 (ncm_sequence v1 + 1)\<rparr>) s1)\<lparr>eth_pbufs := pb4\<rparr>))"
    using v b0 x s1(1,2) v1 pb2(1) h pb3(1) b(1)
    by (simp add: ncm_bulk_transmit_def Let_def upd_dev_def schedule_out_def)
  from that [OF this _ h] show thesis by simp
qed

section \<open>There and back\<close>

definition ncm_sender :: eth_state where
  "ncm_sender = (put_dev 0 (example_device\<lparr>ntb_params := replicate 12 nul @ le16 4\<rparr>) (example_eth 4096))\<lparr>eth_pbufs := two_pbufs\<rparr>"

text \<open>C13. A frame survives the network control model: the transfer block \<open>ncm_bulk_transmit\<close> sends for a
  packet, however its pbufs are cut, makes \<open>ncm_receive_callback\<close> append exactly that frame to the
  receive ring of the other side, whatever follows it in the receive buffer, if the alignment the
  device asks for is at most 48 and the ring has room.\<close>

theorem ncm_roundtrip:
  assumes "eth_devs s d = Some v" and "setup_word 12 (ntb_params v) = Some align" and "0 < align" and "align \<le> 48"
    and "packet (pb_heap (eth_pbufs s)) (Some p) as x" and "0 < length x" and "length x \<le> ETHERNET_MTU"
    and "fresh_ok (eth_pbufs s)" and "pbuf_env_ok (eth_pbufs s)" and "grants (eth_pbufs s)"
    and "eth_devs t e = Some w" and "rx_ring w = Some b" and "rx_cb w \<noteq> None" and "ring_good b t" and "roomy b (length x + 2) (eth_mem t)"
  shows "\<exists>s' ntb a. ncm_bulk_transmit d p s = Some (ERR_OK, s') \<and> last (eth_log s') = Usb_out (tx_endpoint v) ntb (Packet a) \<and>
    (\<forall>pad. \<exists>t'. ncm_receive_callback False (length ntb) e (put_dev e (w\<lparr>rx_buf := ntb @ pad\<rparr>) t) = Some (USB_SUCCESS, t') \<and>
       ring_good b t' \<and> ring_bytes b t' = ring_bytes b t @ frame x)"
proof -
  obtain s' h a where s': "ncm_bulk_transmit d p s = Some (ERR_OK, s')" "last (eth_log s') = Usb_out (tx_endpoint v) (h @ x) (Packet a)"
    and h: "ncm_headers (ncm_offset align) (ncm_sequence v) (length x) = Some h"
    by (rule ncm_transmit_frame [OF assms(1-5,7-10)])
  note off = ncm_offset_bounds [OF assms(3,4)]
  have "\<exists>t'. ncm_receive_callback False (length (h @ x)) e (put_dev e (w\<lparr>rx_buf := (h @ x) @ pad\<rparr>) t) = Some (USB_SUCCESS, t') \<and>
     ring_good b t' \<and> ring_bytes b t' = ring_bytes b t @ frame x" for pad
  proof -
    define t0 where "t0 = put_dev e (w\<lparr>rx_buf := (h @ x) @ pad\<rparr>) t"
    have t0: "eth_devs t0 e = Some (w\<lparr>rx_buf := h @ x @ pad\<rparr>)" "ring_good b t0" "ring_bytes b t0 = ring_bytes b t" "eth_mem t0 = eth_mem t"
      using assms(14) by (simp_all add: t0_def put_dev_def ring_good_def ring_bytes_def)
    have "length x < 2 ^ 16" "0 < length (h @ x)" using assms(6,7) by simp_all
    from ncm_receive_frame [OF off assms(6) this(1) h t0(1) _ _ _ t0(2) this(2)] t0(3,4) assms(12,13,15) show ?thesis
      unfolding t0_def [symmetric] by auto
  qed
  with s' show ?thesis by blast
qed

theorem ncm_roundtrip_witness:
  "\<exists>s' ntb a t'. ncm_bulk_transmit 0 0 ncm_sender = Some (ERR_OK, s') \<and> last (eth_log s') = Usb_out 0 ntb (Packet a) \<and>
     ncm_receive_callback False (length ntb) 0 (put_dev 0 (example_device\<lparr>rx_buf := ntb @ ''rest''\<rparr>) (example_eth 4096)) = Some (USB_SUCCESS, t') \<and>
     ring_bytes 0 t' = [CHR 0x00, CHR 0x07] @ ''abcdefg''"
proof -
  define v where "v = example_device\<lparr>ntb_params := replicate 12 nul @ le16 4\<rparr>"
  have v: "eth_devs ncm_sender 0 = Some v" "setup_word 12 (ntb_params v) = Some 4" "tx_endpoint v = 0" "(0::nat) < 4" "(4::nat) \<le> 48"
    using setup_word_at [of 12 "replicate 12 nul @ le16 4" 4] by (simp_all add: ncm_sender_def put_dev_def v_def example_device_def no_device_def)
  have p: "packet (pb_heap (eth_pbufs ncm_sender)) (Some 0) [0, 1] ''abcdefg''" "0 < length ''abcdefg''" "length ''abcdefg'' \<le> ETHERNET_MTU"
    "fresh_ok (eth_pbufs ncm_sender)" "pbuf_env_ok (eth_pbufs ncm_sender)" "grants (eth_pbufs ncm_sender)"
    using two_pbufs_packet by (simp_all add: ncm_sender_def fresh_ok_def pbuf_env_ok_def grants_def two_pbufs_def no_pbufs_def)
  have r: "eth_devs (example_eth 4096) 0 = Some example_device" "rx_ring example_device = Some 0" "rx_cb example_device \<noteq> None"
    "ring_good 0 (example_eth 4096)" "ring_bytes 0 (example_eth 4096) = []" "roomy 0 (length ''abcdefg'' + 2) (eth_mem (example_eth 4096))"
    using example_eth_ok [of 4096] by (simp_all add: example_eth_def drain_ok_def example_device_def roomy_def example_ring_defs
        mem_buffer_set_drain_def mem_buffer_set_owner_def threshold_bytes_def)
  have f: "frame ''abcdefg'' = [CHR 0x00, CHR 0x07] @ ''abcdefg''" by (simp add: frame_def frame_header_def char_of_def bit_0)
  from ncm_roundtrip [OF v(1,2,4,5) p r(1-4,6), unfolded v(3) r(5) f append_Nil] show ?thesis by blast
qed

end
