(* ===== verification/Lwip_Def.thy ===== *)
theory Lwip_Def
  imports Prelude
begin

text \<open>
  Common functions of lwIP, \<^verbatim>\<open>src/src/core/def.c\<close>: byte order, string comparison and search, number
  output and constant-time comparison. The target is little-endian, so the byte order functions
  swap. A string is the memory from the pointer on; memory past the end of the list reads as the
  terminator.
\<close>

unbundle bit_operations_syntax

section \<open>Byte order\<close>

definition lwip_htons :: "u16 \<Rightarrow> u16" where
  "lwip_htons n = push_bit 8 (n AND 0x00ff) OR drop_bit 8 (n AND 0xff00)"

definition lwip_htonl :: "u32 \<Rightarrow> u32" where
  "lwip_htonl n = push_bit 24 (n AND 0x000000ff) OR push_bit 8 (n AND 0x0000ff00) OR
     drop_bit 8 (n AND 0x00ff0000) OR drop_bit 24 (n AND 0xff000000)"

lemma low_byte_mask: "n AND 0xff = take_bit 8 n" for n :: "'a::len word"
  by (simp add: take_bit_eq_mask mask_eq_exp_minus_1)

lemma lwip_htons_bits: "lwip_htons n = push_bit 8 (take_bit 8 n) OR drop_bit 8 n"
proof -
  have "drop_bit 8 (n AND 0xff00) = take_bit 8 (drop_bit 8 n)" by (simp add: drop_bit_and low_byte_mask)
  also have "\<dots> = drop_bit 8 n" by (rule bit_word_eqI) (auto simp: bit_simps dest: bit_imp_le_length)
  finally show ?thesis by (simp add: lwip_htons_def low_byte_mask)
qed

lemma unat_lwip_htons: "unat (lwip_htons n) = unat n mod 256 * 256 + unat n div 256"
proof -
  have d: "push_bit 8 (take_bit 8 n) AND drop_bit 8 n = 0"
    by (rule bit_word_eqI) (auto simp: bit_simps dest: bit_imp_le_length)
  have b: "unat n < 65536" using unsigned_less [of n, where ?'a = nat] by simp
  have "unat (push_bit 8 (take_bit 8 n)) = unat n mod 256 * 256"
    unfolding unsigned_push_bit_eq unsigned_take_bit_eq by (simp add: push_bit_eq_mult take_bit_eq_mod)
  moreover have "unat (drop_bit 8 n) = unat n div 256"
    unfolding unsigned_drop_bit_eq using b by (simp add: drop_bit_eq_div take_bit_eq_mod)
  ultimately have "unat (push_bit 8 (take_bit 8 n)) + unat (drop_bit 8 n) = unat n mod 256 * 256 + unat n div 256"
    by simp
  moreover from this b have "unat (push_bit 8 (take_bit 8 n)) + unat (drop_bit 8 n) < 2 ^ LENGTH(16)" by simp
  ultimately show ?thesis
    unfolding lwip_htons_bits disjunctive_add_eq_or [OF d, symmetric] by (simp add: unat_add_lem [THEN iffD1])
qed

lemma lwip_htons_twice [simp]: "lwip_htons (lwip_htons n) = n"
proof (rule word_unat_eq_iff [THEN iffD2])
  have "unat n < 65536" using unsigned_less [of n, where ?'a = nat] by simp
  then show "unat (lwip_htons (lwip_htons n)) = unat n" by (simp add: unat_lwip_htons)
qed

text \<open>The octets of a 32-bit word, in the order they have in memory.\<close>

definition octet :: "nat \<Rightarrow> u32 \<Rightarrow> u32" where
  "octet i n = take_bit 8 (drop_bit (8 * i) n)"

lemma byte_mask: "n AND push_bit k (mask 8) = push_bit k (take_bit 8 (drop_bit k n))" for n :: u32
  by (rule bit_word_eqI) (auto simp: bit_simps)

lemma lwip_htonl_octets:
  "lwip_htonl n = push_bit 24 (octet 0 n) OR push_bit 16 (octet 1 n) OR push_bit 8 (octet 2 n) OR octet 3 n"
proof -
  have m: "(0xff :: u32) = push_bit 0 (mask 8)" "(0xff00 :: u32) = push_bit 8 (mask 8)"
    "(0xff0000 :: u32) = push_bit 16 (mask 8)" "(0xff000000 :: u32) = push_bit 24 (mask 8)"
    by (simp_all add: mask_eq_exp_minus_1)
  show ?thesis unfolding lwip_htonl_def m byte_mask octet_def
    by (rule bit_word_eqI) (auto simp: bit_simps)
qed

lemma octet_htonl:
  "octet 0 (lwip_htonl n) = octet 3 n" "octet 1 (lwip_htonl n) = octet 2 n"
  "octet 2 (lwip_htonl n) = octet 1 n" "octet 3 (lwip_htonl n) = octet 0 n"
  unfolding lwip_htonl_octets octet_def
  by (rule bit_word_eqI, auto simp: bit_simps)+

lemma octets_eqI: "(\<And>i. i < 4 \<Longrightarrow> octet i m = octet i n) \<Longrightarrow> m = n"
proof (rule bit_word_eqI)
  fix k assume *: "\<And>i. i < 4 \<Longrightarrow> octet i m = octet i n" and "k < LENGTH(32)"
  then have "octet (k div 8) m = octet (k div 8) n" by (intro *) simp
  then have "bit (octet (k div 8) m) (k mod 8) = bit (octet (k div 8) n) (k mod 8)" by simp
  then show "bit m k = bit n k" by (simp add: octet_def bit_simps)
qed

lemma less_4_cases: "i < 4 \<Longrightarrow> i = 0 \<or> i = 1 \<or> i = 2 \<or> i = (3 :: nat)"
  by arith

lemma lwip_htonl_twice [simp]: "lwip_htonl (lwip_htonl n) = n"
  by (rule octets_eqI) (auto simp: octet_htonl dest!: less_4_cases simp del: One_nat_def)

section \<open>Strings\<close>

text \<open>\<open>c | 0x20\<close>.\<close>

definition downcase :: "byte \<Rightarrow> nat" where
  "downcase c = or (code c) 0x20"

definition same_letter :: "byte \<Rightarrow> byte \<Rightarrow> bool" where
  "same_letter c1 c2 \<longleftrightarrow> c1 = c2 \<or>
     (97 \<le> downcase c1 \<and> downcase c1 \<le> 122 \<and> downcase c1 = downcase c2)"

text \<open>The loops stop at the terminator of the first string, which the second one has to have at the
  same place for the comparison to come that far.\<close>

fun lwip_stricmp :: "bytes \<Rightarrow> bytes \<Rightarrow> nat" where
  "lwip_stricmp [] s2 = (if same_letter nul (deref s2) then 0 else 1)"
| "lwip_stricmp (c1 # s1) s2 =
     (if \<not> same_letter c1 (deref s2) then 1 else if c1 = nul then 0 else lwip_stricmp s1 (tl s2))"

text \<open>The length is decremented before it is tested: a length of 0 wraps around.\<close>

fun strnicmp_loop :: "bytes \<Rightarrow> bytes \<Rightarrow> nat \<Rightarrow> nat" where
  "strnicmp_loop [] s2 len = (if same_letter nul (deref s2) then 0 else 1)"
| "strnicmp_loop (c1 # s1) s2 len =
     (if \<not> same_letter c1 (deref s2) then 1
      else let len = wrap (len + 2 ^ 24 - 1)
           in if len \<noteq> 0 \<and> c1 \<noteq> nul then strnicmp_loop s1 (tl s2) len else 0)"

definition lwip_strnicmp :: "bytes \<Rightarrow> bytes \<Rightarrow> nat \<Rightarrow> nat" where
  "lwip_strnicmp s1 s2 len = strnicmp_loop s1 s2 len"

text \<open>The searches: \<open>i\<close> is the offset of the pointer in the buffer. The result is an offset.\<close>

fun strnstr_loop :: "bytes \<Rightarrow> bytes \<Rightarrow> nat \<Rightarrow> nat \<Rightarrow> nat option" where
  "strnstr_loop [] token n i = None"
| "strnstr_loop (c # p) token n i =
     (if c = nul \<or> n < i + strlen token then None
      else if c = deref token \<and> strncmp_eq (c # p) token (strlen token) then Some i
      else strnstr_loop p token n (i + 1))"

definition lwip_strnstr :: "bytes \<Rightarrow> bytes \<Rightarrow> nat \<Rightarrow> nat option" where
  "lwip_strnstr buffer token n = (if strlen token = 0 then Some 0 else strnstr_loop buffer token n 0)"

fun strnistr_loop :: "bytes \<Rightarrow> bytes \<Rightarrow> nat \<Rightarrow> nat \<Rightarrow> nat option" where
  "strnistr_loop [] token n i = None"
| "strnistr_loop (c # p) token n i =
     (if c = nul \<or> n < i + strlen token then None
      else if lwip_strnicmp (c # p) token (strlen token) = 0 then Some i
      else strnistr_loop p token n (i + 1))"

definition lwip_strnistr :: "bytes \<Rightarrow> bytes \<Rightarrow> nat \<Rightarrow> nat option" where
  "lwip_strnistr buffer token n = (if strlen token = 0 then Some 0 else strnistr_loop buffer token n 0)"

definition lower :: "byte \<Rightarrow> nat" where
  "lower c = (if 65 \<le> code c \<and> code c \<le> 90 then code c + 32 else code c)"

lemma downcase_bit: "downcase c = (if odd (code c div 32) then code c else code c + 32)"
proof -
  have "downcase c = set_bit 5 (code c)" by (simp add: downcase_def set_bit_eq_or)
  then show ?thesis by (simp add: set_bit_eq bit_iff_odd)
qed

lemma downcase_cases:
  obtains "code c < 32" "downcase c = code c + 32" | "32 \<le> code c" "code c < 64" "downcase c = code c"
  | "64 \<le> code c" "code c < 96" "downcase c = code c + 32" | "96 \<le> code c" "code c < 128" "downcase c = code c"
  | "128 \<le> code c" "128 \<le> downcase c"
proof -
  consider "code c < 32" | "32 \<le> code c" "code c < 64" | "64 \<le> code c" "code c < 96" | "96 \<le> code c" "code c < 128"
    | "128 \<le> code c" by linarith
  then show thesis
  proof cases
    case 1 then show thesis using that(1) by (simp add: downcase_bit)
  next
    case 2 then have "code c div 32 = 1" by (simp add: div_nat_eqI)
    with 2 show thesis using that(2) by (simp add: downcase_bit)
  next
    case 3 then have "code c div 32 = 2" by (simp add: div_nat_eqI)
    with 3 show thesis using that(3) by (simp add: downcase_bit)
  next
    case 4 then have "code c div 32 = 3" by (simp add: div_nat_eqI)
    with 4 show thesis using that(4) by (simp add: downcase_bit)
  next
    case 5 then show thesis using that(5) by (simp add: downcase_bit)
  qed
qed

lemma letter_ranges: "97 \<le> downcase c \<and> downcase c \<le> 122 \<longleftrightarrow> 65 \<le> code c \<and> code c \<le> 90 \<or> 97 \<le> code c \<and> code c \<le> 122"
  by (rule downcase_cases [of c]) auto

lemma lower_letter: "97 \<le> downcase c \<and> downcase c \<le> 122 \<Longrightarrow> lower c = downcase c"
  by (rule downcase_cases [of c]) (auto simp: lower_def)

lemma same_letter_lower: "same_letter c1 c2 \<longleftrightarrow> lower c1 = lower c2"
proof
  assume "same_letter c1 c2"
  then show "lower c1 = lower c2" using lower_letter [of c1] lower_letter [of c2] by (auto simp: same_letter_def)
next
  assume *: "lower c1 = lower c2"
  show "same_letter c1 c2"
  proof (cases "c1 = c2")
    case False
    then have "code c1 \<noteq> code c2" by simp
    with * have "97 \<le> downcase c1 \<and> downcase c1 \<le> 122" "97 \<le> downcase c2 \<and> downcase c2 \<le> 122"
      unfolding letter_ranges by (auto simp: lower_def split: if_splits)
    with * show ?thesis using lower_letter [of c1] lower_letter [of c2] by (simp add: same_letter_def)
  qed (simp add: same_letter_def)
qed

lemma lower_nul: "lower c = lower nul \<longleftrightarrow> c = nul"
proof -
  have "code c = 0 \<longleftrightarrow> c = nul" using of_char_eq_iff [of c nul, where ?'a = nat] by simp
  then show ?thesis by (cases "c = nul") (simp_all add: lower_def)
qed

text \<open>Two strings compare as equal when they are up to the case of their letters.\<close>

lemma lwip_stricmp_lower: "lwip_stricmp s1 s2 = 0 \<longleftrightarrow> map lower (cstr s1) = map lower (cstr s2)"
proof (induction s1 s2 rule: lwip_stricmp.induct)
  case (1 s2)
  have "lower nul = lower (deref s2) \<longleftrightarrow> deref s2 = nul" using lower_nul [of "deref s2"] by metis
  then show ?case by (cases s2) (auto simp: same_letter_lower)
next
  case (2 c1 s1 s2)
  show ?case
  proof (cases "lower c1 = lower (deref s2)")
    case True
    then have "c1 = nul \<longleftrightarrow> deref s2 = nul" using lower_nul [of c1] lower_nul [of "deref s2"] by simp
    with True 2 show ?thesis by (cases s2) (simp_all add: same_letter_lower)
  next
    case False
    then have "\<not> (c1 = nul \<and> deref s2 = nul)" by auto
    with False show ?thesis by (cases s2) (auto simp: same_letter_lower)
  qed
qed

section \<open>Numbers\<close>

text \<open>The digits are written from the end of the buffer: \<open>tmp\<close> is the offset written last, and the loop
  ends when the number is used up or the sign is reached.\<close>

fun itoa_loop :: "nat \<Rightarrow> nat \<Rightarrow> nat \<Rightarrow> bytes \<Rightarrow> nat \<times> nat \<times> bytes" where
  "itoa_loop n tmp res buf =
     (if n \<noteq> 0 \<and> res < tmp
      then itoa_loop (n div 10) (tmp - 1) res (buf[tmp - 1 := char_of (48 + n mod 10)])
      else (n, tmp, buf))"

definition lwip_itoa :: "bytes \<Rightarrow> nat \<Rightarrow> int \<Rightarrow> bytes option" where
  "lwip_itoa result bufsize number =
     (if length result < bufsize \<or> number = - (2 ^ 23) then None
      else if bufsize < 2 then Some (if bufsize = 1 then result[0 := nul] else result)
      else let buf = (if number < 0 then result[0 := CHR ''-''] else result);
               res = (if number < 0 then 1 else 0);
               buf = buf[bufsize - 1 := nul];
               (n, tmp, buf) = itoa_loop (nat \<bar>number\<bar>) (bufsize - 1) res buf
           in if n \<noteq> 0 then Some (buf[0 := nul])
              else if buf ! tmp = nul then store_bytes res [CHR ''0'', nul] buf
              else store_bytes res (take (bufsize - tmp) (drop tmp buf)) buf)"

section \<open>Comparison in constant time\<close>

fun consttime_loop :: "bytes \<Rightarrow> bytes \<Rightarrow> nat \<Rightarrow> nat" where
  "consttime_loop (a # s1) (b # s2) ret = consttime_loop s1 s2 (or ret (xor (code a) (code b)))"
| "consttime_loop s1 s2 ret = ret"

definition lwip_memcmp_consttime :: "bytes \<Rightarrow> bytes \<Rightarrow> nat \<Rightarrow> nat option" where
  "lwip_memcmp_consttime s1 s2 len = do {
     a \<leftarrow> read_bytes 0 len s1;
     b \<leftarrow> read_bytes 0 len s2;
     Some (consttime_loop a b 0) }"

lemma consttime_loop_0: "length a = length b \<Longrightarrow> consttime_loop a b r = 0 \<longleftrightarrow> r = 0 \<and> a = b"
proof (induction a b r rule: consttime_loop.induct)
  case (1 a s1 b s2 ret)
  have "a = b" if "code a XOR code b = 0"
  proof -
    have "code a = (code a XOR code b) XOR code b" by (simp add: xor.assoc)
    with that show "a = b" by simp
  qed
  with 1 show ?case by (auto simp: or_eq_0_iff)
qed auto

lemma lwip_memcmp_consttime_eq:
  assumes "len \<le> length s1" and "len \<le> length s2"
  shows "lwip_memcmp_consttime s1 s2 len = Some 0 \<longleftrightarrow> take len s1 = take len s2"
  using assms consttime_loop_0 [of "take len s1" "take len s2" 0] by (simp add: lwip_memcmp_consttime_def read_bytes_def)

end
