(* ===== verification/Inet_Chksum.thy ===== *)
theory Inet_Chksum
  imports Lwip_Def Pbuf_Alloc
begin

text \<open>
  The Internet checksum, \<^verbatim>\<open>src/src/core/inet_chksum.c\<close>: the sum of a byte string, of a chain of
  packet buffers and of a chain with the pseudo header of TCP and UDP. The configuration selects
  the first of the three summing routines. The reference is the sum of the 16-bit big-endian words
  of the whole packet with end-around carry, wherever the packet is cut.
\<close>

section \<open>Sums\<close>

definition FOLD_U32T :: "u32 \<Rightarrow> u32" where
  "FOLD_U32T u = drop_bit 16 u + (u AND 0x0000ffff)"

definition SWAP_BYTES_IN_WORD :: "u32 \<Rightarrow> u32" where
  "SWAP_BYTES_IN_WORD w = push_bit 8 (w AND 0xff) OR drop_bit 8 (w AND 0xff00)"

fun sum_octets :: "u32 \<Rightarrow> bytes \<Rightarrow> u32" where
  "sum_octets acc (a # b # d) = sum_octets (acc + ucast (push_bit 8 (of_nat (code a)) OR of_nat (code b) :: u16)) d"
| "sum_octets acc [a] = acc + ucast (push_bit 8 (of_nat (code a)) :: u16)"
| "sum_octets acc [] = acc"

definition lwip_standard_chksum :: "bytes \<Rightarrow> u16" where
  "lwip_standard_chksum d =
     (let acc = sum_octets 0 d;
          acc = drop_bit 16 acc + (acc AND 0x0000ffff);
          acc = (if acc AND 0xffff0000 \<noteq> 0 then drop_bit 16 acc + (acc AND 0x0000ffff) else acc)
      in lwip_htons (ucast acc))"

section \<open>Checksums of chains\<close>

partial_function (option) pseudo_loop :: "nat option \<Rightarrow> u32 \<Rightarrow> bool \<Rightarrow> pbufs \<Rightarrow> (u32 \<times> bool) option" where
  "pseudo_loop q acc swapped s = (case q of
      None \<Rightarrow> Some (acc, swapped)
    | Some a \<Rightarrow> do {
        b \<leftarrow> pb_heap s a;
        d \<leftarrow> payload_read b 0 (p_len b);
        let acc = FOLD_U32T (acc + ucast (lwip_standard_chksum d));
        if odd (p_len b) then pseudo_loop (p_next b) (SWAP_BYTES_IN_WORD acc) (\<not> swapped) s
        else pseudo_loop (p_next b) acc swapped s })"

definition pseudo_finish :: "nat \<Rightarrow> nat \<Rightarrow> u32 \<times> bool \<Rightarrow> u16" where
  "pseudo_finish proto proto_len r =
     (let (acc, swapped) = r;
          acc = (if swapped then SWAP_BYTES_IN_WORD acc else acc);
          acc = acc + ucast (lwip_htons (of_nat proto));
          acc = acc + ucast (lwip_htons (of_nat proto_len));
          acc = FOLD_U32T acc;
          acc = FOLD_U32T acc
      in ucast (NOT (acc AND 0xffff)))"

definition inet_cksum_pseudo_base :: "nat option \<Rightarrow> nat \<Rightarrow> nat \<Rightarrow> u32 \<Rightarrow> pbufs \<Rightarrow> u16 option" where
  "inet_cksum_pseudo_base p proto proto_len acc s = do {
     r \<leftarrow> pseudo_loop p acc False s;
     Some (pseudo_finish proto proto_len r) }"

definition add_addr :: "u32 \<Rightarrow> u32 \<Rightarrow> u32" where
  "add_addr acc addr = acc + (addr AND 0xffff) + (drop_bit 16 addr AND 0xffff)"

definition inet_chksum_pseudo :: "nat option \<Rightarrow> nat \<Rightarrow> nat \<Rightarrow> u32 \<Rightarrow> u32 \<Rightarrow> pbufs \<Rightarrow> u16 option" where
  "inet_chksum_pseudo p proto proto_len src dest s =
     inet_cksum_pseudo_base p proto proto_len (FOLD_U32T (FOLD_U32T (add_addr (add_addr 0 src) dest))) s"

text \<open>An IPv6 address is an array of four words.\<close>

definition add_addrs6 :: "u32 list \<Rightarrow> u32 list \<Rightarrow> u32" where
  "add_addrs6 src dest = fold (\<lambda>i acc. add_addr (add_addr acc (src ! i)) (dest ! i)) [0..<4] 0"

definition ip6_chksum_pseudo :: "nat option \<Rightarrow> nat \<Rightarrow> nat \<Rightarrow> u32 list \<Rightarrow> u32 list \<Rightarrow> pbufs \<Rightarrow> u16 option" where
  "ip6_chksum_pseudo p proto proto_len src dest s =
     inet_cksum_pseudo_base p proto proto_len (FOLD_U32T (FOLD_U32T (add_addrs6 src dest))) s"

text \<open>An address is a union of both kinds with a tag; the IPv4 address is the first word.\<close>

record ip_addr =
  ip_words :: "u32 list"
  ip_is_v6 :: bool

definition ip_chksum_pseudo :: "nat option \<Rightarrow> nat \<Rightarrow> nat \<Rightarrow> ip_addr \<Rightarrow> ip_addr \<Rightarrow> pbufs \<Rightarrow> u16 option" where
  "ip_chksum_pseudo p proto proto_len src dest s =
     (if ip_is_v6 dest then ip6_chksum_pseudo p proto proto_len (ip_words src) (ip_words dest) s
      else inet_chksum_pseudo p proto proto_len (ip_words src ! 0) (ip_words dest ! 0) s)"

text \<open>The sum over the first bytes only, for UDP-Lite.\<close>

partial_function (option) partial_loop :: "nat option \<Rightarrow> nat \<Rightarrow> u32 \<Rightarrow> bool \<Rightarrow> pbufs \<Rightarrow> (u32 \<times> bool) option" where
  "partial_loop q chksum_len acc swapped s = (case q of
      None \<Rightarrow> Some (acc, swapped)
    | Some a \<Rightarrow>
        if chksum_len = 0 then Some (acc, swapped)
        else do {
          b \<leftarrow> pb_heap s a;
          let chklen = (if chksum_len < p_len b then chksum_len else p_len b);
          d \<leftarrow> payload_read b 0 chklen;
          let acc = FOLD_U32T (acc + ucast (lwip_standard_chksum d));
          if odd (p_len b) then partial_loop (p_next b) (chksum_len - chklen) (SWAP_BYTES_IN_WORD acc) (\<not> swapped) s
          else partial_loop (p_next b) (chksum_len - chklen) acc swapped s })"

definition inet_cksum_pseudo_partial_base :: "nat option \<Rightarrow> nat \<Rightarrow> nat \<Rightarrow> nat \<Rightarrow> u32 \<Rightarrow> pbufs \<Rightarrow> u16 option" where
  "inet_cksum_pseudo_partial_base p proto proto_len chksum_len acc s = do {
     r \<leftarrow> partial_loop p chksum_len acc False s;
     Some (pseudo_finish proto proto_len r) }"

definition inet_chksum_pseudo_partial :: "nat option \<Rightarrow> nat \<Rightarrow> nat \<Rightarrow> nat \<Rightarrow> u32 \<Rightarrow> u32 \<Rightarrow> pbufs \<Rightarrow> u16 option" where
  "inet_chksum_pseudo_partial p proto proto_len chksum_len src dest s =
     inet_cksum_pseudo_partial_base p proto proto_len chksum_len
       (FOLD_U32T (FOLD_U32T (add_addr (add_addr 0 src) dest))) s"

definition ip6_chksum_pseudo_partial :: "nat option \<Rightarrow> nat \<Rightarrow> nat \<Rightarrow> nat \<Rightarrow> u32 list \<Rightarrow> u32 list \<Rightarrow> pbufs \<Rightarrow> u16 option" where
  "ip6_chksum_pseudo_partial p proto proto_len chksum_len src dest s =
     inet_cksum_pseudo_partial_base p proto proto_len chksum_len (FOLD_U32T (FOLD_U32T (add_addrs6 src dest))) s"

definition ip_chksum_pseudo_partial :: "nat option \<Rightarrow> nat \<Rightarrow> nat \<Rightarrow> nat \<Rightarrow> ip_addr \<Rightarrow> ip_addr \<Rightarrow> pbufs \<Rightarrow> u16 option" where
  "ip_chksum_pseudo_partial p proto proto_len chksum_len src dest s =
     (if ip_is_v6 dest then ip6_chksum_pseudo_partial p proto proto_len chksum_len (ip_words src) (ip_words dest) s
      else inet_chksum_pseudo_partial p proto proto_len chksum_len (ip_words src ! 0) (ip_words dest ! 0) s)"

text \<open>The checksum of a byte string and the one of a chain without pseudo header.\<close>

definition inet_chksum :: "bytes \<Rightarrow> u16" where
  "inet_chksum d = NOT (lwip_standard_chksum d)"

definition inet_chksum_pbuf :: "nat option \<Rightarrow> pbufs \<Rightarrow> u16 option" where
  "inet_chksum_pbuf p s = do {
     (acc, swapped) \<leftarrow> pseudo_loop p 0 False s;
     let acc = (if swapped then SWAP_BYTES_IN_WORD acc else acc);
     Some (ucast (NOT (acc AND 0xffff))) }"

section \<open>Sums with end-around carry\<close>

text \<open>The representative of a sum modulo 65535 that end-around carry computes: 0 only for 0.\<close>

definition ones :: "nat \<Rightarrow> nat" where
  "ones n = (if n = 0 then 0 else Suc ((n - 1) mod 65535))"

lemma ones_le: "ones n \<le> 65535"
  by (simp add: ones_def Suc_le_eq)

lemma ones_0 [simp]: "ones 0 = 0" "ones n = 0 \<longleftrightarrow> n = 0" "0 < ones n \<longleftrightarrow> 0 < n"
  by (simp_all add: ones_def)

lemma ones_shift: "0 < n \<Longrightarrow> ones (n + 65535 * k) = ones n"
  by (cases n) (simp_all add: ones_def)

lemma ones_id: "n \<le> 65535 \<Longrightarrow> ones n = n"
  by (cases n) (simp_all add: ones_def)

lemma ones_decomp: "\<exists>k. n = ones n + 65535 * k"
proof (cases n)
  case (Suc m)
  have "m mod 65535 + 65535 * (m div 65535) = m" by (rule mod_mult_div_eq)
  with Suc show ?thesis by (auto simp: ones_def intro: exI [of _ "m div 65535"])
qed (auto simp: ones_def)

lemma ones_idem [simp]: "ones (ones n) = ones n"
  by (simp add: ones_id ones_le)

lemma ones_add [simp]: "ones (ones a + b) = ones (a + b)" "ones (a + ones b) = ones (a + b)"
proof -
  have *: "ones (ones a + b) = ones (a + b)" for a b
  proof (cases "a = 0")
    case False
    obtain k where k: "a = ones a + 65535 * k" using ones_decomp by blast
    have "a + b = (ones a + b) + 65535 * k" using k by linarith
    moreover have "ones ((ones a + b) + 65535 * k) = ones (ones a + b)" using False by (intro ones_shift) simp
    ultimately show ?thesis by (simp only:)
  qed simp
  show "ones (ones a + b) = ones (a + b)" "ones (a + ones b) = ones (a + b)"
    using * [of a b] * [of b a] by (simp_all add: add.commute)
qed

lemma ones_mult [simp]: "ones (k * ones a) = ones (k * a)"
proof (cases "a = 0 \<or> k = 0")
  case False
  obtain j where j: "a = ones a + 65535 * j" using ones_decomp by blast
  then have "k * a = k * ones a + 65535 * (k * j)" by (metis add_mult_distrib2 mult.left_commute)
  with False show ?thesis using ones_shift [of "k * ones a" "k * j"] by simp
qed auto

lemma ones_cong_add: "ones a = ones b \<Longrightarrow> ones (c + a) = ones (c + b)"
  using ones_add(2) by metis

lemma ones_add3: "ones (ones a + ones b + ones c) = ones (a + b + c)"
proof -
  have "ones (ones a + ones b + ones c) = ones (c + (ones a + ones b))" by (simp add: add.commute)
  also have "\<dots> = ones (c + (a + b))" by (rule ones_cong_add) simp
  finally show ?thesis by (simp add: add.commute)
qed

lemma ones_cong_mult: "ones a = ones b \<Longrightarrow> ones (c * a) = ones (c * b)"
  using ones_mult by metis

lemma ones_65536: "ones (65536 * n) = ones n"
  by (cases "n = 0") (use ones_shift [of n n] in \<open>simp_all add: add.commute\<close>)

text \<open>What the two macros and the byte swap do to a sum.\<close>

lemma halves_bound: "n < 4294967296 \<Longrightarrow> n div 65536 + n mod 65536 \<le> 131070" for n :: nat
  using less_mult_imp_div_less [of n 65536 65536] mod_less_divisor [of 65536 n] by simp

lemma halves_pos: "0 < n \<Longrightarrow> 0 < k \<Longrightarrow> 0 < n div k + n mod k" for n :: nat
  by (metis add_is_0 add.right_neutral div_mult_mod_eq gr0I mult_0)

lemma unat_FOLD: "unat (FOLD_U32T u) = unat u div 65536 + unat u mod 65536"
proof -
  have b: "unat u < 4294967296" using unsigned_less [of u, where ?'a = nat] by simp
  have a: "u AND 0xffff = take_bit 16 u" by (simp add: take_bit_eq_mask mask_eq_exp_minus_1)
  have 1: "unat (drop_bit 16 u) = unat u div 65536"
    unfolding unsigned_drop_bit_eq using b by (simp add: drop_bit_eq_div take_bit_eq_mod)
  have 2: "unat (take_bit 16 u) = unat u mod 65536"
    unfolding unsigned_take_bit_eq by (simp add: take_bit_eq_mod)
  have "unat u div 65536 + unat u mod 65536 < 4294967296" using halves_bound [OF b] by simp
  then show ?thesis unfolding FOLD_U32T_def a using 1 2 by (simp add: unat_add_lem [THEN iffD1])
qed

lemma fold_ones: "n \<le> 131070 \<Longrightarrow> n div 65536 + n mod 65536 = ones n"
proof (cases "n \<le> 65535")
  case False
  assume n: "n \<le> 131070"
  define m where "m = n - 65536"
  have m: "n = m + 65536" "m < 65535" using False n by (simp_all add: m_def)
  then have "n div 65536 = 1" "n mod 65536 = m" by simp_all
  moreover have "ones n = m + 1" using m ones_shift [of "m + 1" 1] by (simp add: ones_id add.commute)
  ultimately show ?thesis by simp
qed (simp add: ones_id)

lemma fold_same: "ones (n div 65536 + n mod 65536) = ones n"
proof (cases "n = 0")
  case False
  have "n = (n div 65536 + n mod 65536) + 65535 * (n div 65536)"
    using div_mult_mod_eq [of n 65536] by linarith
  moreover have "0 < n div 65536 + n mod 65536" using False by (intro halves_pos) simp_all
  ultimately show ?thesis using ones_shift by metis
qed simp

lemma unat_FOLD_small: "unat u \<le> 131070 \<Longrightarrow> unat (FOLD_U32T u) = ones (unat u)"
  by (simp add: unat_FOLD fold_ones)

lemma unat_FOLD_twice: "unat (FOLD_U32T (FOLD_U32T u)) = ones (unat u)"
proof -
  have "unat u < 4294967296" using unsigned_less [of u, where ?'a = nat] by simp
  then have "unat u div 65536 + unat u mod 65536 \<le> 131070" by (rule halves_bound)
  then show ?thesis using fold_ones [of "unat u div 65536 + unat u mod 65536"] by (simp add: unat_FOLD fold_same)
qed

lemma swap_ones: "n \<le> 65535 \<Longrightarrow> n mod 256 * 256 + n div 256 = ones (256 * n)"
proof (cases "n = 0")
  case False
  assume *: "n \<le> 65535"
  have "256 * n = (n mod 256 * 256 + n div 256) + 65535 * (n div 256)"
    using div_mult_mod_eq [of n 256] by linarith
  moreover have "0 < n mod 256 * 256 + n div 256" using False halves_pos [of n 256] by linarith
  moreover have "n mod 256 * 256 + n div 256 \<le> 65535"
    using * less_mult_imp_div_less [of n 256 256] mod_less_divisor [of 256 n] by simp
  ultimately show ?thesis using ones_shift ones_id by metis
qed simp
lemma unat_SWAP:
  assumes "unat w \<le> 65535"
  shows "unat (SWAP_BYTES_IN_WORD w) = ones (256 * unat w)"
proof -
  have m: "drop_bit 8 (w AND 0xff00) = take_bit 8 (drop_bit 8 w)" "w AND 0xff = take_bit 8 w"
    by (simp_all add: drop_bit_and low_byte_mask)
  have d: "push_bit 8 (take_bit 8 w) AND take_bit 8 (drop_bit 8 w) = 0"
    by (rule bit_word_eqI) (auto simp: bit_simps)
  have b: "unat w div 256 < 256" using assms less_mult_imp_div_less [of "unat w" 256 256] by simp
  have "unat (push_bit 8 (take_bit 8 w)) = unat w mod 256 * 256"
    unfolding unsigned_push_bit_eq unsigned_take_bit_eq by (simp add: push_bit_eq_mult take_bit_eq_mod)
  moreover have "unat (take_bit 8 (drop_bit 8 w)) = unat w div 256"
    unfolding unsigned_take_bit_eq unsigned_drop_bit_eq using b assms by (simp add: drop_bit_eq_div take_bit_eq_mod)
  ultimately have "unat (push_bit 8 (take_bit 8 w)) + unat (take_bit 8 (drop_bit 8 w)) = ones (256 * unat w)"
    using swap_ones [OF assms] by simp
  moreover from this ones_le [of "256 * unat w"]
  have "unat (push_bit 8 (take_bit 8 w)) + unat (take_bit 8 (drop_bit 8 w)) < 2 ^ LENGTH(32)" by simp
  ultimately show ?thesis
    unfolding SWAP_BYTES_IN_WORD_def m disjunctive_add_eq_or [OF d, symmetric] by (simp add: unat_add_lem [THEN iffD1])
qed

lemma unat_htons_ones: "unat (lwip_htons n) = ones (256 * unat n)"
proof -
  have "unat n \<le> 65535" using unsigned_less [of n, where ?'a = nat] by simp
  then show ?thesis by (simp add: unat_lwip_htons swap_ones)
qed

section \<open>The reference\<close>

text \<open>The sum of the big-endian 16-bit words of a byte string, a last single byte being the upper half of
  a word.\<close>

fun wsum :: "bytes \<Rightarrow> nat" where
  "wsum (a # b # d) = 256 * code a + code b + wsum d"
| "wsum [a] = 256 * code a"
| "wsum [] = 0"

lemma wsum_bound: "wsum d \<le> 65535 * length d"
proof (induction d rule: wsum.induct)
  case (1 a b d)
  have "256 * code a + code b \<le> 65535" using code_less [of a] code_less [of b] by linarith
  with 1 show ?case by simp
next
  case (2 a)
  have "256 * code a \<le> 65535" using code_less [of a] by linarith
  then show ?case by simp
qed simp

lemma wsum_even: "even (length e) \<Longrightarrow> wsum (e @ d) = wsum e + wsum d"
  by (induction e rule: wsum.induct) auto

lemma wsum_Cons: "ones (wsum (a # d)) = ones (256 * code a + 256 * wsum d)"
proof (induction d arbitrary: a rule: wsum.induct)
  case (1 b c d)
  have "ones (wsum (a # b # c # d)) = ones ((256 * code a + code b) + (256 * code c + 256 * wsum d))"
    using ones_cong_add [OF 1 [of c], of "256 * code a + code b"] by (simp add: add.assoc)
  also have "\<dots> = ones ((256 * code a + 256 * code c + 256 * wsum d) + 65536 * code b)"
    using ones_cong_add [OF ones_65536 [of "code b"], of "256 * code a + 256 * code c + 256 * wsum d"] by (simp add: ac_simps)
  finally show ?case by (simp add: algebra_simps)
next
  case (2 b)
  show ?case using ones_cong_add [OF ones_65536 [of "code b"], of "256 * code a"] by (simp add: ac_simps)
qed simp

lemma wsum_odd: "odd (length e) \<Longrightarrow> ones (wsum (e @ d)) = ones (wsum e + 256 * wsum d)"
proof (induction e rule: wsum.induct)
  case (1 a b e)
  then show ?case using ones_cong_add [of "wsum (e @ d)" "wsum e + 256 * wsum d" "256 * code a + code b"]
    by (simp add: add.assoc)
qed (simp_all add: wsum_Cons)

text \<open>The sum of a string is its sum modulo 65535 in the byte order of the machine.\<close>

lemma unat_pair: "unat (push_bit 8 (of_nat (code a)) OR of_nat (code b) :: u16) = 256 * code a + code b"
proof -
  let ?a = "of_nat (code a) :: u16" and ?b = "of_nat (code b) :: u16"
  have c: "code a < 256" "code b < 256" "code b mod 65536 = code b" "code a mod 65536 = code a"
    using code_less [of a] code_less [of b] by (simp_all del: code_less)
  have t: "take_bit 8 ?b = ?b" using c
    unfolding word_unat_eq_iff unsigned_take_bit_eq by (simp add: take_bit_eq_mod unsigned_of_nat)
  have "push_bit 8 ?a AND take_bit 8 ?b = 0" by (rule bit_word_eqI) (auto simp: bit_simps)
  then have d: "push_bit 8 ?a AND ?b = 0" by (simp only: t)
  have "unat (push_bit 8 ?a) = 256 * code a"
    unfolding unsigned_push_bit_eq using c by (simp add: push_bit_eq_mult take_bit_eq_mod unsigned_of_nat)
  moreover have "unat ?b = code b" using c by (simp add: unsigned_of_nat take_bit_eq_mod)
  moreover have "256 * code a + code b < 65536" using c(1,2) by linarith
  ultimately show ?thesis
    unfolding disjunctive_add_eq_or [OF d, symmetric] by (simp add: unat_add_lem [THEN iffD1])
qed

lemma unat_single: "unat (push_bit 8 (of_nat (code a)) :: u16) = 256 * code a"
  using unat_pair [of a nul] by simp

lemma unat_up [simp]: "unat (ucast w :: u32) = unat w" for w :: u16
proof -
  have "unat w < 65536" using unsigned_less [of w, where ?'a = nat] by simp
  then show ?thesis by (simp add: unsigned_ucast_eq take_bit_eq_mod)
qed

lemma sum_octets_wsum: "unat acc + wsum d < 4294967296 \<Longrightarrow> unat (sum_octets acc d) = unat acc + wsum d"
proof (induction acc d rule: sum_octets.induct)
  case (1 acc a b d)
  let ?w = "push_bit 8 (of_nat (code a)) OR of_nat (code b) :: u16"
  have w: "unat (ucast ?w :: u32) = 256 * code a + code b" by (simp add: unat_pair)
  have "unat (acc + ucast ?w) = unat acc + (256 * code a + code b)"
    using 1(2) w by (simp add: unat_add_lem [THEN iffD1])
  with 1 show ?case by simp
next
  case (2 acc a)
  have "unat (ucast (push_bit 8 (of_nat (code a)) :: u16) :: u32) = 256 * code a" by (simp add: unat_single)
  with 2 show ?case by (simp add: unat_add_lem [THEN iffD1])
qed simp

lemma second_fold: "(if acc AND 0xffff0000 \<noteq> 0 then drop_bit 16 acc + (acc AND 0x0000ffff) else acc) = FOLD_U32T acc" for acc :: u32
proof (cases "acc AND 0xffff0000 = 0")
  case True
  have "drop_bit 16 acc = drop_bit 16 acc AND mask 16" by (rule bit_word_eqI) (auto simp: bit_simps dest: bit_imp_le_length)
  also have "\<dots> = drop_bit 16 (acc AND 0xffff0000)" by (simp add: drop_bit_and mask_eq_exp_minus_1)
  finally have d: "unat (drop_bit 16 acc) = 0" using True by simp
  have "unat acc < 4294967296" using unsigned_less [of acc, where ?'a = nat] by simp
  with d have "unat acc div 65536 = 0"
    unfolding unsigned_drop_bit_eq by (simp add: drop_bit_eq_div take_bit_eq_mod)
  then have "unat (FOLD_U32T acc) = unat acc" unfolding unat_FOLD by (simp add: div_eq_0_iff)
  with True show ?thesis by (simp add: word_unat_eq_iff)
qed (simp add: FOLD_U32T_def)

lemma unat_standard_chksum:
  assumes "length d < 65536"
  shows "unat (lwip_standard_chksum d) = ones (256 * wsum d)"
proof -
  have "wsum d < 4294967296" using wsum_bound [of d] assms by linarith
  then have "unat (sum_octets 0 d) = wsum d" by (simp add: sum_octets_wsum)
  then have "unat (FOLD_U32T (FOLD_U32T (sum_octets 0 d))) = ones (wsum d)" by (simp add: unat_FOLD_twice)
  then have "unat (ucast (FOLD_U32T (FOLD_U32T (sum_octets 0 d))) :: u16) = ones (wsum d)"
    using ones_le [of "wsum d"] by (simp add: unsigned_ucast_eq take_bit_eq_mod)
  then show ?thesis
    unfolding lwip_standard_chksum_def Let_def second_fold by (simp add: unat_htons_ones flip: FOLD_U32T_def)
qed

text \<open>The value of a checksum.\<close>

lemma unat_NOT: "unat (NOT w) = 65535 - unat w" for w :: u16
proof -
  have "NOT w = - 1 - w" by (simp add: not_eq_complement)
  moreover have "unat (- 1 :: u16) = 65535" by (simp add: unsigned_minus_1_eq_mask mask_eq_exp_minus_1)
  ultimately show ?thesis using unat_sub [of w "- 1"] by simp
qed

lemma unat_inet_chksum:
  assumes "length d < 65536"
  shows "unat (inet_chksum d) = 65535 - ones (256 * wsum d)"
  using unat_standard_chksum [OF assms] by (simp add: inet_chksum_def unat_NOT)

lemma finish_word:
  fixes acc :: u32 and w :: u16
  assumes "unat acc = unat w"
  shows "ucast (NOT (acc AND 0xffff)) = NOT w"
proof -
  have "acc = ucast w" using assms by (simp add: word_unat_eq_iff)
  moreover have "ucast (NOT (ucast w AND (mask 16 :: u32))) = NOT w"
    by (rule bit_word_eqI) (auto simp: bit_simps)
  ultimately show ?thesis by (simp add: mask_eq_exp_minus_1)
qed

section \<open>Chains\<close>

definition swf :: "bool \<Rightarrow> nat" where
  "swf b = (if b then 256 else 1)"

lemma swf_not: "ones (swf (\<not> b) * (256 * n)) = ones (swf b * n)"
  by (cases b) (simp_all add: swf_def ones_65536)

lemma unat_acc:
  assumes "unat acc \<le> 65535" and "length e < 65536"
  shows "unat (FOLD_U32T (acc + ucast (lwip_standard_chksum e))) = ones (unat acc + 256 * wsum e)"
proof -
  have l: "unat acc + ones (256 * wsum e) \<le> 131070" using assms(1) ones_le [of "256 * wsum e"] by linarith
  then have "unat (acc + ucast (lwip_standard_chksum e)) = unat acc + ones (256 * wsum e)"
    using unat_standard_chksum [OF assms(2)] by (simp add: unat_add_lem [THEN iffD1])
  with l show ?thesis by (simp add: unat_FOLD_small)
qed

text \<open>One pbuf \<open>e\<close> of the chain, in front of the rest \<open>d\<close>.\<close>

lemma even_step:
  assumes "even (length e)"
  shows "ones (swf b * (ones (x + 256 * wsum e) + 256 * wsum d)) = ones (swf b * (x + 256 * wsum (e @ d)))"
  by (rule ones_cong_mult) (simp add: wsum_even [OF assms] algebra_simps)

lemma odd_step:
  assumes "odd (length e)"
  shows "ones (swf (\<not> b) * (ones (256 * ones (x + 256 * wsum e)) + 256 * wsum d)) = ones (swf b * (x + 256 * wsum (e @ d)))"
proof -
  have "ones (swf (\<not> b) * (ones (256 * ones (x + 256 * wsum e)) + 256 * wsum d)) =
      ones (swf (\<not> b) * (256 * ((x + 256 * wsum e) + wsum d)))"
    by (rule ones_cong_mult) (simp add: algebra_simps)
  also have "\<dots> = ones (swf b * ((x + 256 * wsum e) + wsum d))" by (rule swf_not)
  also have "\<dots> = ones (swf b * (x + 256 * (wsum e + 256 * wsum d)))"
    by (rule ones_cong_mult)
      (use ones_cong_add [OF ones_65536 [of "wsum d"], of "x + 256 * wsum e"] in \<open>simp add: algebra_simps\<close>)
  also have "\<dots> = ones (swf b * (x + 256 * wsum (e @ d)))"
    by (intro ones_cong_mult ones_cong_add) (simp add: wsum_odd [OF assms])
  finally show ?thesis .
qed

lemma pseudo_loop_packet:
  assumes "packet (pb_heap s) p as d" and "length d < 65536" and "unat acc \<le> 65535"
  shows "\<exists>acc' b'. pseudo_loop p acc b s = Some (acc', b') \<and> unat acc' \<le> 65535 \<and>
    ones (swf b' * unat acc') = ones (swf b * (unat acc + 256 * wsum d))"
  using assms
proof (induction as arbitrary: p d acc b)
  case Nil
  then show ?case by (simp add: pseudo_loop.simps)
next
  case (Cons a as)
  from Cons.prems(1) obtain v where v: "p = Some a" "pb_heap s a = Some v" "in_block v" "p_len v \<le> length d"
    "payload v = take (p_len v) d" "packet (pb_heap s) (p_next v) as (drop (p_len v) d)"
    by (rule packet_ConsE)
  define e where "e = take (p_len v) d"
  define d' where "d' = drop (p_len v) d"
  have d: "d = e @ d'" "length e = p_len v" "length e < 65536" "length d' < 65536"
    using v(4) Cons.prems(2) by (simp_all add: e_def d'_def)
  have rd: "payload_read v 0 (p_len v) = Some e"
    using payload_read_eq [OF v(3), of 0 "p_len v"] v(5) by (simp add: e_def)
  define acc1 where "acc1 = FOLD_U32T (acc + ucast (lwip_standard_chksum e))"
  have acc1: "unat acc1 = ones (unat acc + 256 * wsum e)"
    unfolding acc1_def by (rule unat_acc [OF Cons.prems(3) d(3)])
  have unf: "pseudo_loop p acc b s = (if odd (length e) then pseudo_loop (p_next v) (SWAP_BYTES_IN_WORD acc1) (\<not> b) s
      else pseudo_loop (p_next v) acc1 b s)"
    by (subst pseudo_loop.simps) (simp add: v(1,2) rd acc1_def d(2) Let_def)
  note IH = Cons.IH [OF v(6) [folded d'_def] d(4)]
  show ?case
  proof (cases "odd (length e)")
    case True
    have "unat (SWAP_BYTES_IN_WORD acc1) = ones (256 * ones (unat acc + 256 * wsum e))"
      using unat_SWAP [of acc1] acc1 ones_le by simp
    with IH [of "SWAP_BYTES_IN_WORD acc1" "\<not> b"] True show ?thesis
      unfolding unf d(1) by (metis odd_step ones_le)
  next
    case False
    with IH [of acc1 b] acc1 show ?thesis unfolding unf d(1) by (metis even_step ones_le)
  qed
qed

text \<open>The checksum of a chain is the checksum of its bytes, wherever it is cut.\<close>

lemma swap_back:
  assumes "unat acc \<le> 65535"
  shows "unat (if b then SWAP_BYTES_IN_WORD acc else acc) = ones (swf b * unat acc)"
  using assms by (simp add: unat_SWAP swf_def ones_id)

lemma inet_chksum_pbuf_packet:
  assumes "packet (pb_heap s) p as d" and "length d < 65536"
  shows "inet_chksum_pbuf p s = Some (inet_chksum d)"
proof -
  obtain acc b where *: "pseudo_loop p 0 False s = Some (acc, b)" "unat acc \<le> 65535"
    "ones (swf b * unat acc) = ones (256 * wsum d)"
    using pseudo_loop_packet [OF assms, of 0 False] by (auto simp: swf_def)
  have "unat (if b then SWAP_BYTES_IN_WORD acc else acc) = unat (lwip_standard_chksum d)"
    using swap_back [OF *(2)] *(3) unat_standard_chksum [OF assms(2)] by simp
  from finish_word [OF this] *(1) show ?thesis
    unfolding inet_chksum_pbuf_def inet_chksum_def by (simp add: Let_def)
qed

section \<open>Pseudo headers\<close>

text \<open>The bytes of an address in memory, and the pseudo header of a segment.\<close>

definition addr_bytes :: "u32 \<Rightarrow> bytes" where
  "addr_bytes a = [char_of (unat a mod 256), char_of (unat a div 256 mod 256),
     char_of (unat a div 65536 mod 256), char_of (unat a div 16777216 mod 256)]"

definition pseudo_header :: "u32 \<Rightarrow> u32 \<Rightarrow> nat \<Rightarrow> nat \<Rightarrow> bytes" where
  "pseudo_header src dest proto len =
     addr_bytes src @ addr_bytes dest @ [nul, char_of proto, char_of (len div 256), char_of (len mod 256)]"

lemma unat_add_addr:
  assumes "unat acc \<le> 1000000"
  shows "unat (add_addr acc a) = unat acc + unat a mod 65536 + unat a div 65536"
proof -
  have b: "unat a < 4294967296" using unsigned_less [of a, where ?'a = nat] by simp
  have h: "unat a div 65536 < 65536" using b less_mult_imp_div_less [of "unat a" 65536 65536] by simp
  have m: "x AND 0xffff = take_bit 16 x" for x :: u32 by (simp add: take_bit_eq_mask mask_eq_exp_minus_1)
  have 1: "unat (take_bit 16 a) = unat a mod 65536" unfolding unsigned_take_bit_eq by (simp add: take_bit_eq_mod)
  have 2: "unat (take_bit 16 (drop_bit 16 a)) = unat a div 65536"
    unfolding unsigned_take_bit_eq unsigned_drop_bit_eq using b h by (simp add: drop_bit_eq_div take_bit_eq_mod)
  have 3: "unat acc + unat a mod 65536 < 2000000" using assms mod_less_divisor [of 65536 "unat a"] by linarith
  then have 4: "unat (acc + take_bit 16 a) = unat acc + unat a mod 65536" using 1 by (simp add: unat_add_lem [THEN iffD1])
  show ?thesis unfolding add_addr_def m using 2 3 4 h by (simp add: unat_add_lem [THEN iffD1])
qed

lemma halves_octets:
  "(n :: nat) mod 65536 = n mod 256 + 256 * (n div 256 mod 256)"
  "n < 4294967296 \<Longrightarrow> n div 65536 = n div 65536 mod 256 + 256 * (n div 16777216 mod 256)"
proof -
  show "n mod 65536 = n mod 256 + 256 * (n div 256 mod 256)" using mod_mult2_eq [of n 256 256] by simp
  assume "n < 4294967296"
  then have "n div 16777216 < 256" using less_mult_imp_div_less [of n 256 16777216] by simp
  moreover have "n div 65536 div 256 = n div 16777216" by (simp add: div_mult2_eq [symmetric])
  ultimately show "n div 65536 = n div 65536 mod 256 + 256 * (n div 16777216 mod 256)"
    using mod_mult_div_eq [of "n div 65536" 256] by simp
qed

lemma ones_swapped_pair: "ones (256 * (256 * x + y)) = ones (x + 256 * y)"
  using ones_cong_add [OF ones_65536 [of x], of "256 * y"] by (simp add: algebra_simps)

lemma wsum_addr_bytes: "ones (256 * wsum (addr_bytes a)) = ones (unat a mod 65536 + unat a div 65536)"
proof -
  define b where "b i = unat a div 256 ^ i mod 256" for i
  have w: "wsum (addr_bytes a) = (256 * b 0 + b 1) + (256 * b 2 + b 3)"
    by (simp add: addr_bytes_def b_def numeral_3_eq_3 power2_eq_square)
  have "unat a < 4294967296" using unsigned_less [of a, where ?'a = nat] by simp
  then have h: "unat a mod 65536 = b 0 + 256 * b 1" "unat a div 65536 = b 2 + 256 * b 3"
    using halves_octets(1) [of "unat a"] halves_octets(2) [of "unat a"] by (simp_all add: b_def power2_eq_square power3_eq_cube)
  have "ones (256 * wsum (addr_bytes a)) = ones (ones (256 * (256 * b 0 + b 1)) + ones (256 * (256 * b 2 + b 3)))"
    unfolding w by (simp only: ones_add distrib_left)
  also have "\<dots> = ones (unat a mod 65536 + unat a div 65536)" unfolding ones_swapped_pair h by simp
  finally show ?thesis .
qed

lemma even_addr_bytes: "even (length (addr_bytes a))"
  by (simp add: addr_bytes_def)

lemma addr_sum:
  "unat (FOLD_U32T (FOLD_U32T (add_addr (add_addr 0 src) dest))) = ones (256 * wsum (addr_bytes src @ addr_bytes dest))"
proof -
  have b: "unat a mod 65536 + unat a div 65536 \<le> 131070" for a :: u32
  proof -
    have "unat a < 4294967296" using unsigned_less [of a, where ?'a = nat] by simp
    then show ?thesis using halves_bound by (simp only: add.commute)
  qed
  have "unat (add_addr 0 src) = unat src mod 65536 + unat src div 65536" by (simp add: unat_add_addr)
  then have "unat (add_addr (add_addr 0 src) dest) =
      (unat src mod 65536 + unat src div 65536) + (unat dest mod 65536 + unat dest div 65536)"
    using b [of src] unat_add_addr [of "add_addr 0 src" dest] by linarith
  then have "unat (FOLD_U32T (FOLD_U32T (add_addr (add_addr 0 src) dest))) =
      ones (ones (unat src mod 65536 + unat src div 65536) + ones (unat dest mod 65536 + unat dest div 65536))"
    by (simp only: unat_FOLD_twice ones_add)
  also have "\<dots> = ones (256 * wsum (addr_bytes src) + 256 * wsum (addr_bytes dest))"
    unfolding wsum_addr_bytes [symmetric] by (simp only: ones_add ones_idem)
  also have "\<dots> = ones (256 * wsum (addr_bytes src @ addr_bytes dest))"
    by (simp only: wsum_even [OF even_addr_bytes] distrib_left)
  finally show ?thesis .
qed

lemma pseudo_finish_word:
  assumes "unat acc \<le> 65535" and "proto < 256" and "len < 65536"
  shows "unat (pseudo_finish proto len (acc, b)) =
    65535 - ones (swf b * unat acc + 256 * (proto + len))"
proof -
  define x where "x = (if b then SWAP_BYTES_IN_WORD acc else acc)"
  have x: "unat x = ones (swf b * unat acc)" unfolding x_def by (rule swap_back [OF assms(1)])
  have h: "unat (lwip_htons (of_nat n)) = ones (256 * n)" if "n < 65536" for n
    using that by (simp add: unat_htons_ones unsigned_of_nat take_bit_eq_mod)
  have l: "ones n \<le> 65535" for n by (rule ones_le)
  have 1: "unat (x + ucast (lwip_htons (of_nat proto))) = unat x + ones (256 * proto)"
    using h [of proto] assms(2) l [of "256 * proto"] l [of "swf b * unat acc"] x by (simp add: unat_add_lem [THEN iffD1])
  have 2: "unat (x + ucast (lwip_htons (of_nat proto)) + ucast (lwip_htons (of_nat len))) =
      unat x + ones (256 * proto) + ones (256 * len)"
    using h [OF assms(3)] l [of "256 * proto"] l [of "256 * len"] l [of "swf b * unat acc"] x 1 by (simp add: unat_add_lem [THEN iffD1])
  define y where "y = FOLD_U32T (FOLD_U32T (x + ucast (lwip_htons (of_nat proto)) + ucast (lwip_htons (of_nat len))))"
  have y: "unat y = ones (swf b * unat acc + 256 * (proto + len))"
    unfolding y_def unat_FOLD_twice 2 x ones_add3 by (simp only: add.assoc distrib_left)
  define w :: u16 where "w = ucast y"
  have "unat y < 65536" unfolding y using l le_imp_less_Suc by fastforce
  then have w: "unat y = unat w" by (simp add: w_def unsigned_ucast_eq take_bit_eq_mod)
  have "pseudo_finish proto len (acc, b) = NOT w"
    using finish_word [OF w] by (simp add: pseudo_finish_def Let_def x_def y_def)
  then show ?thesis using w y by (simp add: unat_NOT)
qed

lemma wsum_pseudo_header:
  assumes "proto < 256" and "len < 65536"
  shows "wsum (pseudo_header src dest proto len @ d) = wsum (addr_bytes src @ addr_bytes dest) + (proto + len) + wsum d"
proof -
  have "len div 256 < 256" using assms(2) less_mult_imp_div_less [of len 256 256] by simp
  then have t: "wsum [nul, char_of proto, char_of (len div 256), char_of (len mod 256)] = proto + len"
    using assms(1) by (simp add: mod_less)
  have a: "even (length (addr_bytes src @ addr_bytes dest))" using even_addr_bytes by simp
  have b: "even (length [nul, char_of proto, char_of (len div 256), char_of (len mod 256)])" by simp
  show ?thesis using wsum_even [OF a, of "[nul, char_of proto, char_of (len div 256), char_of (len mod 256)] @ d"]
      wsum_even [OF b, of d] t
    unfolding pseudo_header_def by (simp only: append_assoc add.assoc)
qed

text \<open>The checksum of a loop's result is the checksum of the pseudo header and the bytes summed.\<close>

lemma pseudo_finish_chksum:
  assumes "unat acc \<le> 65535" and "proto < 256" and "len < 65536" and "12 + length e < 65536"
    and "ones (swf b * unat acc) = ones (256 * wsum (addr_bytes src @ addr_bytes dest) + 256 * wsum e)"
  shows "pseudo_finish proto len (acc, b) = inet_chksum (pseudo_header src dest proto len @ e)"
proof -
  have l: "length (pseudo_header src dest proto len @ e) < 65536"
    using assms(4) by (simp add: pseudo_header_def addr_bytes_def)
  have "ones (swf b * unat acc + 256 * (proto + len)) =
      ones (256 * wsum (addr_bytes src @ addr_bytes dest) + 256 * wsum e + 256 * (proto + len))"
    using ones_cong_add [OF assms(5), of "256 * (proto + len)"] by (simp only: add.commute)
  also have "\<dots> = ones (256 * wsum (pseudo_header src dest proto len @ e))"
    unfolding wsum_pseudo_header [OF assms(2,3)] by (simp add: distrib_left ac_simps)
  finally show ?thesis
    using pseudo_finish_word [OF assms(1-3)] unat_inet_chksum [OF l] by (simp add: word_unat_eq_iff)
qed

lemma inet_chksum_pseudo_packet:
  assumes "packet (pb_heap s) p as d" and "12 + length d < 65536" and "proto < 256" and "len < 65536"
  shows "inet_chksum_pseudo p proto len src dest s = Some (inet_chksum (pseudo_header src dest proto len @ d))"
proof -
  let ?acc = "FOLD_U32T (FOLD_U32T (add_addr (add_addr 0 src) dest))"
  have "length d < 65536" using assms(2) by simp
  from pseudo_loop_packet [OF assms(1) this, of ?acc False] obtain acc b where
    *: "pseudo_loop p ?acc False s = Some (acc, b)" "unat acc \<le> 65535"
    "ones (swf b * unat acc) = ones (swf False * (unat ?acc + 256 * wsum d))"
    by (auto simp: addr_sum ones_le)
  then have "ones (swf b * unat acc) = ones (256 * wsum (addr_bytes src @ addr_bytes dest) + 256 * wsum d)"
    by (simp add: addr_sum swf_def)
  from pseudo_finish_chksum [OF *(2) assms(3,4,2) this] *(1) show ?thesis
    by (simp add: inet_chksum_pseudo_def inet_cksum_pseudo_base_def)
qed

section \<open>Partial checksums\<close>

lemma partial_stop: "q = None \<or> n = 0 \<Longrightarrow> partial_loop q n acc b s = Some (acc, b)"
  by (subst partial_loop.simps) (auto split: option.splits)

lemma last_step: "ones (swf (\<not> b) * ones (256 * n)) = ones (swf b * n)"
  by (simp add: swf_not)

lemma partial_loop_packet:
  assumes "packet (pb_heap s) p as d" and "length d < 65536" and "unat acc \<le> 65535"
  shows "\<exists>acc' b'. partial_loop p n acc b s = Some (acc', b') \<and> unat acc' \<le> 65535 \<and>
    ones (swf b' * unat acc') = ones (swf b * (unat acc + 256 * wsum (take n d)))"
  using assms
proof (induction as arbitrary: p d n acc b)
  case Nil
  then show ?case by (simp add: partial_stop)
next
  case (Cons a as)
  show ?case
  proof (cases "n = 0")
    case True
    with Cons.prems(3) show ?thesis by (simp add: partial_stop)
  next
    case n: False
    from Cons.prems(1) obtain v where v: "p = Some a" "pb_heap s a = Some v" "in_block v" "p_len v \<le> length d"
      "payload v = take (p_len v) d" "packet (pb_heap s) (p_next v) as (drop (p_len v) d)"
      by (rule packet_ConsE)
    define m where "m = (if n < p_len v then n else p_len v)"
    define e where "e = take m d"
    have m: "m \<le> p_len v" "m \<le> n" by (simp_all add: m_def)
    have e: "length e = m" "length e < 65536" using m v(4) Cons.prems(2) by (simp_all add: e_def)
    have rd: "payload_read v 0 m = Some e"
      using payload_read_eq [OF v(3), of 0 m] v(5) m(1) by (simp add: e_def min_absorb2 min_absorb1)
    define acc1 where "acc1 = FOLD_U32T (acc + ucast (lwip_standard_chksum e))"
    have acc1: "unat acc1 = ones (unat acc + 256 * wsum e)"
      unfolding acc1_def by (rule unat_acc [OF Cons.prems(3) e(2)])
    have sw: "unat (SWAP_BYTES_IN_WORD acc1) = ones (256 * ones (unat acc + 256 * wsum e))"
      using unat_SWAP [of acc1] acc1 ones_le by simp
    have unf: "partial_loop p n acc b s = (if odd (p_len v) then partial_loop (p_next v) (n - m) (SWAP_BYTES_IN_WORD acc1) (\<not> b) s
        else partial_loop (p_next v) (n - m) acc1 b s)"
      using n by (subst partial_loop.simps) (simp add: v(1,2) rd acc1_def m_def Let_def flip: m_def)
    show ?thesis
    proof (cases "n \<le> p_len v")
      case True
      then have 0: "n - m = 0" "take n d = e" by (auto simp: m_def e_def)
      have "ones (swf (\<not> b) * unat (SWAP_BYTES_IN_WORD acc1)) = ones (swf b * (unat acc + 256 * wsum e))"
        "ones (swf b * unat acc1) = ones (swf b * (unat acc + 256 * wsum e))"
        unfolding sw acc1 last_step by (simp_all only: ones_mult)
      moreover have "unat (SWAP_BYTES_IN_WORD acc1) \<le> 65535" "unat acc1 \<le> 65535" unfolding sw acc1 by (rule ones_le)+
      ultimately show ?thesis unfolding unf 0 using partial_stop [of "p_next v" 0] by simp
    next
      case False
      then have l: "m = p_len v" by (simp add: m_def)
      define d' where "d' = drop (p_len v) d"
      have d: "take n d = e @ take (n - m) d'" "length d' < 65536"
        using l m v(4) Cons.prems(2) by (simp_all add: e_def d'_def take_add [symmetric] drop_take)
      note IH = Cons.IH [OF v(6) [folded d'_def] d(2), of _ "n - m"]
      show ?thesis
      proof (cases "odd (p_len v)")
        case True
        with IH [of "SWAP_BYTES_IN_WORD acc1" "\<not> b"] sw e(1) l show ?thesis
          unfolding unf d(1) by (metis odd_step ones_le)
      next
        case False
        with IH [of acc1 b] acc1 e(1) l show ?thesis unfolding unf d(1) by (metis even_step ones_le)
      qed
    qed
  qed
qed

lemma inet_chksum_pseudo_partial_packet:
  assumes "packet (pb_heap s) p as d" and "12 + length d < 65536" and "proto < 256" and "len < 65536"
  shows "inet_chksum_pseudo_partial p proto len n src dest s = Some (inet_chksum (pseudo_header src dest proto len @ take n d))"
proof -
  let ?acc = "FOLD_U32T (FOLD_U32T (add_addr (add_addr 0 src) dest))"
  have l: "length d < 65536" "12 + length (take n d) < 65536" using assms(2) by simp_all
  from partial_loop_packet [OF assms(1) l(1), of ?acc n False] obtain acc b where
    *: "partial_loop p n ?acc False s = Some (acc, b)" "unat acc \<le> 65535"
    "ones (swf b * unat acc) = ones (swf False * (unat ?acc + 256 * wsum (take n d)))"
    by (auto simp: addr_sum ones_le)
  then have "ones (swf b * unat acc) = ones (256 * wsum (addr_bytes src @ addr_bytes dest) + 256 * wsum (take n d))"
    by (simp add: addr_sum swf_def)
  from pseudo_finish_chksum [OF *(2) assms(3,4) l(2) this] *(1) show ?thesis
    by (simp add: inet_chksum_pseudo_partial_def inet_cksum_pseudo_partial_base_def)
qed

section \<open>Checksums that are sent and checked\<close>

text \<open>The two bytes of a checksum in memory are the big-endian bytes of the complemented sum.\<close>

lemma htons_inet_chksum:
  assumes "length d < 65536"
  shows "unat (lwip_htons (inet_chksum d)) = 65535 - ones (wsum d)"
proof -
  have "lwip_htons (NOT w) = NOT (lwip_htons w)" for w :: u16
    unfolding lwip_htons_bits by (rule bit_word_eqI) (auto simp: bit_simps dest: bit_imp_le_length)
  then have "unat (lwip_htons (inet_chksum d)) = 65535 - unat (lwip_htons (lwip_standard_chksum d))"
    by (simp add: inet_chksum_def unat_NOT)
  also have "unat (lwip_htons (lwip_standard_chksum d)) = ones (wsum d)"
    unfolding unat_htons_ones unat_standard_chksum [OF assms] using ones_65536 [of "wsum d"] by simp
  finally show ?thesis .
qed

lemma wsum_field:
  assumes "even k" and "k + 2 \<le> length d" and "d ! k = nul" and "d ! (k + 1) = nul"
  shows "wsum (take k d @ [x, y] @ drop (k + 2) d) = wsum d + (256 * code x + code y)"
proof -
  have d: "d = take k d @ [nul, nul] @ drop (k + 2) d"
    using assms by (metis Cons_nth_drop_Suc Suc_eq_plus1 add_2_eq_Suc' append_Cons append_Nil append_take_drop_id le_eq_less_or_eq less_Suc_eq_le add_Suc_right Suc_le_lessD)
  have "even (length (take k d))" using assms by simp
  from wsum_even [OF this] have "wsum (take k d @ [a, b] @ r) = wsum (take k d) + (256 * code a + code b + wsum r)" for a b r
    by simp
  from this [of x y] this [of nul nul "drop (k + 2) d"] d show ?thesis by simp
qed

text \<open>C7. Wherever a segment is cut into pbufs, the checksum functions compute the Internet checksum of
  its bytes: the complement of the sum of its big-endian 16-bit words with end-around carry, over
  the pseudo header and the segment for TCP and UDP, over the first \<open>n\<close> bytes for UDP-Lite, over the
  bytes alone for ICMP.\<close>

theorem chksum_of_segment:
  assumes "packet (pb_heap s) p as d" and "12 + length d < 65536" and "proto < 256" and "len < 65536"
  shows "map_option (unat \<circ> lwip_htons) (inet_chksum_pseudo p proto len src dest s) =
      Some (65535 - ones (wsum (pseudo_header src dest proto len @ d))) \<and>
    map_option (unat \<circ> lwip_htons) (inet_chksum_pseudo_partial p proto len n src dest s) =
      Some (65535 - ones (wsum (pseudo_header src dest proto len @ take n d))) \<and>
    map_option (unat \<circ> lwip_htons) (inet_chksum_pbuf p s) = Some (65535 - ones (wsum d))"
proof -
  have l: "length (pseudo_header src dest proto len @ d) < 65536" "length (pseudo_header src dest proto len @ take n d) < 65536"
    "length d < 65536" using assms(2) by (simp_all add: pseudo_header_def addr_bytes_def)
  show ?thesis
    using inet_chksum_pseudo_packet [OF assms] inet_chksum_pseudo_partial_packet [OF assms]
      inet_chksum_pbuf_packet [OF assms(1) l(3)]
      htons_inet_chksum [OF l(1)] htons_inet_chksum [OF l(2)] htons_inet_chksum [OF l(3)] by simp
qed

theorem chksum_of_segment_witness:
  "packet (pb_heap two_pbufs) (Some 0) [0, 1] ''abcdefg'' \<and>
   map_option (unat \<circ> lwip_htons) (inet_chksum_pbuf (Some 0) two_pbufs) = Some 28370"
  using chksum_of_segment [OF two_pbufs_packet, of 6 7 0 0 3] two_pbufs_packet by (simp add: ones_def)

text \<open>C14. A segment whose checksum field was filled in by the sender passes the check of the receiver,
  however each of the two holds it in pbufs: with the field zero the sender computes the checksum,
  and over the segment with the field filled in the receiver computes zero.\<close>

theorem chksum_accepted:
  assumes "packet (pb_heap s) p as d" and "12 + length d < 65536" and "proto < 256" and "len < 65536"
    and "even k" and "k + 2 \<le> length d" and "d ! k = nul" and "d ! (k + 1) = nul"
    and "inet_chksum_pseudo p proto len src dest s = Some c"
    and "packet (pb_heap s') p' as' (take k d @ le16 (unat c) @ drop (k + 2) d)"
  shows "inet_chksum_pseudo p' proto len src dest s' = Some 0"
proof -
  let ?h = "pseudo_header src dest proto len" and ?x = "char_of (unat c mod 256)" and ?y = "char_of (unat c div 256)"
  define d' where "d' = take k d @ [?x, ?y] @ drop (k + 2) d"
  have d': "d' = take k d @ le16 (unat c) @ drop (k + 2) d" by (simp add: d'_def le16_def)
  have len: "length d' = length d" using assms(6) by (simp add: d'_def)
  have l: "length (?h @ d) < 65536" "length (?h @ d') < 65536"
    using assms(2) len by (simp_all add: pseudo_header_def addr_bytes_def)
  have c: "c = inet_chksum (?h @ d)" using inet_chksum_pseudo_packet [OF assms(1-4)] assms(9) by simp
  have uc: "unat c = 65535 - ones (256 * wsum (?h @ d))" unfolding c by (rule unat_inet_chksum [OF l(1)])
  have "unat c div 256 < 256" using uc less_mult_imp_div_less [of "unat c" 256 256] by simp
  then have xy: "code ?x = unat c mod 256" "code ?y = unat c div 256" by simp_all
  have "wsum (?h @ d') = wsum (?h @ d) + (256 * code ?x + code ?y)"
    unfolding wsum_pseudo_header [OF assms(3,4)] d'_def wsum_field [OF assms(5-8)] by simp
  then have "ones (256 * wsum (?h @ d')) = ones (256 * wsum (?h @ d) + 256 * (256 * code ?x + code ?y))"
    by (simp only: distrib_left)
  also have "\<dots> = ones (256 * wsum (?h @ d) + unat c)"
    by (rule ones_cong_add) (simp only: ones_swapped_pair xy mod_mult_div_eq)
  also have "\<dots> = ones (ones (256 * wsum (?h @ d)) + unat c)" by (simp only: ones_add)
  also have "\<dots> = 65535" unfolding uc using ones_le [of "256 * wsum (?h @ d)"] by (simp add: ones_id)
  finally have "unat (inet_chksum (?h @ d')) = 0" using unat_inet_chksum [OF l(2)] by simp
  then have "inet_chksum (?h @ d') = 0" by (simp add: unat_eq_0)
  moreover have "12 + length d' < 65536" using assms(2) len by simp
  ultimately show ?thesis using inet_chksum_pseudo_packet [OF assms(10) [folded d'] _ assms(3,4)] by simp
qed

text \<open>A segment with an empty field at offset 2, cut in two in the middle of the field, and a segment in
  one pbuf.\<close>

definition cut_segment :: pbufs where
  "cut_segment = no_pbufs\<lparr>pb_heap := [0 \<mapsto> \<lparr>p_next = Some 1, p_mem = [CHR ''a'', CHR ''b'', nul], p_off = 0, p_tot_len = 6, p_len = 3,
       p_type = PBUF_RAM, p_custom = False, p_ref = 1\<rparr>, 1 \<mapsto> \<lparr>p_next = None, p_mem = [nul, CHR ''e'', CHR ''f''], p_off = 0,
       p_tot_len = 3, p_len = 3, p_type = PBUF_RAM, p_custom = False, p_ref = 1\<rparr>], pb_fresh := 2\<rparr>"

definition whole_segment :: "bytes \<Rightarrow> pbufs" where
  "whole_segment d = no_pbufs\<lparr>pb_heap := [0 \<mapsto> \<lparr>p_next = None, p_mem = d, p_off = 0, p_tot_len = length d, p_len = length d,
       p_type = PBUF_RAM, p_custom = False, p_ref = 1\<rparr>], pb_fresh := 1\<rparr>"

theorem chksum_accepted_witness:
  "\<exists>c. inet_chksum_pseudo (Some 0) 6 6 0x0100A8C0 0x0200A8C0 cut_segment = Some c \<and>
     inet_chksum_pseudo (Some 0) 6 6 0x0100A8C0 0x0200A8C0 (whole_segment (''ab'' @ le16 (unat c) @ ''ef'')) = Some 0"
proof -
  let ?d = "[CHR ''a'', CHR ''b'', nul, nul, CHR ''e'', CHR ''f'']"
  have p: "packet (pb_heap cut_segment) (Some 0) [0, 1] ?d" by (simp add: cut_segment_def in_block_def payload_def)
  from inet_chksum_pseudo_packet [OF p] obtain c where c: "inet_chksum_pseudo (Some 0) 6 6 0x0100A8C0 0x0200A8C0 cut_segment = Some c"
    by simp
  have "packet (pb_heap (whole_segment d)) (Some 0) [0] d" for d by (simp add: whole_segment_def in_block_def payload_def)
  then have q: "packet (pb_heap (whole_segment (''ab'' @ le16 (unat c) @ ''ef''))) (Some 0) [0] (take 2 ?d @ le16 (unat c) @ drop (2 + 2) ?d)"
    by simp
  from chksum_accepted [OF p _ _ _ _ _ _ _ c q] c show ?thesis by simp
qed

end
