(* ===== verification/Timeouts.thy ===== *)
theory Timeouts
  imports Lwip_Def
begin

text \<open>
  The timers of lwIP, \<^verbatim>\<open>src/src/core/timeouts.c\<close>: one list of one-shot timeouts in the order they are due,
  the cyclic timers of the protocols that put themselves back into it, and the loop that runs what
  is due. Times are 32-bit milliseconds and wrap around; the order of two times is the sign of their
  difference. The list is linked through structures of its own and is modelled as a list.

  The clock, the allocator and the handlers are an environment: the answers are functions of the
  calls made so far. A handler of another module acts on the timers by the requests it makes. A
  handler that calls \<open>sys_check_timeouts\<close> itself is not modelled.
\<close>

section \<open>Data\<close>

text \<open>The functions a timeout can call: the two of this module and those of others. The argument of
  \<open>lwip_cyclic_timer\<close> is an index of the table of cyclic timers.\<close>

datatype t_fn = Tcp_timer | Cyclic_timer | Fn nat

record sys_timeo =
  t_h :: "t_fn option"
  t_arg :: nat
  t_time :: u32

datatype t_call = T_now | T_alloc | T_free | T_ooseq | T_tcp_tmr | T_tcp_pcbs | T_cyclic nat | T_run sys_timeo

datatype t_req = Req_timeout u32 "nat option" nat | Req_untimeout "nat option" nat | Req_tcp_timer

record t_env =
  te_now :: "t_call list \<Rightarrow> u32"
  te_alloc :: "t_call list \<Rightarrow> bool"
  te_pcbs :: "t_call list \<Rightarrow> bool"
  te_reqs :: "t_call list \<Rightarrow> t_req list"

record t_state =
  next_timeout :: "sys_timeo list"
  current_timeout_due_time :: u32
  tcpip_tcp_timer_active :: bool
  t_log :: "t_call list"
  t_env :: t_env

definition TCP_TMR_INTERVAL :: u32 where
  "TCP_TMR_INTERVAL = 250"

text \<open>The intervals, in the order of the table: TCP, IP reassembly, ARP, DHCP coarse and fine, address
  conflict detection, IGMP, DNS, IPv6 neighbours, IPv6 reassembly, MLD.\<close>

definition lwip_cyclic_timers :: "u32 list" where
  "lwip_cyclic_timers = [TCP_TMR_INTERVAL, 1000, 1000, 60000, 500, 100, 100, 1000, 1000, 1000, 100]"

definition TIME_LESS_THAN :: "u32 \<Rightarrow> u32 \<Rightarrow> bool" where
  "TIME_LESS_THAN t compare_to \<longleftrightarrow> 0x7fffffff < t - compare_to"

definition t_do :: "t_call \<Rightarrow> t_state \<Rightarrow> t_state" where
  "t_do c s = s\<lparr>t_log := t_log s @ [c]\<rparr>"

definition sys_now :: "t_state \<Rightarrow> u32 \<times> t_state" where
  "sys_now s = (te_now (t_env s) (t_log s), t_do T_now s)"

section \<open>The list\<close>

fun insert_after :: "sys_timeo \<Rightarrow> sys_timeo list \<Rightarrow> sys_timeo list" where
  "insert_after n [] = []"
| "insert_after n [t] = [t, n]"
| "insert_after n (t # u # ts) =
     (if TIME_LESS_THAN (t_time n) (t_time u) then t # n # u # ts else t # insert_after n (u # ts))"

definition sys_timeout_abs :: "u32 \<Rightarrow> t_fn option \<Rightarrow> nat \<Rightarrow> t_state \<Rightarrow> t_state" where
  "sys_timeout_abs abs_time h arg s =
     (if te_alloc (t_env s) (t_log s)
      then let n = \<lparr>t_h = h, t_arg = arg, t_time = abs_time\<rparr>; s = t_do T_alloc s
           in s\<lparr>next_timeout := (case next_timeout s of
                 [] \<Rightarrow> [n]
               | u # us \<Rightarrow> if TIME_LESS_THAN (t_time n) (t_time u) then n # u # us else insert_after n (u # us))\<rparr>
      else t_do T_alloc s)"

definition sys_timeout :: "u32 \<Rightarrow> t_fn option \<Rightarrow> nat \<Rightarrow> t_state \<Rightarrow> t_state" where
  "sys_timeout msecs h arg s = (let (now, s) = sys_now s in sys_timeout_abs (now + msecs) h arg s)"

fun remove_match :: "t_fn option \<Rightarrow> nat \<Rightarrow> sys_timeo list \<Rightarrow> sys_timeo list option" where
  "remove_match h arg [] = None"
| "remove_match h arg (t # ts) =
     (if t_h t = h \<and> t_arg t = arg then Some ts else map_option ((#) t) (remove_match h arg ts))"

definition sys_untimeout :: "t_fn option \<Rightarrow> nat \<Rightarrow> t_state \<Rightarrow> t_state" where
  "sys_untimeout h arg s = (case remove_match h arg (next_timeout s) of
      None \<Rightarrow> s
    | Some ts \<Rightarrow> t_do T_free (s\<lparr>next_timeout := ts\<rparr>))"

section \<open>Timers of the stack\<close>

definition tcp_pcbs :: "t_state \<Rightarrow> bool \<times> t_state" where
  "tcp_pcbs s = (te_pcbs (t_env s) (t_log s), t_do T_tcp_pcbs s)"

definition tcp_timer_needed :: "t_state \<Rightarrow> t_state" where
  "tcp_timer_needed s =
     (if tcpip_tcp_timer_active s then s
      else let (pcbs, s) = tcp_pcbs s
           in if pcbs then sys_timeout TCP_TMR_INTERVAL (Some Tcp_timer) 0 (s\<lparr>tcpip_tcp_timer_active := True\<rparr>) else s)"

fun request_timer :: "t_req \<Rightarrow> t_state \<Rightarrow> t_state" where
  "request_timer (Req_timeout msecs f arg) s = sys_timeout msecs (map_option Fn f) arg s"
| "request_timer (Req_untimeout f arg) s = sys_untimeout (map_option Fn f) arg s"
| "request_timer Req_tcp_timer s = tcp_timer_needed s"

text \<open>A function of another module.\<close>

definition foreign :: "t_call \<Rightarrow> t_state \<Rightarrow> t_state" where
  "foreign c s = (let s = t_do c s in fold request_timer (te_reqs (t_env s) (t_log s)) s)"

definition tcpip_tcp_timer :: "t_state \<Rightarrow> t_state" where
  "tcpip_tcp_timer s =
     (let (pcbs, s) = tcp_pcbs (foreign T_tcp_tmr s)
      in if pcbs then sys_timeout TCP_TMR_INTERVAL (Some Tcp_timer) 0 s else s\<lparr>tcpip_tcp_timer_active := False\<rparr>)"

definition lwip_cyclic_timer :: "nat \<Rightarrow> t_state \<Rightarrow> t_state option" where
  "lwip_cyclic_timer arg s =
     (if arg < length lwip_cyclic_timers
      then let interval = lwip_cyclic_timers ! arg;
               (now, s) = sys_now (foreign (T_cyclic arg) s);
               next_timeout_time = current_timeout_due_time s + interval
           in Some (if TIME_LESS_THAN next_timeout_time now
                    then sys_timeout_abs (now + interval) (Some Cyclic_timer) arg s
                    else sys_timeout_abs next_timeout_time (Some Cyclic_timer) arg s)
      else None)"

text \<open>The TCP timer at index 0 is started on demand.\<close>

definition sys_timeouts_init :: "t_state \<Rightarrow> t_state" where
  "sys_timeouts_init s =
     fold (\<lambda>i s. sys_timeout (lwip_cyclic_timers ! i) (Some Cyclic_timer) i s) [1..<length lwip_cyclic_timers] s"

section \<open>Running what is due\<close>

definition call_handler :: "sys_timeo \<Rightarrow> t_state \<Rightarrow> t_state option" where
  "call_handler t s = (case t_h t of
      None \<Rightarrow> Some s
    | Some Tcp_timer \<Rightarrow> Some (tcpip_tcp_timer (t_do (T_run t) s))
    | Some Cyclic_timer \<Rightarrow> lwip_cyclic_timer (t_arg t) (t_do (T_run t) s)
    | Some (Fn f) \<Rightarrow> Some (foreign (T_run t) s))"

partial_function (option) check_loop :: "u32 \<Rightarrow> t_state \<Rightarrow> t_state option" where
  "check_loop now s = (let s = t_do T_ooseq s
     in case next_timeout s of
          [] \<Rightarrow> Some s
        | t # ts \<Rightarrow>
            if TIME_LESS_THAN now (t_time t) then Some s
            else do {
              s \<leftarrow> call_handler t (t_do T_free (s\<lparr>next_timeout := ts, current_timeout_due_time := t_time t\<rparr>));
              check_loop now s })"

definition sys_check_timeouts :: "t_state \<Rightarrow> t_state option" where
  "sys_check_timeouts s = (let (now, s) = sys_now s in check_loop now s)"

definition sys_restart_timeouts :: "t_state \<Rightarrow> t_state" where
  "sys_restart_timeouts s = (case next_timeout s of
      [] \<Rightarrow> s
    | u # us \<Rightarrow>
        let (now, s) = sys_now s
        in s\<lparr>next_timeout := map (\<lambda>t. t\<lparr>t_time := (t_time t - t_time u) + now\<rparr>) (u # us)\<rparr>)"

definition sys_timeouts_sleeptime :: "t_state \<Rightarrow> u32 \<times> t_state" where
  "sys_timeouts_sleeptime s = (case next_timeout s of
      [] \<Rightarrow> (0xFFFFFFFF, s)
    | t # ts \<Rightarrow>
        let (now, s) = sys_now s
        in (if TIME_LESS_THAN (t_time t) now then 0 else t_time t - now, s))"

section \<open>Times in a window\<close>

text \<open>Times within 2^31 ms after a base are ordered by their distance from it, which does not wrap
  around.\<close>

definition since :: "u32 \<Rightarrow> u32 \<Rightarrow> nat" where
  "since b t = unat (t - b)"

lemma unat_diff_since:
  "unat (t - u) = (if since b u \<le> since b t then since b t - since b u else since b t + 2 ^ 32 - since b u)"
proof -
  have *: "t - u = (t - b) - (u - b)" by simp
  show ?thesis unfolding since_def using unat_sub_if_size [of "t - b" "u - b"] unfolding * by (simp add: word_size)
qed

lemma TIME_LESS_THAN_since:
  assumes "since b t < 2 ^ 31" and "since b u < 2 ^ 31"
  shows "TIME_LESS_THAN t u \<longleftrightarrow> since b t < since b u"
proof -
  have "TIME_LESS_THAN t u \<longleftrightarrow> 2147483647 < unat (t - u)" by (simp add: TIME_LESS_THAN_def word_less_nat_alt)
  then show ?thesis using assms unat_diff_since [of t u b] by auto
qed

lemma since_add:
  assumes "since b t + unat n < 2 ^ 32"
  shows "since b (t + n) = since b t + unat n"
proof -
  have *: "t + n - b = (t - b) + n" by simp
  show ?thesis using assms unat_add_lem [of "t - b" n] unfolding since_def * by simp
qed

section \<open>The order of the list\<close>

definition due :: "u32 \<Rightarrow> sys_timeo \<Rightarrow> nat" where
  "due b t = since b (t_time t)"

definition timers_ok :: "u32 \<Rightarrow> sys_timeo list \<Rightarrow> bool" where
  "timers_ok b ts \<longleftrightarrow> sorted (map (due b) ts) \<and>
     (\<forall>t \<in> set ts. due b t < 2 ^ 31 \<and> (t_h t = Some Cyclic_timer \<longrightarrow> t_arg t < length lwip_cyclic_timers))"

text \<open>The specification of insertion: behind all that are due no later.\<close>

definition place :: "u32 \<Rightarrow> sys_timeo \<Rightarrow> sys_timeo list \<Rightarrow> sys_timeo list" where
  "place b n ts = filter (\<lambda>t. due b t \<le> due b n) ts @ n # filter (\<lambda>t. due b n < due b t) ts"

lemma place_front: "sorted (map (due b) (u # us)) \<Longrightarrow> due b n < due b u \<Longrightarrow> place b n (u # us) = n # u # us"
proof -
  assume "sorted (map (due b) (u # us))" "due b n < due b u"
  then have "\<forall>t \<in> set us. due b n < due b t" by fastforce
  then have "filter (\<lambda>t. due b t \<le> due b n) us = []" "filter (\<lambda>t. due b n < due b t) us = us"
    by (auto simp: filter_empty_conv not_le filter_id_conv)
  with \<open>due b n < due b u\<close> show ?thesis by (simp add: place_def)
qed

lemma insert_after_place:
  assumes "timers_ok b (u # us)" and "due b n < 2 ^ 31" and "due b u \<le> due b n"
  shows "insert_after n (u # us) = place b n (u # us)"
  using assms
proof (induction us arbitrary: u)
  case Nil
  then show ?case by (simp add: place_def)
next
  case (Cons v vs)
  have less: "TIME_LESS_THAN (t_time n) (t_time v) \<longleftrightarrow> due b n < due b v"
    using TIME_LESS_THAN_since [of b "t_time n" "t_time v"] Cons.prems by (simp add: due_def timers_ok_def)
  have ok: "timers_ok b (v # vs)" using Cons.prems(1) by (simp add: timers_ok_def)
  show ?case
  proof (cases "due b n < due b v")
    case True
    with place_front [of b v vs n] ok less Cons.prems(3) show ?thesis by (simp add: place_def timers_ok_def)
  next
    case False
    with Cons.IH [OF ok Cons.prems(2)] less Cons.prems(3) show ?thesis by (simp add: place_def)
  qed
qed

lemma place_ok:
  assumes "timers_ok b ts" and "due b n < 2 ^ 31" and "t_h n = Some Cyclic_timer \<longrightarrow> t_arg n < length lwip_cyclic_timers"
  shows "timers_ok b (place b n ts)"
proof -
  have "sorted (map (due b) (filter P ts))" for P using assms(1) sorted_filter [of "due b" ts P] by (simp add: timers_ok_def)
  then show ?thesis using assms by (auto simp: timers_ok_def place_def sorted_append)
qed

text \<open>Frames.\<close>

lemma t_do_simps [simp]:
  "next_timeout (t_do c s) = next_timeout s" "t_env (t_do c s) = t_env s" "t_log (t_do c s) = t_log s @ [c]"
  "current_timeout_due_time (t_do c s) = current_timeout_due_time s" "tcpip_tcp_timer_active (t_do c s) = tcpip_tcp_timer_active s"
  by (simp_all add: t_do_def)

text \<open>\<open>sys_timeout_abs\<close> puts the timeout in its place, or drops it when there is no memory.\<close>

lemma sys_timeout_abs_place:
  assumes "timers_ok b (next_timeout s)" and "since b time < 2 ^ 31"
  shows "next_timeout (sys_timeout_abs time h arg s) =
    (if te_alloc (t_env s) (t_log s) then place b \<lparr>t_h = h, t_arg = arg, t_time = time\<rparr> (next_timeout s) else next_timeout s)"
proof -
  let ?n = "\<lparr>t_h = h, t_arg = arg, t_time = time\<rparr>"
  have n: "due b ?n < 2 ^ 31" using assms(2) by (simp add: due_def)
  show ?thesis
  proof (cases "next_timeout s")
    case Nil
    then show ?thesis by (simp add: sys_timeout_abs_def Let_def place_def)
  next
    case (Cons u us)
    have ok: "timers_ok b (u # us)" using assms(1) Cons by simp
    have less: "TIME_LESS_THAN time (t_time u) \<longleftrightarrow> due b ?n < due b u"
      using TIME_LESS_THAN_since [of b time "t_time u"] assms(2) ok by (simp add: due_def timers_ok_def)
    have "sorted (map (due b) (u # us))" using ok by (simp add: timers_ok_def)
    with less Cons place_front [of b u us ?n] insert_after_place [OF ok n] show ?thesis
      by (simp add: sys_timeout_abs_def Let_def not_less)
  qed
qed

definition runs :: "t_call list \<Rightarrow> sys_timeo list" where
  "runs l = List.map_filter (\<lambda>c. case c of T_run t \<Rightarrow> Some t | _ \<Rightarrow> None) l"

lemma runs_simps [simp]:
  "runs [] = []" "runs (l @ l') = runs l @ runs l'" "runs (T_run t # l) = t # runs l"
  "runs (T_now # l) = runs l" "runs (T_alloc # l) = runs l" "runs (T_free # l) = runs l" "runs (T_ooseq # l) = runs l"
  "runs (T_tcp_tmr # l) = runs l" "runs (T_tcp_pcbs # l) = runs l" "runs (T_cyclic i # l) = runs l"
  by (simp_all add: runs_def map_filter_def)

lemma sys_timeout_abs_frame [simp]:
  "t_env (sys_timeout_abs time h arg s) = t_env s" "runs (t_log (sys_timeout_abs time h arg s)) = runs (t_log s)"
  "current_timeout_due_time (sys_timeout_abs time h arg s) = current_timeout_due_time s"
  by (simp_all add: sys_timeout_abs_def Let_def)

lemma sys_now_simps [simp]: "fst (sys_now s) = te_now (t_env s) (t_log s)" "snd (sys_now s) = t_do T_now s"
  by (simp_all add: sys_now_def)

section \<open>What a turn of the loop does\<close>

text \<open>The clock stays within \<open>D\<close> ms after \<open>N\<close>, the time the loop started, and handlers ask for timeouts of
  between one millisecond and the documented maximum.\<close>

definition turn_env :: "u32 \<Rightarrow> nat \<Rightarrow> nat \<Rightarrow> t_env \<Rightarrow> bool" where
  "turn_env b N D e \<longleftrightarrow> N + D + 2 ^ 30 < 2 ^ 31 \<and>
     (\<forall>l. N \<le> since b (te_now e l) \<and> since b (te_now e l) \<le> N + D) \<and>
     (\<forall>l msecs f arg. Req_timeout msecs f arg \<in> set (te_reqs e l) \<longrightarrow> 0 < unat msecs \<and> unat msecs \<le> 0xffffffff div 4)"

text \<open>No handler takes a timeout back.\<close>

definition keeps_timers :: "t_env \<Rightarrow> bool" where
  "keeps_timers e \<longleftrightarrow> (\<forall>l f arg. Req_untimeout f arg \<notin> set (te_reqs e l))"

definition backlog :: "u32 \<Rightarrow> nat \<Rightarrow> sys_timeo list \<Rightarrow> nat" where
  "backlog b N ts = sum_list (map (\<lambda>t. N + 1 - due b t) ts)"

text \<open>What other modules do to the timers: nothing that is due is added, nothing is run.\<close>

definition quiet :: "u32 \<Rightarrow> nat \<Rightarrow> t_state \<Rightarrow> t_state \<Rightarrow> bool" where
  "quiet b N s s' \<longleftrightarrow> timers_ok b (next_timeout s') \<and> t_env s' = t_env s \<and> runs (t_log s') = runs (t_log s) \<and>
     current_timeout_due_time s' = current_timeout_due_time s \<and> backlog b N (next_timeout s') \<le> backlog b N (next_timeout s) \<and>
     (\<forall>t \<in> set (next_timeout s'). t \<in> set (next_timeout s) \<or> N < due b t) \<and>
     (keeps_timers (t_env s) \<longrightarrow> set (next_timeout s) \<subseteq> set (next_timeout s'))"

lemma quiet_trans: "quiet b N s s' \<Longrightarrow> quiet b N s' s'' \<Longrightarrow> quiet b N s s''"
  unfolding quiet_def by (auto simp: order_trans)

lemma backlog_filter: "backlog b N (filter P ts) + backlog b N (filter (\<lambda>t. \<not> P t) ts) = backlog b N ts"
  by (induction ts) (auto simp: backlog_def)

lemma backlog_place: "backlog b N (place b n ts) = backlog b N ts + (N + 1 - due b n)"
  using backlog_filter [of b N "\<lambda>t. due b t \<le> due b n" ts] by (simp add: backlog_def place_def not_le)

lemma quiet_timeout_abs:
  assumes "timers_ok b (next_timeout s)" and "N < since b time" and "since b time < 2 ^ 31"
    and "h = Some Cyclic_timer \<longrightarrow> arg < length lwip_cyclic_timers"
  shows "quiet b N s (sys_timeout_abs time h arg s)"
proof -
  let ?n = "\<lparr>t_h = h, t_arg = arg, t_time = time\<rparr>"
  have n: "due b ?n = since b time" by (simp add: due_def)
  have "timers_ok b (place b ?n (next_timeout s))" using place_ok [OF assms(1)] assms(3,4) n by simp
  then show ?thesis
    using assms(1,2) n by (auto simp: quiet_def sys_timeout_abs_place [OF assms(1,3)] backlog_place) (auto simp: place_def not_le)
qed

lemma quiet_timeout:
  assumes "timers_ok b (next_timeout s)" and "turn_env b N D (t_env s)" and "0 < unat msecs" and "unat msecs \<le> 0xffffffff div 4"
    and "h \<noteq> Some Cyclic_timer"
  shows "quiet b N s (sys_timeout msecs h arg s)"
proof -
  let ?now = "te_now (t_env s) (t_log s)"
  have now: "N \<le> since b ?now" "since b ?now \<le> N + D" "N + D + 2 ^ 30 < 2 ^ 31" using assms(2) by (simp_all add: turn_env_def)
  have since: "since b (?now + msecs) = since b ?now + unat msecs" using now assms(4) by (intro since_add) simp
  have "quiet b N (t_do T_now s) (sys_timeout_abs (?now + msecs) h arg (t_do T_now s))"
    by (rule quiet_timeout_abs) (use assms now since in auto)
  then show ?thesis by (simp add: sys_timeout_def sys_now_def quiet_def)
qed

lemma quiet_refl: "timers_ok b (next_timeout s) \<Longrightarrow> quiet b N s s"
  by (simp add: quiet_def)

lemma remove_match_split:
  "remove_match h arg ts = Some us \<Longrightarrow> \<exists>pre t post. ts = pre @ t # post \<and> us = pre @ post \<and> t_h t = h \<and> t_arg t = arg"
proof (induction ts arbitrary: us)
  case (Cons t ts)
  show ?case
  proof (cases "t_h t = h \<and> t_arg t = arg")
    case True
    with Cons.prems show ?thesis by (intro exI [of _ "[]"]) auto
  next
    case False
    with Cons.prems obtain vs where vs: "remove_match h arg ts = Some vs" "us = t # vs" by auto
    from Cons.IH [OF vs(1)] vs(2) show ?thesis by (metis append_Cons)
  qed
qed simp

lemma quiet_untimeout:
  assumes "timers_ok b (next_timeout s)" and "\<not> keeps_timers (t_env s)"
  shows "quiet b N s (sys_untimeout h arg s)"
proof (cases "remove_match h arg (next_timeout s)")
  case None
  then show ?thesis using assms by (simp add: sys_untimeout_def quiet_refl)
next
  case (Some us)
  from remove_match_split [OF this] obtain pre t post where p: "next_timeout s = pre @ t # post" "us = pre @ post" by blast
  then have "timers_ok b us" using assms(1) by (auto simp: timers_ok_def sorted_append)
  with p Some assms(2) show ?thesis by (auto simp: sys_untimeout_def quiet_def backlog_def)
qed

lemma quiet_tcp_needed:
  assumes "timers_ok b (next_timeout s)" and "turn_env b N D (t_env s)"
  shows "quiet b N s (tcp_timer_needed s)"
proof -
  let ?s = "(t_do T_tcp_pcbs s)\<lparr>tcpip_tcp_timer_active := True\<rparr>"
  have "quiet b N ?s (sys_timeout TCP_TMR_INTERVAL (Some Tcp_timer) 0 ?s)"
    by (rule quiet_timeout) (use assms in \<open>auto simp: TCP_TMR_INTERVAL_def\<close>)
  with assms(1) show ?thesis by (auto simp: tcp_timer_needed_def tcp_pcbs_def quiet_def)
qed

lemma quiet_request:
  assumes "timers_ok b (next_timeout s)" and "turn_env b N D (t_env s)" and "q \<in> set (te_reqs (t_env s) l)"
  shows "quiet b N s (request_timer q s)"
proof (cases q)
  case (Req_timeout msecs f arg)
  with assms(2,3) have "0 < unat msecs" "unat msecs \<le> 0xffffffff div 4" unfolding turn_env_def by blast+
  with Req_timeout assms show ?thesis by (auto intro!: quiet_timeout)
next
  case (Req_untimeout f arg)
  with assms(3) have "\<not> keeps_timers (t_env s)" by (auto simp: keeps_timers_def)
  with Req_untimeout quiet_untimeout [OF assms(1)] show ?thesis by simp
next
  case Req_tcp_timer
  with quiet_tcp_needed [OF assms(1,2)] show ?thesis by simp
qed

lemma quiet_requests:
  assumes "timers_ok b (next_timeout s)" and "turn_env b N D (t_env s)" and "set qs \<subseteq> set (te_reqs (t_env s) l)"
  shows "quiet b N s (fold request_timer qs s)"
  using assms
proof (induction qs arbitrary: s)
  case (Cons q qs)
  have q: "quiet b N s (request_timer q s)" using quiet_request Cons.prems by auto
  then have "quiet b N (request_timer q s) (fold request_timer qs (request_timer q s))"
    using Cons.prems by (intro Cons.IH) (auto simp: quiet_def)
  with quiet_trans [OF q] show ?case by simp
qed (simp add: quiet_refl)

lemma quiet_foreign:
  assumes "timers_ok b (next_timeout s)" and "turn_env b N D (t_env s)"
  shows "quiet b N (t_do c s) (foreign c s)"
  using quiet_requests [of b "t_do c s" N D "te_reqs (t_env s) (t_log s @ [c])" "t_log s @ [c]"] assms
  by (simp add: foreign_def Let_def)

text \<open>The handler of a timeout that is due runs it; it adds at most one timeout that is due, later than the
  one that was run.\<close>

definition turned :: "u32 \<Rightarrow> nat \<Rightarrow> sys_timeo \<Rightarrow> t_state \<Rightarrow> t_state \<Rightarrow> bool" where
  "turned b N t s s' \<longleftrightarrow> timers_ok b (next_timeout s') \<and> t_env s' = t_env s \<and>
     runs (t_log s') = runs (t_log s) @ (if t_h t = None then [] else [t]) \<and>
     backlog b N (next_timeout s') \<le> backlog b N (next_timeout s) + (N - due b t) \<and>
     (\<forall>u \<in> set (next_timeout s'). u \<in> set (next_timeout s) \<or> due b t < due b u) \<and>
     (keeps_timers (t_env s) \<longrightarrow> set (next_timeout s) \<subseteq> set (next_timeout s'))"

lemma quiet_turned:
  assumes "quiet b N (t_do (T_run t) s) s'" and "t_h t \<noteq> None" and "due b t \<le> N"
  shows "turned b N t s s'"
  using assms unfolding quiet_def turned_def by fastforce

lemma cyclic_intervals: "i < length lwip_cyclic_timers \<Longrightarrow> 0 < unat (lwip_cyclic_timers ! i) \<and> unat (lwip_cyclic_timers ! i) \<le> 60000"
  by (auto simp: lwip_cyclic_timers_def TCP_TMR_INTERVAL_def nth_Cons' split: if_splits)

lemma cyclic_turned:
  assumes "timers_ok b (next_timeout s)" and "turn_env b N D (t_env s)" and "due b t \<le> N" and "t_h t = Some Cyclic_timer"
    and "t_arg t < length lwip_cyclic_timers" and "current_timeout_due_time s = t_time t"
  shows "\<exists>s'. lwip_cyclic_timer (t_arg t) (t_do (T_run t) s) = Some s' \<and> turned b N t s s'"
proof -
  define s1 where "s1 = foreign (T_cyclic (t_arg t)) (t_do (T_run t) s)"
  define i where "i = lwip_cyclic_timers ! t_arg t"
  define now where "now = te_now (t_env s1) (t_log s1)"
  have i: "0 < unat i" "unat i \<le> 60000" using cyclic_intervals [OF assms(5)] by (simp_all add: i_def)
  have q: "quiet b N (t_do (T_cyclic (t_arg t)) (t_do (T_run t) s)) s1"
    unfolding s1_def by (rule quiet_foreign) (use assms in auto)
  then have s1: "timers_ok b (next_timeout s1)" "t_env s1 = t_env s" "current_timeout_due_time s1 = t_time t"
    "runs (t_log s1) = runs (t_log s) @ [t]" "backlog b N (next_timeout s1) \<le> backlog b N (next_timeout s)"
    "\<forall>u \<in> set (next_timeout s1). u \<in> set (next_timeout s) \<or> N < due b u"
    "keeps_timers (t_env s) \<longrightarrow> set (next_timeout s) \<subseteq> set (next_timeout s1)"
    using assms(6) by (auto simp: quiet_def)
  have w: "N + D + 2 ^ 30 < 2 ^ 31" "N \<le> since b now" "since b now \<le> N + D"
    using assms(2) s1(2) by (simp_all add: turn_env_def now_def)
  define time where "time = (if TIME_LESS_THAN (t_time t + i) now then now + i else t_time t + i)"
  have a: "since b (now + i) = since b now + unat i" "since b (t_time t + i) = due b t + unat i"
    using w i assms(3) by (simp_all add: since_add due_def)
  then have time: "due b t < since b time" "since b time < 2 ^ 31" using w i assms(3) by (auto simp: time_def)
  let ?n = "\<lparr>t_h = Some Cyclic_timer, t_arg = t_arg t, t_time = time\<rparr>"
  define s2 where "s2 = sys_timeout_abs time (Some Cyclic_timer) (t_arg t) (t_do T_now s1)"
  have "lwip_cyclic_timer (t_arg t) (t_do (T_run t) s) = Some s2"
    using assms(5) s1(3) by (simp add: lwip_cyclic_timer_def Let_def sys_now_def s2_def time_def flip: s1_def i_def now_def)
  moreover have "next_timeout s2 = (if te_alloc (t_env s1) (t_log s1 @ [T_now]) then place b ?n (next_timeout s1) else next_timeout s1)"
    unfolding s2_def using sys_timeout_abs_place [of b "t_do T_now s1" time] s1(1) time(2) by simp
  moreover have "timers_ok b (place b ?n (next_timeout s1))"
    using place_ok [OF s1(1), of ?n] time(2) assms(5) by (simp add: due_def)
  moreover have "due b ?n = since b time" by (simp add: due_def)
  ultimately show ?thesis
    using s1 time(1) assms(3,4) by (auto simp: turned_def s2_def backlog_place) (fastforce simp: place_def)+
qed

lemma call_turned:
  assumes "timers_ok b (next_timeout s)" and "turn_env b N D (t_env s)" and "due b t \<le> N"
    and "t_h t = Some Cyclic_timer \<longrightarrow> t_arg t < length lwip_cyclic_timers" and "current_timeout_due_time s = t_time t"
  shows "\<exists>s'. call_handler t s = Some s' \<and> turned b N t s s'"
proof (cases "t_h t")
  case None
  with assms(1) show ?thesis by (simp add: call_handler_def turned_def)
next
  case (Some f)
  show ?thesis
  proof (cases f)
    case Tcp_timer
    let ?s = "foreign T_tcp_tmr (t_do (T_run t) s)"
    have q: "quiet b N (t_do T_tcp_tmr (t_do (T_run t) s)) ?s" by (rule quiet_foreign) (use assms in auto)
    have "quiet b N (t_do T_tcp_pcbs ?s) (sys_timeout TCP_TMR_INTERVAL (Some Tcp_timer) 0 (t_do T_tcp_pcbs ?s))"
      by (rule quiet_timeout) (use q assms in \<open>auto simp: TCP_TMR_INTERVAL_def quiet_def\<close>)
    with q have "quiet b N (t_do (T_run t) s) (tcpip_tcp_timer (t_do (T_run t) s))"
      by (auto simp: tcpip_tcp_timer_def tcp_pcbs_def quiet_def)
    with Some Tcp_timer assms(3) show ?thesis by (auto simp: call_handler_def intro: quiet_turned)
  next
    case Cyclic_timer
    with Some cyclic_turned [OF assms(1-3)] assms(4,5) show ?thesis by (simp add: call_handler_def)
  next
    case (Fn g)
    with Some quiet_foreign [OF assms(1,2), of "T_run t"] assms(3) show ?thesis
      by (auto simp: call_handler_def intro: quiet_turned)
  qed
qed

text \<open>The loop ends; then nothing is left that is due, and what was run was run in the order it was due.\<close>

definition ran :: "u32 \<Rightarrow> nat \<Rightarrow> t_state \<Rightarrow> t_state \<Rightarrow> sys_timeo list \<Rightarrow> bool" where
  "ran b N s s' ts \<longleftrightarrow> timers_ok b (next_timeout s') \<and> t_env s' = t_env s \<and> (\<forall>t \<in> set (next_timeout s'). N < due b t) \<and>
     runs (t_log s') = runs (t_log s) @ ts \<and> sorted (map (due b) ts) \<and> (\<forall>t \<in> set ts. due b t \<le> N) \<and>
     (\<forall>L. (\<forall>t \<in> set (next_timeout s). L \<le> due b t) \<longrightarrow> (\<forall>t \<in> set ts. L \<le> due b t)) \<and>
     (keeps_timers (t_env s) \<longrightarrow> {t \<in> set (next_timeout s). due b t \<le> N \<and> t_h t \<noteq> None} \<subseteq> set ts)"

lemma check_loop_unfold:
  "check_loop now s = (case next_timeout s of
      [] \<Rightarrow> Some (t_do T_ooseq s)
    | t # ts \<Rightarrow>
        if TIME_LESS_THAN now (t_time t) then Some (t_do T_ooseq s)
        else do {
          s \<leftarrow> call_handler t (t_do T_free ((t_do T_ooseq s)\<lparr>next_timeout := ts, current_timeout_due_time := t_time t\<rparr>));
          check_loop now s })"
  by (subst check_loop.simps) (simp add: Let_def)

lemma ran_step:
  assumes "turned b N t s1 s2" and "ran b N s2 s3 ts" and "due b t \<le> N" and "timers_ok b (t # next_timeout s1)"
    and "next_timeout s = t # next_timeout s1" and "t_env s1 = t_env s" and "runs (t_log s1) = runs (t_log s)"
  shows "ran b N s s3 ((if t_h t = None then [] else [t]) @ ts)"
proof -
  have lo: "\<forall>u \<in> set (next_timeout s2). due b t \<le> due b u"
    using assms(1,4) by (fastforce simp: turned_def timers_ok_def)
  have L: "\<forall>u \<in> set ts. L \<le> due b u" if "\<forall>u \<in> set (next_timeout s). L \<le> due b u" for L
  proof -
    have "\<forall>u \<in> set (next_timeout s2). L \<le> due b u" using that lo assms(5) by fastforce
    then show ?thesis using assms(2) by (simp add: ran_def)
  qed
  have lo': "\<forall>u \<in> set ts. due b t \<le> due b u" using lo assms(2) by (simp add: ran_def)
  have K: "{u \<in> set (next_timeout s). due b u \<le> N \<and> t_h u \<noteq> None} \<subseteq> set ((if t_h t = None then [] else [t]) @ ts)"
    if "keeps_timers (t_env s)"
  proof -
    have "set (next_timeout s1) \<subseteq> set (next_timeout s2)" "t_env s2 = t_env s" using that assms(1,6) by (simp_all add: turned_def)
    moreover then have "{u \<in> set (next_timeout s2). due b u \<le> N \<and> t_h u \<noteq> None} \<subseteq> set ts"
      using that assms(2) by (simp add: ran_def)
    ultimately show ?thesis unfolding assms(5) by auto
  qed
  have A: "timers_ok b (next_timeout s3)" "t_env s3 = t_env s2" "\<forall>u \<in> set (next_timeout s3). N < due b u"
    "runs (t_log s3) = runs (t_log s2) @ ts" "sorted (map (due b) ts)" "\<forall>u \<in> set ts. due b u \<le> N"
    using assms(2) by (simp_all add: ran_def)
  have B: "t_env s2 = t_env s" "runs (t_log s2) = runs (t_log s) @ (if t_h t = None then [] else [t])"
    using assms(1,6,7) by (simp_all add: turned_def)
  have C: "\<forall>u \<in> set ((if t_h t = None then [] else [t]) @ ts). L \<le> due b u" if "\<forall>u \<in> set (next_timeout s). L \<le> due b u" for L
    using that L [OF that] assms(5) by simp
  have D: "\<forall>u \<in> set ((if t_h t = None then [] else [t]) @ ts). due b u \<le> N"
    "sorted (map (due b) ((if t_h t = None then [] else [t]) @ ts))" using A(5,6) assms(3) lo' by simp_all
  show ?thesis unfolding ran_def using A(1,3) D K C
    by (intro conjI allI impI) (blast | simp only: A(2,4) B append_assoc)+
qed

lemma check_loop_ran:
  assumes "timers_ok b (next_timeout s)" and "turn_env b N D (t_env s)" and "since b now = N"
  shows "\<exists>s' ts. check_loop now s = Some s' \<and> ran b N s s' ts"
  using assms
proof (induction "backlog b N (next_timeout s)" arbitrary: s rule: less_induct)
  case less
  have N: "N < 2 ^ 31" using less.prems(2) by (simp add: turn_env_def)
  show ?case
  proof (cases "next_timeout s")
    case Nil
    then show ?thesis by (subst check_loop_unfold) (simp add: ran_def timers_ok_def)
  next
    case (Cons t us)
    have t: "due b t < 2 ^ 31" "t_h t = Some Cyclic_timer \<longrightarrow> t_arg t < length lwip_cyclic_timers"
      "timers_ok b us" "timers_ok b (t # us)" "\<forall>u \<in> set us. due b t \<le> due b u"
      using less.prems(1) Cons by (simp_all add: timers_ok_def)
    have lt: "TIME_LESS_THAN now (t_time t) \<longleftrightarrow> N < due b t"
      using TIME_LESS_THAN_since [of b now "t_time t"] t(1) N less.prems(3) by (simp add: due_def)
    show ?thesis
    proof (cases "N < due b t")
      case True
      then have "\<forall>u \<in> set (t # us). N < due b u" using t(5) by auto
      with True lt Cons less.prems(1) show ?thesis
        by (subst check_loop_unfold) (auto simp: ran_def)
    next
      case False
      define s1 where "s1 = t_do T_free ((t_do T_ooseq s)\<lparr>next_timeout := us, current_timeout_due_time := t_time t\<rparr>)"
      have s1: "next_timeout s1 = us" "t_env s1 = t_env s" "runs (t_log s1) = runs (t_log s)" "current_timeout_due_time s1 = t_time t"
        by (simp_all add: s1_def)
      from call_turned [of b s1 N D t] obtain s2 where s2: "call_handler t s1 = Some s2" "turned b N t s1 s2"
        using False t less.prems(2) s1 by auto
      have "backlog b N (next_timeout s) = backlog b N us + (N + 1 - due b t)" using Cons by (simp add: backlog_def)
      moreover have "backlog b N (next_timeout s2) \<le> backlog b N us + (N - due b t)" using s2(2) s1(1) by (simp add: turned_def)
      ultimately have "backlog b N (next_timeout s2) < backlog b N (next_timeout s)" using False by linarith
      from less.hyps [OF this] obtain s3 ts where s3: "check_loop now s2 = Some s3" "ran b N s2 s3 ts"
        using s2(2) s1(2) less.prems(2,3) by (auto simp: turned_def)
      have "check_loop now s = Some s3"
        by (subst check_loop_unfold) (simp add: Cons lt False s2(1) s3(1) flip: s1_def)
      moreover have "ran b N s s3 ((if t_h t = None then [] else [t]) @ ts)"
        by (rule ran_step [OF s2(2) s3(2)]) (use False t(4) s1 Cons in auto)
      ultimately show ?thesis by blast
    qed
  qed
qed

section \<open>The TCP timer\<close>

text \<open>The TCP timer is marked as running but there is no timeout for it.\<close>

definition tcp_lost :: "t_state \<Rightarrow> bool" where
  "tcp_lost s \<longleftrightarrow> tcpip_tcp_timer_active s \<and> (\<forall>t \<in> set (next_timeout s). t_h t \<noteq> Some Tcp_timer)"

definition tcp_tmrs :: "t_state \<Rightarrow> nat" where
  "tcp_tmrs s = count_list (t_log s) T_tcp_tmr"

definition stays_lost :: "t_state \<Rightarrow> t_state \<Rightarrow> bool" where
  "stays_lost s s' \<longleftrightarrow> (tcp_lost s \<longrightarrow> tcp_lost s' \<and> tcp_tmrs s' = tcp_tmrs s)"

lemma stays_lost_refl: "stays_lost s s"
  by (simp add: stays_lost_def)

lemma stays_lost_trans: "stays_lost s s' \<Longrightarrow> stays_lost s' s'' \<Longrightarrow> stays_lost s s''"
  by (simp add: stays_lost_def)

lemma stays_lost_do: "c \<noteq> T_tcp_tmr \<Longrightarrow> stays_lost s (t_do c s)"
  by (simp add: stays_lost_def tcp_lost_def tcp_tmrs_def)

lemma set_insert_after: "set (insert_after n ts) \<subseteq> insert n (set ts)"
  by (induction n ts rule: insert_after.induct) auto

lemma set_timeout_abs:
  "set (next_timeout (sys_timeout_abs time h arg s)) \<subseteq> insert \<lparr>t_h = h, t_arg = arg, t_time = time\<rparr> (set (next_timeout s))"
  using set_insert_after [of "\<lparr>t_h = h, t_arg = arg, t_time = time\<rparr>" "next_timeout s"]
  by (cases "next_timeout s") (simp_all add: sys_timeout_abs_def Let_def, blast)

lemma lost_timeout_abs:
  assumes "h \<noteq> Some Tcp_timer"
  shows "stays_lost s (sys_timeout_abs time h arg s)"
proof -
  have "t_h t \<noteq> Some Tcp_timer" if "t \<in> set (next_timeout (sys_timeout_abs time h arg s))"
      "\<forall>t \<in> set (next_timeout s). t_h t \<noteq> Some Tcp_timer" for t
    using subsetD [OF set_timeout_abs that(1)] that(2) assms by auto
  then show ?thesis by (auto simp: stays_lost_def tcp_lost_def tcp_tmrs_def) (simp_all add: sys_timeout_abs_def Let_def)
qed

lemma lost_timeout: "h \<noteq> Some Tcp_timer \<Longrightarrow> stays_lost s (sys_timeout msecs h arg s)"
  unfolding sys_timeout_def sys_now_def using stays_lost_trans [OF stays_lost_do [of T_now s] lost_timeout_abs] by simp

lemma lost_untimeout: "stays_lost s (sys_untimeout h arg s)"
  using remove_match_split [of h arg "next_timeout s"]
  by (fastforce simp: stays_lost_def tcp_lost_def tcp_tmrs_def sys_untimeout_def split: option.splits)

lemma lost_request: "stays_lost s (request_timer q s)"
proof (cases q)
  case Req_tcp_timer
  then show ?thesis by (auto simp: stays_lost_def tcp_timer_needed_def tcp_lost_def)
qed (auto intro: lost_timeout lost_untimeout)

lemma lost_requests: "stays_lost s (fold request_timer qs s)"
  by (induction qs arbitrary: s) (auto intro: stays_lost_refl stays_lost_trans [OF lost_request])

lemma lost_foreign: "c \<noteq> T_tcp_tmr \<Longrightarrow> stays_lost s (foreign c s)"
  unfolding foreign_def Let_def by (rule stays_lost_trans [OF stays_lost_do lost_requests])

lemma lost_cyclic: "lwip_cyclic_timer arg s = Some s' \<Longrightarrow> stays_lost s s'"
  by (auto simp: lwip_cyclic_timer_def Let_def sys_now_def split: if_splits
      intro!: stays_lost_trans [OF lost_foreign [of "T_cyclic arg"] stays_lost_trans [OF stays_lost_do lost_timeout_abs]])

lemma lost_call:
  assumes "call_handler t s = Some s'" and "t_h t \<noteq> Some Tcp_timer"
  shows "stays_lost s s'"
proof -
  have "stays_lost s s'" if "lwip_cyclic_timer (t_arg t) (t_do (T_run t) s) = Some s'"
    by (rule stays_lost_trans [OF stays_lost_do lost_cyclic [OF that]]) simp
  with assms lost_foreign [of "T_run t" s] show ?thesis
    by (auto simp: call_handler_def stays_lost_refl split: option.splits t_fn.splits)
qed

lemma lost_check_loop:
  assumes "check_loop now s = Some s'"
  shows "stays_lost s s'"
  unfolding stays_lost_def
proof (rule check_loop.raw_induct [where P = "\<lambda>now s s'. tcp_lost s \<longrightarrow> tcp_lost s' \<and> tcp_tmrs s' = tcp_tmrs s", OF _ assms], goal_cases)
  case (1 check now s s')
  have o: "tcp_lost (t_do T_ooseq s) = tcp_lost s" "tcp_tmrs (t_do T_ooseq s) = tcp_tmrs s"
    by (simp_all add: tcp_lost_def tcp_tmrs_def)
  show ?case
  proof (cases "next_timeout s")
    case Nil
    with 1(2) o show ?thesis by (simp add: Let_def)
  next
    case (Cons t ts)
    define s1 where "s1 = t_do T_free ((t_do T_ooseq s)\<lparr>next_timeout := ts, current_timeout_due_time := t_time t\<rparr>)"
    have s1: "tcp_lost s \<longrightarrow> tcp_lost s1 \<and> tcp_tmrs s1 = tcp_tmrs s \<and> t_h t \<noteq> Some Tcp_timer"
      using Cons by (simp add: s1_def tcp_lost_def tcp_tmrs_def)
    show ?thesis
    proof (cases "TIME_LESS_THAN now (t_time t)")
      case True
      with 1(2) Cons o show ?thesis by (simp add: Let_def)
    next
      case False
      with 1(2) Cons obtain s2 where s2: "call_handler t s1 = Some s2" "check now s2 = Some s'"
        by (auto simp: Let_def s1_def bind_eq_Some_conv)
      from lost_call [OF s2(1)] s1 1(1) [OF s2(2)] show ?thesis by (auto simp: stays_lost_def)
    qed
  qed
qed

inductive timer_step :: "t_state \<Rightarrow> t_state \<Rightarrow> bool" where
  request: "timer_step s (request_timer q s)"
| check: "sys_check_timeouts s = Some s' \<Longrightarrow> timer_step s s'"
| restart: "timer_step s (sys_restart_timeouts s)"
| sleeptime: "timer_step s (snd (sys_timeouts_sleeptime s))"

lemma lost_step: "timer_step s s' \<Longrightarrow> stays_lost s s'"
proof (induction rule: timer_step.induct)
  case (check s s')
  then have "stays_lost (t_do T_now s) s'" by (simp add: sys_check_timeouts_def sys_now_def lost_check_loop)
  with stays_lost_trans [OF stays_lost_do] show ?case by blast
next
  case (restart s)
  then show ?case by (auto simp: stays_lost_def tcp_lost_def tcp_tmrs_def sys_restart_timeouts_def sys_now_def split: list.splits)
next
  case (sleeptime s)
  then show ?case by (auto simp: stays_lost_def tcp_lost_def tcp_tmrs_def sys_timeouts_sleeptime_def sys_now_def split: list.splits)
qed (rule lost_request)

lemma lost_steps: "timer_step\<^sup>*\<^sup>* s s' \<Longrightarrow> stays_lost s s'"
  by (induction rule: rtranclp_induct) (auto intro: stays_lost_refl stays_lost_trans lost_step)

section \<open>Properties\<close>

text \<open>An environment for examples: the clock shows 1000, there is memory, no TCP connection, and no handler
  asks for anything.\<close>

definition calm_env :: t_env where
  "calm_env = \<lparr>te_now = (\<lambda>l. 1000), te_alloc = (\<lambda>l. True), te_pcbs = (\<lambda>l. False), te_reqs = (\<lambda>l. [])\<rparr>"

definition example_timers :: t_state where
  "example_timers = \<lparr>next_timeout = [\<lparr>t_h = Some Cyclic_timer, t_arg = 5, t_time = 950\<rparr>, \<lparr>t_h = Some (Fn 7), t_arg = 0, t_time = 990\<rparr>,
     \<lparr>t_h = Some (Fn 8), t_arg = 0, t_time = 2000\<rparr>], current_timeout_due_time = 0, tcpip_tcp_timer_active = False, t_log = [],
     t_env = calm_env\<rparr>"

lemma example_timers_ok: "timers_ok 0 (next_timeout example_timers)" "turn_env 0 1000 0 (t_env example_timers)"
  by (simp_all add: example_timers_def timers_ok_def due_def since_def lwip_cyclic_timers_def turn_env_def calm_env_def)

text \<open>C8. \<open>sys_check_timeouts\<close> ends, and when it does, nothing is left in the list that was due when it
  began; what it ran was due, ran in the order it was due although times wrap around, and, unless
  a handler takes timeouts back, is all that was due. This holds if every timeout is within 2^31 ms
  of the base \<open>b\<close>, the clock moves on by at most \<open>D\<close> ms meanwhile, and handlers ask for timeouts of at
  least one millisecond.\<close>

theorem timers_run:
  assumes "timers_ok b (next_timeout s)" and "turn_env b N D (t_env s)" and "since b (te_now (t_env s) (t_log s)) = N"
  shows "\<exists>s' ts. sys_check_timeouts s = Some s' \<and> runs (t_log s') = runs (t_log s) @ ts \<and>
    sorted (map (due b) ts) \<and> (\<forall>t \<in> set ts. due b t \<le> N) \<and>
    timers_ok b (next_timeout s') \<and> (\<forall>t \<in> set (next_timeout s'). N < due b t) \<and>
    (keeps_timers (t_env s) \<longrightarrow> {t \<in> set (next_timeout s). due b t \<le> N \<and> t_h t \<noteq> None} \<subseteq> set ts)"
proof -
  have "\<exists>s' ts. check_loop (te_now (t_env s) (t_log s)) (t_do T_now s) = Some s' \<and> ran b N (t_do T_now s) s' ts"
    by (rule check_loop_ran) (use assms in simp_all)
  then show ?thesis by (auto simp: sys_check_timeouts_def sys_now_def ran_def)
qed

theorem timers_run_witness:
  "\<exists>s' ts. sys_check_timeouts example_timers = Some s' \<and> runs (t_log s') = ts \<and>
    {\<lparr>t_h = Some Cyclic_timer, t_arg = 5, t_time = 950\<rparr>, \<lparr>t_h = Some (Fn 7), t_arg = 0, t_time = 990\<rparr>} \<subseteq> set ts"
proof -
  have n: "since 0 (te_now (t_env example_timers) (t_log example_timers)) = 1000"
    by (simp add: since_def example_timers_def calm_env_def)
  have k: "keeps_timers (t_env example_timers)" by (simp add: keeps_timers_def example_timers_def calm_env_def)
  have l: "runs (t_log example_timers) = []" by (simp add: example_timers_def)
  have d: "{\<lparr>t_h = Some Cyclic_timer, t_arg = 5, t_time = 950\<rparr>, \<lparr>t_h = Some (Fn 7), t_arg = 0, t_time = 990\<rparr>}
      \<subseteq> {t \<in> set (next_timeout example_timers). due 0 t \<le> 1000 \<and> t_h t \<noteq> None}"
    by (simp add: example_timers_def due_def since_def)
  from timers_run [OF example_timers_ok n] k l obtain s' ts where
    "sys_check_timeouts example_timers = Some s'" "runs (t_log s') = ts"
    "{t \<in> set (next_timeout example_timers). due 0 t \<le> 1000 \<and> t_h t \<noteq> None} \<subseteq> set ts" by auto
  with subset_trans [OF d] show ?thesis by blast
qed

text \<open>C18. A timeout is put into the list behind those that are due no later and in front of those that
  are due later, however the clock has wrapped around; when there is no memory for it, it is dropped
  without a trace.\<close>

theorem timeout_placed:
  assumes "timers_ok b (next_timeout s)" and "since b (te_now (t_env s) (t_log s)) + unat msecs < 2 ^ 31"
    and "n = \<lparr>t_h = h, t_arg = arg, t_time = te_now (t_env s) (t_log s) + msecs\<rparr>"
  shows "next_timeout (sys_timeout msecs h arg s) =
    (if te_alloc (t_env s) (t_log s @ [T_now])
     then filter (\<lambda>t. due b t \<le> due b n) (next_timeout s) @ n # filter (\<lambda>t. due b n < due b t) (next_timeout s)
     else next_timeout s)"
proof -
  let ?now = "te_now (t_env s) (t_log s)"
  have "since b (?now + msecs) = since b ?now + unat msecs" using assms(2) by (intro since_add) simp
  then have "since b (?now + msecs) < 2 ^ 31" using assms(2) by simp
  from sys_timeout_abs_place [of b "t_do T_now s", OF _ this, of h arg] assms(1,3) show ?thesis
    by (simp add: sys_timeout_def sys_now_def place_def)
qed

theorem timeout_placed_witness:
  "map t_time (next_timeout (sys_timeout 500 (Some (Fn 9)) 0 example_timers)) = [950, 990, 1500, 2000]"
proof -
  have n: "since 0 (te_now (t_env example_timers) (t_log example_timers)) + unat (500 :: u32) < 2 ^ 31"
    by (simp add: since_def example_timers_def calm_env_def)
  show ?thesis unfolding timeout_placed [OF example_timers_ok(1) n refl]
    by (simp add: example_timers_def calm_env_def due_def since_def)
qed

text \<open>C40. If there is no memory for the timeout when a TCP connection needs the TCP timer, the timer is
  marked as running all the same: it is not started again and \<open>tcp_tmr\<close> is not called any more,
  whatever happens to the timers afterwards.\<close>

theorem tcp_timer_lost:
  assumes "\<not> tcpip_tcp_timer_active s" and "\<forall>t \<in> set (next_timeout s). t_h t \<noteq> Some Tcp_timer"
    and "te_pcbs (t_env s) (t_log s)" and "\<not> te_alloc (t_env s) (t_log s @ [T_tcp_pcbs, T_now])"
    and "timer_step\<^sup>*\<^sup>* (tcp_timer_needed s) s'"
  shows "tcpip_tcp_timer_active s' \<and> count_list (t_log s') T_tcp_tmr = count_list (t_log s) T_tcp_tmr"
proof -
  have "tcp_lost (tcp_timer_needed s)" "tcp_tmrs (tcp_timer_needed s) = tcp_tmrs s"
    using assms(1-4) by (simp_all add: tcp_timer_needed_def tcp_pcbs_def sys_timeout_def sys_now_def sys_timeout_abs_def tcp_lost_def tcp_tmrs_def)
  with lost_steps [OF assms(5)] show ?thesis by (simp add: stays_lost_def tcp_lost_def tcp_tmrs_def)
qed

theorem tcp_timer_lost_witness:
  "let s = example_timers\<lparr>t_env := calm_env\<lparr>te_pcbs := \<lambda>l. True, te_alloc := \<lambda>l. length l \<noteq> 2\<rparr>\<rparr>
   in tcpip_tcp_timer_active (tcp_timer_needed (tcp_timer_needed s)) \<and>
     count_list (t_log (tcp_timer_needed (tcp_timer_needed s))) T_tcp_tmr = 0"
proof -
  let ?s = "example_timers\<lparr>t_env := calm_env\<lparr>te_pcbs := \<lambda>l. True, te_alloc := \<lambda>l. length l \<noteq> 2\<rparr>\<rparr>"
  have "timer_step (tcp_timer_needed ?s) (tcp_timer_needed (tcp_timer_needed ?s))"
    using timer_step.request [of _ Req_tcp_timer] by simp
  then have "timer_step\<^sup>*\<^sup>* (tcp_timer_needed ?s) (tcp_timer_needed (tcp_timer_needed ?s))" by blast
  from tcp_timer_lost [OF _ _ _ _ this] show ?thesis by (simp add: example_timers_def calm_env_def)
qed

end
