(* ===== verification/Ip4_Addr.thy ===== *)
theory Ip4_Addr
  imports Lwip_Def
begin

text \<open>
  IPv4 addresses, \<^verbatim>\<open>src/src/core/ipv4/ip4_addr.c\<close>: text in the notations of \<open>inet_aton\<close>, dotted decimal
  output, netmasks and broadcast addresses. An address is a 32-bit word in network byte order, so
  that its least significant octet is the first one.
\<close>

section \<open>Broadcast addresses and netmasks\<close>

record netif_ip =
  ni_flags :: nat
  ni_addr :: u32
  ni_mask :: u32

definition ip4_addr_isbroadcast_u32 :: "u32 \<Rightarrow> netif_ip \<Rightarrow> bool" where
  "ip4_addr_isbroadcast_u32 addr netif =
     (if NOT addr = 0 \<or> addr = 0 then True
      else if and (ni_flags netif) 2 = 0 then False
      else if addr = ni_addr netif then False
      else (addr AND ni_mask netif) = (ni_addr netif AND ni_mask netif) \<and>
        (addr AND NOT (ni_mask netif)) = (0xffffffff AND NOT (ni_mask netif)))"

lemma drop_bit_less: "msk \<noteq> 0 \<Longrightarrow> unat (drop_bit 1 msk) < unat msk" for msk :: u32
proof -
  assume "msk \<noteq> 0"
  then have "0 < unat msk" by (simp add: unat_gt_0)
  moreover have "unat msk < 4294967296" using unsigned_less [of msk, where ?'a = nat] by simp
  ultimately show ?thesis unfolding unsigned_drop_bit_eq by (simp add: drop_bit_eq_div take_bit_eq_mod)
qed

function skip_ones :: "u32 \<Rightarrow> u32 \<Rightarrow> u32" where
  "skip_ones nm msk = (if msk \<noteq> 0 \<and> nm AND msk \<noteq> 0 then skip_ones nm (drop_bit 1 msk) else msk)"
  by pat_completeness auto

termination
  by (relation "measure (\<lambda>(nm, msk). unat msk)") (use drop_bit_less in auto)

function no_ones :: "u32 \<Rightarrow> u32 \<Rightarrow> bool" where
  "no_ones nm msk = (if msk \<noteq> 0 then if nm AND msk \<noteq> 0 then False else no_ones nm (drop_bit 1 msk) else True)"
  by pat_completeness auto

termination
  by (relation "measure (\<lambda>(nm, msk). unat msk)") (use drop_bit_less in auto)

declare skip_ones.simps [simp del] no_ones.simps [simp del]

definition ip4_addr_netmask_valid :: "u32 \<Rightarrow> bool" where
  "ip4_addr_netmask_valid netmask =
     (let nm_hostorder = lwip_htonl netmask
      in no_ones nm_hostorder (skip_ones nm_hostorder (push_bit 31 1)))"

section \<open>From text\<close>

definition isxdigit :: "byte \<Rightarrow> bool" where
  "isxdigit c \<longleftrightarrow> isdigit c \<or> 97 \<le> code c \<and> code c \<le> 102 \<or> 65 \<le> code c \<and> code c \<le> 70"

definition islower :: "byte \<Rightarrow> bool" where
  "islower c \<longleftrightarrow> 97 \<le> code c \<and> code c \<le> 122"

fun aton_digits :: "nat \<Rightarrow> u32 \<Rightarrow> bytes \<Rightarrow> u32 \<times> bytes" where
  "aton_digits base val [] = (val, [])"
| "aton_digits base val (c # cp) =
     (if isdigit c
      then if base = 8 \<and> 8 \<le> code c - 48 then (val, c # cp)
           else aton_digits base (val * of_nat base + of_nat (code c - 48)) cp
      else if base = 16 \<and> isxdigit c
      then aton_digits base (push_bit 4 val OR of_nat (code c + 10 - (if islower c then 97 else 65))) cp
      else (val, c # cp))"

text \<open>The base of a number, as in C.\<close>

definition aton_base :: "bytes \<Rightarrow> nat \<times> bytes" where
  "aton_base cp =
     (if deref cp = CHR ''0''
      then let cp = tl cp
           in if deref cp = CHR ''x'' \<or> deref cp = CHR ''X'' then (16, tl cp) else (8, cp)
      else (10, cp))"

function aton_parts :: "u32 list \<Rightarrow> bytes \<Rightarrow> (u32 list \<times> u32 \<times> bytes) option" where
  "aton_parts parts cp =
     (if \<not> isdigit (deref cp) then None
      else let (base, cp) = aton_base cp; (val, cp) = aton_digits base 0 cp
           in if deref cp = CHR ''.''
              then if 3 \<le> length parts then None else aton_parts (parts @ [val]) (tl cp)
              else Some (parts, val, cp))"
  by pat_completeness auto

termination
  by (relation "measure (\<lambda>(parts, cp). 3 - length parts)") auto

declare aton_parts.simps [simp del]

definition ip4addr_aton :: "bytes \<Rightarrow> u32 option" where
  "ip4addr_aton cp = do {
     (parts, val, cp) \<leftarrow> aton_parts [] cp;
     if deref cp \<noteq> nul \<and> \<not> isspace (deref cp) then None
     else do {
       val \<leftarrow> (case parts of
           [] \<Rightarrow> Some val
         | [a] \<Rightarrow> if 0xffffff < val \<or> 0xff < a then None else Some (val OR push_bit 24 a)
         | [a, b] \<Rightarrow> if 0xffff < val \<or> 0xff < a \<or> 0xff < b then None else Some (val OR push_bit 24 a OR push_bit 16 b)
         | [a, b, c] \<Rightarrow> if 0xff < val \<or> 0xff < a \<or> 0xff < b \<or> 0xff < c then None
             else Some (val OR push_bit 24 a OR push_bit 16 b OR push_bit 8 c)
         | _ \<Rightarrow> Some val);
       Some (lwip_htonl val) } }"

definition ipaddr_addr :: "bytes \<Rightarrow> u32" where
  "ipaddr_addr cp = (case ip4addr_aton cp of Some a \<Rightarrow> a | None \<Rightarrow> 0xffffffff)"

section \<open>To text\<close>

text \<open>The digits of an octet, last one first.\<close>

fun inv_digits :: "nat \<Rightarrow> bytes" where
  "inv_digits ap = char_of (48 + ap mod 10) # (if ap div 10 = 0 then [] else inv_digits (ap div 10))"

declare inv_digits.simps [simp del]

text \<open>Characters go to the buffer one by one; \<open>len\<close> are in it. The result tells whether all of them had room.\<close>

fun put_chars :: "nat \<Rightarrow> bytes \<Rightarrow> nat \<times> bytes \<Rightarrow> (bool \<times> nat \<times> bytes) option" where
  "put_chars buflen [] (len, buf) = Some (True, len, buf)"
| "put_chars buflen (c # cs) (len, buf) =
     (if buflen \<le> len then Some (False, len, buf)
      else do { buf \<leftarrow> store_bytes len [c] buf; put_chars buflen cs (len + 1, buf) })"

fun ntoa_loop :: "nat \<Rightarrow> nat list \<Rightarrow> nat \<times> bytes \<Rightarrow> (bool \<times> nat \<times> bytes) option" where
  "ntoa_loop buflen [] out = Some (True, out)"
| "ntoa_loop buflen (ap # aps) out = do {
     (ok, out) \<leftarrow> put_chars buflen (rev (inv_digits ap) @ ''.'') out;
     if ok then ntoa_loop buflen aps out else Some (False, out) }"

text \<open>The result is whether the buffer was big enough, and the buffer.\<close>

definition ip4addr_ntoa_r :: "u32 \<Rightarrow> bytes \<Rightarrow> nat \<Rightarrow> (bool \<times> bytes) option" where
  "ip4addr_ntoa_r addr buf buflen = do {
     (ok, len, buf) \<leftarrow> ntoa_loop buflen (map (\<lambda>i. unat (octet i addr)) [0..<4]) (0, buf);
     if ok then do { buf \<leftarrow> store_bytes (len - 1) [nul] buf; Some (True, buf) } else Some (False, buf) }"

definition IP4ADDR_STRLEN_MAX :: nat where
  "IP4ADDR_STRLEN_MAX = 16"

definition ip4addr_ntoa :: "u32 \<Rightarrow> bytes \<Rightarrow> (bool \<times> bytes) option" where
  "ip4addr_ntoa addr str = ip4addr_ntoa_r addr str IP4ADDR_STRLEN_MAX"

section \<open>Printing\<close>

lemma inv_digits_dec: "rev (inv_digits n) = dec n"
proof (induction n rule: dec.induct)
  case (1 n)
  then show ?case by (subst inv_digits.simps, subst dec.simps) (simp add: digit_def div_eq_0_iff)
qed

lemma put_chars_store:
  assumes "len + length cs \<le> buflen" and "buflen \<le> length buf"
  shows "put_chars buflen cs (len, buf) = Some (True, len + length cs, take len buf @ cs @ drop (len + length cs) buf)"
  using assms
proof (induction cs arbitrary: len buf)
  case (Cons c cs)
  then show ?case by (simp add: store_bytes_def add.commute)
qed simp

definition dots :: "nat list \<Rightarrow> bytes" where
  "dots ns = concat (map (\<lambda>n. dec n @ ''.'') ns)"

lemma ntoa_loop_dots:
  assumes "len + length (dots ns) \<le> buflen" and "buflen \<le> length buf"
  shows "ntoa_loop buflen ns (len, buf) = Some (True, len + length (dots ns), take len buf @ dots ns @ drop (len + length (dots ns)) buf)"
  using assms
proof (induction ns arbitrary: len buf)
  case (Cons n ns)
  let ?t = "dec n @ ''.''"
  let ?buf = "take len buf @ ?t @ drop (len + length ?t) buf"
  have "put_chars buflen ?t (len, buf) = Some (True, len + length ?t, ?buf)"
    by (rule put_chars_store) (use Cons.prems in \<open>simp_all add: dots_def\<close>)
  moreover have "ntoa_loop buflen ns (len + length ?t, ?buf) = Some (True, (len + length ?t) + length (dots ns),
      take (len + length ?t) ?buf @ dots ns @ drop (len + length ?t + length (dots ns)) ?buf)"
    by (rule Cons.IH) (use Cons.prems in \<open>simp_all add: dots_def\<close>)
  ultimately show ?case using Cons.prems by (simp add: inv_digits_dec dots_def ac_simps)
qed (simp add: dots_def)

lemma dec_length: "n < 1000 \<Longrightarrow> length (dec n) \<le> 3"
  by (simp add: dec.simps)

section \<open>Reading what was printed\<close>

lemma aton_digits_dec:
  assumes "\<forall>c \<in> set ds. isdigit c" and "\<not> isdigit (deref p)"
  shows "aton_digits 10 (of_nat v) (ds @ p) = (of_nat (fst (scan_digits v ds)), p)"
  using assms(1)
proof (induction ds arbitrary: v)
  case Nil
  show ?case using assms(2) by (cases p) auto
next
  case (Cons c ds)
  have "of_nat v * of_nat 10 + of_nat (code c - 48) = (of_nat (v * 10 + (code c - 48)) :: u32)" by simp
  with Cons.IH [of "v * 10 + (code c - 48)"] Cons.prems show ?case by simp
qed

lemma digit_0: "d < 10 \<Longrightarrow> digit d = CHR ''0'' \<longleftrightarrow> d = 0"
proof -
  assume "d < 10"
  then have "digit d = CHR ''0'' \<longleftrightarrow> code (digit d) = code (CHR ''0'')" by (simp only: of_char_eq_iff)
  with \<open>d < 10\<close> show ?thesis by simp
qed

lemma dec_first: "0 < n \<Longrightarrow> hd (dec n) \<noteq> CHR ''0''"
proof (induction n rule: dec.induct)
  case (1 n)
  show ?case
  proof (cases "n < 10")
    case True
    with 1(2) show ?thesis by (simp add: dec.simps [of n] digit_0)
  next
    case False
    then have "0 < n div 10" by (simp add: div_greater_zero_iff)
    with 1(1) [OF False] False show ?thesis by (simp add: dec.simps [of n])
  qed
qed

lemma aton_octet:
  assumes "\<not> isdigit (deref p)" and "deref p \<noteq> CHR ''x''" and "deref p \<noteq> CHR ''X''"
  shows "isdigit (deref (dec n @ p)) \<and>
    (\<exists>base cp. aton_base (dec n @ p) = (base, cp) \<and> aton_digits base 0 cp = (of_nat n, p))"
proof -
  obtain c ds where d: "dec n = c # ds" by (cases "dec n") auto
  have digits: "\<forall>c \<in> set (dec n). isdigit c" by (simp add: dec_digits)
  show ?thesis
  proof (cases "n = 0")
    case True
    then have "dec n = ''0''" using digit_0 [of 0] by (simp add: dec.simps)
    moreover have "aton_digits 8 0 p = (0, p)" using assms(1) by (cases p) auto
    ultimately show ?thesis using True assms by (simp add: aton_base_def Let_def isdigit_def)
  next
    case False
    then have "c \<noteq> CHR ''0''" using dec_first [of n] d by simp
    moreover have "aton_digits 10 0 (dec n @ p) = (of_nat n, p)"
      using aton_digits_dec [OF digits assms(1), of 0] by (simp add: scan_dec_value)
    ultimately show ?thesis using d digits by (simp add: aton_base_def)
  qed
qed

lemma aton_parts_dot:
  assumes "length parts < 3"
  shows "aton_parts parts (dec n @ CHR ''.'' # p) = aton_parts (parts @ [of_nat n]) p"
  using aton_octet [of "CHR ''.'' # p" n] assms by (subst aton_parts.simps) auto

lemma aton_parts_end: "aton_parts parts (dec n @ nul # p) = Some (parts, of_nat n, nul # p)"
  using aton_octet [of "nul # p" n] by (subst aton_parts.simps) auto

definition dotted :: "u32 \<Rightarrow> bytes" where
  "dotted a = dec (unat (octet 0 a)) @ ''.'' @ dec (unat (octet 1 a)) @ ''.'' @ dec (unat (octet 2 a)) @ ''.'' @ dec (unat (octet 3 a))"

lemma octet_le: "octet i a \<le> 0xff" "unat (octet i a) < 256"
proof -
  show "unat (octet i a) < 256" unfolding octet_def unsigned_take_bit_eq by (simp add: take_bit_eq_mod)
  then show "octet i a \<le> 0xff" by (simp add: word_le_nat_alt)
qed

lemma aton_dotted: "ip4addr_aton (dotted a @ nul # p) = Some a"
proof -
  have "aton_parts [] (dotted a @ nul # p) = Some ([octet 0 a, octet 1 a, octet 2 a], octet 3 a, nul # p)"
    by (simp add: dotted_def aton_parts_dot aton_parts_end del: One_nat_def)
  moreover have "octet 3 a OR push_bit 24 (octet 0 a) OR push_bit 16 (octet 1 a) OR push_bit 8 (octet 2 a) = lwip_htonl a"
    unfolding lwip_htonl_octets by (simp only: or.commute or.left_commute or.assoc)
  ultimately show ?thesis using octet_le(1) [of 0 a] octet_le(1) [of 1 a] octet_le(1) [of 2 a] octet_le(1) [of 3 a]
    by (simp add: ip4addr_aton_def not_less)
qed

lemma dots_dotted: "dots (map (\<lambda>i. unat (octet i a)) [0..<4]) = dotted a @ ''.''"
  by (simp add: dots_def dotted_def upt_rec numeral_2_eq_2 numeral_3_eq_3)

lemma dotted_length: "length (dotted a) \<le> 15"
proof -
  have "length (dec (unat (octet i a))) \<le> 3" for i using octet_le(2) [of i a] by (intro dec_length) simp
  from this [of 0] this [of 1] this [of 2] this [of 3] show ?thesis by (simp add: dotted_def del: One_nat_def)
qed

lemma ntoa_dotted:
  assumes "length (dotted a) < buflen" and "buflen \<le> length buf"
  shows "ip4addr_ntoa_r a buf buflen = Some (True, dotted a @ nul # drop (length (dotted a) + 1) buf)"
proof -
  have "ntoa_loop buflen (map (\<lambda>i. unat (octet i a)) [0..<4]) (0, buf) =
      Some (True, length (dotted a) + 1, dotted a @ ''.'' @ drop (length (dotted a) + 1) buf)"
    using ntoa_loop_dots [of 0 "map (\<lambda>i. unat (octet i a)) [0..<4]" buflen buf] assms unfolding dots_dotted by simp
  then show ?thesis using assms by (simp add: ip4addr_ntoa_r_def store_bytes_def)
qed

section \<open>Netmasks\<close>

lemma and_bit: "nm AND push_bit k 1 \<noteq> 0 \<longleftrightarrow> bit nm k" for nm :: u32
  by (simp add: and_exp_eq_0_iff_not_bit push_bit_eq_mult)

lemma next_bit: "k < 31 \<Longrightarrow> drop_bit 1 (push_bit (Suc k) 1) = (push_bit k 1 :: u32)" "drop_bit 1 (push_bit 0 1 :: u32) = 0"
  by (rule bit_word_eqI, auto simp: bit_simps)+

lemma bit_nonzero: "k < 32 \<Longrightarrow> (push_bit k 1 :: u32) \<noteq> 0"
  by (simp add: push_bit_eq_mult)

lemma no_ones_step: "x \<noteq> 0 \<Longrightarrow> no_ones nm x \<longleftrightarrow> \<not> nm AND x \<noteq> 0 \<and> no_ones nm (drop_bit 1 x)"
  by (subst no_ones.simps) simp

lemma skip_ones_step: "x \<noteq> 0 \<Longrightarrow> skip_ones nm x = (if nm AND x \<noteq> 0 then skip_ones nm (drop_bit 1 x) else x)"
  by (subst skip_ones.simps) simp

lemma no_ones_bits: "k < 32 \<Longrightarrow> no_ones nm (push_bit k 1) \<longleftrightarrow> (\<forall>i \<le> k. \<not> bit nm i)"
proof (induction k)
  case 0
  have "no_ones nm (push_bit 0 1) \<longleftrightarrow> \<not> bit nm 0 \<and> no_ones nm 0"
    using bit_nonzero [of 0] and_bit [of nm 0] next_bit(2) by (subst no_ones.simps) simp
  then show ?case by (simp add: no_ones.simps [of nm 0])
next
  case (Suc k)
  have k: "k < 31" using Suc.prems by simp
  have "no_ones nm (push_bit (Suc k) 1) \<longleftrightarrow> \<not> bit nm (Suc k) \<and> no_ones nm (push_bit k 1)"
    unfolding no_ones_step [OF bit_nonzero [OF Suc.prems]] and_bit next_bit(1) [OF k] by (rule refl)
  with Suc show ?case by (auto simp: le_Suc_eq)
qed

lemma skip_ones_bits:
  "k < 32 \<Longrightarrow> \<exists>m \<le> Suc k. (\<forall>i. m \<le> i \<and> i \<le> k \<longrightarrow> bit nm i) \<and> (m = 0 \<or> \<not> bit nm (m - 1)) \<and>
    skip_ones nm (push_bit k 1) = (if m = 0 then 0 else push_bit (m - 1) 1)"
proof (induction k)
  case 0
  have "skip_ones nm (push_bit 0 1) = (if bit nm 0 then skip_ones nm 0 else push_bit 0 1)"
    using bit_nonzero [of 0] and_bit [of nm 0] next_bit(2) by (subst skip_ones.simps) simp
  moreover have "skip_ones nm 0 = 0" by (subst skip_ones.simps) simp
  ultimately have "skip_ones nm (push_bit 0 1) = (if bit nm 0 then 0 else push_bit 0 1)" by simp
  then show ?case by (intro exI [of _ "if bit nm 0 then 0 else 1"]) auto
next
  case (Suc k)
  have k: "k < 31" using Suc.prems by simp
  have u: "skip_ones nm (push_bit (Suc k) 1) = (if bit nm (Suc k) then skip_ones nm (push_bit k 1) else push_bit (Suc k) 1)"
    unfolding skip_ones_step [OF bit_nonzero [OF Suc.prems]] and_bit next_bit(1) [OF k] by (rule refl)
  show ?case
  proof (cases "bit nm (Suc k)")
    case True
    from Suc obtain m where m: "m \<le> Suc k" "\<forall>i. m \<le> i \<and> i \<le> k \<longrightarrow> bit nm i" "m = 0 \<or> \<not> bit nm (m - 1)"
      "skip_ones nm (push_bit k 1) = (if m = 0 then 0 else push_bit (m - 1) 1)" by auto
    with True u show ?thesis by (intro exI [of _ m]) (auto simp: le_Suc_eq)
  next
    case False
    with u show ?thesis by (intro exI [of _ "Suc (Suc k)"]) auto
  qed
qed

lemma netmask_bits:
  "ip4_addr_netmask_valid netmask \<longleftrightarrow> (\<exists>m \<le> 32. \<forall>i < 32. bit (lwip_htonl netmask) i \<longleftrightarrow> m \<le> i)"
proof -
  let ?nm = "lwip_htonl netmask"
  obtain m where m: "m \<le> Suc 31" "\<forall>i. m \<le> i \<and> i \<le> 31 \<longrightarrow> bit ?nm i" "m = 0 \<or> \<not> bit ?nm (m - 1)"
    "skip_ones ?nm (push_bit 31 1) = (if m = 0 then 0 else push_bit (m - 1) 1)"
    using skip_ones_bits [of 31 ?nm] by auto
  have v: "ip4_addr_netmask_valid netmask \<longleftrightarrow> (\<forall>i < m. \<not> bit ?nm i)"
  proof (cases m)
    case 0
    then show ?thesis using m(4) by (simp add: ip4_addr_netmask_valid_def no_ones.simps [of ?nm 0])
  next
    case (Suc k)
    then show ?thesis using m(1,4) no_ones_bits [of k ?nm] by (simp add: ip4_addr_netmask_valid_def less_Suc_eq_le)
  qed
  show ?thesis
  proof
    assume "ip4_addr_netmask_valid netmask"
    with v m(1,2) show "\<exists>m \<le> 32. \<forall>i < 32. bit ?nm i \<longleftrightarrow> m \<le> i"
      by (intro exI [of _ m]) (auto simp: not_le [symmetric])
  next
    assume "\<exists>m \<le> 32. \<forall>i < 32. bit ?nm i \<longleftrightarrow> m \<le> i"
    then obtain j where j: "j \<le> 32" "\<forall>i < 32. bit ?nm i \<longleftrightarrow> j \<le> i" by blast
    have "m \<le> j" using m(1,3) j by (cases m) auto
    with v j m(1) show "ip4_addr_netmask_valid netmask" by auto
  qed
qed

section \<open>Properties\<close>

text \<open>C17. An address that is printed is read back: \<open>ip4addr_ntoa_r\<close> writes the dotted decimal notation of
  any address into a buffer of 16 bytes or more, terminated and without touching what lies behind,
  and \<open>ip4addr_aton\<close>, which takes a leading zero for octal, reads the same address from it.\<close>

theorem aton_ntoa:
  assumes "IP4ADDR_STRLEN_MAX \<le> buflen" and "buflen \<le> length buf"
  shows "\<exists>buf'. ip4addr_ntoa_r a buf buflen = Some (True, buf') \<and> ip4addr_aton buf' = Some a \<and> ipaddr_addr buf' = a \<and>
    length buf' = length buf \<and> drop 16 buf' = drop 16 buf"
proof -
  have l: "length (dotted a) < buflen" using dotted_length [of a] assms(1) by (simp add: IP4ADDR_STRLEN_MAX_def)
  then have "length (dotted a) + 1 \<le> 16" "length (dotted a) < length buf" using dotted_length [of a] assms(2) by simp_all
  then show ?thesis using ntoa_dotted [OF l assms(2)] aton_dotted [of a "drop (length (dotted a) + 1) buf"]
    by (intro exI [of _ "dotted a @ nul # drop (length (dotted a) + 1) buf"]) (auto simp: ipaddr_addr_def drop_Cons')
qed

theorem aton_ntoa_witness:
  "\<exists>buf'. ip4addr_ntoa_r 0x0A00A8C0 (replicate 16 nul) 16 = Some (True, buf') \<and> ip4addr_aton buf' = Some 0x0A00A8C0"
  using aton_ntoa [of 16 "replicate 16 nul" "0x0A00A8C0"] by (auto simp: IP4ADDR_STRLEN_MAX_def)

text \<open>C19. The two loops of \<open>ip4_addr_netmask_valid\<close> accept exactly the netmasks of a prefix length: in
  host byte order, \<open>n\<close> ones followed by zeros.\<close>

theorem netmask_valid_prefix:
  "ip4_addr_netmask_valid netmask \<longleftrightarrow> (\<exists>n \<le> 32. lwip_htonl netmask = NOT (mask (32 - n)))"
proof -
  have "(\<forall>i < 32. bit nm i \<longleftrightarrow> m \<le> i) \<longleftrightarrow> nm = NOT (mask m)" for nm :: u32 and m
    by (auto simp: bit_eq_iff bit_simps not_less)
  then show ?thesis unfolding netmask_bits
    by simp (metis diff_diff_cancel diff_le_self)
qed

end
