(* ===== verification/Etharp.thy ===== *)
theory Etharp
  imports Ip4_Addr "HOL-Library.Multiset"
begin

text \<open>
  Address resolution, \<^verbatim>\<open>src/src/core/ipv4/etharp.c\<close>: a table of ten entries that maps IPv4 addresses to
  Ethernet addresses, with a queue of packets on every entry that waits for an answer. A packet is
  the address of its pbuf; what this module does to packets and to the link is a log of calls with
  their results, and the answers are functions of the log: whether there is memory, the address of a
  copy or of a new packet, the result of \<open>ethernet_output\<close>, and the addresses of the interfaces, which
  other modules may change at any call. An interface is a number. Queues are linked through structures
  of their own, so that they are lists. What \<open>acd_arp_reply\<close> does about an address conflict is behind
  its call: it sends packets and sets addresses, and does not touch the table.

  In this configuration packets are queued (\<open>ARP_QUEUEING\<close>), entries belong to an interface
  (\<open>ETHARP_TABLE_MATCH_NETIF\<close>), there are no static entries, and a freed entry is cleared, because
  \<open>LWIP_DEBUG\<close> is defined (as 0). \<open>None\<close> is an access outside of memory or through a null pointer.
\<close>

section \<open>Data\<close>

type_synonym eth_addr = bytes

datatype etharp_state =
    ETHARP_STATE_EMPTY | ETHARP_STATE_PENDING | ETHARP_STATE_STABLE
  | ETHARP_STATE_STABLE_REREQUESTING_1 | ETHARP_STATE_STABLE_REREQUESTING_2

record etharp_entry =
  ae_q :: "nat list"
  ae_ipaddr :: u32
  ae_netif :: "nat option"
  ae_ethaddr :: eth_addr
  ae_ctime :: nat
  ae_state :: etharp_state

datatype arp_call =
    A_output nat nat eth_addr eth_addr
  | A_arp nat nat eth_addr eth_addr bytes
  | A_free nat
  | A_ref nat
  | A_clone nat "nat option"
  | A_palloc "nat option"
  | A_qalloc bool
  | A_qfree
  | A_acd nat bytes
  | A_other

text \<open>The answers: for an interface its addresses, for a packet the types of the pbufs of its chain and
  the source address in its IP header.\<close>

record arp_env =
  av_netif :: "arp_call list \<Rightarrow> nat \<Rightarrow> netif_ip"
  av_gw :: "arp_call list \<Rightarrow> nat \<Rightarrow> u32"
  av_hwaddr :: "arp_call list \<Rightarrow> nat \<Rightarrow> eth_addr"
  av_types :: "nat \<Rightarrow> nat list"
  av_src :: "nat \<Rightarrow> u32"
  av_output :: "arp_call list \<Rightarrow> err_t"
  av_clone :: "arp_call list \<Rightarrow> nat option"
  av_palloc :: "arp_call list \<Rightarrow> nat option"
  av_qalloc :: "arp_call list \<Rightarrow> bool"

record arp_st =
  arp_table :: "etharp_entry list"
  etharp_cached_entry :: nat
  arp_log :: "arp_call list"
  arp_env :: arp_env

definition ARP_TABLE_SIZE :: nat where "ARP_TABLE_SIZE = 10"
definition ARP_MAXAGE :: nat where "ARP_MAXAGE = 300"
definition ARP_AGE_REREQUEST_USED_UNICAST :: nat where "ARP_AGE_REREQUEST_USED_UNICAST = ARP_MAXAGE - 30"
definition ARP_AGE_REREQUEST_USED_BROADCAST :: nat where "ARP_AGE_REREQUEST_USED_BROADCAST = ARP_MAXAGE - 15"
definition ARP_MAXPENDING :: nat where "ARP_MAXPENDING = 5"
definition ARP_QUEUE_LEN :: nat where "ARP_QUEUE_LEN = 3"

definition ethbroadcast :: eth_addr where "ethbroadcast = replicate 6 (char_of (255 :: nat))"
definition ethzero :: eth_addr where "ethzero = replicate 6 nul"

definition arp_do :: "arp_call \<Rightarrow> arp_st \<Rightarrow> arp_st" where
  "arp_do c s = s\<lparr>arp_log := arp_log s @ [c]\<rparr>"

definition upd_entry :: "nat \<Rightarrow> (etharp_entry \<Rightarrow> etharp_entry) \<Rightarrow> arp_st \<Rightarrow> arp_st" where
  "upd_entry i f s = s\<lparr>arp_table := (arp_table s)[i := f (arp_table s ! i)]\<rparr>"

definition netif_of :: "nat \<Rightarrow> arp_st \<Rightarrow> netif_ip" where
  "netif_of n s = av_netif (arp_env s) (arp_log s) n"

definition hwaddr_of :: "nat \<Rightarrow> arp_st \<Rightarrow> eth_addr" where
  "hwaddr_of n s = av_hwaddr (arp_env s) (arp_log s) n"

definition stable :: "etharp_state \<Rightarrow> bool" where
  "stable st \<longleftrightarrow> st \<noteq> ETHARP_STATE_EMPTY \<and> st \<noteq> ETHARP_STATE_PENDING"

definition ip4_addr_ismulticast :: "u32 \<Rightarrow> bool" where
  "ip4_addr_ismulticast a \<longleftrightarrow> a AND lwip_htonl 0xf0000000 = lwip_htonl 0xe0000000"

definition ip4_addr_islinklocal :: "u32 \<Rightarrow> bool" where
  "ip4_addr_islinklocal a \<longleftrightarrow> a AND lwip_htonl 0xffff0000 = lwip_htonl 0xa9fe0000"

definition non_unicast :: "u32 \<Rightarrow> nat \<Rightarrow> arp_st \<Rightarrow> bool" where
  "non_unicast ip netif s \<longleftrightarrow> ip = 0 \<or> ip4_addr_isbroadcast_u32 ip (netif_of netif s) \<or> ip4_addr_ismulticast ip"

section \<open>ARP packets\<close>

text \<open>The four bytes of an address and the packet itself, 28 bytes.\<close>

definition ip_bytes :: "u32 \<Rightarrow> bytes" where
  "ip_bytes a = map (\<lambda>i. char_of (unat (octet i a))) [0..<4]"

definition be16 :: "nat \<Rightarrow> bytes" where
  "be16 n = [char_of (n div 256), char_of (n mod 256)]"

definition etharp_hdr :: "eth_addr \<Rightarrow> u32 \<Rightarrow> eth_addr \<Rightarrow> u32 \<Rightarrow> nat \<Rightarrow> bytes" where
  "etharp_hdr hwsrc ipsrc hwdst ipdst opcode =
     be16 1 @ be16 0x0800 @ [char_of (6 :: nat), char_of (4 :: nat)] @ be16 opcode @ hwsrc @ ip_bytes ipsrc @ hwdst @ ip_bytes ipdst"

definition etharp_raw ::
  "nat \<Rightarrow> eth_addr \<Rightarrow> eth_addr \<Rightarrow> eth_addr \<Rightarrow> u32 \<Rightarrow> eth_addr \<Rightarrow> u32 \<Rightarrow> nat \<Rightarrow> arp_st \<Rightarrow> err_t \<times> arp_st" where
  "etharp_raw netif ethsrc ethdst hwsrc ipsrc hwdst ipdst opcode s =
     (case av_palloc (arp_env s) (arp_log s) of
        None \<Rightarrow> (ERR_MEM, arp_do (A_palloc None) s)
      | Some p \<Rightarrow> (ERR_OK, arp_do (A_free p)
          (arp_do (A_arp netif p ethsrc (if ip4_addr_islinklocal ipsrc then ethbroadcast else ethdst)
             (etharp_hdr hwsrc ipsrc hwdst ipdst opcode)) (arp_do (A_palloc (Some p)) s))))"

definition ARP_REQUEST :: nat where "ARP_REQUEST = 1"
definition ARP_REPLY :: nat where "ARP_REPLY = 2"

definition etharp_request_dst :: "nat \<Rightarrow> u32 \<Rightarrow> eth_addr \<Rightarrow> arp_st \<Rightarrow> err_t \<times> arp_st" where
  "etharp_request_dst netif ip hw_dst s =
     (let me = hwaddr_of netif s
      in etharp_raw netif me hw_dst me (ni_addr (netif_of netif s)) ethzero ip ARP_REQUEST s)"

definition etharp_request :: "nat \<Rightarrow> u32 \<Rightarrow> arp_st \<Rightarrow> err_t \<times> arp_st" where
  "etharp_request netif ip s = etharp_request_dst netif ip ethbroadcast s"

definition etharp_acd_probe :: "nat \<Rightarrow> u32 \<Rightarrow> arp_st \<Rightarrow> err_t \<times> arp_st" where
  "etharp_acd_probe netif ip s =
     (let me = hwaddr_of netif s in etharp_raw netif me ethbroadcast me 0 ethzero ip ARP_REQUEST s)"

definition etharp_acd_announce :: "nat \<Rightarrow> u32 \<Rightarrow> arp_st \<Rightarrow> err_t \<times> arp_st" where
  "etharp_acd_announce netif ip s =
     (let me = hwaddr_of netif s in etharp_raw netif me ethbroadcast me ip ethzero ip ARP_REQUEST s)"

section \<open>The table\<close>

definition free_etharp_q :: "nat list \<Rightarrow> arp_st \<Rightarrow> arp_st" where
  "free_etharp_q q s = fold (\<lambda>p s. arp_do A_qfree (arp_do (A_free p) s)) q s"

definition empty_entry :: etharp_entry where
  "empty_entry = \<lparr>ae_q = [], ae_ipaddr = 0, ae_netif = None, ae_ethaddr = ethzero, ae_ctime = 0, ae_state = ETHARP_STATE_EMPTY\<rparr>"

definition etharp_free_entry :: "nat \<Rightarrow> arp_st \<Rightarrow> arp_st" where
  "etharp_free_entry i s = upd_entry i (\<lambda>_. empty_entry) (free_etharp_q (ae_q (arp_table s ! i)) s)"

definition age_entry :: "nat \<Rightarrow> arp_st \<Rightarrow> arp_st option" where
  "age_entry i s =
     (if ae_state (arp_table s ! i) = ETHARP_STATE_EMPTY then Some s
      else let s = upd_entry i (\<lambda>e. e\<lparr>ae_ctime := (ae_ctime e + 1) mod 65536\<rparr>) s;
               e = arp_table s ! i
           in if ARP_MAXAGE \<le> ae_ctime e \<or> ae_state e = ETHARP_STATE_PENDING \<and> ARP_MAXPENDING \<le> ae_ctime e
              then Some (etharp_free_entry i s)
              else case ae_state e of
                ETHARP_STATE_STABLE_REREQUESTING_1 \<Rightarrow>
                  Some (upd_entry i (\<lambda>e. e\<lparr>ae_state := ETHARP_STATE_STABLE_REREQUESTING_2\<rparr>) s)
              | ETHARP_STATE_STABLE_REREQUESTING_2 \<Rightarrow> Some (upd_entry i (\<lambda>e. e\<lparr>ae_state := ETHARP_STATE_STABLE\<rparr>) s)
              | ETHARP_STATE_PENDING \<Rightarrow> (case ae_netif e of None \<Rightarrow> None | Some n \<Rightarrow> Some (snd (etharp_request n (ae_ipaddr e) s)))
              | _ \<Rightarrow> Some s)"

fun tmr_loop :: "nat list \<Rightarrow> arp_st \<Rightarrow> arp_st option" where
  "tmr_loop [] s = Some s"
| "tmr_loop (i # is) s = do { s \<leftarrow> age_entry i s; tmr_loop is s }"

definition etharp_tmr :: "arp_st \<Rightarrow> arp_st option" where
  "etharp_tmr s = tmr_loop [0..<ARP_TABLE_SIZE] s"

text \<open>The sweep of \<open>etharp_find_entry\<close>: a match ends it, otherwise the candidates for recycling are
  collected. A candidate is an index with its age.\<close>

record arp_cands =
  c_empty :: "nat option"
  c_queue :: "(nat \<times> nat) option"
  c_pending :: "(nat \<times> nat) option"
  c_stable :: "(nat \<times> nat) option"

definition older :: "nat \<Rightarrow> nat \<Rightarrow> (nat \<times> nat) option \<Rightarrow> (nat \<times> nat) option" where
  "older i age c = (case c of None \<Rightarrow> Some (i, age) | Some (j, a) \<Rightarrow> if a \<le> age then Some (i, age) else c)"

fun find_sweep :: "u32 \<Rightarrow> nat option \<Rightarrow> nat \<Rightarrow> etharp_entry list \<Rightarrow> arp_cands \<Rightarrow> nat + arp_cands" where
  "find_sweep ip netif i [] c = Inr c"
| "find_sweep ip netif i (e # es) c =
     (if c_empty c = None \<and> ae_state e = ETHARP_STATE_EMPTY then find_sweep ip netif (i + 1) es (c\<lparr>c_empty := Some i\<rparr>)
      else if ae_state e \<noteq> ETHARP_STATE_EMPTY
      then if ip = ae_ipaddr e \<and> (netif = None \<or> netif = ae_netif e) then Inl i
           else find_sweep ip netif (i + 1) es
             (if ae_state e = ETHARP_STATE_PENDING
              then if ae_q e \<noteq> [] then c\<lparr>c_queue := older i (ae_ctime e) (c_queue c)\<rparr>
                   else c\<lparr>c_pending := older i (ae_ctime e) (c_pending c)\<rparr>
              else c\<lparr>c_stable := older i (ae_ctime e) (c_stable c)\<rparr>)
      else find_sweep ip netif (i + 1) es c)"

definition no_cands :: arp_cands where
  "no_cands = \<lparr>c_empty = None, c_queue = None, c_pending = None, c_stable = None\<rparr>"

datatype find_flag = ETHARP_FLAG_TRY_HARD | ETHARP_FLAG_FIND_ONLY

text \<open>\<open>None\<close> is \<open>ERR_MEM\<close>.\<close>

definition etharp_find_entry :: "u32 \<Rightarrow> find_flag \<Rightarrow> nat option \<Rightarrow> arp_st \<Rightarrow> nat option \<times> arp_st" where
  "etharp_find_entry ip flag netif s = (case find_sweep ip netif 0 (arp_table s) no_cands of
      Inl i \<Rightarrow> (Some i, s)
    | Inr c \<Rightarrow>
        if flag = ETHARP_FLAG_FIND_ONLY then (None, s)
        else let new = (\<lambda>i s. (Some i, upd_entry i (\<lambda>e. e\<lparr>ae_ipaddr := ip, ae_ctime := 0, ae_netif := netif\<rparr>) s))
             in case c_empty c of
                  Some i \<Rightarrow> new i s
                | None \<Rightarrow> (case c_stable c of
                    Some (i, _) \<Rightarrow> new i (etharp_free_entry i s)
                  | None \<Rightarrow> (case c_pending c of
                      Some (i, _) \<Rightarrow> new i (etharp_free_entry i s)
                    | None \<Rightarrow> (case c_queue c of
                        Some (i, _) \<Rightarrow> new i (etharp_free_entry i s)
                      | None \<Rightarrow> (None, s)))))"

definition link_output :: "nat \<Rightarrow> nat \<Rightarrow> eth_addr \<Rightarrow> arp_st \<Rightarrow> err_t \<times> arp_st" where
  "link_output netif p dst s =
     (av_output (arp_env s) (arp_log s), arp_do (A_output netif p (hwaddr_of netif s) dst) s)"

text \<open>The queue of an entry that has been resolved, packet by packet.\<close>

fun send_queue :: "nat \<Rightarrow> eth_addr \<Rightarrow> nat \<Rightarrow> nat list \<Rightarrow> arp_st \<Rightarrow> arp_st" where
  "send_queue netif eth i [] s = s"
| "send_queue netif eth i (p # q) s =
     (let s = arp_do A_qfree (upd_entry i (\<lambda>e. e\<lparr>ae_q := q\<rparr>) s);
          s = snd (link_output netif p eth s)
      in send_queue netif eth i q (arp_do (A_free p) s))"

definition etharp_update_arp_entry :: "nat \<Rightarrow> u32 \<Rightarrow> eth_addr \<Rightarrow> find_flag \<Rightarrow> arp_st \<Rightarrow> err_t \<times> arp_st" where
  "etharp_update_arp_entry netif ip eth flag s =
     (if non_unicast ip netif s then (ERR_ARG, s)
      else case etharp_find_entry ip flag (Some netif) s of
        (None, s) \<Rightarrow> (ERR_MEM, s)
      | (Some i, s) \<Rightarrow>
          let s = upd_entry i (\<lambda>e. e\<lparr>ae_state := ETHARP_STATE_STABLE, ae_netif := Some netif, ae_ethaddr := eth, ae_ctime := 0\<rparr>) s
          in (ERR_OK, send_queue netif eth i (ae_q (arp_table s ! i)) s))"

definition etharp_cleanup_netif :: "nat \<Rightarrow> arp_st \<Rightarrow> arp_st" where
  "etharp_cleanup_netif netif s = fold (\<lambda>i s.
     if ae_state (arp_table s ! i) \<noteq> ETHARP_STATE_EMPTY \<and> ae_netif (arp_table s ! i) = Some netif then etharp_free_entry i s else s)
     [0..<ARP_TABLE_SIZE] s"

definition etharp_find_addr :: "nat \<Rightarrow> u32 \<Rightarrow> arp_st \<Rightarrow> (nat \<times> eth_addr \<times> u32) option" where
  "etharp_find_addr netif ip s = (case fst (etharp_find_entry ip ETHARP_FLAG_FIND_ONLY (Some netif) s) of
      Some i \<Rightarrow> if stable (ae_state (arp_table s ! i)) then Some (i, ae_ethaddr (arp_table s ! i), ae_ipaddr (arp_table s ! i)) else None
    | None \<Rightarrow> None)"

definition etharp_get_entry :: "nat \<Rightarrow> arp_st \<Rightarrow> (u32 \<times> nat option \<times> eth_addr) option" where
  "etharp_get_entry i s =
     (if i < ARP_TABLE_SIZE \<and> stable (ae_state (arp_table s ! i))
      then Some (ae_ipaddr (arp_table s ! i), ae_netif (arp_table s ! i), ae_ethaddr (arp_table s ! i)) else None)"

section \<open>Input\<close>

text \<open>An address field of a packet, as the machine reads it.\<close>

definition ip_field :: "bytes \<Rightarrow> u32" where
  "ip_field d = of_nat (code (d ! 0)) OR push_bit 8 (of_nat (code (d ! 1))) OR push_bit 16 (of_nat (code (d ! 2))) OR
     push_bit 24 (of_nat (code (d ! 3)))"

text \<open>\<open>d\<close> is the memory from the payload pointer of \<open>p\<close> on; the length of the payload is not looked at.\<close>

definition etharp_input :: "nat \<Rightarrow> bytes \<Rightarrow> nat \<Rightarrow> arp_st \<Rightarrow> arp_st option" where
  "etharp_input p d netif s = do {
     hdr \<leftarrow> read_bytes 0 28 d;
     if take 2 hdr \<noteq> be16 1 \<or> code (hdr ! 4) \<noteq> 6 \<or> code (hdr ! 5) \<noteq> 4 \<or> take 2 (drop 2 hdr) \<noteq> be16 0x0800
     then Some (arp_do (A_free p) s)
     else let s = arp_do (A_acd netif hdr) s;
              shw = take 6 (drop 8 hdr);
              sip = ip_field (take 4 (drop 14 hdr));
              dip = ip_field (take 4 (drop 24 hdr));
              me = ni_addr (netif_of netif s);
              for_us = (me \<noteq> 0 \<and> dip = me);
              from_us = (me \<noteq> 0 \<and> sip = me);
              s = snd (etharp_update_arp_entry netif sip shw (if for_us then ETHARP_FLAG_TRY_HARD else ETHARP_FLAG_FIND_ONLY) s);
              s = (if take 2 (drop 6 hdr) = be16 ARP_REQUEST \<and> for_us \<and> \<not> from_us
                   then let hw = hwaddr_of netif s
                        in snd (etharp_raw netif hw shw hw (ni_addr (netif_of netif s)) shw sip ARP_REPLY s)
                   else s)
          in Some (arp_do (A_free p) s) }"

section \<open>Output\<close>

definition etharp_output_to_arp_index :: "nat \<Rightarrow> nat \<Rightarrow> nat \<Rightarrow> arp_st \<Rightarrow> err_t \<times> arp_st" where
  "etharp_output_to_arp_index netif q i s =
     (let e = arp_table s ! i;
          again = (\<lambda>(r, s). if r = ERR_OK then upd_entry i (\<lambda>e. e\<lparr>ae_state := ETHARP_STATE_STABLE_REREQUESTING_1\<rparr>) s else s);
          s = (if ae_state e = ETHARP_STATE_STABLE
               then if ARP_AGE_REREQUEST_USED_BROADCAST \<le> ae_ctime e then again (etharp_request netif (ae_ipaddr e) s)
                    else if ARP_AGE_REREQUEST_USED_UNICAST \<le> ae_ctime e then again (etharp_request_dst netif (ae_ipaddr e) (ae_ethaddr e) s)
                    else s
               else s)
      in link_output netif q (ae_ethaddr (arp_table s ! i)) s)"

text \<open>A packet that waits is kept by reference, or copied if its data is not its own.\<close>

fun copy_needed :: "nat list \<Rightarrow> bool" where
  "copy_needed [] = False"
| "copy_needed (t # ts) = (if and t 0x40 \<noteq> 0 then True else copy_needed ts)"

definition take_over :: "nat \<Rightarrow> arp_st \<Rightarrow> nat option \<times> arp_st" where
  "take_over q s =
     (if copy_needed (av_types (arp_env s) q)
      then let p = av_clone (arp_env s) (arp_log s) in (p, arp_do (A_clone q p) s)
      else (Some q, arp_do (A_ref q) s))"

definition enqueue :: "nat \<Rightarrow> nat \<Rightarrow> arp_st \<Rightarrow> err_t \<times> arp_st" where
  "enqueue i q s = (case take_over q s of
      (None, s) \<Rightarrow> (ERR_MEM, s)
    | (Some p, s) \<Rightarrow>
        if av_qalloc (arp_env s) (arp_log s)
        then let s = arp_do (A_qalloc True) s;
                 qlen = length (ae_q (arp_table s ! i));
                 s = upd_entry i (\<lambda>e. e\<lparr>ae_q := ae_q e @ [p]\<rparr>) s
             in (ERR_OK, if ARP_QUEUE_LEN \<le> qlen
                   then let old = hd (ae_q (arp_table s ! i))
                        in arp_do A_qfree (arp_do (A_free old) (upd_entry i (\<lambda>e. e\<lparr>ae_q := tl (ae_q e)\<rparr>) s))
                   else s)
        else (ERR_MEM, arp_do (A_free p) (arp_do (A_qalloc False) s)))"

text \<open>The two halves of a query: the entry is made pending and the address asked for, then the packet
  is sent or queued.\<close>

definition query_request :: "nat \<Rightarrow> u32 \<Rightarrow> bool \<Rightarrow> nat \<Rightarrow> arp_st \<Rightarrow> err_t \<times> arp_st" where
  "query_request netif ip no_packet i s =
     (let is_new = (ae_state (arp_table s ! i) = ETHARP_STATE_EMPTY);
          s = (if is_new then upd_entry i (\<lambda>e. e\<lparr>ae_state := ETHARP_STATE_PENDING, ae_netif := Some netif\<rparr>) s else s)
      in if is_new \<or> no_packet
         then case etharp_request netif ip s of (result, s) \<Rightarrow>
           (result, if result = ERR_OK \<and> ae_state (arp_table s ! i) = ETHARP_STATE_PENDING \<and> \<not> is_new
                    then upd_entry i (\<lambda>e. e\<lparr>ae_ctime := 0\<rparr>) s else s)
         else (ERR_MEM, s))"

definition query_packet :: "nat \<Rightarrow> nat \<Rightarrow> nat \<Rightarrow> err_t \<Rightarrow> arp_st \<Rightarrow> err_t \<times> arp_st" where
  "query_packet netif q i result s =
     (if stable (ae_state (arp_table s ! i))
      then link_output netif q (ae_ethaddr (arp_table s ! i)) (s\<lparr>etharp_cached_entry := i\<rparr>)
      else if ae_state (arp_table s ! i) = ETHARP_STATE_PENDING then enqueue i q s
      else (result, s))"

definition etharp_query :: "nat \<Rightarrow> u32 \<Rightarrow> nat option \<Rightarrow> arp_st \<Rightarrow> err_t \<times> arp_st" where
  "etharp_query netif ip q s =
     (if non_unicast ip netif s then (ERR_ARG, s)
      else case etharp_find_entry ip ETHARP_FLAG_TRY_HARD (Some netif) s of
        (None, s) \<Rightarrow> (ERR_MEM, s)
      | (Some i, s) \<Rightarrow> (case query_request netif ip (q = None) i s of (result, s) \<Rightarrow>
          (case q of None \<Rightarrow> (result, s) | Some q \<Rightarrow> query_packet netif q i result s)))"

definition is_dest :: "nat \<Rightarrow> u32 \<Rightarrow> etharp_entry \<Rightarrow> bool" where
  "is_dest netif ip e \<longleftrightarrow> stable (ae_state e) \<and> ae_netif e = Some netif \<and> ip = ae_ipaddr e"

fun find_stable :: "nat \<Rightarrow> u32 \<Rightarrow> nat \<Rightarrow> etharp_entry list \<Rightarrow> nat option" where
  "find_stable netif ip i [] = None"
| "find_stable netif ip i (e # es) = (if is_dest netif ip e then Some i else find_stable netif ip (i + 1) es)"

definition mcast_eth :: "u32 \<Rightarrow> eth_addr" where
  "mcast_eth ip = [char_of (1 :: nat), nul, char_of (0x5e :: nat), char_of (and (unat (octet 1 ip)) 0x7f), char_of (unat (octet 2 ip)),
     char_of (unat (octet 3 ip))]"

text \<open>The entry used last is tried first, then the stable ones, then the address is asked for.\<close>

definition output_unicast :: "nat \<Rightarrow> nat \<Rightarrow> u32 \<Rightarrow> arp_st \<Rightarrow> err_t \<times> arp_st" where
  "output_unicast netif q dst s =
     (if is_dest netif dst (arp_table s ! etharp_cached_entry s)
      then etharp_output_to_arp_index netif q (etharp_cached_entry s) s
      else case find_stable netif dst 0 (arp_table s) of
        Some i \<Rightarrow> etharp_output_to_arp_index netif q i (s\<lparr>etharp_cached_entry := i\<rparr>)
      | None \<Rightarrow> etharp_query netif dst (Some q) s)"

definition etharp_output :: "nat \<Rightarrow> nat \<Rightarrow> u32 \<Rightarrow> arp_st \<Rightarrow> err_t \<times> arp_st" where
  "etharp_output netif q ip s =
     (let n = netif_of netif s; gw = av_gw (arp_env s) (arp_log s) netif
      in if ip4_addr_isbroadcast_u32 ip n then link_output netif q ethbroadcast s
         else if ip4_addr_ismulticast ip then link_output netif q (mcast_eth ip) s
         else if (ip AND ni_mask n) \<noteq> (ni_addr n AND ni_mask n) \<and> \<not> ip4_addr_islinklocal ip \<and>
             \<not> ip4_addr_islinklocal (av_src (arp_env s) q)
         then if gw \<noteq> 0 then output_unicast netif q gw s else (ERR_RTE, s)
         else output_unicast netif q ip s)"

section \<open>Runs\<close>

text \<open>The module starts with the table cleared. What happens to it: a packet arrives, the IP layer
  sends one, the timer ticks, an interface goes down, an address is asked for, probed or announced, or
  something happens elsewhere.\<close>

definition arp_init :: "arp_env \<Rightarrow> arp_st" where
  "arp_init env = \<lparr>arp_table = replicate ARP_TABLE_SIZE empty_entry, etharp_cached_entry = 0, arp_log = [], arp_env = env\<rparr>"

datatype arp_event =
    E_input nat bytes nat
  | E_output nat nat u32
  | E_query nat u32 "nat option"
  | E_tmr
  | E_cleanup nat
  | E_request nat u32
  | E_probe nat u32
  | E_announce nat u32
  | E_other

fun arp_step :: "arp_event \<Rightarrow> arp_st \<Rightarrow> arp_st option" where
  "arp_step (E_input p d n) s = etharp_input p d n s"
| "arp_step (E_output n q ip) s = Some (snd (etharp_output n q ip s))"
| "arp_step (E_query n ip q) s = Some (snd (etharp_query n ip q s))"
| "arp_step E_tmr s = etharp_tmr s"
| "arp_step (E_cleanup n) s = Some (etharp_cleanup_netif n s)"
| "arp_step (E_request n ip) s = Some (snd (etharp_request n ip s))"
| "arp_step (E_probe n ip) s = Some (snd (etharp_acd_probe n ip s))"
| "arp_step (E_announce n ip) s = Some (snd (etharp_acd_announce n ip s))"
| "arp_step E_other s = Some (arp_do A_other s)"

fun arp_run :: "arp_event list \<Rightarrow> arp_st \<Rightarrow> arp_st option" where
  "arp_run [] s = Some s"
| "arp_run (ev # evs) s = do { s \<leftarrow> arp_step ev s; arp_run evs s }"

section \<open>What is kept\<close>

text \<open>The references to packets that were taken and given back, and those the queues hold.\<close>

fun taken :: "arp_call list \<Rightarrow> nat multiset" where
  "taken [] = {#}"
| "taken (A_ref p # l) = add_mset p (taken l)"
| "taken (A_clone q (Some p) # l) = add_mset p (taken l)"
| "taken (A_palloc (Some p) # l) = add_mset p (taken l)"
| "taken (_ # l) = taken l"

fun freed :: "arp_call list \<Rightarrow> nat multiset" where
  "freed [] = {#}"
| "freed (A_free p # l) = add_mset p (freed l)"
| "freed (_ # l) = freed l"

fun q_taken :: "arp_call list \<Rightarrow> nat" where
  "q_taken [] = 0"
| "q_taken (A_qalloc True # l) = Suc (q_taken l)"
| "q_taken (_ # l) = q_taken l"

fun q_freed :: "arp_call list \<Rightarrow> nat" where
  "q_freed [] = 0"
| "q_freed (A_qfree # l) = Suc (q_freed l)"
| "q_freed (_ # l) = q_freed l"

definition queued :: "arp_st \<Rightarrow> nat multiset" where
  "queued s = sum_list (map (\<lambda>e. mset (ae_q e)) (arp_table s))"

fun inputs_of :: "arp_event list \<Rightarrow> nat multiset" where
  "inputs_of [] = {#}"
| "inputs_of (E_input p d n # evs) = add_mset p (inputs_of evs)"
| "inputs_of (_ # evs) = inputs_of evs"

definition matches :: "u32 \<Rightarrow> nat \<Rightarrow> etharp_entry \<Rightarrow> bool" where
  "matches ip n e \<longleftrightarrow> ae_state e \<noteq> ETHARP_STATE_EMPTY \<and> ae_ipaddr e = ip \<and> ae_netif e = Some n"

definition arp_entry_ok :: "etharp_entry \<Rightarrow> bool" where
  "arp_entry_ok e = (case ae_state e of
      ETHARP_STATE_EMPTY \<Rightarrow> ae_q e = []
    | ETHARP_STATE_PENDING \<Rightarrow> ae_netif e \<noteq> None \<and> length (ae_q e) \<le> ARP_QUEUE_LEN \<and> ae_ctime e < ARP_MAXPENDING
    | _ \<Rightarrow> ae_netif e \<noteq> None \<and> ae_q e = [] \<and> ae_ctime e < ARP_MAXAGE)"

definition same_key :: "etharp_entry \<Rightarrow> etharp_entry \<Rightarrow> bool" where
  "same_key e f \<longleftrightarrow> ae_state e \<noteq> ETHARP_STATE_EMPTY \<and> ae_state f \<noteq> ETHARP_STATE_EMPTY \<and>
     ae_ipaddr e = ae_ipaddr f \<and> ae_netif e = ae_netif f"

definition arp_table_ok :: "arp_st \<Rightarrow> bool" where
  "arp_table_ok s \<longleftrightarrow> length (arp_table s) = ARP_TABLE_SIZE \<and> etharp_cached_entry s < ARP_TABLE_SIZE \<and>
     list_all arp_entry_ok (arp_table s) \<and>
     (\<forall>i < ARP_TABLE_SIZE. \<forall>j < ARP_TABLE_SIZE. i \<noteq> j \<longrightarrow> \<not> same_key (arp_table s ! i) (arp_table s ! j))"

definition balanced :: "nat multiset \<Rightarrow> arp_st \<Rightarrow> bool" where
  "balanced given s \<longleftrightarrow> taken (arp_log s) + given = freed (arp_log s) + queued s \<and>
     q_taken (arp_log s) = q_freed (arp_log s) + size (queued s)"

section \<open>Frames\<close>

lemma arp_do_simps [simp]:
  "arp_table (arp_do c s) = arp_table s" "etharp_cached_entry (arp_do c s) = etharp_cached_entry s"
  "arp_log (arp_do c s) = arp_log s @ [c]" "arp_env (arp_do c s) = arp_env s"
  by (simp_all add: arp_do_def)

lemma upd_entry_simps [simp]:
  "arp_table (upd_entry i f s) = (arp_table s)[i := f (arp_table s ! i)]"
  "etharp_cached_entry (upd_entry i f s) = etharp_cached_entry s" "arp_log (upd_entry i f s) = arp_log s"
  "arp_env (upd_entry i f s) = arp_env s"
  by (simp_all add: upd_entry_def)

lemma taken_append [simp]: "taken (l @ m) = taken l + taken m"
  by (induction l rule: taken.induct) auto

lemma freed_append [simp]: "freed (l @ m) = freed l + freed m"
  by (induction l rule: freed.induct) auto

lemma q_taken_append [simp]: "q_taken (l @ m) = q_taken l + q_taken m"
  by (induction l rule: q_taken.induct) auto

lemma q_freed_append [simp]: "q_freed (l @ m) = q_freed l + q_freed m"
  by (induction l rule: q_freed.induct) auto

lemma table_ok_do [simp]: "arp_table_ok (arp_do c s) = arp_table_ok s"
  by (simp add: arp_table_ok_def)

lemma balanced_do:
  "taken [c] = {#} \<Longrightarrow> freed [c] = {#} \<Longrightarrow> q_taken [c] = 0 \<Longrightarrow> q_freed [c] = 0 \<Longrightarrow> balanced g (arp_do c s) = balanced g s"
  by (simp add: balanced_def queued_def)

text \<open>The packets on the other entries.\<close>

definition others :: "nat \<Rightarrow> arp_st \<Rightarrow> nat multiset" where
  "others i s = sum_list (map (\<lambda>e. mset (ae_q e)) (take i (arp_table s))) + sum_list (map (\<lambda>e. mset (ae_q e)) (drop (Suc i) (arp_table s)))"

lemma queued_at: "i < length (arp_table s) \<Longrightarrow> queued s = mset (ae_q (arp_table s ! i)) + others i s"
  unfolding queued_def others_def by (subst id_take_nth_drop [of i "arp_table s"]) simp_all

lemma others_simps [simp]:
  "others i (arp_do c s) = others i s" "others i (upd_entry i f s) = others i s"
  by (simp_all add: others_def)

lemma queued_upd: "i < length (arp_table s) \<Longrightarrow> queued (upd_entry i f s) = mset (ae_q (f (arp_table s ! i))) + others i s"
  by (simp add: queued_at [of i])

lemma balanced_upd:
  assumes "i < length (arp_table s)" "ae_q (f (arp_table s ! i)) = ae_q (arp_table s ! i)"
  shows "balanced g (upd_entry i f s) = balanced g s"
  using assms by (simp add: balanced_def queued_upd queued_at [of i s])

lemma table_okD:
  assumes "arp_table_ok s"
  shows "length (arp_table s) = ARP_TABLE_SIZE" "etharp_cached_entry s < ARP_TABLE_SIZE"
    "i < ARP_TABLE_SIZE \<Longrightarrow> arp_entry_ok (arp_table s ! i)"
    "i < ARP_TABLE_SIZE \<Longrightarrow> j < ARP_TABLE_SIZE \<Longrightarrow> i \<noteq> j \<Longrightarrow> \<not> same_key (arp_table s ! i) (arp_table s ! j)"
  using assms by (auto simp: arp_table_ok_def list_all_length)

lemma same_key_sym: "same_key e f = same_key f e"
  by (auto simp: same_key_def)

lemma table_ok_upd:
  assumes s: "arp_table_ok s" "i < ARP_TABLE_SIZE" and f: "arp_entry_ok (f (arp_table s ! i))"
    "\<And>j. j < ARP_TABLE_SIZE \<Longrightarrow> j \<noteq> i \<Longrightarrow> \<not> same_key (f (arp_table s ! i)) (arp_table s ! j)"
  shows "arp_table_ok (upd_entry i f s)"
  using table_okD [OF s(1)] s(2) f unfolding arp_table_ok_def list_all_length
  by (auto simp: nth_list_update same_key_sym [of "arp_table s ! _" "f _"])

lemma table_ok_same:
  assumes "arp_table_ok s" "i < ARP_TABLE_SIZE" "arp_entry_ok (f (arp_table s ! i))"
    "ae_state (arp_table s ! i) \<noteq> ETHARP_STATE_EMPTY" "ae_ipaddr (f (arp_table s ! i)) = ae_ipaddr (arp_table s ! i)"
    "ae_netif (f (arp_table s ! i)) = ae_netif (arp_table s ! i)"
  shows "arp_table_ok (upd_entry i f s)"
  using assms table_okD(4) [OF assms(1,2)] by (intro table_ok_upd) (auto simp: same_key_def)

lemma table_ok_empty:
  "arp_table_ok s \<Longrightarrow> i < ARP_TABLE_SIZE \<Longrightarrow> ae_state (f (arp_table s ! i)) = ETHARP_STATE_EMPTY \<Longrightarrow> ae_q (f (arp_table s ! i)) = [] \<Longrightarrow>
     arp_table_ok (upd_entry i f s)"
  by (intro table_ok_upd) (auto simp: same_key_def arp_entry_ok_def)

section \<open>Freeing and finding entries\<close>

lemma free_etharp_q_simps [simp]:
  "arp_table (free_etharp_q q s) = arp_table s" "etharp_cached_entry (free_etharp_q q s) = etharp_cached_entry s"
  "arp_env (free_etharp_q q s) = arp_env s" "taken (arp_log (free_etharp_q q s)) = taken (arp_log s)"
  "freed (arp_log (free_etharp_q q s)) = freed (arp_log s) + mset q" "q_taken (arp_log (free_etharp_q q s)) = q_taken (arp_log s)"
  "q_freed (arp_log (free_etharp_q q s)) = q_freed (arp_log s) + length q" "others i (free_etharp_q q s) = others i s"
  unfolding free_etharp_q_def by (induction q arbitrary: s) auto

lemma empty_entry_simps [simp]: "ae_q empty_entry = []" "ae_state empty_entry = ETHARP_STATE_EMPTY"
  by (simp_all add: empty_entry_def)

lemma free_entry_table [simp]: "arp_table (etharp_free_entry i s) = (arp_table s)[i := empty_entry]"
  by (simp add: etharp_free_entry_def)

lemma free_entry_env [simp]:
  "arp_env (etharp_free_entry i s) = arp_env s" "etharp_cached_entry (etharp_free_entry i s) = etharp_cached_entry s"
  by (simp_all add: etharp_free_entry_def)

lemma free_entry_balanced:
  assumes "i < length (arp_table s)"
  shows "balanced g (etharp_free_entry i s) = balanced g s"
  using assms by (auto simp: balanced_def queued_at [of i] etharp_free_entry_def ac_simps)

lemma table_ok_cong: "arp_table s = arp_table t \<Longrightarrow> etharp_cached_entry s = etharp_cached_entry t \<Longrightarrow> arp_table_ok s = arp_table_ok t"
  by (simp add: arp_table_ok_def)

lemma free_entry_ok:
  assumes "arp_table_ok s" "i < ARP_TABLE_SIZE"
  shows "arp_table_ok (etharp_free_entry i s)"
proof -
  have "arp_table_ok (upd_entry i (\<lambda>_. empty_entry) s)" using assms by (rule table_ok_empty) simp_all
  then show ?thesis by (subst table_ok_cong [where t = "upd_entry i (\<lambda>_. empty_entry) s"]) simp_all
qed

lemma find_sweep_Inl:
  "find_sweep ip (Some n) k es c = Inl i \<Longrightarrow> k \<le> i \<and> i < k + length es \<and> matches ip n (es ! (i - k))"
proof (induction es arbitrary: k c)
  case (Cons e es)
  show ?case
  proof (cases "matches ip n e")
    case True
    then show ?thesis using Cons.prems by (auto simp: matches_def split: if_splits)
  next
    case False
    then obtain c' where "find_sweep ip (Some n) (Suc k) es c' = Inl i"
      using Cons.prems by (auto simp: matches_def split: if_splits)
    from Cons.IH [OF this] show ?thesis by (auto simp: nth_Cons' Suc_diff_Suc)
  qed
qed simp

lemma find_sweep_Inr: "find_sweep ip (Some n) k es c = Inr c' \<Longrightarrow> e \<in> set es \<Longrightarrow> \<not> matches ip n e"
  by (induction es arbitrary: k c) (auto simp: matches_def split: if_splits)

lemma find_sweep_found: "e \<in> set es \<Longrightarrow> matches ip n e \<Longrightarrow> \<exists>i. find_sweep ip (Some n) k es c = Inl i"
  using find_sweep_Inr by (cases "find_sweep ip (Some n) k es c") blast+

text \<open>The candidates are entries that were seen, and there is one as soon as an entry was seen.\<close>

definition cands_ok :: "etharp_entry list \<Rightarrow> arp_cands \<Rightarrow> bool" where
  "cands_ok es c \<longleftrightarrow> (\<forall>i. c_empty c = Some i \<longrightarrow> i < length es \<and> ae_state (es ! i) = ETHARP_STATE_EMPTY) \<and>
     (\<forall>i a. c_queue c = Some (i, a) \<or> c_pending c = Some (i, a) \<or> c_stable c = Some (i, a) \<longrightarrow> i < length es) \<and>
     (c_empty c = None \<and> c_queue c = None \<and> c_pending c = None \<and> c_stable c = None \<longrightarrow> es = [])"

lemma older_Some: "older i a c = Some (j, b) \<Longrightarrow> j = i \<or> c = Some (j, b)" "older i a c \<noteq> None"
  by (auto simp: older_def split: option.splits prod.splits if_splits)

lemma cands_ok_seen:
  assumes "cands_ok es c"
  shows "ae_state e = ETHARP_STATE_EMPTY \<Longrightarrow> c_empty c = None \<Longrightarrow> cands_ok (es @ [e]) (c\<lparr>c_empty := Some (length es)\<rparr>)"
    "c_empty c \<noteq> None \<Longrightarrow> cands_ok (es @ [e]) c"
    "cands_ok (es @ [e]) (c\<lparr>c_queue := older (length es) a (c_queue c)\<rparr>)"
    "cands_ok (es @ [e]) (c\<lparr>c_pending := older (length es) a (c_pending c)\<rparr>)"
    "cands_ok (es @ [e]) (c\<lparr>c_stable := older (length es) a (c_stable c)\<rparr>)"
  using assms unfolding cands_ok_def
  by (fastforce simp: nth_append less_Suc_eq older_Some(2) dest: older_Some(1))+

lemma find_sweep_cands: "cands_ok es c \<Longrightarrow> find_sweep ip n (length es) fs c = Inr c' \<Longrightarrow> cands_ok (es @ fs) c'"
proof (induction fs arbitrary: es c)
  case (Cons f fs)
  have "\<exists>d. cands_ok (es @ [f]) d \<and> find_sweep ip n (length (es @ [f])) fs d = Inr c'"
    using Cons.prems cands_ok_seen [OF Cons.prems(1), of f] by (auto split: if_splits) blast+
  then show ?case using Cons.IH by fastforce
qed simp

text \<open>The three ways a search ends: an entry was found, there is none, or one was made, from an empty
  one or by recycling.\<close>

definition new_entry :: "u32 \<Rightarrow> nat \<Rightarrow> etharp_entry \<Rightarrow> etharp_entry" where
  "new_entry ip n e = e\<lparr>ae_ipaddr := ip, ae_ctime := 0, ae_netif := Some n\<rparr>"

lemma find_entry_cases:
  assumes s: "arp_table_ok s" and eq: "etharp_find_entry ip flag (Some n) s = (r, s')"
  obtains (found) i where "r = Some i" "s' = s" "i < ARP_TABLE_SIZE" "matches ip n (arp_table s ! i)"
  | (none) "r = None" "s' = s" "flag = ETHARP_FLAG_FIND_ONLY" "\<And>e. e \<in> set (arp_table s) \<Longrightarrow> \<not> matches ip n e"
  | (made) i t where "r = Some i" "s' = upd_entry i (new_entry ip n) t" "i < ARP_TABLE_SIZE"
      "\<And>e. e \<in> set (arp_table s) \<Longrightarrow> \<not> matches ip n e"
      "t = s \<and> ae_state (arp_table s ! i) = ETHARP_STATE_EMPTY \<or> t = etharp_free_entry i s"
proof (cases "find_sweep ip (Some n) 0 (arp_table s) no_cands")
  case (Inl i)
  then show thesis using eq find_sweep_Inl [OF Inl] table_okD(1) [OF s] by (intro found [of i]) (auto simp: etharp_find_entry_def)
next
  case (Inr c)
  have no: "\<not> matches ip n e" if "e \<in> set (arp_table s)" for e using find_sweep_Inr [OF Inr that] .
  have "cands_ok ([] @ arp_table s) c" using Inr by (intro find_sweep_cands) (auto simp: cands_ok_def no_cands_def)
  then have c: "cands_ok (arp_table s) c" "arp_table s \<noteq> []" using table_okD(1) [OF s] by (auto simp: ARP_TABLE_SIZE_def)
  have new: "(\<lambda>e. e\<lparr>ae_ipaddr := ip, ae_ctime := 0, ae_netif := Some n\<rparr>) = new_entry ip n" by (simp add: new_entry_def fun_eq_iff)
  consider "flag = ETHARP_FLAG_FIND_ONLY" | i where "flag \<noteq> ETHARP_FLAG_FIND_ONLY" "c_empty c = Some i"
    | i a where "flag \<noteq> ETHARP_FLAG_FIND_ONLY" "c_empty c = None" "c_stable c = Some (i, a)"
    | i a where "flag \<noteq> ETHARP_FLAG_FIND_ONLY" "c_empty c = None" "c_stable c = None" "c_pending c = Some (i, a)"
    | i a where "flag \<noteq> ETHARP_FLAG_FIND_ONLY" "c_empty c = None" "c_stable c = None" "c_pending c = None" "c_queue c = Some (i, a)"
    using c unfolding cands_ok_def by (metis not_None_eq surj_pair)
  then show thesis
  proof cases
    case 1
    then show thesis using eq Inr no by (intro none) (auto simp: etharp_find_entry_def)
  next
    case (2 i)
    then show thesis using eq Inr no c table_okD(1) [OF s]
      by (intro made [of i s]) (auto simp: etharp_find_entry_def new cands_ok_def)
  next
    case (3 i a)
    then show thesis using eq Inr no c table_okD(1) [OF s]
      by (intro made [of i "etharp_free_entry i s"]) (auto simp: etharp_find_entry_def new cands_ok_def)
  next
    case (4 i a)
    then show thesis using eq Inr no c table_okD(1) [OF s]
      by (intro made [of i "etharp_free_entry i s"]) (auto simp: etharp_find_entry_def new cands_ok_def)
  next
    case (5 i a)
    then show thesis using eq Inr no c table_okD(1) [OF s]
      by (intro made [of i "etharp_free_entry i s"]) (auto simp: etharp_find_entry_def new cands_ok_def)
  qed
qed

lemma new_entry_simps [simp]:
  "ae_q (new_entry ip n e) = ae_q e" "ae_state (new_entry ip n e) = ae_state e" "ae_ipaddr (new_entry ip n e) = ip"
  "ae_netif (new_entry ip n e) = Some n" "ae_ctime (new_entry ip n e) = 0"
  by (simp_all add: new_entry_def)

text \<open>The entry that a search hands out is the one of the address, or an empty one that may become it.\<close>

definition usable :: "u32 \<Rightarrow> nat \<Rightarrow> nat \<Rightarrow> arp_st \<Rightarrow> bool" where
  "usable ip n i s \<longleftrightarrow> i < ARP_TABLE_SIZE \<and> ae_ipaddr (arp_table s ! i) = ip \<and> ae_netif (arp_table s ! i) = Some n \<and>
     (\<forall>j < ARP_TABLE_SIZE. j \<noteq> i \<longrightarrow> \<not> matches ip n (arp_table s ! j)) \<and>
     (ae_state (arp_table s ! i) = ETHARP_STATE_EMPTY \<longrightarrow> ae_ctime (arp_table s ! i) = 0)"

lemma matches_usable:
  assumes "arp_table_ok s" "i < ARP_TABLE_SIZE" "matches ip n (arp_table s ! i)"
  shows "usable ip n i s"
proof -
  have "\<not> matches ip n (arp_table s ! j)" if "j < ARP_TABLE_SIZE" "j \<noteq> i" for j
    using table_okD(4) [OF assms(1,2) that(1)] that(2) assms(3) by (auto simp: matches_def same_key_def)
  then show ?thesis using assms by (auto simp: usable_def matches_def)
qed

lemma made_usable:
  assumes s: "arp_table_ok s" "balanced g s" and i: "i < ARP_TABLE_SIZE"
    and t: "t = s \<and> ae_state (arp_table s ! i) = ETHARP_STATE_EMPTY \<or> t = etharp_free_entry i s"
    and no: "\<And>e. e \<in> set (arp_table s) \<Longrightarrow> \<not> matches ip n e"
  shows "arp_table_ok (upd_entry i (new_entry ip n) t)" "balanced g (upd_entry i (new_entry ip n) t)"
    "usable ip n i (upd_entry i (new_entry ip n) t)" "ae_state (arp_table (upd_entry i (new_entry ip n) t) ! i) = ETHARP_STATE_EMPTY"
proof -
  note len = table_okD(1) [OF s(1)]
  have t': "arp_table_ok t" "balanced g t" using t s i len by (auto simp: free_entry_ok free_entry_balanced)
  have e: "ae_state (arp_table t ! i) = ETHARP_STATE_EMPTY" using t i len by auto
  have q: "ae_q (arp_table t ! i) = []" using table_okD(3) [OF t'(1) i] e by (simp add: arp_entry_ok_def)
  have same: "\<not> matches ip n (arp_table t ! j)" if "j < ARP_TABLE_SIZE" "j \<noteq> i" for j
    using t no [of "arp_table s ! j"] that len by (auto simp: nth_list_update)
  show "arp_table_ok (upd_entry i (new_entry ip n) t)" using t'(1) i e q by (intro table_ok_empty) simp_all
  show "balanced g (upd_entry i (new_entry ip n) t)" using t' i table_okD(1) [OF t'(1)] by (simp add: balanced_upd)
  show "usable ip n i (upd_entry i (new_entry ip n) t)" using i same table_okD(1) [OF t'(1)] by (simp add: usable_def nth_list_update)
  show "ae_state (arp_table (upd_entry i (new_entry ip n) t) ! i) = ETHARP_STATE_EMPTY"
    using e i table_okD(1) [OF t'(1)] by simp
qed

lemma find_entry_spec:
  assumes s: "arp_table_ok s" "balanced g s" and eq: "etharp_find_entry ip flag (Some n) s = (r, s')"
  shows "arp_table_ok s'" "balanced g s'" "arp_env s' = arp_env s" "r = Some i \<Longrightarrow> usable ip n i s'"
    "r = None \<Longrightarrow> s' = s \<and> flag = ETHARP_FLAG_FIND_ONLY"
proof -
  have "arp_table_ok s' \<and> balanced g s' \<and> arp_env s' = arp_env s \<and> (\<forall>i. r = Some i \<longrightarrow> usable ip n i s') \<and>
      (r = None \<longrightarrow> s' = s \<and> flag = ETHARP_FLAG_FIND_ONLY)"
    using s(1) eq
  proof (cases rule: find_entry_cases)
    case (found i)
    then show ?thesis using s matches_usable [OF s(1)] by simp
  next
    case none
    then show ?thesis using s by simp
  next
    case (made i t)
    then show ?thesis using made_usable [OF s made(3,5,4)] by auto
  qed
  then show "arp_table_ok s'" "balanced g s'" "arp_env s' = arp_env s" "r = Some i \<Longrightarrow> usable ip n i s'"
    "r = None \<Longrightarrow> s' = s \<and> flag = ETHARP_FLAG_FIND_ONLY" by auto
qed

lemma usable_upd:
  assumes s: "arp_table_ok s" "usable ip n i s" and f: "arp_entry_ok (f (arp_table s ! i))" "ae_ipaddr (f (arp_table s ! i)) = ip"
    "ae_netif (f (arp_table s ! i)) = Some n"
  shows "arp_table_ok (upd_entry i f s)"
  using s f by (intro table_ok_upd) (auto simp: usable_def matches_def same_key_def)

section \<open>Every operation keeps the table and the accounts\<close>

lemma raw_frame [simp]:
  "arp_table (snd (etharp_raw a b c d e f g h s)) = arp_table s"
  "etharp_cached_entry (snd (etharp_raw a b c d e f g h s)) = etharp_cached_entry s"
  "arp_env (snd (etharp_raw a b c d e f g h s)) = arp_env s"
  "balanced x (snd (etharp_raw a b c d e f g h s)) = balanced x s"
  by (auto simp: etharp_raw_def balanced_def queued_def split: option.splits)

lemma table_ok_raw [simp]: "arp_table_ok (snd (etharp_raw a b c d e f g h s)) = arp_table_ok s"
  by (rule table_ok_cong) simp_all

lemmas requests = etharp_request_def etharp_request_dst_def etharp_acd_probe_def etharp_acd_announce_def Let_def

lemma request_frame [simp]:
  "arp_table (snd (etharp_request n ip s)) = arp_table s" "etharp_cached_entry (snd (etharp_request n ip s)) = etharp_cached_entry s"
  "arp_env (snd (etharp_request n ip s)) = arp_env s" "balanced x (snd (etharp_request n ip s)) = balanced x s"
  "arp_table_ok (snd (etharp_request n ip s)) = arp_table_ok s"
  by (simp_all add: requests)

lemma output_frame [simp]:
  "arp_table (snd (link_output n p d s)) = arp_table s" "etharp_cached_entry (snd (link_output n p d s)) = etharp_cached_entry s"
  "arp_env (snd (link_output n p d s)) = arp_env s" "balanced x (snd (link_output n p d s)) = balanced x s"
  "arp_table_ok (snd (link_output n p d s)) = arp_table_ok s"
  "taken (arp_log (snd (link_output n p d s))) = taken (arp_log s)" "freed (arp_log (snd (link_output n p d s))) = freed (arp_log s)"
  "q_taken (arp_log (snd (link_output n p d s))) = q_taken (arp_log s)"
  "q_freed (arp_log (snd (link_output n p d s))) = q_freed (arp_log s)"
  "others i (snd (link_output n p d s)) = others i s"
  by (simp_all add: link_output_def balanced_do)

lemma send_queue_frame:
  assumes "i < length (arp_table s)" "ae_q (arp_table s ! i) = q"
  shows "arp_table (send_queue n eth i q s) = (arp_table s)[i := (arp_table s ! i)\<lparr>ae_q := []\<rparr>] \<and>
    etharp_cached_entry (send_queue n eth i q s) = etharp_cached_entry s \<and> arp_env (send_queue n eth i q s) = arp_env s \<and>
    (balanced g (send_queue n eth i q s) \<longleftrightarrow> balanced g s)"
  using assms
proof (induction q arbitrary: s)
  case Nil
  then have "(arp_table s ! i)\<lparr>ae_q := []\<rparr> = arp_table s ! i" by (cases "arp_table s ! i") simp
  then show ?case by simp
next
  case (Cons p q)
  let ?t = "arp_do (A_free p) (snd (link_output n p eth (arp_do A_qfree (upd_entry i (\<lambda>e. e\<lparr>ae_q := q\<rparr>) s))))"
  have "balanced g ?t \<longleftrightarrow> balanced g s" using Cons.prems by (auto simp: balanced_def queued_at [of i])
  then show ?case using Cons.IH [of ?t] Cons.prems by simp
qed

lemma update_keeps:
  assumes s: "arp_table_ok s" "balanced g s"
  shows "arp_table_ok (snd (etharp_update_arp_entry n ip eth flag s)) \<and> balanced g (snd (etharp_update_arp_entry n ip eth flag s)) \<and>
    arp_env (snd (etharp_update_arp_entry n ip eth flag s)) = arp_env s"
proof (cases "non_unicast ip n s")
  case False
  obtain r t where find: "etharp_find_entry ip flag (Some n) s = (r, t)" by fastforce
  note t = find_entry_spec [OF s find]
  show ?thesis
  proof (cases r)
    case None
    then show ?thesis using False find s t(5) by (simp add: etharp_update_arp_entry_def)
  next
    case (Some i)
    let ?f = "\<lambda>e. e\<lparr>ae_state := ETHARP_STATE_STABLE, ae_netif := Some n, ae_ethaddr := eth, ae_ctime := 0\<rparr>"
    note u = t(4) [OF Some] and len = table_okD(1) [OF t(1)]
    have i: "i < length (arp_table t)" using u len by (simp add: usable_def)
    let ?u = "send_queue n eth i (ae_q (arp_table t ! i)) (upd_entry i ?f t)"
    have frame: "arp_table ?u = arp_table (upd_entry i (\<lambda>e. (?f e)\<lparr>ae_q := []\<rparr>) t)" "etharp_cached_entry ?u = etharp_cached_entry t"
      "arp_env ?u = arp_env t" "balanced g ?u = balanced g t"
      using send_queue_frame [of i "upd_entry i ?f t" "ae_q (arp_table t ! i)" n eth] i by (simp_all add: balanced_upd)
    have "arp_table_ok (upd_entry i (\<lambda>e. (?f e)\<lparr>ae_q := []\<rparr>) t)"
      using t(1) u by (rule usable_upd) (use u in \<open>simp_all add: usable_def arp_entry_ok_def ARP_MAXAGE_def\<close>)
    then have "arp_table_ok ?u" by (subst table_ok_cong [OF frame(1)]) (simp_all add: frame)
    then show ?thesis using False find Some frame t i by (simp add: etharp_update_arp_entry_def)
  qed
qed (simp add: etharp_update_arp_entry_def s)

lemma input_keeps:
  assumes "arp_table_ok s" "balanced g s" "28 \<le> length d"
  shows "\<exists>t. etharp_input p d n s = Some t \<and> arp_table_ok t \<and> balanced (add_mset p g) t"
proof -
  have free: "balanced (add_mset p g) (arp_do (A_free p) t) = balanced g t" for t by (simp add: balanced_def queued_def)
  show ?thesis using assms unfolding etharp_input_def read_bytes_def
    by (auto simp: Let_def free balanced_do update_keeps)
qed

lemma pending_upd:
  assumes "arp_table_ok s" "i < ARP_TABLE_SIZE" "ae_state (arp_table s ! i) = ETHARP_STATE_PENDING" "length q \<le> ARP_QUEUE_LEN"
  shows "arp_table_ok (upd_entry i (\<lambda>e. e\<lparr>ae_q := q\<rparr>) s)"
  using assms table_okD(3) [OF assms(1,2)] by (intro table_ok_same) (simp_all add: arp_entry_ok_def)

lemma take_over_frame:
  "take_over q s = (r, t) \<Longrightarrow> arp_table t = arp_table s \<and> etharp_cached_entry t = etharp_cached_entry s \<and> arp_env t = arp_env s \<and>
     others i t = others i s \<and> taken (arp_log t) = taken (arp_log s) + (case r of None \<Rightarrow> {#} | Some p \<Rightarrow> {#p#}) \<and>
     freed (arp_log t) = freed (arp_log s) \<and> q_taken (arp_log t) = q_taken (arp_log s) \<and> q_freed (arp_log t) = q_freed (arp_log s)"
  by (auto simp: take_over_def Let_def split: if_splits option.splits)

text \<open>What is on a queue after a packet was put there.\<close>

definition queue_with :: "nat \<Rightarrow> nat list \<Rightarrow> nat list" where
  "queue_with p q = (if ARP_QUEUE_LEN \<le> length q then tl (q @ [p]) else q @ [p])"

lemma enqueue_table:
  assumes i: "i < length (arp_table s)"
  shows "etharp_cached_entry (snd (enqueue i q s)) = etharp_cached_entry s \<and> arp_env (snd (enqueue i q s)) = arp_env s \<and>
    (arp_table (snd (enqueue i q s)) = arp_table s \<or>
     (\<exists>p. arp_table (snd (enqueue i q s)) = (arp_table s)[i := (arp_table s ! i)\<lparr>ae_q := queue_with p (ae_q (arp_table s ! i))\<rparr>]))"
proof -
  obtain r t where t: "take_over q s = (r, t)" by fastforce
  show ?thesis using take_over_frame [OF t] i unfolding enqueue_def t
    by (auto simp: Let_def queue_with_def split: option.splits)
qed

lemma enqueue_balanced:
  assumes i: "i < length (arp_table s)"
  shows "balanced g (snd (enqueue i q s)) = balanced g s"
proof -
  obtain r t where t: "take_over q s = (r, t)" by fastforce
  have split: "add_mset (hd (x @ [p])) (f + (mset (tl (x @ [p])) + m)) = add_mset p (f + (mset x + m))" for p :: nat and x f m
    by (cases x) auto
  show ?thesis using take_over_frame [OF t, of i] i unfolding enqueue_def t
    by (auto simp: Let_def balanced_def queued_at [of i] split split: option.splits)
qed

lemma enqueue_keeps:
  assumes s: "arp_table_ok s" "balanced g s" and i: "i < ARP_TABLE_SIZE" "ae_state (arp_table s ! i) = ETHARP_STATE_PENDING"
  shows "arp_table_ok (snd (enqueue i q s)) \<and> balanced g (snd (enqueue i q s))"
proof -
  have i': "i < length (arp_table s)" using i table_okD(1) [OF s(1)] by simp
  have "length (ae_q (arp_table s ! i)) \<le> ARP_QUEUE_LEN" using table_okD(3) [OF s(1) i(1)] i(2) by (simp add: arp_entry_ok_def)
  then have "arp_table_ok (upd_entry i (\<lambda>e. e\<lparr>ae_q := queue_with p (ae_q (arp_table s ! i))\<rparr>) s)" for p
    by (intro pending_upd s i) (simp add: queue_with_def)
  then show ?thesis using enqueue_table [OF i', of q] enqueue_balanced [OF i', of g q] s
    by (auto cong: table_ok_cong simp: arp_table_ok_def)
qed

lemma query_request_keeps:
  assumes t: "arp_table_ok t" "balanced g t" "usable ip n i t"
  shows "arp_table_ok (snd (query_request n ip b i t))" "balanced g (snd (query_request n ip b i t))"
    "ae_state (arp_table (snd (query_request n ip b i t)) ! i) \<noteq> ETHARP_STATE_EMPTY"
proof -
  have i: "i < ARP_TABLE_SIZE" "i < length (arp_table t)" using t(3) table_okD(1) [OF t(1)] by (simp_all add: usable_def)
  let ?t = "upd_entry i (\<lambda>e. e\<lparr>ae_state := ETHARP_STATE_PENDING, ae_netif := Some n\<rparr>) t"
  have "arp_table_ok (snd (query_request n ip b i t)) \<and> balanced g (snd (query_request n ip b i t)) \<and>
    ae_state (arp_table (snd (query_request n ip b i t)) ! i) \<noteq> ETHARP_STATE_EMPTY"
  proof (cases "ae_state (arp_table t ! i) = ETHARP_STATE_EMPTY")
    case True
    have "ae_q (arp_table t ! i) = []" using table_okD(3) [OF t(1) i(1)] True by (simp add: arp_entry_ok_def)
    then have "arp_table_ok ?t"
      using t(1,3) by (intro usable_upd) (use t(3) True in \<open>simp_all add: usable_def arp_entry_ok_def ARP_MAXPENDING_def\<close>)
    moreover have "snd (query_request n ip b i t) = snd (etharp_request n ip ?t)"
      using True by (simp add: query_request_def Let_def case_prod_beta)
    ultimately show ?thesis using t i by (simp add: balanced_upd)
  next
    case False
    have reset: "arp_table_ok (upd_entry i (\<lambda>e. e\<lparr>ae_ctime := 0\<rparr>) u)"
      if "ae_state (arp_table t ! i) = ETHARP_STATE_PENDING" "arp_table u = arp_table t" "arp_table_ok u" for u
      using that i table_okD(3) [OF t(1) i(1)] by (intro table_ok_same) (auto simp: arp_entry_ok_def)
    have eq: "snd (query_request n ip b i t) = (if b then
        if fst (etharp_request n ip t) = ERR_OK \<and> ae_state (arp_table t ! i) = ETHARP_STATE_PENDING
        then upd_entry i (\<lambda>e. e\<lparr>ae_ctime := 0\<rparr>) (snd (etharp_request n ip t)) else snd (etharp_request n ip t) else t)"
      using False by (simp add: query_request_def Let_def case_prod_beta)
    show ?thesis unfolding eq using t i False by (simp add: reset balanced_upd)
  qed
  then show "arp_table_ok (snd (query_request n ip b i t))" "balanced g (snd (query_request n ip b i t))"
    "ae_state (arp_table (snd (query_request n ip b i t)) ! i) \<noteq> ETHARP_STATE_EMPTY" by auto
qed

lemma query_packet_keeps:
  assumes t: "arp_table_ok t" "balanced g t" "i < ARP_TABLE_SIZE"
  shows "arp_table_ok (snd (query_packet n q i r t)) \<and> balanced g (snd (query_packet n q i r t))"
proof -
  have "arp_table_ok (t\<lparr>etharp_cached_entry := i\<rparr>)" "balanced g (t\<lparr>etharp_cached_entry := i\<rparr>)"
    using t by (auto simp: arp_table_ok_def balanced_def queued_def)
  then show ?thesis using t by (simp add: query_packet_def enqueue_keeps)
qed

lemma query_keeps:
  assumes s: "arp_table_ok s" "balanced g s"
  shows "arp_table_ok (snd (etharp_query n ip q s)) \<and> balanced g (snd (etharp_query n ip q s))"
proof (cases "non_unicast ip n s")
  case False
  obtain r t where find: "etharp_find_entry ip ETHARP_FLAG_TRY_HARD (Some n) s = (r, t)" by fastforce
  note t = find_entry_spec [OF s find]
  obtain i where r: "r = Some i" using t(5) by (cases r) auto
  have i: "i < ARP_TABLE_SIZE" using t(4) [OF r] by (simp add: usable_def)
  note q = query_request_keeps [OF t(1,2) t(4) [OF r], of "q = None"]
  show ?thesis using False find r q query_packet_keeps [OF q(1,2) i]
    by (cases q) (simp_all add: etharp_query_def case_prod_beta)
qed (simp add: etharp_query_def s)

lemma to_index_keeps:
  assumes s: "arp_table_ok s" "balanced g s" and i: "i < ARP_TABLE_SIZE"
  shows "arp_table_ok (snd (etharp_output_to_arp_index n q i s)) \<and> balanced g (snd (etharp_output_to_arp_index n q i s))"
proof -
  have again: "arp_table_ok (upd_entry i (\<lambda>e. e\<lparr>ae_state := ETHARP_STATE_STABLE_REREQUESTING_1\<rparr>) t)"
      "balanced g (upd_entry i (\<lambda>e. e\<lparr>ae_state := ETHARP_STATE_STABLE_REREQUESTING_1\<rparr>) t)"
    if "ae_state (arp_table s ! i) = ETHARP_STATE_STABLE" "arp_table t = arp_table s" "arp_table_ok t" "balanced g t" for t
    using that i table_okD [OF that(3)] table_okD(3) [OF s(1) i]
    by (auto intro!: table_ok_same simp: arp_entry_ok_def balanced_upd)
  show ?thesis unfolding etharp_output_to_arp_index_def using s again
    by (auto simp: Let_def case_prod_beta requests)
qed

lemma find_stable_Some: "find_stable n ip k es = Some i \<Longrightarrow> k \<le> i \<and> i < k + length es \<and> is_dest n ip (es ! (i - k))"
proof (induction es arbitrary: k)
  case (Cons e es)
  show ?case
  proof (cases "is_dest n ip e")
    case False
    then have "find_stable n ip (Suc k) es = Some i" using Cons.prems by simp
    from Cons.IH [OF this] show ?thesis by (auto simp: nth_Cons' Suc_diff_Suc)
  qed (use Cons.prems in auto)
qed simp

lemma unicast_keeps:
  assumes s: "arp_table_ok s" "balanced g s"
  shows "arp_table_ok (snd (output_unicast n q dst s)) \<and> balanced g (snd (output_unicast n q dst s))"
proof (cases "find_stable n dst 0 (arp_table s)")
  case None
  then show ?thesis using to_index_keeps [OF s table_okD(2) [OF s(1)]] query_keeps [OF s] by (simp add: output_unicast_def)
next
  case (Some i)
  then have "arp_table_ok (s\<lparr>etharp_cached_entry := i\<rparr>)" "balanced g (s\<lparr>etharp_cached_entry := i\<rparr>)" "i < ARP_TABLE_SIZE"
    using find_stable_Some [OF Some] s by (auto simp: arp_table_ok_def balanced_def queued_def)
  then show ?thesis using Some to_index_keeps [OF s table_okD(2) [OF s(1)]] by (simp add: output_unicast_def to_index_keeps)
qed

lemma output_keeps:
  assumes s: "arp_table_ok s" "balanced g s"
  shows "arp_table_ok (snd (etharp_output n q ip s)) \<and> balanced g (snd (etharp_output n q ip s))"
  using s unicast_keeps [OF s] by (simp add: etharp_output_def Let_def)

section \<open>Ageing\<close>

text \<open>What a second does to an entry, and how many it has left.\<close>

definition aged :: "etharp_entry \<Rightarrow> etharp_entry" where
  "aged e = (let e' = e\<lparr>ae_ctime := ae_ctime e + 1\<rparr> in case ae_state e of
      ETHARP_STATE_EMPTY \<Rightarrow> e
    | ETHARP_STATE_PENDING \<Rightarrow> if ARP_MAXPENDING \<le> ae_ctime e' then empty_entry else e'
    | ETHARP_STATE_STABLE \<Rightarrow> if ARP_MAXAGE \<le> ae_ctime e' then empty_entry else e'
    | ETHARP_STATE_STABLE_REREQUESTING_1 \<Rightarrow>
        if ARP_MAXAGE \<le> ae_ctime e' then empty_entry else e'\<lparr>ae_state := ETHARP_STATE_STABLE_REREQUESTING_2\<rparr>
    | ETHARP_STATE_STABLE_REREQUESTING_2 \<Rightarrow> if ARP_MAXAGE \<le> ae_ctime e' then empty_entry else e'\<lparr>ae_state := ETHARP_STATE_STABLE\<rparr>)"

definition life :: "etharp_entry \<Rightarrow> nat" where
  "life e = (case ae_state e of
      ETHARP_STATE_EMPTY \<Rightarrow> 0
    | ETHARP_STATE_PENDING \<Rightarrow> ARP_MAXPENDING - ae_ctime e
    | _ \<Rightarrow> ARP_MAXAGE - ae_ctime e)"

lemmas limits = ARP_MAXAGE_def ARP_MAXPENDING_def

lemma aged_ok: "arp_entry_ok e \<Longrightarrow> arp_entry_ok (aged e)" "arp_entry_ok e \<Longrightarrow> life (aged e) = life e - 1"
  by (auto simp: aged_def arp_entry_ok_def life_def limits split: etharp_state.splits)



lemma aged_key:
  "aged e = empty_entry \<or> ae_ipaddr (aged e) = ae_ipaddr e \<and> ae_netif (aged e) = ae_netif e \<and> ae_q (aged e) = ae_q e \<and>
     (ae_state (aged e) = ETHARP_STATE_EMPTY \<longleftrightarrow> ae_state e = ETHARP_STATE_EMPTY) \<and>
     (ae_state (aged e) = ETHARP_STATE_PENDING \<longleftrightarrow> ae_state e = ETHARP_STATE_PENDING)"
  by (auto simp: aged_def Let_def split: etharp_state.splits)

lemma small_ctime: "arp_entry_ok e \<Longrightarrow> ae_state e \<noteq> ETHARP_STATE_EMPTY \<Longrightarrow> (ae_ctime e + 1) mod 65536 = ae_ctime e + 1"
  by (auto simp: arp_entry_ok_def limits split: etharp_state.splits)

lemma age_entry_spec:
  assumes s: "arp_table_ok s" "balanced g s" and i: "i < ARP_TABLE_SIZE"
  shows "\<exists>t. age_entry i s = Some t \<and> arp_table_ok t \<and> balanced g t \<and> arp_table t = (arp_table s)[i := aged (arp_table s ! i)]"
proof (cases "ae_state (arp_table s ! i) = ETHARP_STATE_EMPTY")
  case True
  then have "aged (arp_table s ! i) = arp_table s ! i" by (simp add: aged_def)
  then show ?thesis using True s by (simp add: age_entry_def)
next
  case False
  define e where "e = arp_table s ! i"
  note e = table_okD(3) [OF s(1) i, folded e_def] False [folded e_def]
  have len: "i < length (arp_table s)" using i table_okD(1) [OF s(1)] by simp
  let ?s = "upd_entry i (\<lambda>e. e\<lparr>ae_ctime := ae_ctime e + 1\<rparr>) s"
  have clock: "upd_entry i (\<lambda>e. e\<lparr>ae_ctime := (ae_ctime e + 1) mod 65536\<rparr>) s = ?s"
    using small_ctime [OF e] by (simp add: upd_entry_def flip: e_def)
  have ok: "arp_table_ok t" if "arp_table t = (arp_table s)[i := aged e]" "etharp_cached_entry t = etharp_cached_entry s" for t
  proof -
    have "arp_table_ok (upd_entry i aged s)"
    proof (cases "aged e = empty_entry")
      case True
      then show ?thesis using s(1) i by (intro table_ok_empty) (simp_all flip: e_def)
    next
      case False
      then show ?thesis using s(1) i e aged_key [of e] aged_ok(1) [OF e(1)] by (intro table_ok_same) (auto simp flip: e_def)
    qed
    then show ?thesis using that by (subst table_ok_cong [where t = "upd_entry i aged s"]) (simp_all flip: e_def)
  qed
  have some: "ae_state e = ETHARP_STATE_PENDING \<Longrightarrow> ae_netif e \<noteq> None" using e(1) by (simp add: arp_entry_ok_def)
  have "\<exists>t. age_entry i s = Some t \<and> arp_table t = (arp_table s)[i := aged e] \<and> etharp_cached_entry t = etharp_cached_entry s \<and> balanced g t"
    using s(2) len e some unfolding age_entry_def clock
    by (cases "ae_state e") (auto simp: Let_def aged_def balanced_upd free_entry_balanced limits simp flip: e_def)
  then show ?thesis using ok by (auto simp: e_def)
qed

lemma tmr_loop_spec:
  assumes "arp_table_ok s" "balanced g s" "k + m = ARP_TABLE_SIZE"
  shows "\<exists>t. tmr_loop [k..<k + m] s = Some t \<and> arp_table_ok t \<and> balanced g t \<and>
    arp_table t = take k (arp_table s) @ map aged (drop k (arp_table s))"
  using assms
proof (induction m arbitrary: k s)
  case 0
  then show ?case using table_okD(1) [OF 0(1)] by simp
next
  case (Suc m)
  obtain t where t: "age_entry k s = Some t" "arp_table_ok t" "balanced g t" "arp_table t = (arp_table s)[k := aged (arp_table s ! k)]"
    using age_entry_spec [OF Suc.prems(1,2), of k] Suc.prems(3) by auto
  have k: "k < length (arp_table s)" using Suc.prems(3) table_okD(1) [OF Suc.prems(1)] by simp
  have "take (Suc k) (arp_table t) @ map aged (drop (Suc k) (arp_table t)) = take k (arp_table s) @ map aged (drop k (arp_table s))"
    using k t(4) by (simp add: take_Suc_conv_app_nth Cons_nth_drop_Suc [symmetric])
  moreover have "tmr_loop [k..<k + Suc m] s = tmr_loop [Suc k..<Suc k + m] t"
    using t(1) by (subst upt_conv_Cons) (simp_all del: upt_Suc)
  ultimately show ?case using Suc.IH [OF t(2,3), of "Suc k"] Suc.prems(3) by (simp del: upt_Suc)
qed

lemma tmr_spec:
  assumes "arp_table_ok s" "balanced g s"
  shows "\<exists>t. etharp_tmr s = Some t \<and> arp_table_ok t \<and> balanced g t \<and> arp_table t = map aged (arp_table s)"
  using tmr_loop_spec [OF assms, of 0 ARP_TABLE_SIZE] by (simp add: etharp_tmr_def)

lemma cleanup_keeps:
  assumes "arp_table_ok s" "balanced g s"
  shows "arp_table_ok (etharp_cleanup_netif n s) \<and> balanced g (etharp_cleanup_netif n s)"
proof -
  let ?f = "\<lambda>i s. if ae_state (arp_table s ! i) \<noteq> ETHARP_STATE_EMPTY \<and> ae_netif (arp_table s ! i) = Some n then etharp_free_entry i s else s"
  have "arp_table_ok (fold ?f is s) \<and> balanced g (fold ?f is s)" if "set is \<subseteq> {..<ARP_TABLE_SIZE}" for "is"
    using that assms
  proof (induction "is" arbitrary: s)
    case (Cons i "is")
    have "arp_table_ok (?f i s) \<and> balanced g (?f i s)" using Cons.prems table_okD(1) [OF Cons.prems(2)]
      by (simp add: free_entry_ok free_entry_balanced)
    then show ?case using Cons by simp
  qed simp
  from this [of "[0..<ARP_TABLE_SIZE]"] show ?thesis by (simp add: etharp_cleanup_netif_def atLeast0LessThan)
qed

section \<open>Runs keep the table and the accounts\<close>

definition long_enough :: "arp_event \<Rightarrow> bool" where
  "long_enough ev = (case ev of E_input p d n \<Rightarrow> 28 \<le> length d | _ \<Rightarrow> True)"

lemma arp_step_keeps:
  assumes "arp_table_ok s" "balanced g s" "long_enough ev"
  shows "\<exists>t. arp_step ev s = Some t \<and> arp_table_ok t \<and> balanced (g + inputs_of [ev]) t"
proof (cases ev)
  case (E_input p d n)
  then show ?thesis using input_keeps [OF assms(1,2), of d p n] assms(3) by (simp add: long_enough_def)
next
  case E_tmr
  then show ?thesis using tmr_spec [OF assms(1,2)] by auto
qed (use assms output_keeps query_keeps cleanup_keeps in \<open>simp_all add: balanced_do requests\<close>)

lemma inputs_of_Cons: "inputs_of (ev # evs) = inputs_of [ev] + inputs_of evs"
  by (cases ev) simp_all

lemma run_keeps:
  "arp_table_ok s \<Longrightarrow> balanced g s \<Longrightarrow> list_all long_enough evs \<Longrightarrow>
     \<exists>t. arp_run evs s = Some t \<and> arp_table_ok t \<and> balanced (g + inputs_of evs) t"
proof (induction evs arbitrary: s g)
  case (Cons ev evs)
  obtain t where t: "arp_step ev s = Some t" "arp_table_ok t" "balanced (g + inputs_of [ev]) t"
    using arp_step_keeps [OF Cons.prems(1,2)] Cons.prems(3) by auto
  then show ?case using Cons.IH [OF t(2,3)] Cons.prems(3) by (simp add: inputs_of_Cons [of ev evs] add.assoc)
qed simp

lemma init_ok: "arp_table_ok (arp_init env)" "balanced {#} (arp_init env)"
proof -
  have "0 < ARP_TABLE_SIZE" by (simp add: ARP_TABLE_SIZE_def)
  then show "arp_table_ok (arp_init env)" by (simp add: arp_table_ok_def arp_init_def list_all_length arp_entry_ok_def same_key_def)
  have "sum_list (replicate k {#}) = {#}" for k by (induction k) simp_all
  then show "balanced {#} (arp_init env)" by (simp add: balanced_def arp_init_def queued_def map_replicate_const)
qed




section \<open>Resolution\<close>

text \<open>The packets handed to the link.\<close>

fun sent :: "arp_call list \<Rightarrow> (nat \<times> nat \<times> eth_addr \<times> eth_addr) list" where
  "sent [] = []"
| "sent (A_output n p src dst # l) = (n, p, src, dst) # sent l"
| "sent (_ # l) = sent l"

lemma sent_append [simp]: "sent (l @ m) = sent l @ sent m"
  by (induction l rule: sent.induct) auto

lemma ip_field_bytes: "ip_field (ip_bytes a) = a"
proof -
  have o: "of_nat (unat (octet i a) mod 256) = octet i a" for i using octet_le(2) [of i a] by simp
  have "octet 0 a OR push_bit 8 (octet 1 a) OR push_bit 16 (octet 2 a) OR push_bit 24 (octet 3 a) = a"
  proof (rule bit_word_eqI)
    fix k assume "k < LENGTH(32)"
    then have "k < 8 \<or> 8 \<le> k \<and> k < 16 \<or> 16 \<le> k \<and> k < 24 \<or> 24 \<le> k \<and> k < 32" by simp linarith
    then show "bit (octet 0 a OR push_bit 8 (octet 1 a) OR push_bit 16 (octet 2 a) OR push_bit 24 (octet 3 a)) k = bit a k"
      by (auto simp: octet_def bit_simps)
  qed
  then show ?thesis by (simp add: ip_field_def ip_bytes_def upt_rec o numeral_2_eq_2 numeral_3_eq_3)
qed

lemma length_ip_bytes [simp]: "length (ip_bytes a) = 4" "length (be16 k) = 2"
  by (simp_all add: ip_bytes_def be16_def)

lemma hdr_fields:
  assumes "length mac = 6" "length thw = 6"
    and h: "h = etharp_hdr mac ip thw tip opc"
  shows "length h = 28" "take 2 h = be16 1" "code (h ! 4) = 6" "code (h ! 5) = 4" "take 2 (drop 2 h) = be16 0x0800"
    "take 2 (drop 6 h) = be16 opc" "take 6 (drop 8 h) = mac" "ip_field (take 4 (drop 14 h)) = ip" "ip_field (take 4 (drop 24 h)) = tip"
  using assms(1,2) by (simp_all add: h etharp_hdr_def be16_def ip_field_bytes nth_append)

lemma matches_at:
  assumes "arp_table_ok s" "i < ARP_TABLE_SIZE" "matches ip n (arp_table s ! i)" "j < ARP_TABLE_SIZE" "matches ip n (arp_table s ! j)"
  shows "j = i"
  using table_okD(4) [OF assms(1,2,4)] assms(3,5) by (auto simp: matches_def same_key_def)

lemma find_entry_match:
  assumes s: "arp_table_ok s" and i: "i < ARP_TABLE_SIZE" "matches ip n (arp_table s ! i)"
  shows "etharp_find_entry ip flag (Some n) s = (Some i, s)"
proof -
  have "arp_table s ! i \<in> set (arp_table s)" using i table_okD(1) [OF s] by simp
  then obtain j where j: "find_sweep ip (Some n) 0 (arp_table s) no_cands = Inl j" using find_sweep_found i(2) by blast
  then have "j = i" using find_sweep_Inl [OF j] table_okD(1) [OF s] by (intro matches_at [OF s i]) simp_all
  then show ?thesis using j by (simp add: etharp_find_entry_def)
qed

lemma find_stable_None: "(\<And>e. e \<in> set es \<Longrightarrow> \<not> is_dest n ip e) \<Longrightarrow> find_stable n ip k es = None"
  by (induction es arbitrary: k) auto

text \<open>What waits for an address: nothing, when there is no entry for it, or the queue of its entry.\<close>

definition waiting :: "u32 \<Rightarrow> nat \<Rightarrow> nat list \<Rightarrow> arp_st \<Rightarrow> bool" where
  "waiting ip n q s \<longleftrightarrow> (\<exists>i < ARP_TABLE_SIZE. matches ip n (arp_table s ! i) \<and> ae_state (arp_table s ! i) = ETHARP_STATE_PENDING \<and>
     ae_q (arp_table s ! i) = q)"

definition arp_backlog :: "u32 \<Rightarrow> nat \<Rightarrow> nat list \<Rightarrow> arp_st \<Rightarrow> bool" where
  "arp_backlog ip n q s \<longleftrightarrow> q = [] \<and> (\<forall>e \<in> set (arp_table s). \<not> matches ip n e) \<or> waiting ip n q s"

lemma backlog_unresolved:
  assumes "arp_table_ok s" "arp_backlog ip n q s" "e \<in> set (arp_table s)"
  shows "\<not> is_dest n ip e"
proof
  assume e: "is_dest n ip e"
  then have m: "matches ip n e" by (auto simp: is_dest_def matches_def stable_def)
  obtain j where j: "j < ARP_TABLE_SIZE" "arp_table s ! j = e"
    using assms(3) table_okD(1) [OF assms(1)] by (metis in_set_conv_nth)
  obtain i where "i < ARP_TABLE_SIZE" "matches ip n (arp_table s ! i)" "ae_state (arp_table s ! i) = ETHARP_STATE_PENDING"
    using assms m by (auto simp: arp_backlog_def waiting_def)
  then have "j = i" using matches_at [OF assms(1)] j m by blast
  then show False using e j \<open>ae_state _ = _\<close> by (auto simp: is_dest_def stable_def)
qed

lemma enqueue_ref:
  assumes "i < length (arp_table s)" "\<not> copy_needed (av_types (arp_env s) p)" "\<And>l. av_qalloc (arp_env s) l"
  shows "fst (enqueue i p s) = ERR_OK \<and> sent (arp_log (snd (enqueue i p s))) = sent (arp_log s) \<and> arp_env (snd (enqueue i p s)) = arp_env s \<and>
    arp_table (snd (enqueue i p s)) = (arp_table s)[i := (arp_table s ! i)\<lparr>ae_q := queue_with p (ae_q (arp_table s ! i))\<rparr>]"
  using assms by (simp add: enqueue_def take_over_def Let_def queue_with_def)

lemma raw_sent [simp]: "sent (arp_log (snd (etharp_raw a b c d e f g h s))) = sent (arp_log s)"
  by (auto simp: etharp_raw_def split: option.split)

lemma free_entry_sent [simp]: "sent (arp_log (etharp_free_entry i s)) = sent (arp_log s)"
proof -
  have "sent (arp_log (free_etharp_q q s)) = sent (arp_log s)" for q
    unfolding free_etharp_q_def by (induction q arbitrary: s) simp_all
  then show ?thesis by (simp add: etharp_free_entry_def)
qed

text \<open>A query for an address that waits, or is not known at all, puts the packet on its queue.\<close>

lemma pending_request:
  assumes "usable ip n i t" "arp_table_ok t" "\<not> stable (ae_state (arp_table t ! i))"
  shows "\<exists>e. arp_table (snd (query_request n ip False i t)) = (arp_table t)[i := e] \<and> matches ip n e \<and>
    ae_state e = ETHARP_STATE_PENDING \<and> ae_q e = ae_q (arp_table t ! i) \<and>
    sent (arp_log (snd (query_request n ip False i t))) = sent (arp_log t) \<and> arp_env (snd (query_request n ip False i t)) = arp_env t"
proof (cases "ae_state (arp_table t ! i) = ETHARP_STATE_EMPTY")
  case True
  then show ?thesis using assms
    by (intro exI [of _ "(arp_table t ! i)\<lparr>ae_state := ETHARP_STATE_PENDING, ae_netif := Some n\<rparr>"])
      (simp add: query_request_def Let_def case_prod_beta matches_def usable_def requests)
next
  case False
  then show ?thesis using assms
    by (intro exI [of _ "arp_table t ! i"]) (auto simp: query_request_def Let_def matches_def usable_def stable_def)
qed

lemma query_queues:
  assumes s: "arp_table_ok s" "balanced g s" "arp_backlog ip n q s" "\<not> non_unicast ip n s"
    and env: "\<not> copy_needed (av_types (arp_env s) p)" "\<And>l. av_qalloc (arp_env s) l"
  shows "fst (etharp_query n ip (Some p) s) = ERR_OK \<and> waiting ip n (queue_with p q) (snd (etharp_query n ip (Some p) s)) \<and>
    sent (arp_log (snd (etharp_query n ip (Some p) s))) = sent (arp_log s) \<and> arp_env (snd (etharp_query n ip (Some p) s)) = arp_env s"
proof -
  obtain r t where find: "etharp_find_entry ip ETHARP_FLAG_TRY_HARD (Some n) s = (r, t)" by fastforce
  note t = find_entry_spec [OF s(1,2) find]
  obtain i where r: "r = Some i" using t(5) by (cases r) auto
  note u = t(4) [OF r]
  have i: "i < ARP_TABLE_SIZE" "i < length (arp_table t)" using u table_okD(1) [OF t(1)] by (auto simp: usable_def)
  have "ae_q (arp_table t ! i) = q \<and> \<not> stable (ae_state (arp_table t ! i)) \<and> sent (arp_log t) = sent (arp_log s)"
    using s(1) find
  proof (cases rule: find_entry_cases)
    case (found j)
    then have "arp_backlog ip n q t" "matches ip n (arp_table t ! i)" using s r by auto
    then obtain k where k: "k < ARP_TABLE_SIZE" "matches ip n (arp_table t ! k)" "ae_state (arp_table t ! k) = ETHARP_STATE_PENDING"
      "ae_q (arp_table t ! k) = q" using i by (auto simp: arp_backlog_def waiting_def)
    then have "i = k" using matches_at [OF t(1) k(1,2) i(1)] \<open>matches ip n (arp_table t ! i)\<close> by simp
    then show ?thesis
      using k found by (auto simp: stable_def)
  next
    case (made j v)
    have q: "q = []"
      using s(3) made(4) table_okD(1) [OF s(1)] unfolding arp_backlog_def waiting_def by (metis nth_mem)
    have "ae_state (arp_table t ! i) = ETHARP_STATE_EMPTY" using made_usable(4) [OF s(1,2) made(3,5,4)] made r by simp
    then show ?thesis
      using table_okD(3) [OF t(1) i(1)] made by (auto simp: arp_entry_ok_def stable_def q)
  qed (use r in auto)
  then have same: "ae_q (arp_table t ! i) = q" "\<not> stable (ae_state (arp_table t ! i))" "sent (arp_log t) = sent (arp_log s)"
    by simp_all
  define w where "w = snd (query_request n ip False i t)"
  obtain e where e: "arp_table w = (arp_table t)[i := e]" "matches ip n e" "ae_state e = ETHARP_STATE_PENDING" "ae_q e = q"
    "sent (arp_log w) = sent (arp_log s)" "arp_env w = arp_env s"
    using pending_request [OF u t(1) same(2)] same t(3) by (auto simp: w_def)
  have eq: "etharp_query n ip (Some p) s = enqueue i p w"
    using s(4) find r e i by (simp add: etharp_query_def query_packet_def case_prod_beta stable_def w_def)
  have "waiting ip n (queue_with p q) (snd (enqueue i p w))"
    unfolding waiting_def using enqueue_ref [of i w p] env e i by (intro exI [of _ i]) (simp add: matches_def)
  then show ?thesis unfolding eq using enqueue_ref [of i w p] env e i by simp
qed

lemma output_queues:
  assumes s: "arp_table_ok s" "balanced g s" "arp_backlog ip n q s"
    and env: "\<not> copy_needed (av_types (arp_env s) p)" "\<And>l. av_qalloc (arp_env s) l"
    and ip: "\<not> ip4_addr_isbroadcast_u32 ip (netif_of n s)" "\<not> ip4_addr_ismulticast ip"
      "(ip AND ni_mask (netif_of n s)) = (ni_addr (netif_of n s) AND ni_mask (netif_of n s))"
  shows "waiting ip n (queue_with p q) (snd (etharp_output n p ip s))" "sent (arp_log (snd (etharp_output n p ip s))) = sent (arp_log s)"
    "arp_env (snd (etharp_output n p ip s)) = arp_env s"
proof -
  have no: "find_stable n ip 0 (arp_table s) = None" using backlog_unresolved [OF s(1,3)] by (intro find_stable_None)
  have cached: "\<not> is_dest n ip (arp_table s ! etharp_cached_entry s)"
    using backlog_unresolved [OF s(1,3)] table_okD(1,2) [OF s(1)] by simp
  have "ip \<noteq> 0" using ip(1) by (auto simp: ip4_addr_isbroadcast_u32_def)
  then have "\<not> non_unicast ip n s" using ip by (simp add: non_unicast_def)
  moreover have "etharp_output n p ip s = etharp_query n ip (Some p) s"
    using ip no cached by (simp add: etharp_output_def output_unicast_def Let_def)
  ultimately show "waiting ip n (queue_with p q) (snd (etharp_output n p ip s))"
    "sent (arp_log (snd (etharp_output n p ip s))) = sent (arp_log s)" "arp_env (snd (etharp_output n p ip s)) = arp_env s"
    using query_queues [OF s _ env] by simp_all
qed

lemma outputs_queue:
  assumes s: "arp_table_ok s" "balanced g s" "arp_backlog ip n q s"
    and env: "\<And>p. p \<in> set ps \<Longrightarrow> \<not> copy_needed (av_types (arp_env s) p)" "\<And>l. av_qalloc (arp_env s) l"
    and ip: "\<And>l. av_netif (arp_env s) l n = ni" "\<not> ip4_addr_isbroadcast_u32 ip ni" "\<not> ip4_addr_ismulticast ip"
      "(ip AND ni_mask ni) = (ni_addr ni AND ni_mask ni)"
  shows "\<exists>t. arp_run (map (\<lambda>p. E_output n p ip) ps) s = Some t \<and> arp_table_ok t \<and> balanced g t \<and> arp_backlog ip n (fold queue_with ps q) t \<and>
    sent (arp_log t) = sent (arp_log s) \<and> arp_env t = arp_env s"
  using s env ip
proof (induction ps arbitrary: s q)
  case (Cons p ps)
  let ?s = "snd (etharp_output n p ip s)"
  have o: "waiting ip n (queue_with p q) ?s" "sent (arp_log ?s) = sent (arp_log s)" "arp_env ?s = arp_env s"
    using Cons.prems by (intro output_queues; simp add: netif_of_def)+
  have k: "arp_table_ok ?s \<and> balanced g ?s" using Cons.prems(1,2) by (rule output_keeps)
  have "\<exists>t. arp_run (map (\<lambda>p. E_output n p ip) ps) ?s = Some t \<and> arp_table_ok t \<and> balanced g t \<and>
      arp_backlog ip n (fold queue_with ps (queue_with p q)) t \<and> sent (arp_log t) = sent (arp_log ?s) \<and> arp_env t = arp_env ?s"
    using k o Cons.prems(4-) by (intro Cons.IH) (auto simp: arp_backlog_def)
  then show ?case using o by simp
qed simp

lemma queue_last: "fold queue_with ps [] = drop (length ps - ARP_QUEUE_LEN) ps"
proof (induction ps rule: rev_induct)
  case (snoc p ps)
  show ?case
  proof (cases "3 \<le> length ps")
    case True
    then have "Suc (length ps - 3) = length ps - 2" by simp
    then have "tl (drop (length ps - 3) ps) = drop (length ps - 2) ps" by (metis drop_Suc tl_drop)
    then show ?thesis using snoc True by (simp add: queue_with_def ARP_QUEUE_LEN_def tl_append2)
  qed (use snoc in \<open>simp add: queue_with_def ARP_QUEUE_LEN_def\<close>)
qed simp

lemma send_queue_sent:
  assumes "\<And>l. av_hwaddr (arp_env s) l n = hw"
  shows "sent (arp_log (send_queue n eth i q s)) = sent (arp_log s) @ map (\<lambda>p. (n, p, hw, eth)) q"
  using assms by (induction q arbitrary: s) (simp_all add: Let_def link_output_def hwaddr_of_def)

lemma reply_resolves:
  assumes s: "arp_table_ok s" "balanced g s" "waiting ip n q s"
    and env: "\<And>l. av_hwaddr (arp_env s) l n = hw" "\<And>l. av_netif (arp_env s) l n = ni"
      "\<not> ip4_addr_isbroadcast_u32 ip ni" "\<not> ip4_addr_ismulticast ip"
    and d: "d = etharp_hdr mac ip thw tip ARP_REPLY @ pad" "length mac = 6" "length thw = 6"
  shows "\<exists>t i. etharp_input r d n s = Some t \<and> sent (arp_log t) = sent (arp_log s) @ map (\<lambda>p. (n, p, hw, mac)) q \<and>
    etharp_find_addr n ip t = Some (i, mac, ip) \<and> arp_env t = arp_env s"
proof -
  note h = hdr_fields [OF d(2,3) refl, of ip tip ARP_REPLY]
  define s1 where "s1 = arp_do (A_acd n (etharp_hdr mac ip thw tip ARP_REPLY)) s"
  define flag where "flag = (if ni_addr ni \<noteq> 0 \<and> tip = ni_addr ni then ETHARP_FLAG_TRY_HARD else ETHARP_FLAG_FIND_ONLY)"
  define t where "t = snd (etharp_update_arp_entry n ip mac flag s1)"
  have "be16 ARP_REPLY \<noteq> be16 ARP_REQUEST" by (simp add: ARP_REPLY_def ARP_REQUEST_def be16_def char_of_eq_iff)
  then have in1: "etharp_input r d n s = Some (arp_do (A_free r) t)"
    unfolding etharp_input_def using h d(1) env(2)
    by (simp add: read_bytes_def Let_def netif_of_def s1_def [symmetric] flag_def [symmetric] t_def) (simp add: s1_def flag_def env(2))
  obtain i where i: "i < ARP_TABLE_SIZE" "matches ip n (arp_table s1 ! i)" "ae_q (arp_table s1 ! i) = q"
    using s(3) by (auto simp: waiting_def s1_def)
  have s1: "arp_table_ok s1" "i < length (arp_table s1)" using s i table_okD(1) [OF s(1)] by (simp_all add: s1_def)
  have "ip \<noteq> 0" using env(3) by (auto simp: ip4_addr_isbroadcast_u32_def)
  then have uni: "\<not> non_unicast ip n s1" using env by (simp add: non_unicast_def netif_of_def s1_def)
  let ?f = "\<lambda>e. e\<lparr>ae_state := ETHARP_STATE_STABLE, ae_netif := Some n, ae_ethaddr := mac, ae_ctime := 0\<rparr>"
  have t: "t = send_queue n mac i q (upd_entry i ?f s1)"
    using uni find_entry_match [OF s1(1) i(1,2)] s1(2) i(3) by (simp add: t_def etharp_update_arp_entry_def)
  have table: "arp_table t ! i = (?f (arp_table s1 ! i))\<lparr>ae_q := []\<rparr>"
    using send_queue_frame [of i "upd_entry i ?f s1" q n mac] s1(2) i(3) by (simp add: t)
  have "arp_table_ok (arp_do (A_free r) t)" using input_keeps [OF s(1,2), of d r n] in1 d(1) h(1) by auto
  then have ok: "arp_table_ok t" by simp
  have m: "matches ip n (arp_table t ! i)" using table i(2) by (simp add: matches_def)
  have "etharp_find_addr n ip (arp_do (A_free r) t) = Some (i, mac, ip)"
    using find_entry_match [of "arp_do (A_free r) t" i ip n] ok i(1) m table i(2)
    by (simp add: etharp_find_addr_def stable_def matches_def)
  moreover have "sent (arp_log t) = sent (arp_log s) @ map (\<lambda>p. (n, p, hw, mac)) q"
    unfolding t using env(1) by (subst send_queue_sent [where hw = hw]) (simp_all add: s1_def)
  moreover have "arp_env t = arp_env s"
    using send_queue_frame [of i "upd_entry i ?f s1" q n mac] s1(2) i(3) by (simp add: t) (simp add: s1_def)
  ultimately show ?thesis using in1 by auto
qed

lemma run_append: "arp_run (evs @ fvs) s = do { t \<leftarrow> arp_run evs s; arp_run fvs t }"
  by (induction evs arbitrary: s) (simp_all split: Option.bind_split)

text \<open>Packets for an address in the table go out at once.\<close>

lemma to_index_sent:
  assumes "i < length (arp_table s)" "\<And>l. av_hwaddr (arp_env s) l n = hw" "stable (ae_state (arp_table s ! i))"
  shows "sent (arp_log (snd (etharp_output_to_arp_index n p i s))) = sent (arp_log s) @ [(n, p, hw, ae_ethaddr (arp_table s ! i))] \<and>
    arp_env (snd (etharp_output_to_arp_index n p i s)) = arp_env s"
  using assms by (simp add: etharp_output_to_arp_index_def Let_def case_prod_beta requests link_output_def hwaddr_of_def)

lemma to_index_entry:
  assumes "i < length (arp_table s)" "is_dest n ip (arp_table s ! i)"
  shows "is_dest n ip (arp_table (snd (etharp_output_to_arp_index n p i s)) ! i) \<and>
    ae_ethaddr (arp_table (snd (etharp_output_to_arp_index n p i s)) ! i) = ae_ethaddr (arp_table s ! i)"
  using assms by (simp add: etharp_output_to_arp_index_def Let_def case_prod_beta requests is_dest_def stable_def)

definition resolved :: "u32 \<Rightarrow> nat \<Rightarrow> eth_addr \<Rightarrow> arp_st \<Rightarrow> bool" where
  "resolved ip n mac s \<longleftrightarrow> (\<exists>i < ARP_TABLE_SIZE. is_dest n ip (arp_table s ! i) \<and> ae_ethaddr (arp_table s ! i) = mac)"

lemma dest_matches: "is_dest n ip e \<Longrightarrow> matches ip n e"
  by (auto simp: is_dest_def matches_def stable_def)

lemma find_addr_resolved:
  assumes "arp_table_ok s" "etharp_find_addr n ip s = Some (i, mac, ip)"
  shows "resolved ip n mac s"
proof -
  obtain j where "fst (etharp_find_entry ip ETHARP_FLAG_FIND_ONLY (Some n) s) = Some j" and j: "stable (ae_state (arp_table s ! j))"
    "ae_ethaddr (arp_table s ! j) = mac" using assms(2) by (auto simp: etharp_find_addr_def split: option.splits if_splits)
  then have find: "etharp_find_entry ip ETHARP_FLAG_FIND_ONLY (Some n) s = (Some j, snd (etharp_find_entry ip ETHARP_FLAG_FIND_ONLY (Some n) s))"
    by (simp add: prod_eq_iff)
  have "j < ARP_TABLE_SIZE \<and> matches ip n (arp_table s ! j)"
    using find find_sweep_Inl [of ip n 0 "arp_table s" no_cands] table_okD(1) [OF assms(1)]
    by (auto simp: etharp_find_entry_def split: sum.splits)
  then show ?thesis using j unfolding resolved_def by (intro exI [of _ j]) (auto simp: is_dest_def matches_def)
qed

lemma output_resolved:
  assumes s: "arp_table_ok s" "resolved ip n mac s" and env: "\<And>l. av_hwaddr (arp_env s) l n = hw"
    and ip: "\<not> ip4_addr_isbroadcast_u32 ip (netif_of n s)" "\<not> ip4_addr_ismulticast ip"
      "(ip AND ni_mask (netif_of n s)) = (ni_addr (netif_of n s) AND ni_mask (netif_of n s))"
  shows "resolved ip n mac (snd (etharp_output n p ip s)) \<and> sent (arp_log (snd (etharp_output n p ip s))) = sent (arp_log s) @ [(n, p, hw, mac)] \<and>
    arp_env (snd (etharp_output n p ip s)) = arp_env s"
proof -
  obtain i where i: "i < ARP_TABLE_SIZE" "is_dest n ip (arp_table s ! i)" "ae_ethaddr (arp_table s ! i) = mac"
    using s(2) by (auto simp: resolved_def)
  have only: "j = i" if "j < ARP_TABLE_SIZE" "is_dest n ip (arp_table s ! j)" for j
    using matches_at [OF s(1) i(1) dest_matches [OF i(2)] that(1) dest_matches [OF that(2)]] .
  note len = table_okD(1) [OF s(1)]
  have found: "find_stable n ip 0 (arp_table s) = Some i"
  proof (cases "find_stable n ip 0 (arp_table s)")
    case None
    have "\<exists>j. find_stable n ip k es = Some j" if "e \<in> set es" "is_dest n ip e" for e es k
      using that by (induction es arbitrary: k) auto
    then show ?thesis using None i len by (metis nth_mem option.distinct(1))
  next
    case (Some j)
    then show ?thesis using find_stable_Some [OF Some] only [of j] len by simp
  qed
  define t where "t = (if is_dest n ip (arp_table s ! etharp_cached_entry s) then s else s\<lparr>etharp_cached_entry := i\<rparr>)"
  have t: "arp_table t = arp_table s" "arp_log t = arp_log s" "arp_env t = arp_env s" by (simp_all add: t_def)
  have eq: "etharp_output n p ip s = etharp_output_to_arp_index n p i t"
    using ip found only [OF table_okD(2) [OF s(1)]] by (auto simp: etharp_output_def output_unicast_def Let_def t_def)
  have "stable (ae_state (arp_table t ! i))" using i t by (simp add: is_dest_def)
  then show ?thesis unfolding eq resolved_def
    using to_index_sent [of i t n hw p] to_index_entry [of i t n ip p] i t len env by auto
qed

lemma outputs_resolved:
  assumes s: "arp_table_ok s" "balanced g s" "resolved ip n mac s"
    and env: "\<And>l. av_hwaddr (arp_env s) l n = hw" "\<And>l. av_netif (arp_env s) l n = ni"
    and ip: "\<not> ip4_addr_isbroadcast_u32 ip ni" "\<not> ip4_addr_ismulticast ip" "(ip AND ni_mask ni) = (ni_addr ni AND ni_mask ni)"
  shows "\<exists>t. arp_run (map (\<lambda>p. E_output n p ip) ps) s = Some t \<and> sent (arp_log t) = sent (arp_log s) @ map (\<lambda>p. (n, p, hw, mac)) ps"
  using s env
proof (induction ps arbitrary: s)
  case (Cons p ps)
  let ?s = "snd (etharp_output n p ip s)"
  have o: "resolved ip n mac ?s \<and> sent (arp_log ?s) = sent (arp_log s) @ [(n, p, hw, mac)] \<and> arp_env ?s = arp_env s"
    using Cons.prems ip by (intro output_resolved) (simp_all add: netif_of_def)
  have "arp_table_ok ?s \<and> balanced g ?s" using Cons.prems(1,2) by (rule output_keeps)
  then show ?case using Cons.IH [of ?s] o Cons.prems(4,5) by auto
qed simp


section \<open>Properties\<close>

text \<open>An interface 192.168.1.2 with the netmask of 24 bits, memory for everything, and the address that
  is asked for, 192.168.1.1.\<close>

definition example_netif :: netif_ip where
  "example_netif = \<lparr>ni_flags = 2, ni_addr = 0x0201A8C0, ni_mask = 0x00FFFFFF\<rparr>"

definition example_arp :: arp_env where
  "example_arp = \<lparr>av_netif = (\<lambda>_ _. example_netif), av_gw = (\<lambda>_ _. 0), av_hwaddr = (\<lambda>_ _. replicate 6 (CHR ''b'')), av_types = (\<lambda>_. [0]),
     av_src = (\<lambda>_. 0x0201A8C0), av_output = (\<lambda>_. ERR_OK), av_clone = (\<lambda>_. None), av_palloc = (\<lambda>_. Some 99), av_qalloc = (\<lambda>_. True)\<rparr>"

definition example_reply :: bytes where
  "example_reply = etharp_hdr (replicate 6 (CHR ''a'')) 0x0101A8C0 (replicate 6 (CHR ''b'')) 0x0201A8C0 ARP_REPLY @ replicate 18 nul"

text \<open>C9. Whatever happens and whatever memory and link answer, as long as the ARP packets that arrive
  are long enough: the module touches no memory but its own. No address has two entries on an
  interface, only pending entries have packets queued, at most three, no entry is older than its
  limit, and every reference to a packet and every queue element is either still in the table or given
  back exactly once.\<close>

theorem arp_consistent:
  assumes "list_all long_enough evs"
  shows "\<exists>s. arp_run evs (arp_init env) = Some s \<and> arp_table_ok s \<and> balanced (inputs_of evs) s"
  using run_keeps [OF init_ok assms] by simp

theorem arp_consistent_witness:
  "\<exists>s. arp_run [E_output 1 7 0x0101A8C0, E_tmr, E_input 9 example_reply 1] (arp_init example_arp) = Some s \<and> arp_table_ok s \<and>
     balanced {#9#} s"
proof -
  have "list_all long_enough [E_output 1 7 0x0101A8C0, E_tmr, E_input 9 example_reply 1]"
    by (simp add: long_enough_def example_reply_def etharp_hdr_def)
  from arp_consistent [OF this, of example_arp] show ?thesis by simp
qed

text \<open>C10. Packets for a neighbour whose address is not known yet wait, the last three of them, and go out
  in their order to the Ethernet address of the ARP reply, from the address of the interface; those
  that follow go there at once. The packets keep their data themselves and there is memory for the
  queue.\<close>

theorem arp_resolves:
  assumes run: "arp_run evs (arp_init env) = Some s" "list_all long_enough evs"
    and env: "\<forall>l. av_netif (arp_env s) l n = ni" "\<forall>l. av_hwaddr (arp_env s) l n = hw" "\<forall>l. av_qalloc (arp_env s) l"
      "\<forall>p \<in> set ps. \<not> copy_needed (av_types (arp_env s) p)"
    and ip: "\<not> ip4_addr_isbroadcast_u32 ip ni" "\<not> ip4_addr_ismulticast ip" "(ip AND ni_mask ni) = (ni_addr ni AND ni_mask ni)"
    and new: "\<forall>e \<in> set (arp_table s). \<not> matches ip n e" and ps: "ps \<noteq> []" and hw: "length mac = 6" "length thw = 6"
  shows "\<exists>t. arp_run (map (\<lambda>p. E_output n p ip) ps @ E_input r (etharp_hdr mac ip thw tip ARP_REPLY @ pad) n #
      map (\<lambda>p. E_output n p ip) qs) s = Some t \<and>
    sent (arp_log t) = sent (arp_log s) @ map (\<lambda>p. (n, p, hw, mac)) (drop (length ps - ARP_QUEUE_LEN) ps @ qs)"
proof -
  have s: "arp_table_ok s" "balanced (inputs_of evs) s" using run_keeps [OF init_ok run(2), of env] run(1) by auto
  have "arp_backlog ip n [] s" using new by (simp add: arp_backlog_def)
  from outputs_queue [OF s this, of ps ni] env ip
  obtain t where t: "arp_run (map (\<lambda>p. E_output n p ip) ps) s = Some t" "arp_table_ok t" "balanced (inputs_of evs) t"
    "arp_backlog ip n (drop (length ps - ARP_QUEUE_LEN) ps) t" "sent (arp_log t) = sent (arp_log s)" "arp_env t = arp_env s"
    by (auto simp: queue_last)
  have "length ps - ARP_QUEUE_LEN < length ps" using ps by (simp add: ARP_QUEUE_LEN_def)
  then have "waiting ip n (drop (length ps - ARP_QUEUE_LEN) ps) t" using t(4) by (simp add: arp_backlog_def)
  from reply_resolves [OF t(2,3) this, of hw ni "etharp_hdr mac ip thw tip ARP_REPLY @ pad" mac thw tip pad r] env ip hw t(6)
  obtain u i where u: "etharp_input r (etharp_hdr mac ip thw tip ARP_REPLY @ pad) n t = Some u" "etharp_find_addr n ip u = Some (i, mac, ip)"
    "sent (arp_log u) = sent (arp_log t) @ map (\<lambda>p. (n, p, hw, mac)) (drop (length ps - ARP_QUEUE_LEN) ps)" "arp_env u = arp_env s"
    by auto
  have ok: "arp_table_ok u" "balanced (add_mset r (inputs_of evs)) u"
    using input_keeps [OF t(2,3), of "etharp_hdr mac ip thw tip ARP_REPLY @ pad" r n] u(1) hdr_fields(1) [OF hw refl, of ip tip ARP_REPLY]
    by auto
  from outputs_resolved [OF ok find_addr_resolved [OF ok(1) u(2)], of hw ni qs] env ip u(4)
  obtain v where "arp_run (map (\<lambda>p. E_output n p ip) qs) u = Some v"
    "sent (arp_log v) = sent (arp_log u) @ map (\<lambda>p. (n, p, hw, mac)) qs" by auto
  then show ?thesis using t(1,5) u(1,3) by (simp add: run_append)
qed

theorem arp_resolves_witness:
  "\<exists>t. arp_run (map (\<lambda>p. E_output 1 p 0x0101A8C0) [4, 5, 6, 7] @ E_input 9
      (etharp_hdr (replicate 6 (CHR ''a'')) 0x0101A8C0 (replicate 6 (CHR ''b'')) 0x0201A8C0 ARP_REPLY @ []) 1 #
      map (\<lambda>p. E_output 1 p 0x0101A8C0) [8]) (arp_init example_arp) = Some t \<and>
    sent (arp_log t) = map (\<lambda>p. (1, p, replicate 6 (CHR ''b''), replicate 6 (CHR ''a''))) [5, 6, 7, 8]"
proof -
  let ?s = "arp_init example_arp"
  have "\<not> ip4_addr_isbroadcast_u32 0x0101A8C0 example_netif" "\<not> ip4_addr_ismulticast 0x0101A8C0"
    "(0x0101A8C0 AND ni_mask example_netif) = (ni_addr example_netif AND ni_mask example_netif)"
    by (simp_all add: ip4_addr_isbroadcast_u32_def ip4_addr_ismulticast_def example_netif_def lwip_htonl_def)
  moreover have "arp_run [] (arp_init example_arp) = Some ?s" "list_all long_enough []" by simp_all
  moreover have "\<forall>e \<in> set (arp_table ?s). \<not> matches 0x0101A8C0 1 e" by (simp add: arp_init_def matches_def)
  ultimately show ?thesis
    using arp_resolves [where evs = "[]" and env = example_arp and s = ?s and n = 1 and ni = example_netif
        and hw = "replicate 6 (CHR ''b'')" and ps = "[4, 5, 6, 7]" and ip = "0x0101A8C0" and mac = "replicate 6 (CHR ''a'')"
        and thw = "replicate 6 (CHR ''b'')" and r = 9 and tip = "0x0201A8C0" and pad = "[]" and qs = "[8]"]
    by (simp add: example_arp_def arp_init_def ARP_QUEUE_LEN_def del: map_eq_Cons_conv)
qed



end
