(* ===== verification/Spec2Isabelle.thy ===== *)
theory Spec2Isabelle
  imports Client_Listing Client_Paths Mem_Budget Usb_Eth_Events Usb_Eth_Ncm Inet_Chksum Timeouts Etharp
begin

text \<open>
  A verification of lwftp-ce, an FTP client for the TI-84 Plus CE calculator on top of the lwIP network
  stack and a USB Ethernet driver. All paths below are relative to \<^verbatim>\<open>src/src\<close>.

  \<^bold>\<open>The program.\<close> \<^verbatim>\<open>main.c\<close> brings up the network, asks for a server (\<^verbatim>\<open>menu.c\<close>), connects and then runs
  a key loop over two columns of files, those of the calculator and those of the server. The file
  operations behind the keys are in \<^verbatim>\<open>utility.c\<close>. They start an operation of the FTP engine
  \<^verbatim>\<open>lwftp.c\<close>, a state machine driven by the events of two TCP connections, and the engine reports back
  through the call-backs of \<^verbatim>\<open>ftp.c\<close>, which may start the next operation. Below TCP, packets are chains of
  packet buffers (\<^verbatim>\<open>core/pbuf.c\<close>) in memory that comes from a buffer manager of the port
  (\<^verbatim>\<open>drivers/mem.c\<close>); the driver \<^verbatim>\<open>drivers/usb_ethernet.c\<close> puts received frames into a ring of that
  manager, drains it by a timer of lwIP (\<^verbatim>\<open>core/timeouts.c\<close>) and throttles reception under memory
  pressure; ARP (\<^verbatim>\<open>core/ipv4/etharp.c\<close>) finds the Ethernet address of a packet's destination.

  \<^bold>\<open>How the code is modelled.\<close> A function of the program is a function on a record of its state that
  returns the new state, in the option type where the code can have undefined behaviour: \<open>None\<close> is an
  access outside a buffer or through a null pointer. Error codes and early returns are values. Machine
  integers have the width of the target (an eZ80: \<open>int\<close> and \<open>size_t\<close> have 24 bits), as words or as
  numbers with the wrap-around written out. What a component calls and this development does not model is
  an environment: calls are logged, and an answer is a function of the log, so that theorems hold for
  every behaviour of the surroundings unless a hypothesis restricts it. Loops over data are recursive
  functions; loops over linked pbufs, over the timer list, over bytes a device sends and over a ring are
  \<open>partial_function\<close>s, for which not ending is \<open>None\<close>, and the theorems about them state that a result
  exists. There is no fuel. The only bound is the depth of the mutual calls of engine and call-backs:
  \<open>ftp_client\<close> has two levels, and \<open>client_depth\<close> shows that two levels over any client whatever are
  the same client, so that the bound is never reached.

  \<^bold>\<open>The theories\<close>, bottom up; each names its sources at its beginning.

  \<^item> \<open>Prelude\<close>: bytes, machine integers, C memory and strings, decimal numbers.

  \<^item> \<open>Menu\<close>: the input line, address entry and printing, and the configuration screens of \<^verbatim>\<open>menu.c\<close>. The
    input never leaves its buffer (\<open>StringInput_safe\<close>) and the server screen stays well formed.

  \<^item> \<open>Defines\<close>: the structures of \<^verbatim>\<open>defines.h\<close> and \<^verbatim>\<open>lwftp.h\<close>, the calls, the environment and the world
    of the FTP program.

  \<^item> \<open>Ti_File\<close>: the calculator's file format as \<^verbatim>\<open>utility.c\<close> writes and \<^verbatim>\<open>ftp.c\<close> reads it. What the
    reader makes of a written image (\<open>upload_then_download\<close>), and which corruptions it notices.

  \<^item> \<open>Lwftp\<close>: the engine, function by function; the client is a parameter. \<open>Client\<close>: the call-backs and
    file operations, tied together to \<open>ftp_client\<close>. \<open>Client_Depth\<close>: how deep the two nest.
    \<open>Example_World\<close>: a concrete environment and session for the witnesses.

  \<^item> \<open>Lwftp_Inv\<close>, \<open>Lwftp_Pcbs\<close>: what every engine function keeps, for any client that satisfies the contract of
    the locales \<open>ftp_contract\<close> (fields agree with the control state) and \<open>ftp_accounts\<close> (TCP control blocks
    are accounted for); both are interpreted on \<open>ftp_client\<close>.

  \<^item> \<open>Main_Loop\<close>, \<open>Cursor\<close>: the main function, one pass of its key loop, the repaint, the cursor and the
    local table. \<open>System\<close>: the running program as a step relation, in which network events come in any
    mode and any order; the invariant of the session and the absence of leaked control blocks hold in
    every reachable state (\<open>session_consistent\<close>, \<open>no_pcb_leak\<close>).

  \<^item> \<open>Lwftp_Behaviour\<close>, \<open>Ftp_Transfer\<close>, \<open>Client_Listing\<close>, \<open>Client_Paths\<close>: what happens on the wire and in
    the tables. Login, passive mode, the outcome of commands; the bytes of an upload and of a download,
    however the network cuts them; a listing refines a parser of its lines; the path is restored
    after a file operation, and a move runs from the key press to the new listing.

  \<^item> \<open>Mem_Buffer\<close>: the buffer manager. \<open>Mem_Ring\<close>: a ring is a queue of bytes (the locale \<open>byte_queue\<close>,
    interpreted here and again on the driver's receive ring), although its memory grows and shrinks.
    \<open>Mem_Pressure\<close>: the throttle hook follows the pressure. \<open>Mem_Budget\<close>: the heap budget is kept along
    every run.

  \<^item> \<open>Pbuf\<close>: packet buffers as a heap of linked, counted blocks. \<open>Pbuf_Chain\<close>, \<open>Pbuf_Alloc\<close>: chains as byte
    strings; allocation is all or nothing, copying and searching do not see the cuts.

  \<^item> \<open>Usb_Eth\<close>: the driver, its descriptor parser included. \<open>Usb_Eth_Rx\<close>: frames arrive in order and
    unchanged. \<open>Usb_Eth_Throttle\<close>: reception starts again after a refused frame, and when it does not.
    \<open>Usb_Eth_Events\<close>: the driver as a step relation, the numbers of its interfaces. \<open>Usb_Eth_Ncm\<close>: transfer
    blocks are unpacked to what was packed.

  \<^item> \<open>Lwip_Def\<close>, \<open>Inet_Chksum\<close>, \<open>Timeouts\<close>, \<open>Ip4_Addr\<close>, \<open>Etharp\<close>: \<^verbatim>\<open>core/def.c\<close>, \<^verbatim>\<open>core/inet_chksum.c\<close>,
    \<^verbatim>\<open>core/timeouts.c\<close>, \<^verbatim>\<open>core/ipv4/ip4_addr.c\<close> and \<^verbatim>\<open>core/ipv4/etharp.c\<close>. The checksum of a chain is that of
    its bytes; timers run when they are due, in order, although times wrap around; addresses survive
    printing and reading; the ARP table stays consistent and leaks no packet along every run, resolves
    addresses and forgets silent ones.

  \<^bold>\<open>What the theorems rest on.\<close> Answers of lwIP's TCP, of the USB library, of the calculator's file library
  and of the allocators are arbitrary but for the hypotheses a theorem names. Events of the network are
  atomic: lwIP is not entered again from within a call-back, except for the wait for a key after a
  download with a wrong checksum, whose events are steps of the program's own step relation. Handlers of timers do not run
  the timers themselves, and hooks of the buffer manager do not call it back.

  \<^bold>\<open>What is not modelled.\<close> lwIP's TCP, UDP, DNS and the rest of its network layer (IPv4, ICMP, IGMP, DHCP,
  AutoIP, address conflict detection, IPv6), its pools, interface list and start-up, and
  \<^verbatim>\<open>netif/ethernet.c\<close>: they are behind the environments above. The socket interfaces are compiled out, and
  the applications, PPP, SLIP and bridge interfaces of lwIP are not used. Of the program itself: assembly
  sources (key decoding, sorting of the variable table), drawing, key repeat and delays, and the copying
  of the preferences to and from an AppVar.
\<close>

end
